(* ===== verification/Prelude.thy ===== *)
theory Prelude
  imports Main "HOL-Library.Word" "HOL-Library.AList" "HOL-Library.Monad_Syntax"
begin

unbundle bit_operations_syntax

text \<open>
  Shared vocabulary of the development: the machine integers of the Go sources, Go errors as
  values, Go maps as association lists with distinct keys, and the generic lemmas about them
  that the component theories use.
\<close>

section \<open>Machine integers and time\<close>

type_synonym byte = "8 word"
type_synonym u8 = "8 word"
type_synonym u16 = "16 word"
type_synonym u32 = "32 word"
type_synonym u64 = "64 word"

text \<open>
  A \<open>time.Time\<close> is its number of nanoseconds on the process clock and a
  \<open>time.Duration\<close> a number of nanoseconds. Both are mathematical integers; the one place
  where the width of a duration shows is \<open>time.Time.Sub\<close>, which saturates.
\<close>

type_synonym time = int
type_synonym duration = int

definition max_duration :: duration where
  "max_duration = 2 ^ 63 - 1"

definition min_duration :: duration where
  "min_duration = - (2 ^ 63)"

definition time_sub :: "time \<Rightarrow> time \<Rightarrow> duration" where
  "time_sub t u = max min_duration (min max_duration (t - u))"

lemma time_sub_le: "u \<le> t \<Longrightarrow> time_sub t u \<le> t - u"
  by (simp add: time_sub_def min_duration_def max_duration_def)

lemma time_sub_nonneg: "u \<le> t \<Longrightarrow> 0 \<le> time_sub t u"
  by (simp add: time_sub_def min_duration_def max_duration_def)

lemma unat_bound: "unat (w :: 'a :: len word) < 2 ^ LENGTH('a)"
  by (rule unsigned_less)

lemma unat_of_nat_small: "n < 2 ^ LENGTH('a) \<Longrightarrow> unat (of_nat n :: 'a :: len word) = n"
  by (simp add: unsigned_of_nat take_bit_nat_eq_self_iff)

lemma unat_ucast_wider:
  assumes "LENGTH('a) \<le> LENGTH('b)"
  shows "unat (ucast (w :: 'a :: len word) :: 'b :: len word) = unat w"
proof -
  have "unat w < 2 ^ LENGTH('b)"
    using unat_bound [of w] power_increasing [OF assms, of "2 :: nat"] by linarith
  then show ?thesis by (simp add: unsigned_ucast_eq take_bit_nat_eq_self_iff)
qed

section \<open>Go errors\<close>

text \<open>
  A package-level error variable is a \<open>sentinel\<close>: \<open>errors.Is\<close> compares it by identity.
  Any other error is a message, a wrap (\<open>fmt.Errorf\<close> with \<open>%w\<close>, \<open>errors.Join\<close>), or
  an error that came from outside the program (a clock, the kernel, a socket). The arguments
  that a format string only prints are not kept.
\<close>

datatype sentinel =
    ErrEngineGenerationImmutable
  | ErrSessionMapIdentityChanged
  | ErrSessionCompareDeleteUnavailable
  | ErrSessionStoreClosed
  | ErrSessionMapKeyNotExist
  | ErrEngineRouteInvalid
  | ErrEngineRouteConflict
  | ErrEngineRouteRejected
  | ErrActionRecoveryRequired
  | ErrActionCheckpointConflict
  | ErrActionCheckpointCorrupt
  | ErrActionCheckpointRevisionExhausted
  | ErrActionCheckpointIdentityMismatch
  | ErrControllerClosed
  | ErrControllerFailed
  | ErrControllerRecoveryUnavailable
  | ErrRawBackendClosed
  | ErrReinjectorClosed
  | ErrReinjectLedgerCapacity
  | ErrReinjectOutOfOrder
  | ErrCaptureIdentityConflict
  | ErrRuntimeIdentityCommitStateUnavailable
  | ErrEventRuntimeClosed
  | ErrEventRuntimeAlreadyRun
  | ErrEventSamplesLost
  | ErrStartupGuardLeaseMismatch
  | ErrEventCaptureOutOfOrder
  | ErrControllerRuntimeFactoryConsumed
  | ErrNotSupported
  | ErrKeyNotExist
  | OsErrDeadlineExceeded
  | OsErrClosed

datatype err =
    ErrVar sentinel
  | ErrNew string
  | ErrWrap string "err list"
  | ErrExt nat

fun errors_is :: "err \<Rightarrow> sentinel \<Rightarrow> bool" where
  "errors_is (ErrVar s) t = (s = t)"
| "errors_is (ErrNew m) t = False"
| "errors_is (ErrWrap m es) t = list_ex (\<lambda>e. errors_is e t) es"
| "errors_is (ErrExt n) t = False"

text \<open>\<open>errors.Join\<close> drops nil errors and is nil when nothing is left.\<close>

definition errors_join :: "err option list \<Rightarrow> err option" where
  "errors_join es =
     (case List.map_filter id es of [] \<Rightarrow> None | e # es' \<Rightarrow> Some (ErrWrap ''join'' (e # es')))"

lemma errors_join_Nil [simp]: "errors_join [] = None"
  by (simp add: errors_join_def map_filter_simps)

lemma errors_join_None_iff: "errors_join es = None \<longleftrightarrow> (\<forall>e \<in> set es. e = None)"
  by (induction es) (auto simp: errors_join_def map_filter_simps split: option.splits list.splits)

text \<open>A fallible function without a value returns \<open>err option\<close>: \<open>None\<close> is the nil error.\<close>

definition first_err :: "err option \<Rightarrow> err option \<Rightarrow> err option" where
  "first_err a b = (case a of None \<Rightarrow> b | Some e \<Rightarrow> Some e)"

lemma first_err_simps [simp]:
  "first_err None b = b" "first_err (Some e) b = Some e"
  by (simp_all add: first_err_def)

lemma first_err_None_iff: "first_err a b = None \<longleftrightarrow> a = None \<and> b = None"
  by (cases a) auto

section \<open>Go maps\<close>

text \<open>
  A Go map is an association list with distinct keys. \<open>m_get\<close> is a read, \<open>m_put\<close> an
  assignment and \<open>m_del\<close> the builtin \<open>delete\<close>; \<open>len\<close> is \<open>length\<close>.
\<close>

type_synonym ('k, 'v) gomap = "('k \<times> 'v) list"

definition m_get :: "('k, 'v) gomap \<Rightarrow> 'k \<Rightarrow> 'v option" where
  "m_get m k = map_of m k"

definition m_put :: "'k \<Rightarrow> 'v \<Rightarrow> ('k, 'v) gomap \<Rightarrow> ('k, 'v) gomap" where
  "m_put k v m = AList.update k v m"

definition m_del :: "'k \<Rightarrow> ('k, 'v) gomap \<Rightarrow> ('k, 'v) gomap" where
  "m_del k m = AList.delete k m"

definition m_wf :: "('k, 'v) gomap \<Rightarrow> bool" where
  "m_wf m = distinct (map fst m)"

definition m_keys :: "('k, 'v) gomap \<Rightarrow> 'k list" where
  "m_keys m = map fst m"

text \<open>The laws of a finite map, as the interface that the clients of a Go map rely on.\<close>

locale finite_map =
  fixes mget :: "'m \<Rightarrow> 'k \<Rightarrow> 'v option"
    and mput :: "'k \<Rightarrow> 'v \<Rightarrow> 'm \<Rightarrow> 'm"
    and mdel :: "'k \<Rightarrow> 'm \<Rightarrow> 'm"
    and mempty :: "'m"
    and mwf :: "'m \<Rightarrow> bool"
    and mlen :: "'m \<Rightarrow> nat"
  assumes get_empty: "mget mempty k = None"
    and get_put: "mwf m \<Longrightarrow> mget (mput k v m) k' = (if k' = k then Some v else mget m k')"
    and get_del: "mwf m \<Longrightarrow> mget (mdel k m) k' = (if k' = k then None else mget m k')"
    and wf_empty: "mwf mempty"
    and wf_put: "mwf m \<Longrightarrow> mwf (mput k v m)"
    and wf_del: "mwf m \<Longrightarrow> mwf (mdel k m)"
    and len_put: "mwf m \<Longrightarrow> mlen (mput k v m) = (if mget m k = None then Suc (mlen m) else mlen m)"
    and len_del: "mwf m \<Longrightarrow> mlen (mdel k m) = (if mget m k = None then mlen m else mlen m - 1)"
begin

lemma put_get_same: "mwf m \<Longrightarrow> mget (mput k v m) k = Some v"
  by (simp add: get_put)

lemma put_bounded:
  "mwf m \<Longrightarrow> mlen m < n \<Longrightarrow> mlen (mput k v m) \<le> n"
  by (simp add: len_put)

lemma overwrite_bounded:
  "mwf m \<Longrightarrow> mget m k \<noteq> None \<Longrightarrow> mlen (mput k v m) = mlen m"
  by (simp add: len_put)

end

lemma m_get_Nil [simp]: "m_get [] k = None"
  by (simp add: m_get_def)

lemma m_get_put [simp]: "m_get (m_put k v m) k' = (if k' = k then Some v else m_get m k')"
  by (simp add: m_get_def m_put_def update_conv')

lemma m_get_del [simp]: "m_get (m_del k m) k' = (if k' = k then None else m_get m k')"
  by (simp add: m_get_def m_del_def delete_conv')

lemma m_wf_Nil [simp]: "m_wf []"
  by (simp add: m_wf_def)

lemma m_wf_put [simp]: "m_wf m \<Longrightarrow> m_wf (m_put k v m)"
  by (simp add: m_wf_def m_put_def distinct_update)

lemma m_wf_del [simp]: "m_wf m \<Longrightarrow> m_wf (m_del k m)"
  by (simp add: m_wf_def m_del_def distinct_delete)

lemma m_get_Some_in: "m_get m k = Some v \<Longrightarrow> (k, v) \<in> set m"
  by (simp add: m_get_def map_of_SomeD)

lemma m_get_iff_in: "m_wf m \<Longrightarrow> m_get m k = Some v \<longleftrightarrow> (k, v) \<in> set m"
  by (auto simp: m_get_def m_wf_def map_of_is_SomeI dest: map_of_SomeD)

lemma m_get_None_iff: "m_get m k = None \<longleftrightarrow> k \<notin> fst ` set m"
  by (simp add: m_get_def map_of_eq_None_iff)

lemma len_m_put: "length (m_put k v m) = (if m_get m k = None then Suc (length m) else length m)"
  by (induction m) (auto simp: m_get_def m_put_def)

lemma m_wf_Cons [simp]: "m_wf (x # m) \<longleftrightarrow> fst x \<notin> fst ` set m \<and> m_wf m"
  by (simp add: m_wf_def)

lemma m_del_absent: "m_get m k = None \<Longrightarrow> m_del k m = m"
  by (simp add: m_del_def m_get_def map_of_eq_None_iff delete_idem)

lemma m_del_Cons: "m_del k (x # m) = (if fst x = k then m_del k m else x # m_del k m)"
  by (cases x) (simp add: m_del_def)

lemma len_m_del: "m_wf m \<Longrightarrow>
    length (m_del k m) = (if m_get m k = None then length m else length m - 1)"
proof (induction m)
  case Nil
  then show ?case by (simp add: m_del_def)
next
  case (Cons x m)
  show ?case
  proof (cases "fst x = k")
    case True
    with Cons.prems have "m_get m k = None" by (auto simp: m_get_None_iff)
    with True show ?thesis by (cases x) (simp add: m_del_Cons m_del_absent m_get_def)
  next
    case False
    with Cons have "length (m_del k m) = (if m_get m k = None then length m else length m - 1)"
      by simp
    moreover have "m_get m k \<noteq> None \<Longrightarrow> length m \<noteq> 0" by auto
    ultimately show ?thesis using False
      by (cases x) (auto simp: m_del_Cons m_get_def split: if_splits)
  qed
qed

lemma set_m_put: "m_wf m \<Longrightarrow> set (m_put k v m) = insert (k, v) {x \<in> set m. fst x \<noteq> k}"
  by (induction m) (auto simp: m_put_def m_wf_def rev_image_eqI)

lemma set_m_del: "set (m_del k m) = {x \<in> set m. fst x \<noteq> k}"
  by (induction m) (auto simp: m_del_Cons, simp add: m_del_def)

lemma m_put_same: "m_get m k = Some v \<Longrightarrow> m_put k v m = m"
  by (induction m) (auto simp: m_get_def m_put_def split: if_splits)

lemma m_put_put: "m_put k v' (m_put k v m) = m_put k v' m"
  by (induction m) (auto simp: m_put_def)

lemma m_keys_put: "set (m_keys (m_put k v m)) = insert k (set (m_keys m))"
  by (auto simp: m_keys_def m_put_def dom_update)

lemma m_get_in_keys: "m_get m k \<noteq> None \<longleftrightarrow> k \<in> set (m_keys m)"
  by (simp add: m_get_None_iff m_keys_def)

interpretation gm: finite_map m_get m_put m_del "[]" m_wf length
  by unfold_locales (simp_all add: len_m_put len_m_del)

section \<open>Weighted sums over a Go map\<close>

text \<open>
  \<open>m_sum f m\<close> adds an integer weight over the entries of a map. The engine's counters
  (half-open sessions, pending flows, pending bytes) are such sums, and these equations say
  how one assignment or delete moves them.
\<close>

definition m_sum :: "('v \<Rightarrow> int) \<Rightarrow> ('k, 'v) gomap \<Rightarrow> int" where
  "m_sum f m = sum_list (map (\<lambda>x. f (snd x)) m)"

definition w_at :: "('v \<Rightarrow> int) \<Rightarrow> 'v option \<Rightarrow> int" where
  "w_at f x = (case x of None \<Rightarrow> 0 | Some v \<Rightarrow> f v)"

lemma w_at_simps [simp]: "w_at f None = 0" "w_at f (Some v) = f v"
  by (simp_all add: w_at_def)

lemma m_sum_Nil [simp]: "m_sum f [] = 0"
  by (simp add: m_sum_def)

lemma m_sum_put: "m_sum f (m_put k v m) = m_sum f m - w_at f (m_get m k) + f v"
  by (induction m) (auto simp: m_sum_def m_put_def m_get_def)

lemma m_sum_del: "m_wf m \<Longrightarrow> m_sum f (m_del k m) = m_sum f m - w_at f (m_get m k)"
proof (induction m)
  case Nil
  then show ?case by (simp add: m_del_def)
next
  case (Cons x m)
  show ?case
  proof (cases "fst x = k")
    case True
    with Cons.prems have "m_get m k = None" by (auto simp: m_get_None_iff)
    with True show ?thesis by (cases x) (simp add: m_del_Cons m_del_absent m_sum_def m_get_def)
  next
    case False
    with Cons show ?thesis by (cases x) (simp add: m_del_Cons m_sum_def m_get_def)
  qed
qed

lemma m_sum_nonneg: "(\<And>v. 0 \<le> f v) \<Longrightarrow> 0 \<le> m_sum f m"
  by (induction m) (simp_all add: m_sum_def)

lemma m_sum_ge: "(\<And>v. 0 \<le> f v) \<Longrightarrow> (k, v) \<in> set m \<Longrightarrow> f v \<le> m_sum f m"
proof (induction m)
  case Nil
  then show ?case by simp
next
  case (Cons x m)
  from Cons.prems(1) have "0 \<le> m_sum f m" by (rule m_sum_nonneg)
  moreover have "m_sum f (x # m) = f (snd x) + m_sum f m" by (simp add: m_sum_def)
  moreover have "0 \<le> f (snd x)" by (rule Cons.prems(1))
  moreover have "(k, v) \<in> set m \<Longrightarrow> f v \<le> m_sum f m"
    using Cons.prems(1) by (rule Cons.IH)
  ultimately show ?case using Cons.prems(2) by auto
qed

lemma m_sum_le_length: "(\<And>v. f v \<le> 1) \<Longrightarrow> m_sum f m \<le> int (length m)"
proof (induction m)
  case (Cons x m)
  then have "m_sum f m \<le> int (length m)" and "f (snd x) \<le> 1" by auto
  then show ?case by (simp add: m_sum_def)
qed simp

lemma m_sum_cong: "(\<And>k v. (k, v) \<in> set m \<Longrightarrow> f v = g v) \<Longrightarrow> m_sum f m = m_sum g m"
  unfolding m_sum_def by (rule arg_cong [where f = sum_list]) auto

lemma m_sum_count: "m_sum (\<lambda>v. if P v then 1 else 0) m = int (length (filter (\<lambda>x. P (snd x)) m))"
  by (induction m) (simp_all add: m_sum_def)

end
