(* ===== verification/Bytes.thy ===== *)
theory Bytes
  imports Prelude
begin

text \<open>
  Byte slices and \<open>encoding/binary\<close>. A read or a slice that Go would refuse with a
  run-time panic is \<open>None\<close>, so a theorem that a parser returns \<open>Some\<close> is a proof that
  it never panics. \<open>binary.NativeEndian\<close> depends on the machine the program was built for:
  it is the parameter \<open>endian\<close> of every function that uses it.
\<close>

datatype endian = LittleEndian | BigEndian

section \<open>Indexing and slicing\<close>

definition rd :: "byte list \<Rightarrow> nat \<Rightarrow> byte option" where
  "rd bs i = (if i < length bs then Some (bs ! i) else None)"

definition slice :: "byte list \<Rightarrow> nat \<Rightarrow> nat \<Rightarrow> byte list option" where
  "slice bs i j = (if i \<le> j \<and> j \<le> length bs then Some (take (j - i) (drop i bs)) else None)"

definition write_at :: "nat \<Rightarrow> byte list \<Rightarrow> byte list \<Rightarrow> byte list option" where
  "write_at i v bs =
     (if i + length v \<le> length bs then Some (take i bs @ v @ drop (i + length v) bs) else None)"

named_theorems panic_free \<open>reads, slices and writes inside the bounds return\<close>

lemma rd_Some [panic_free]: "i < length bs \<Longrightarrow> rd bs i = Some (bs ! i)"
  by (simp add: rd_def)

lemma slice_Some [panic_free]:
  "i \<le> j \<Longrightarrow> j \<le> length bs \<Longrightarrow> slice bs i j = Some (take (j - i) (drop i bs))"
  by (simp add: slice_def)

lemma write_at_Some [panic_free]:
  "i + length v \<le> length bs \<Longrightarrow> write_at i v bs = Some (take i bs @ v @ drop (i + length v) bs)"
  by (simp add: write_at_def)

definition returns :: "'a option \<Rightarrow> bool" where
  "returns r \<longleftrightarrow> r \<noteq> None"

named_theorems returns_simps \<open>where a computation in the option monad returns\<close>

lemma returns_Some [returns_simps]: "returns (Some x)"
  by (simp add: returns_def)

lemma returns_if [returns_simps]:
  "returns (if c then a else b) \<longleftrightarrow> (c \<longrightarrow> returns a) \<and> (\<not> c \<longrightarrow> returns b)"
  by simp

lemma returns_bind [returns_simps]: "returns (m \<bind> f) \<longleftrightarrow> (\<exists>v. m = Some v \<and> returns (f v))"
  by (cases m) (auto simp: returns_def)

lemma write_at_length: "write_at i v bs = Some bs' \<Longrightarrow> length bs' = length bs"
  by (auto simp: write_at_def split: if_splits)

lemma write_at_read:
  "write_at i v bs = Some bs' \<Longrightarrow> take (length v) (drop i bs') = v"
  by (auto simp: write_at_def split: if_splits)

lemma write_at_before:
  "write_at i v bs = Some bs' \<Longrightarrow> j + n \<le> i \<Longrightarrow> take n (drop j bs') = take n (drop j bs)"
  by (auto simp: write_at_def drop_take min_def split: if_splits)

lemma write_at_after:
  "write_at i v bs = Some bs' \<Longrightarrow> i + length v \<le> j \<Longrightarrow> drop j bs' = drop j bs"
  by (auto simp: write_at_def split: if_splits)

section \<open>Fixed-width integers\<close>

fun be16 :: "byte list \<Rightarrow> u16 option" where
  "be16 (b0 # b1 # bs) = Some (ucast b1 OR push_bit 8 (ucast b0))"
| "be16 _ = None"

definition put_be16 :: "u16 \<Rightarrow> byte list" where
  "put_be16 v = [ucast (drop_bit 8 v), ucast v]"

definition be32 :: "byte list \<Rightarrow> u32 option" where
  "be32 bs = (case (be16 bs, be16 (drop 2 bs)) of
       (Some h, Some l) \<Rightarrow> Some (ucast l OR push_bit 16 (ucast h))
     | _ \<Rightarrow> None)"

definition put_be32 :: "u32 \<Rightarrow> byte list" where
  "put_be32 v = put_be16 (ucast (drop_bit 16 v)) @ put_be16 (ucast v)"

definition be64 :: "byte list \<Rightarrow> u64 option" where
  "be64 bs = (case (be32 bs, be32 (drop 4 bs)) of
       (Some h, Some l) \<Rightarrow> Some (ucast l OR push_bit 32 (ucast h))
     | _ \<Rightarrow> None)"

definition put_be64 :: "u64 \<Rightarrow> byte list" where
  "put_be64 v = put_be32 (ucast (drop_bit 32 v)) @ put_be32 (ucast v)"

text \<open>The little-endian readers take the same bytes in reverse.\<close>

definition rev_dec :: "nat \<Rightarrow> (byte list \<Rightarrow> 'a option) \<Rightarrow> byte list \<Rightarrow> 'a option" where
  "rev_dec w d bs = (if w \<le> length bs then d (rev (take w bs)) else None)"

definition le16 :: "byte list \<Rightarrow> u16 option" where
  "le16 = rev_dec 2 be16"

definition le32 :: "byte list \<Rightarrow> u32 option" where
  "le32 = rev_dec 4 be32"

definition le64 :: "byte list \<Rightarrow> u64 option" where
  "le64 = rev_dec 8 be64"

definition put_le32 :: "u32 \<Rightarrow> byte list" where
  "put_le32 v = rev (put_be32 v)"

definition ne16 :: "endian \<Rightarrow> byte list \<Rightarrow> u16 option" where
  "ne16 en bs = (case en of BigEndian \<Rightarrow> be16 bs | LittleEndian \<Rightarrow> le16 bs)"

definition ne32 :: "endian \<Rightarrow> byte list \<Rightarrow> u32 option" where
  "ne32 en bs = (case en of BigEndian \<Rightarrow> be32 bs | LittleEndian \<Rightarrow> le32 bs)"

definition ne64 :: "endian \<Rightarrow> byte list \<Rightarrow> u64 option" where
  "ne64 en bs = (case en of BigEndian \<Rightarrow> be64 bs | LittleEndian \<Rightarrow> le64 bs)"

definition put_ne16 :: "endian \<Rightarrow> u16 \<Rightarrow> byte list" where
  "put_ne16 en v = (case en of BigEndian \<Rightarrow> put_be16 v | LittleEndian \<Rightarrow> rev (put_be16 v))"

definition put_ne32 :: "endian \<Rightarrow> u32 \<Rightarrow> byte list" where
  "put_ne32 en v = (case en of BigEndian \<Rightarrow> put_be32 v | LittleEndian \<Rightarrow> put_le32 v)"

definition put_ne64 :: "endian \<Rightarrow> u64 \<Rightarrow> byte list" where
  "put_ne64 en v = (case en of BigEndian \<Rightarrow> put_be64 v | LittleEndian \<Rightarrow> rev (put_be64 v))"

section \<open>The contract of a fixed-width codec\<close>

locale byte_codec =
  fixes enc :: "'a \<Rightarrow> byte list"
    and dec :: "byte list \<Rightarrow> 'a option"
    and width :: nat
  assumes enc_length: "length (enc v) = width"
    and dec_enc: "dec (enc v @ rest) = Some v"
    and dec_short: "length bs < width \<Longrightarrow> dec bs = None"
    and enc_onto: "length bs = width \<Longrightarrow> \<exists>v. enc v = bs"
begin

lemma dec_of_prefix: "take width bs = enc v \<Longrightarrow> dec bs = Some v"
  by (subst append_take_drop_id [of width bs, symmetric]) (simp only: dec_enc)

lemma dec_Some: "width \<le> length bs \<Longrightarrow> \<exists>v. dec bs = Some v \<and> enc v = take width bs"
proof -
  assume "width \<le> length bs"
  then obtain v where v: "enc v = take width bs"
    using enc_onto [of "take width bs"] by auto
  then have "dec bs = Some v" by (simp add: dec_of_prefix)
  with v show ?thesis by blast
qed

lemma enc_dec: "dec bs = Some v \<Longrightarrow> enc v = take width bs"
proof -
  assume a: "dec bs = Some v"
  have "width \<le> length bs"
  proof (rule ccontr)
    assume "\<not> width \<le> length bs"
    then have "dec bs = None" by (simp add: dec_short)
    with a show False by simp
  qed
  then show ?thesis using a dec_Some [of bs] by auto
qed

lemma dec_None_iff: "dec bs = None \<longleftrightarrow> length bs < width"
  using dec_Some [of bs] dec_short [of bs] by (cases "length bs < width") auto

lemma enc_inj: "enc v = enc v' \<longleftrightarrow> v = v'"
proof
  assume "enc v = enc v'"
  then have "dec (enc v @ []) = dec (enc v' @ [])" by simp
  then show "v = v'" by (simp only: dec_enc option.inject)
qed simp

lemma dec_take: "width \<le> n \<Longrightarrow> dec (take n bs) = dec bs"
proof (cases "width \<le> length bs")
  case True
  assume "width \<le> n"
  with True have "take width (take n bs) = take width bs" by (simp add: min_def)
  moreover from True obtain v where v: "dec bs = Some v" "enc v = take width bs"
    by (blast dest: dec_Some)
  ultimately have "take width (take n bs) = enc v" by (simp only:)
  then have "dec (take n bs) = Some v" by (rule dec_of_prefix)
  then show ?thesis by (simp only: v(1))
next
  case False
  then show ?thesis by (simp add: dec_short)
qed

lemma read_back: "write_at i (enc v) bs = Some bs' \<Longrightarrow> dec (drop i bs') = Some v"
  using write_at_read [of i "enc v" bs bs'] by (simp add: dec_of_prefix enc_length)

lemma read_before:
  assumes "write_at i w bs = Some bs'" and "j + width \<le> i"
  shows "dec (drop j bs') = dec (drop j bs)"
proof -
  have "take width (drop j bs') = take width (drop j bs)"
    using assms by (rule write_at_before)
  then have "dec (take width (drop j bs')) = dec (take width (drop j bs))" by simp
  then show ?thesis by (simp add: dec_take)
qed

end

lemma split_list2: "length bs = 2 \<longleftrightarrow> (\<exists>a b. bs = [a, b])"
  by (auto simp: numeral_eq_Suc length_Suc_conv)

lemma be16_short: "length bs < 2 \<Longrightarrow> be16 bs = None"
  by (cases bs rule: be16.cases) auto

lemma join16: "(ucast (ucast v :: u8) :: u16) OR push_bit 8 (ucast (ucast (drop_bit 8 v) :: u8)) = v"
  by (rule bit_word_eqI) (auto simp: bit_simps)

lemma join32: "(ucast (ucast v :: u16) :: u32) OR push_bit 16 (ucast (ucast (drop_bit 16 v) :: u16)) = v"
  by (rule bit_word_eqI) (auto simp: bit_simps)

lemma join64: "(ucast (ucast v :: u32) :: u64) OR push_bit 32 (ucast (ucast (drop_bit 32 v) :: u32)) = v"
  by (rule bit_word_eqI) (auto simp: bit_simps)

lemma part16:
  "ucast ((ucast (b :: u8) :: u16) OR push_bit 8 (ucast (a :: u8))) = b"
  "ucast (drop_bit 8 ((ucast (b :: u8) :: u16) OR push_bit 8 (ucast (a :: u8)))) = a"
  by (rule bit_word_eqI, auto simp: bit_simps dest: bit_imp_le_length)+

lemma part32:
  "ucast ((ucast (b :: u16) :: u32) OR push_bit 16 (ucast (a :: u16))) = b"
  "ucast (drop_bit 16 ((ucast (b :: u16) :: u32) OR push_bit 16 (ucast (a :: u16)))) = a"
  by (rule bit_word_eqI, auto simp: bit_simps dest: bit_imp_le_length)+

lemma part64:
  "ucast ((ucast (b :: u32) :: u64) OR push_bit 32 (ucast (a :: u32))) = b"
  "ucast (drop_bit 32 ((ucast (b :: u32) :: u64) OR push_bit 32 (ucast (a :: u32)))) = a"
  by (rule bit_word_eqI, auto simp: bit_simps dest: bit_imp_le_length)+


interpretation be16c: byte_codec put_be16 be16 2
proof unfold_locales
  show "length (put_be16 v) = 2" for v by (simp add: put_be16_def)
  show "be16 (put_be16 v @ rest) = Some v" for v rest by (simp add: put_be16_def join16)
  show "be16 bs = None" if "length bs < 2" for bs using that by (rule be16_short)
  show "\<exists>v. put_be16 v = bs" if "length bs = 2" for bs
  proof -
    from that obtain a b where bs: "bs = [a, b]" by (auto simp: split_list2)
    have "put_be16 (ucast b OR push_bit 8 (ucast a)) = bs"
      unfolding put_be16_def bs by (simp only: part16)
    then show ?thesis ..
  qed
qed

text \<open>A codec of double width, from the codec of the halves.\<close>

lemma half_split: "length bs = n + n \<Longrightarrow> \<exists>xs ys. bs = xs @ ys \<and> length xs = n \<and> length ys = n"
  by (rule exI [of _ "take n bs"], rule exI [of _ "drop n bs"]) simp

interpretation be32c: byte_codec put_be32 be32 4
proof unfold_locales
  show "length (put_be32 v) = 4" for v by (simp add: put_be32_def be16c.enc_length)
  show "be32 (put_be32 v @ rest) = Some v" for v rest
    by (simp add: be32_def put_be32_def be16c.dec_enc be16c.enc_length join32)
  show "be32 bs = None" if "length bs < 4" for bs
    using that be16c.dec_short [of "drop 2 bs"] by (auto simp: be32_def split: option.splits)
  show "\<exists>v. put_be32 v = bs" if "length bs = 4" for bs
  proof -
    from that obtain xs ys where s: "bs = xs @ ys" "length xs = 2" "length ys = 2"
      using half_split [of bs 2] by auto
    then obtain a b where "put_be16 a = xs" "put_be16 b = ys" by (meson be16c.enc_onto)
    then have "put_be32 (ucast b OR push_bit 16 (ucast a)) = bs"
      unfolding put_be32_def s(1) by (simp only: part32)
    then show ?thesis ..
  qed
qed

interpretation be64c: byte_codec put_be64 be64 8
proof unfold_locales
  show "length (put_be64 v) = 8" for v by (simp add: put_be64_def be32c.enc_length)
  show "be64 (put_be64 v @ rest) = Some v" for v rest
    by (simp add: be64_def put_be64_def be32c.dec_enc be32c.enc_length join64)
  show "be64 bs = None" if "length bs < 8" for bs
    using that be32c.dec_short [of "drop 4 bs"] by (auto simp: be64_def split: option.splits)
  show "\<exists>v. put_be64 v = bs" if "length bs = 8" for bs
  proof -
    from that obtain xs ys where s: "bs = xs @ ys" "length xs = 4" "length ys = 4"
      using half_split [of bs 4] by auto
    then obtain a b where "put_be32 a = xs" "put_be32 b = ys" by (meson be32c.enc_onto)
    then have "put_be64 (ucast b OR push_bit 32 (ucast a)) = bs"
      unfolding put_be64_def s(1) by (simp only: part64)
    then show ?thesis ..
  qed
qed

text \<open>Reversing the bytes of a codec gives the codec of the other byte order.\<close>

locale rev_codec = byte_codec

sublocale rev_codec \<subseteq> rv: byte_codec "\<lambda>v. rev (enc v)" "rev_dec width dec" width
proof unfold_locales
  show "length (rev (enc v)) = width" for v by (simp add: enc_length)
  show "rev_dec width dec (rev (enc v) @ rest) = Some v" for v rest
    using dec_enc [of v "[]"] by (simp add: rev_dec_def enc_length)
  show "rev_dec width dec bs = None" if "length bs < width" for bs
    using that by (simp add: rev_dec_def)
  show "\<exists>v. rev (enc v) = bs" if "length bs = width" for bs
  proof -
    from that obtain v where "enc v = rev bs" using enc_onto [of "rev bs"] by auto
    then have "rev (enc v) = bs" by simp
    then show ?thesis ..
  qed
qed

interpretation le16c: rev_codec put_be16 be16 2 ..

interpretation le32c: rev_codec put_be32 be32 4 ..

interpretation le64c: rev_codec put_be64 be64 8 ..

interpretation ne16c: byte_codec "put_ne16 en" "ne16 en" 2 for en
proof (cases en)
  case LittleEndian
  then show "byte_codec (put_ne16 en) (ne16 en) 2"
    using le16c.rv.byte_codec_axioms by (simp add: put_ne16_def [abs_def] ne16_def [abs_def] le16_def)
next
  case BigEndian
  then show "byte_codec (put_ne16 en) (ne16 en) 2"
    using be16c.byte_codec_axioms by (simp add: put_ne16_def [abs_def] ne16_def [abs_def])
qed

interpretation ne32c: byte_codec "put_ne32 en" "ne32 en" 4 for en
proof (cases en)
  case LittleEndian
  then show "byte_codec (put_ne32 en) (ne32 en) 4"
    using le32c.rv.byte_codec_axioms
    by (simp add: put_ne32_def [abs_def] ne32_def [abs_def] le32_def put_le32_def [abs_def])
next
  case BigEndian
  then show "byte_codec (put_ne32 en) (ne32 en) 4"
    using be32c.byte_codec_axioms by (simp add: put_ne32_def [abs_def] ne32_def [abs_def])
qed

interpretation ne64c: byte_codec "put_ne64 en" "ne64 en" 8 for en
proof (cases en)
  case LittleEndian
  then show "byte_codec (put_ne64 en) (ne64 en) 8"
    using le64c.rv.byte_codec_axioms by (simp add: put_ne64_def [abs_def] ne64_def [abs_def] le64_def)
next
  case BigEndian
  then show "byte_codec (put_ne64 en) (ne64 en) 8"
    using be64c.byte_codec_axioms by (simp add: put_ne64_def [abs_def] ne64_def [abs_def])
qed

lemmas codec_lengths [simp] =
  be16c.enc_length be32c.enc_length be64c.enc_length
  ne16c.enc_length ne32c.enc_length ne64c.enc_length

text \<open>Reading an integer out of a slice of a packet, as in \<open>binary.BigEndian.Uint16(b[i:i+2])\<close>.\<close>

definition be16_at :: "byte list \<Rightarrow> nat \<Rightarrow> u16 option" where
  "be16_at bs i = slice bs i (i + 2) \<bind> be16"

definition be32_at :: "byte list \<Rightarrow> nat \<Rightarrow> u32 option" where
  "be32_at bs i = slice bs i (i + 4) \<bind> be32"

lemma be16_at_drop: "i + 2 \<le> length bs \<Longrightarrow> be16_at bs i = be16 (drop i bs)"
  by (simp add: be16_at_def slice_Some be16c.dec_take)

lemma be32_at_drop: "i + 4 \<le> length bs \<Longrightarrow> be32_at bs i = be32 (drop i bs)"
  by (simp add: be32_at_def slice_Some be32c.dec_take)

lemma be16_at_returns: "i + 2 \<le> length bs \<Longrightarrow> \<exists>v. be16_at bs i = Some v"
  using be16c.dec_Some [of "drop i bs"] by (force simp: be16_at_drop)

lemma be32_at_returns: "i + 4 \<le> length bs \<Longrightarrow> \<exists>v. be32_at bs i = Some v"
  using be32c.dec_Some [of "drop i bs"] by (force simp: be32_at_drop)

end
