(* ===== verification/Typeword.thy ===== *)
theory Typeword
  imports Bytes
begin

text \<open>
  The WireGuard type word: \<open>internal/packet/typeword.go\<close>. The first four bytes of a
  WireGuard payload, read little-endian, name the kind of the message; every kind has a
  payload length it must have on the wire.
\<close>

definition StandardInitiation :: u32 where "StandardInitiation = 1"
definition StandardResponse :: u32 where "StandardResponse = 2"
definition StandardCookieReply :: u32 where "StandardCookieReply = 3"
definition StandardTransportData :: u32 where "StandardTransportData = 4"

datatype MessageKind =
    MessageUnknown | MessageInitiation | MessageResponse | MessageCookieReply | MessageTransportData

definition FromWire :: "byte list \<Rightarrow> err + u32" where
  "FromWire b =
     (if length b < 4 then Inl (ErrNew ''type_word requires 4 bytes'')
      else Inr (the (le32 (take 4 b))))"

definition ToWire :: "u32 \<Rightarrow> byte list" where
  "ToWire v = put_le32 v"

definition StandardKind :: "u32 \<Rightarrow> MessageKind" where
  "StandardKind typeWord =
     (if typeWord = StandardInitiation then MessageInitiation
      else if typeWord = StandardResponse then MessageResponse
      else if typeWord = StandardCookieReply then MessageCookieReply
      else if typeWord = StandardTransportData then MessageTransportData
      else MessageUnknown)"

fun ValidatePayloadLength :: "MessageKind \<Rightarrow> int \<Rightarrow> err option" where
  "ValidatePayloadLength MessageInitiation payloadLen =
     (if payloadLen \<noteq> 148 then Some (ErrNew ''initiation payload length'') else None)"
| "ValidatePayloadLength MessageResponse payloadLen =
     (if payloadLen \<noteq> 92 then Some (ErrNew ''response payload length'') else None)"
| "ValidatePayloadLength MessageCookieReply payloadLen =
     (if payloadLen \<noteq> 64 then Some (ErrNew ''cookie reply payload length'') else None)"
| "ValidatePayloadLength MessageTransportData payloadLen =
     (if payloadLen < 32 then Some (ErrNew ''transport payload length is below 32'') else None)"
| "ValidatePayloadLength MessageUnknown payloadLen = Some (ErrNew ''unknown message kind'')"

definition ContainsStandardTypeWord :: "byte list \<Rightarrow> bool" where
  "ContainsStandardTypeWord payload =
     (case FromWire payload of
        Inl e \<Rightarrow> False
      | Inr typeWord \<Rightarrow> StandardKind typeWord \<noteq> MessageUnknown)"

lemma le32_eq: "le32 = ne32 LittleEndian" and put_le32_eq: "put_le32 = put_ne32 LittleEndian"
  by (simp_all add: fun_eq_iff ne32_def put_ne32_def)

lemma FromWire_take: "4 \<le> length b \<Longrightarrow> FromWire b = Inr (the (ne32 LittleEndian b))"
  using ne32c.dec_Some [of b LittleEndian]
  by (auto simp: FromWire_def le32_eq ne32c.dec_take split: option.splits)

lemma StandardKind_known_iff: "StandardKind w \<noteq> MessageUnknown \<longleftrightarrow> w \<in> {1, 2, 3, 4}"
  by (auto simp: StandardKind_def StandardInitiation_def StandardResponse_def
      StandardCookieReply_def StandardTransportData_def)

text \<open>
  The type word round-trips through the wire: whatever bytes follow it, \<open>FromWire\<close>
  reads back what \<open>ToWire\<close> wrote; every four bytes are the wire form of the word read
  from them; and shorter input is refused.
\<close>

lemma typeword_roundtrip:
  "FromWire (ToWire v @ rest) = Inr v
   \<and> (FromWire b = Inr w \<longleftrightarrow> 4 \<le> length b \<and> ToWire w = take 4 b)"
proof -
  have enc: "ToWire v = put_ne32 LittleEndian v" for v
    by (simp add: ToWire_def put_le32_eq)
  have "FromWire (ToWire v @ rest) = Inr v"
    by (simp add: enc FromWire_take ne32c.dec_enc)
  moreover have "FromWire b = Inr w \<longleftrightarrow> 4 \<le> length b \<and> ToWire w = take 4 b"
  proof (cases "4 \<le> length b")
    case True
    then obtain v where "ne32 LittleEndian b = Some v" "put_ne32 LittleEndian v = take 4 b"
      using ne32c.dec_Some by blast
    then show ?thesis using True ne32c.enc_inj [of LittleEndian v w]
      by (auto simp: FromWire_take enc)
  qed (simp add: FromWire_def)
  ultimately show ?thesis ..
qed

end
