(* ===== verification/Profile.thy ===== *)
theory Profile
  imports Typeword
begin

text \<open>
  Type-word profiles: \<open>internal/profile/profile.go\<close> with the configuration types it reads
  (\<open>internal/config/config.go\<close>), and the three lookups of the TC program that use the
  compiled tables (\<open>bpf/wg_mix_tc.c\<close>). A profile maps the four standard type words to four
  mixed ones and back.
\<close>

definition Standard :: "u32 list" where
  "Standard = [StandardInitiation, StandardResponse, StandardCookieReply, StandardTransportData]"

definition WireguardMixWireValuesV1 :: "u32 list" where
  "WireguardMixWireValuesV1 = [0xf658c2e6, 0x0686b1d0, 0x075ae5e0, 0x13dff06b]"

record TypeWordProfile =
  tw_Initiation :: u32
  tw_Response :: u32
  tw_CookieReply :: u32
  tw_TransportData :: u32

record ProfileConfig =
  pc_Preset :: string
  pc_TypeWord :: TypeWordProfile
  pc_IndexMode :: string
  pc_AllowPassthrough :: bool

record Compiled =
  c_Name :: string
  c_StandardToMixed :: "u32 list"
  c_MixedToStandard :: "u32 list"

definition isStandard :: "u32 \<Rightarrow> bool" where
  "isStandard v = list_ex (\<lambda>standard. v = standard) Standard"

definition mixedValues :: "ProfileConfig \<Rightarrow> err + u32 list" where
  "mixedValues cfg =
     (if pc_Preset cfg \<noteq> [] then
        (if pc_Preset cfg = ''wireguard-mix-wire-values-v1'' then Inr WireguardMixWireValuesV1
         else Inl (ErrNew ''unsupported preset''))
      else
        let values = [tw_Initiation (pc_TypeWord cfg), tw_Response (pc_TypeWord cfg),
                      tw_CookieReply (pc_TypeWord cfg), tw_TransportData (pc_TypeWord cfg)]
        in if list_ex (\<lambda>v. v = 0) values then Inl (ErrNew ''type_word value is zero'')
           else Inr values)"

text \<open>The loop of \<open>validateMixed\<close>, with the words already seen.\<close>

fun validateMixed_from :: "u32 list \<Rightarrow> bool \<Rightarrow> u32 list \<Rightarrow> err option" where
  "validateMixed_from seen allowPassthrough [] = None"
| "validateMixed_from seen allowPassthrough (v # vs) =
     (if v \<in> set seen then Some (ErrNew ''mixed type_word is duplicated'')
      else if \<not> allowPassthrough \<and> isStandard v
      then Some (ErrNew ''mixed type_word equals a standard type_word'')
      else validateMixed_from (v # seen) allowPassthrough vs)"

definition validateMixed :: "u32 list \<Rightarrow> bool \<Rightarrow> err option" where
  "validateMixed values allowPassthrough = validateMixed_from [] allowPassthrough values"

definition Compile :: "string \<Rightarrow> ProfileConfig \<Rightarrow> err + Compiled" where
  "Compile name cfg =
     (if name = [] then Inl (ErrNew ''profile name is required'')
      else let mode = (if pc_IndexMode cfg = [] then ''none'' else pc_IndexMode cfg)
      in if mode \<noteq> ''none'' then Inl (ErrNew ''profile index mode is unsupported in MVP'')
      else case mixedValues cfg of
        Inl e \<Rightarrow> Inl (ErrWrap ''profile'' [e])
      | Inr mixed \<Rightarrow>
          (case validateMixed mixed (pc_AllowPassthrough cfg) of
             Some e \<Rightarrow> Inl (ErrWrap ''profile'' [e])
           | None \<Rightarrow> Inr \<lparr>c_Name = name, c_StandardToMixed = mixed,
                          c_MixedToStandard = map (\<lambda>i. Standard ! i) [0..<4]\<rparr>))"

fun CompileAll :: "(string, ProfileConfig) gomap \<Rightarrow> err + (string, Compiled) gomap" where
  "CompileAll [] = Inr []"
| "CompileAll ((name, cfg) # rest) =
     (case Compile name cfg of
        Inl e \<Rightarrow> Inl e
      | Inr compiled \<Rightarrow>
          (case CompileAll rest of
             Inl e \<Rightarrow> Inl e
           | Inr out \<Rightarrow> Inr (m_put name compiled out)))"

definition Preset :: "string \<Rightarrow> err + ProfileConfig" where
  "Preset name =
     (if name = ''wireguard-mix-wire-values-v1''
      then Inr \<lparr>pc_Preset = name,
                pc_TypeWord = \<lparr>tw_Initiation = 0, tw_Response = 0, tw_CookieReply = 0,
                              tw_TransportData = 0\<rparr>,
                pc_IndexMode = ''none'', pc_AllowPassthrough = False\<rparr>
      else Inl (ErrNew ''unsupported preset''))"

text \<open>
  \<open>GenerateRandom\<close> draws from \<open>crypto/rand\<close> until it has four usable words. The draws
  are an argument; the result \<open>None\<close> says that they ran out before the loop was done.
\<close>

fun draw_values :: "nat \<Rightarrow> u32 list \<Rightarrow> (err + u32) list \<Rightarrow> (err + u32 list) option" where
  "draw_values 0 values draws = Some (Inr values)"
| "draw_values (Suc n) values [] = None"
| "draw_values (Suc n) values (Inl e # draws) = Some (Inl e)"
| "draw_values (Suc n) values (Inr v # draws) =
     (if v = 0 \<or> isStandard v then draw_values (Suc n) values draws
      else if v \<in> set values then draw_values (Suc n) values draws
      else draw_values n (values @ [v]) draws)"

definition GenerateRandom :: "(err + u32) list \<Rightarrow> (err + ProfileConfig) option" where
  "GenerateRandom draws =
     (case draw_values 4 [] draws of
        None \<Rightarrow> None
      | Some (Inl e) \<Rightarrow> Some (Inl e)
      | Some (Inr values) \<Rightarrow>
          let cfg = \<lparr>pc_Preset = [],
                     pc_TypeWord = \<lparr>tw_Initiation = values ! 0, tw_Response = values ! 1,
                                   tw_CookieReply = values ! 2, tw_TransportData = values ! 3\<rparr>,
                     pc_IndexMode = ''none'', pc_AllowPassthrough = False\<rparr>
          in (case Compile ''generated'' cfg of
                Inl e \<Rightarrow> Some (Inl e)
              | Inr _ \<Rightarrow> Some (Inr cfg)))"

section \<open>The dataplane's use of the tables\<close>

definition kind_from_standard :: "u32 \<Rightarrow> int" where
  "kind_from_standard type_word =
     (if type_word = 1 then 0 else if type_word = 2 then 1
      else if type_word = 3 then 2 else if type_word = 4 then 3 else -1)"

definition profile_mixed_from_kind :: "Compiled \<Rightarrow> int \<Rightarrow> u32 option" where
  "profile_mixed_from_kind profile kind =
     (if kind = 0 then Some (c_StandardToMixed profile ! 0)
      else if kind = 1 then Some (c_StandardToMixed profile ! 1)
      else if kind = 2 then Some (c_StandardToMixed profile ! 2)
      else if kind = 3 then Some (c_StandardToMixed profile ! 3)
      else None)"

definition profile_decode_mixed :: "Compiled \<Rightarrow> u32 \<Rightarrow> (int \<times> u32) option" where
  "profile_decode_mixed profile mixed =
     (if c_StandardToMixed profile ! 0 = mixed then Some (0, c_MixedToStandard profile ! 0)
      else if c_StandardToMixed profile ! 1 = mixed then Some (1, c_MixedToStandard profile ! 1)
      else if c_StandardToMixed profile ! 2 = mixed then Some (2, c_MixedToStandard profile ! 2)
      else if c_StandardToMixed profile ! 3 = mixed then Some (3, c_MixedToStandard profile ! 3)
      else None)"

section \<open>What a compiled profile guarantees\<close>

lemma validateMixed_from_None:
  "validateMixed_from seen ap vs = None \<longleftrightarrow>
     distinct vs \<and> set vs \<inter> set seen = {} \<and> (ap \<or> list_all (\<lambda>v. \<not> isStandard v) vs)"
  by (induction seen ap vs rule: validateMixed_from.induct) auto

lemma validateMixed_None:
  "validateMixed vs ap = None \<longleftrightarrow> distinct vs \<and> (ap \<or> list_all (\<lambda>v. \<not> isStandard v) vs)"
  by (simp add: validateMixed_def validateMixed_from_None)

lemma mixedValues_length: "mixedValues cfg = Inr vs \<Longrightarrow> length vs = 4"
  by (auto simp: mixedValues_def WireguardMixWireValuesV1_def Let_def split: if_splits)

lemma Compile_Inr:
  assumes "Compile name cfg = Inr c"
  shows "length (c_StandardToMixed c) = 4" and "distinct (c_StandardToMixed c)"
    and "c_MixedToStandard c = Standard" and "c_Name c = name"
    and "pc_AllowPassthrough cfg \<or> list_all (\<lambda>v. \<not> isStandard v) (c_StandardToMixed c)"
proof -
  have std: "map (\<lambda>i. Standard ! i) [0..<4] = Standard"
    by (simp add: Standard_def upt_rec)
  from assms obtain vs where vs: "mixedValues cfg = Inr vs"
      "validateMixed vs (pc_AllowPassthrough cfg) = None"
      "c = \<lparr>c_Name = name, c_StandardToMixed = vs, c_MixedToStandard = Standard\<rparr>"
    by (auto simp: Compile_def Let_def std split: if_splits sum.splits option.splits)
  then show "length (c_StandardToMixed c) = 4" "distinct (c_StandardToMixed c)"
    "c_MixedToStandard c = Standard" "c_Name c = name"
    "pc_AllowPassthrough cfg \<or> list_all (\<lambda>v. \<not> isStandard v) (c_StandardToMixed c)"
    by (auto simp: mixedValues_length validateMixed_None)
qed

lemma four_values: "length xs = 4 \<Longrightarrow> xs = [xs ! 0, xs ! 1, xs ! 2, xs ! 3]"
  by (simp add: list_eq_iff_nth_eq less_Suc_eq numeral_eq_Suc)

lemma kind_cases: "isStandard w \<Longrightarrow> w = 1 \<or> w = 2 \<or> w = 3 \<or> w = 4"
  by (auto simp: isStandard_def Standard_def StandardInitiation_def StandardResponse_def
      StandardCookieReply_def StandardTransportData_def)

text \<open>
  C39. A compiled profile is reversible on the wire: for every standard type word the egress
  lookup gives a mixed word, the ingress lookup maps that word back to the same kind and the
  same standard word, and unless the profile allows passthrough the mixed word is itself no
  standard one.
\<close>

theorem profile_wire_roundtrip:
  assumes "Compile name cfg = Inr c" and "isStandard w"
  shows "\<exists>m. profile_mixed_from_kind c (kind_from_standard w) = Some m
           \<and> profile_decode_mixed c m = Some (kind_from_standard w, w)
           \<and> (pc_AllowPassthrough cfg \<or> \<not> isStandard m)"
proof -
  let ?t = "c_StandardToMixed c"
  have t: "?t = [?t ! 0, ?t ! 1, ?t ! 2, ?t ! 3]"
    using Compile_Inr(1) [OF assms(1)] by (rule four_values)
  have "distinct [?t ! 0, ?t ! 1, ?t ! 2, ?t ! 3]"
    using Compile_Inr(2) [OF assms(1)] t by simp
  moreover have "pc_AllowPassthrough cfg
      \<or> list_all (\<lambda>v. \<not> isStandard v) [?t ! 0, ?t ! 1, ?t ! 2, ?t ! 3]"
    using Compile_Inr(5) [OF assms(1)] t by simp
  moreover have "c_MixedToStandard c = [1, 2, 3, 4]"
    using Compile_Inr(3) [OF assms(1)]
    by (simp add: Standard_def StandardInitiation_def StandardResponse_def
        StandardCookieReply_def StandardTransportData_def)
  ultimately show ?thesis
    using kind_cases [OF assms(2)]
    by (auto simp: kind_from_standard_def profile_mixed_from_kind_def profile_decode_mixed_def)
qed

definition preset_config :: ProfileConfig where
  "preset_config = \<lparr>pc_Preset = ''wireguard-mix-wire-values-v1'',
     pc_TypeWord = \<lparr>tw_Initiation = 0, tw_Response = 0, tw_CookieReply = 0, tw_TransportData = 0\<rparr>,
     pc_IndexMode = ''none'', pc_AllowPassthrough = False\<rparr>"

lemma preset_compiles:
  "Compile ''home'' preset_config =
     Inr \<lparr>c_Name = ''home'', c_StandardToMixed = WireguardMixWireValuesV1,
          c_MixedToStandard = [1, 2, 3, 4]\<rparr>"
  by (simp add: Compile_def preset_config_def mixedValues_def validateMixed_def isStandard_def
      WireguardMixWireValuesV1_def Standard_def StandardInitiation_def StandardResponse_def
      StandardCookieReply_def StandardTransportData_def upt_rec)

theorem profile_wire_roundtrip_witness:
  "\<exists>c m. Compile ''home'' preset_config = Inr c
     \<and> profile_mixed_from_kind c (kind_from_standard 4) = Some m
     \<and> profile_decode_mixed c m = Some (kind_from_standard 4, 4)
     \<and> (pc_AllowPassthrough preset_config \<or> \<not> isStandard m)"
proof -
  have "isStandard 4"
    by (simp add: isStandard_def Standard_def StandardTransportData_def)
  then show ?thesis
    using profile_wire_roundtrip [OF preset_compiles, of 4] preset_compiles by blast
qed

section \<open>Generated profiles\<close>

definition usable :: "u32 \<Rightarrow> bool" where
  "usable v = (v \<noteq> 0 \<and> \<not> isStandard v)"

lemma draw_values_sound:
  assumes "draw_values n values draws = Some (Inr vs)" "distinct values" "list_all usable values"
  shows "distinct vs \<and> list_all usable vs \<and> length vs = length values + n"
  using assms
  by (induction n "values" draws rule: draw_values.induct) (auto simp: usable_def split: if_splits)

lemma draw_values_complete:
  assumes "n \<le> card ({v. Inr v \<in> set draws \<and> usable v} - set values)"
    and "\<forall>d \<in> set draws. \<exists>v. d = Inr v"
  shows "\<exists>vs. draw_values n values draws = Some (Inr vs)"
  using assms
proof (induction n "values" draws rule: draw_values.induct)
  case (4 n "values" v draws)
  let ?A = "\<lambda>draws values. {v. Inr v \<in> set draws \<and> usable v} - set values"
  have fin: "finite (?A draws values)" for "values"
    by (rule finite_subset [of _ "(\<lambda>d. case d of Inr v \<Rightarrow> v) ` set draws"])
      (auto simp: image_iff split: sum.splits intro!: bexI)
  show ?case
  proof (cases "usable v \<and> v \<notin> set values")
    case True
    then have "?A (Inr v # draws) values = insert v (?A draws (values @ [v]))" by auto
    with 4(4) fin [of "values @ [v]"] have "n \<le> card (?A draws (values @ [v]))" by simp
    then show ?thesis using True 4(3) 4(5) by (auto simp: usable_def)
  next
    case False
    then have "?A (Inr v # draws) values = ?A draws values" by auto
    then show ?thesis using False 4 by (auto simp: usable_def)
  qed
qed auto

lemma values_compile:
  assumes "distinct vs" "list_all usable vs" "length vs = 4"
  defines "cfg \<equiv> \<lparr>pc_Preset = [],
     pc_TypeWord = \<lparr>tw_Initiation = vs ! 0, tw_Response = vs ! 1, tw_CookieReply = vs ! 2,
                    tw_TransportData = vs ! 3\<rparr>, pc_IndexMode = ''none'', pc_AllowPassthrough = False\<rparr>"
  shows "\<exists>c. Compile ''generated'' cfg = Inr c"
proof -
  have "mixedValues cfg = Inr vs"
    using assms(2) four_values [OF assms(3)]
    by (auto simp: cfg_def mixedValues_def usable_def list_all_iff list_ex_iff)
  moreover have "validateMixed vs False = None"
    using assms by (auto simp: validateMixed_None usable_def list_all_iff)
  ultimately show ?thesis by (simp add: Compile_def cfg_def)
qed

text \<open>
  C40. Random profile generation ends and is usable: as soon as the random source has
  produced four different words that are neither zero nor standard, \<open>GenerateRandom\<close>
  returns a profile, and that profile compiles with four pairwise distinct mixed words,
  none of them standard.
\<close>

theorem generate_random_usable:
  assumes "4 \<le> card {v. Inr v \<in> set draws \<and> v \<noteq> 0 \<and> \<not> isStandard v}"
    and "\<forall>d \<in> set draws. \<exists>v. d = Inr v"
  shows "\<exists>cfg c. GenerateRandom draws = Some (Inr cfg) \<and> Compile ''generated'' cfg = Inr c
           \<and> distinct (c_StandardToMixed c)
           \<and> list_all (\<lambda>v. \<not> isStandard v) (c_StandardToMixed c)"
proof -
  have "4 \<le> card ({v. Inr v \<in> set draws \<and> usable v} - set [])"
    using assms(1) by (simp add: usable_def)
  from draw_values_complete [OF this assms(2)]
  obtain vs where vs: "draw_values 4 [] draws = Some (Inr vs)" by blast
  then have "distinct vs" "list_all usable vs" "length vs = 4"
    using draw_values_sound [OF vs] by auto
  then obtain c where c: "Compile ''generated'' \<lparr>pc_Preset = [],
     pc_TypeWord = \<lparr>tw_Initiation = vs ! 0, tw_Response = vs ! 1, tw_CookieReply = vs ! 2,
                    tw_TransportData = vs ! 3\<rparr>, pc_IndexMode = ''none'', pc_AllowPassthrough = False\<rparr> = Inr c"
    using values_compile by blast
  show ?thesis
    using Compile_Inr(2,5) [OF c] c vs by (simp add: GenerateRandom_def Let_def)
qed

theorem generate_random_usable_witness:
  "\<exists>cfg c. GenerateRandom (map Inr [0, 9, 4, 9, 7, 8, 6]) = Some (Inr cfg)
     \<and> Compile ''generated'' cfg = Inr c \<and> distinct (c_StandardToMixed c)
     \<and> list_all (\<lambda>v. \<not> isStandard v) (c_StandardToMixed c)"
proof (rule generate_random_usable)
  have "{6, 7, 8, 9} \<subseteq> {v. (Inr v :: err + u32) \<in> set (map Inr [0, 9, 4, 9, 7, 8, 6])
                          \<and> v \<noteq> 0 \<and> \<not> isStandard v}" (is "_ \<subseteq> ?S")
    by (simp add: isStandard_def Standard_def StandardInitiation_def StandardResponse_def
        StandardCookieReply_def StandardTransportData_def)
  moreover have "finite ?S"
    by (rule finite_subset [of _ "{0, 9, 4, 7, 8, 6}"]) auto
  ultimately show "4 \<le> card ?S"
    using card_mono [of ?S "{6, 7, 8, 9}"] by simp
qed auto

end
