(* ===== verification/Fake_ABI.thy ===== *)
theory Fake_ABI
  imports Bytes
begin

text \<open>
  The FakeTCP structures that userspace and the BPF programs share:
  \<open>internal/abi/abi.go\<close>. Fixed byte arrays are byte lists; every comparison in the code
  is with another array of the same length or with the zero array, so the length is stated
  where it matters.
\<close>

definition FakeTCPStateIdle :: u8 where "FakeTCPStateIdle = 0"
definition FakeTCPStateSynSent :: u8 where "FakeTCPStateSynSent = 1"
definition FakeTCPStateSynReceived :: u8 where "FakeTCPStateSynReceived = 2"
definition FakeTCPStateEstablished :: u8 where "FakeTCPStateEstablished = 3"
definition FakeTCPStateDeleteClaimed :: u8 where "FakeTCPStateDeleteClaimed = 4"

lemmas state_defs = FakeTCPStateIdle_def FakeTCPStateSynSent_def FakeTCPStateSynReceived_def
  FakeTCPStateEstablished_def FakeTCPStateDeleteClaimed_def

definition FakeTCPEventNeedHandshake :: u8 where "FakeTCPEventNeedHandshake = 1"
definition FakeTCPEventSYN :: u8 where "FakeTCPEventSYN = 2"
definition FakeTCPEventSYNACK :: u8 where "FakeTCPEventSYNACK = 3"
definition FakeTCPEventACK :: u8 where "FakeTCPEventACK = 4"
definition FakeTCPEventRST :: u8 where "FakeTCPEventRST = 5"
definition FakeTCPEventFIN :: u8 where "FakeTCPEventFIN = 6"

lemmas event_type_defs = FakeTCPEventNeedHandshake_def FakeTCPEventSYN_def FakeTCPEventSYNACK_def
  FakeTCPEventACK_def FakeTCPEventRST_def FakeTCPEventFIN_def

definition FakeTCPEventABIVersion :: u16 where "FakeTCPEventABIVersion = 3"
definition FakeTCPEventSize :: nat where "FakeTCPEventSize = 112"
definition FakeTCPMaxCapturedPacket :: nat where "FakeTCPMaxCapturedPacket = 2304"
definition FakeTCPPacketEventSize :: nat where
  "FakeTCPPacketEventSize = FakeTCPEventSize + FakeTCPMaxCapturedPacket"

record FakeTCPSessionKey =
  k_Generation :: u64
  k_LocalIPv4 :: u32
  k_RemoteIPv4 :: u32
  k_UnderlayIndex :: u32
  k_LocalPort :: u16
  k_RemotePort :: u16
  k_WGID :: u32
  k_Reserved :: "byte list"

record FakeTCPSessionValue =
  v_Generation :: u64
  v_LastSeenNanos :: u64
  v_TXSequence :: u32
  v_RXSequence :: u32
  v_LocalISN :: u32
  v_RemoteISN :: u32
  v_Window :: u16
  v_State :: u8
  v_Flags :: u8
  v_Reserved :: "byte list"
  v_KernelLock :: u32
  v_KernelReserved :: u32
  v_Revision :: u64
  v_SessionID :: u64
  v_RuntimeIncarnation :: "byte list"

record FakeTCPEvent =
  ev_Key :: FakeTCPSessionKey
  ev_TimestampNanos :: u64
  ev_RuntimeIncarnation :: "byte list"
  ev_CaptureSequence :: u64
  ev_SessionRevision :: u64
  ev_SessionID :: u64
  ev_CaptureCPU :: u32
  ev_Sequence :: u32
  ev_Acknowledgement :: u32
  ev_PayloadLength :: u32
  ev_FWMark :: u32
  ev_WGID :: u32
  ev_PacketLength :: u16
  ev_EventABIVersion :: u16
  ev_Type :: u8
  ev_TCPFlags :: u8

text \<open>The zero value of \<open>[n]byte\<close>.\<close>

abbreviation zero_array :: "nat \<Rightarrow> byte list" where
  "zero_array n \<equiv> replicate n 0"

lemma zero_arrays:
  "zero_array 4 = [0, 0, 0, 0]"
  "zero_array 16 = [0, 0, 0, 0, 0, 0, 0, 0, 0, 0, 0, 0, 0, 0, 0, 0]"
  by (simp_all add: numeral_eq_Suc)

end
