(* ===== verification/Identity.thy ===== *)
theory Identity
  imports Fake_ABI
begin

text \<open>
  Identities and the small helpers around them: \<open>runtime_identity.go\<close>,
  \<open>runtime_domain.go\<close>, \<open>runtime_identity_commit.go\<close>, \<open>generation_precommit.go\<close>,
  \<open>monotonic.go\<close>, \<open>key.go\<close> and \<open>mtu.go\<close> of \<open>internal/faketcp\<close>. A callback is a
  function on an outside world of type \<open>'x\<close> that returns its error and the new world; a nil
  callback is \<open>None\<close>.
\<close>

section \<open>Runtime and capture identities\<close>

record RuntimeIdentity =
  rt_Generation :: u64
  rt_Incarnation :: "byte list"

record CaptureIdentity =
  ci_Runtime :: RuntimeIdentity
  ci_CPU :: u32
  ci_Sequence :: u64

definition zero_incarnation :: "byte list" where
  "zero_incarnation = zero_array 16"

definition zero_identity :: RuntimeIdentity where
  "zero_identity = \<lparr>rt_Generation = 0, rt_Incarnation = zero_incarnation\<rparr>"

definition zero_capture :: CaptureIdentity where
  "zero_capture = \<lparr>ci_Runtime = zero_identity, ci_CPU = 0, ci_Sequence = 0\<rparr>"

text \<open>\<open>random\<close> is the result of \<open>rand.Read\<close> on the sixteen bytes.\<close>

definition newRuntimeIncarnation :: "err + byte list \<Rightarrow> err + byte list" where
  "newRuntimeIncarnation random =
     (case random of
        Inl e \<Rightarrow> Inl (ErrWrap ''generate faketcp runtime incarnation'' [e])
      | Inr incarnation \<Rightarrow>
          if incarnation = zero_incarnation
          then Inl (ErrNew ''generated zero faketcp runtime incarnation'')
          else Inr incarnation)"

definition validateRuntimeIdentity :: "RuntimeIdentity \<Rightarrow> err option" where
  "validateRuntimeIdentity identity =
     (if rt_Generation identity = 0
      then Some (ErrNew ''faketcp runtime identity generation is zero'')
      else if rt_Incarnation identity = zero_incarnation
      then Some (ErrNew ''faketcp runtime identity incarnation is zero'')
      else None)"

definition validateCaptureIdentity :: "CaptureIdentity \<Rightarrow> u64 \<Rightarrow> err option" where
  "validateCaptureIdentity identity generation =
     (case validateRuntimeIdentity (ci_Runtime identity) of
        Some e \<Rightarrow> Some e
      | None \<Rightarrow>
          if rt_Generation (ci_Runtime identity) \<noteq> generation
          then Some (ErrNew ''faketcp capture identity generation does not match flow generation'')
          else if ci_Sequence identity = 0
          then Some (ErrNew ''faketcp capture identity sequence is zero'')
          else None)"

definition runtimeIdentityFromEvent :: "FakeTCPEvent \<Rightarrow> RuntimeIdentity" where
  "runtimeIdentityFromEvent event =
     \<lparr>rt_Generation = k_Generation (ev_Key event), rt_Incarnation = ev_RuntimeIncarnation event\<rparr>"

definition captureIdentityFromEvent :: "FakeTCPEvent \<Rightarrow> CaptureIdentity" where
  "captureIdentityFromEvent event =
     \<lparr>ci_Runtime = runtimeIdentityFromEvent event, ci_CPU = ev_CaptureCPU event,
      ci_Sequence = ev_CaptureSequence event\<rparr>"

lemma validateRuntimeIdentity_None [simp]:
  "validateRuntimeIdentity i = None \<longleftrightarrow> rt_Generation i \<noteq> 0 \<and> rt_Incarnation i \<noteq> zero_incarnation"
  by (simp add: validateRuntimeIdentity_def)

lemma validateCaptureIdentity_None:
  "validateCaptureIdentity c g = None \<longleftrightarrow>
     g \<noteq> 0 \<and> rt_Generation (ci_Runtime c) = g \<and> rt_Incarnation (ci_Runtime c) \<noteq> zero_incarnation
     \<and> ci_Sequence c \<noteq> 0"
  by (auto simp: validateCaptureIdentity_def split: option.splits)
    (auto simp: validateRuntimeIdentity_def split: if_splits)

section \<open>The runtime domain and its session identifiers\<close>

text \<open>
  \<open>RuntimeDomain\<close> is the record below; the allocator's mutex makes every allocation one
  step. The state of the domain is shared by all its engines; \<open>dom_state\<close> is its address.
\<close>

record runtimeIdentityCommitState =
  once_done :: bool
  commit_err :: "err option"

record RuntimeDomain =
  dom_identity :: RuntimeIdentity
  dom_commit :: runtimeIdentityCommitState
  dom_next :: u64
  dom_state :: nat

definition NewRuntimeDomain :: "u64 \<Rightarrow> err + byte list \<Rightarrow> nat \<Rightarrow> err + RuntimeDomain" where
  "NewRuntimeDomain generation random address =
     (if generation = 0 then Inl (ErrNew ''faketcp runtime domain generation must be non-zero'')
      else case newRuntimeIncarnation random of
        Inl e \<Rightarrow> Inl e
      | Inr incarnation \<Rightarrow>
          Inr \<lparr>dom_identity = \<lparr>rt_Generation = generation, rt_Incarnation = incarnation\<rparr>,
               dom_commit = \<lparr>once_done = False, commit_err = None\<rparr>, dom_next = 0, dom_state = address\<rparr>)"

definition Identity :: "RuntimeDomain option \<Rightarrow> RuntimeIdentity" where
  "Identity domain = (case domain of None \<Rightarrow> zero_identity | Some d \<Rightarrow> dom_identity d)"

text \<open>
  \<open>sessionIDAllocator.allocate\<close> on the value of \<open>next\<close>: the identifier and the new value. A nil
  allocator, which is refused before \<open>next\<close> is read, has no such value; the domain constructor
  always attaches one.
\<close>

definition allocate :: "u64 \<Rightarrow> (err + u64) \<times> u64" where
  "allocate next_id =
     (if next_id = NOT 0 then (Inl (ErrNew ''faketcp session ID space is exhausted''), next_id)
      else (Inr (next_id + 1), next_id + 1))"

lemma allocate_cases:
  obtains (full) "next_id = -1" "allocate next_id = (Inl (ErrNew ''faketcp session ID space is exhausted''), next_id)"
  | (fresh) "next_id \<noteq> -1" "allocate next_id = (Inr (next_id + 1), next_id + 1)"
      "unat (next_id + 1) = unat next_id + 1"
proof (cases "next_id = -1")
  case False
  then have "unat (next_id + 1) = unat next_id + 1"
    by (metis Suc_eq_plus1 add.commute add_eq_0_iff unatSuc)
  with False fresh show thesis by (simp add: allocate_def)
qed (simp add: allocate_def full)

lemma allocate_mono: "allocate n = (r, n') \<Longrightarrow> unat n \<le> unat n'"
  by (cases n rule: allocate_cases) auto

lemma allocate_fresh:
  "allocate n = (Inr i, n') \<Longrightarrow> unat n < unat i \<and> n' = i \<and> i \<noteq> 0"
  by (cases n rule: allocate_cases) auto

text \<open>The identifiers that a run of \<open>k\<close> allocations hands out, the failed ones left out.\<close>

fun allocations :: "nat \<Rightarrow> u64 \<Rightarrow> u64 list" where
  "allocations 0 n = []"
| "allocations (Suc k) n =
     (case allocate n of (Inr i, n') \<Rightarrow> i # allocations k n' | (Inl e, n') \<Rightarrow> allocations k n')"

lemma allocations_above: "i \<in> set (allocations k n) \<Longrightarrow> unat n < unat i"
proof (induction k arbitrary: n)
  case (Suc k)
  show ?case
    using Suc.prems Suc.IH by (cases n rule: allocate_cases) fastforce+
qed simp

lemma allocations_distinct: "distinct (allocations k n)"
proof (induction k arbitrary: n)
  case (Suc k)
  show ?case
    using Suc.IH allocations_above by (cases n rule: allocate_cases) fastforce+
qed simp

section \<open>Commit once\<close>

text \<open>
  \<open>Engine.commitRuntimeIdentityOnce\<close> on the domain's commit state. \<open>available\<close> says that
  the engine and its commit state are not nil. \<open>sync.Once\<close> makes concurrent callers wait, so
  calls are one after another.
\<close>

definition commitRuntimeIdentityOnce ::
  "bool \<Rightarrow> err \<Rightarrow> ('x \<Rightarrow> err option \<times> 'x) option \<Rightarrow> runtimeIdentityCommitState \<Rightarrow> 'x
     \<Rightarrow> err option \<times> runtimeIdentityCommitState \<times> 'x" where
  "commitRuntimeIdentityOnce available consumed commit state x =
     (case (available, commit) of
        (True, Some f) \<Rightarrow>
          if \<not> once_done state then
            (case f x of (e, x') \<Rightarrow> (e, state\<lparr>once_done := True, commit_err := e\<rparr>, x'))
          else (case commit_err state of
                  Some e \<Rightarrow> (errors_join [Some consumed, Some e], state, x)
                | None \<Rightarrow> (Some consumed, state, x))
      | _ \<Rightarrow> (errors_join [Some consumed, Some (ErrVar ErrRuntimeIdentityCommitStateUnavailable)],
              state, x))"

fun commits :: "(err \<times> ('x \<Rightarrow> err option \<times> 'x)) list \<Rightarrow> runtimeIdentityCommitState \<Rightarrow> 'x
    \<Rightarrow> err option list \<times> runtimeIdentityCommitState \<times> 'x" where
  "commits [] state x = ([], state, x)"
| "commits ((consumed, f) # calls) state x =
     (case commitRuntimeIdentityOnce True consumed (Some f) state x of
        (e, state', x') \<Rightarrow>
          (case commits calls state' x' of (es, state'', x'') \<Rightarrow> (e # es, state'', x'')))"

lemma commit_consumed:
  "once_done state \<Longrightarrow>
     \<exists>e. commitRuntimeIdentityOnce True consumed (Some f) state x = (Some e, state, x)"
  by (cases "commit_err state") (auto simp: commitRuntimeIdentityOnce_def errors_join_def)

lemma commits_after_first:
  "once_done state \<Longrightarrow>
     snd (commits calls state x) = (state, x) \<and> None \<notin> set (fst (commits calls state x))"
proof (induction calls)
  case (Cons c calls)
  then show ?case
    using commit_consumed [of state "fst c" "snd c" x]
    by (cases c) (auto split: prod.splits)
qed simp

section \<open>Ordering of a generation's publication\<close>

definition CommitGenerationReachability ::
  "('x \<Rightarrow> err option \<times> 'x) option \<Rightarrow> ('x \<Rightarrow> err option \<times> 'x) option \<Rightarrow> 'x \<Rightarrow> err option \<times> 'x" where
  "CommitGenerationReachability preCommit makeReachable x =
     (case preCommit of
        None \<Rightarrow> (Some (ErrNew ''faketcp generation pre-commit hook is nil''), x)
      | Some prepare \<Rightarrow>
          (case makeReachable of
             None \<Rightarrow> (Some (ErrNew ''faketcp generation reachability callback is nil''), x)
           | Some reach \<Rightarrow>
               (case prepare x of
                  (Some e, x') \<Rightarrow> (Some e, x')
                | (None, x') \<Rightarrow> reach x')))"

section \<open>Clock, MTU and address helpers\<close>

text \<open>The two \<open>int64\<close> arguments are integers; the result is computed in \<open>uint64\<close>.\<close>

definition monotonicNanosFromParts :: "int \<Rightarrow> int \<Rightarrow> err + u64" where
  "monotonicNanosFromParts seconds nanoseconds =
     (if seconds < 0 \<or> nanoseconds < 0 \<or> nanoseconds \<ge> 1000000000
      then Inl (ErrNew ''CLOCK_MONOTONIC returned an invalid timespec'')
      else let unsignedSeconds = (word_of_int seconds :: u64) in
        if (-1 - word_of_int nanoseconds) div 1000000000 < unsignedSeconds
        then Inl (ErrNew ''CLOCK_MONOTONIC nanoseconds overflow uint64'')
        else Inr (unsignedSeconds * 1000000000 + word_of_int nanoseconds))"

definition FakeTCPHeaderDelta :: u64 where "FakeTCPHeaderDelta = 12"

definition WireHeaderOverhead :: int where "WireHeaderOverhead = uint FakeTCPHeaderDelta"

definition AdjustTransportMTU :: "int \<Rightarrow> err + int" where
  "AdjustTransportMTU udpTransportMTU =
     (if udpTransportMTU \<le> WireHeaderOverhead
      then Inl (ErrNew ''faketcp base transport MTU must exceed wire overhead'')
      else Inr (udpTransportMTU - WireHeaderOverhead))"

text \<open>A \<open>netip.Addr\<close>: the zero address, an IPv4 or an IPv6 one (with its zone).\<close>

datatype netip_addr =
    AddrZero
  | Addr4 "byte list"
  | Addr6 "byte list" string

definition RawIPv4BE32 :: "endian \<Rightarrow> netip_addr \<Rightarrow> (err + u32) option" where
  "RawIPv4BE32 en addr =
     (case addr of
        Addr4 bs \<Rightarrow> (case ne32 en bs of None \<Rightarrow> None | Some v \<Rightarrow> Some (Inr v))
      | _ \<Rightarrow> Some (Inl (ErrNew ''faketcp address is not IPv4'')))"

section \<open>Properties\<close>

text \<open>
  C37. Session identifiers are never reused: however many allocations the engines of one
  runtime domain make, the identifiers handed out are pairwise different and none is zero.
\<close>

theorem session_ids_never_reused:
  "distinct (allocations k n) \<and> 0 \<notin> set (allocations k n)"
  using allocations_distinct allocations_above [of 0 k n] by auto

text \<open>
  C38. One runtime identity commits at most one kernel collection: in any sequence of commit
  attempts on a fresh domain only the first callback runs (the outside world afterwards is what
  that callback alone made of it), its caller gets its result, and every later caller gets an
  error.
\<close>

theorem runtime_identity_commits_once:
  "case commits ((consumed, f) # calls) \<lparr>once_done = False, commit_err = None\<rparr> x of
     (es, state, x') \<Rightarrow>
       x' = snd (f x) \<and> hd es = fst (f x) \<and> None \<notin> set (tl es)
       \<and> length es = Suc (length calls) \<and> state = \<lparr>once_done = True, commit_err = fst (f x)\<rparr>"
proof -
  have len: "length (fst (commits calls state x)) = length calls" for calls state and x :: 'a
    by (induction calls state x rule: commits.induct) (auto split: prod.splits)
  let ?s = "\<lparr>once_done = True, commit_err = fst (f x)\<rparr>"
  have first: "commitRuntimeIdentityOnce True consumed (Some f)
      \<lparr>once_done = False, commit_err = None\<rparr> x = (fst (f x), ?s, snd (f x))"
    by (simp add: commitRuntimeIdentityOnce_def split: prod.splits)
  show ?thesis
    using commits_after_first [of ?s calls "snd (f x)"] len [of calls ?s "snd (f x)"]
    by (auto simp: first split: prod.splits)
qed

lemma uint_max_u64: "uint (- 1 :: u64) = 2 ^ 64 - 1"
  by (simp add: unsigned_minus_1_eq_mask mask_eq_exp_minus_1)

text \<open>
  The conversion of a monotonic timespec to nanoseconds is exact: it refuses precisely the
  invalid timespecs and those whose nanoseconds do not fit in 64 bits, and otherwise returns
  the true number with no wrap-around.
\<close>

lemma monotonic_nanos_exact:
  assumes "seconds < 2 ^ 63"
  shows "monotonicNanosFromParts seconds nanoseconds = Inr v \<longleftrightarrow>
           0 \<le> seconds \<and> 0 \<le> nanoseconds \<and> nanoseconds < 10 ^ 9
           \<and> uint v = seconds * 10 ^ 9 + nanoseconds"
proof (cases "0 \<le> seconds \<and> 0 \<le> nanoseconds \<and> nanoseconds < 10 ^ 9")
  case True
  let ?s = "word_of_int seconds :: u64" and ?n = "word_of_int nanoseconds :: u64"
  have s: "uint ?s = seconds" and n: "uint ?n = nanoseconds"
    using True assms by (simp_all add: uint_word_of_int take_bit_int_eq_self)
  have "uint (-1 - ?n) = 2 ^ 64 - 1 - nanoseconds"
    using True n by (subst uint_minus_simple_alt [THEN iffD1]) (simp_all add: word_le_def uint_max_u64)
  then have "(-1 - ?n) div 1000000000 < ?s \<longleftrightarrow> (2 ^ 64 - 1 - nanoseconds) div 10 ^ 9 < seconds"
    by (simp add: word_less_def uint_div_distrib s)
  moreover have "(2 ^ 64 - 1 - nanoseconds) div 10 ^ 9 < seconds \<longleftrightarrow>
      2 ^ 64 \<le> seconds * 10 ^ 9 + nanoseconds"
    using True by (simp add: div_less_iff_less_mult) linarith
  moreover have "uint (?s * 1000000000 + ?n) = seconds * 10 ^ 9 + nanoseconds"
    if "seconds * 10 ^ 9 + nanoseconds < 2 ^ 64"
    using True that s n by (simp add: uint_word_arith_bintrs take_bit_eq_mod)
  ultimately show ?thesis
    using True uint_lt2p [of v] unfolding monotonicNanosFromParts_def Let_def
    by (auto simp: word_uint_eq_iff)
qed (auto simp: monotonicNanosFromParts_def)

end
