(* ===== verification/Session_Kernel.thy ===== *)
theory Session_Kernel
  imports Identity
begin

text \<open>
  The kernel side of an established session: the record checks of
  \<open>internal/faketcp/session_store.go\<close> and the BPF helpers of \<open>bpf/wg_mix_faketcp.h\<close> that
  read, change and claim an entry of the session map. Every helper holds the per-session spin
  lock while it looks at the entry, so each is one atomic step; the lock word itself carries no
  data.
\<close>

section \<open>Userspace checks on keys and values\<close>

definition validateBoundSessionKey :: "FakeTCPSessionKey \<Rightarrow> u64 \<Rightarrow> err option" where
  "validateBoundSessionKey key generation =
     (if k_Generation key \<noteq> generation
      then Some (ErrNew ''faketcp session key generation does not match store generation'')
      else if k_LocalIPv4 key = 0 \<or> k_RemoteIPv4 key = 0 \<or> k_UnderlayIndex key = 0 \<or>
              k_LocalPort key = 0 \<or> k_RemotePort key = 0 \<or> k_WGID key = 0
      then Some (ErrNew ''faketcp session key has a zero address, interface, port, or WGID'')
      else if k_Reserved key \<noteq> zero_array 4
      then Some (ErrNew ''faketcp session key has nonzero reserved bytes'')
      else None)"

definition validateEstablishedSessionValue :: "FakeTCPSessionValue \<Rightarrow> u64 \<Rightarrow> err option" where
  "validateEstablishedSessionValue value generation =
     (if v_Generation value \<noteq> generation
      then Some (ErrNew ''faketcp session value generation does not match store generation'')
      else if v_State value \<noteq> FakeTCPStateEstablished
      then Some (ErrNew ''faketcp session state is not established'')
      else if v_Flags value \<noteq> 0 then Some (ErrNew ''faketcp session has unsupported flags'')
      else if v_Reserved value \<noteq> zero_array 4
      then Some (ErrNew ''faketcp session has nonzero reserved bytes'')
      else if v_KernelLock value \<noteq> 0 \<or> v_KernelReserved value \<noteq> 0
      then Some (ErrNew ''faketcp session has nonzero kernel lock or reserved bytes'')
      else if v_Revision value = 0 then Some (ErrNew ''faketcp session revision is zero'')
      else if v_SessionID value = 0 then Some (ErrNew ''faketcp session ID is zero'')
      else if v_RuntimeIncarnation value = zero_array 16
      then Some (ErrNew ''faketcp session runtime incarnation is zero'')
      else None)"

section \<open>BPF checks\<close>

definition aggregate :: "byte list \<Rightarrow> byte" where
  "aggregate bs = foldl (OR) 0 bs"

definition difference :: "byte list \<Rightarrow> byte list \<Rightarrow> byte" where
  "difference xs ys = foldl (OR) 0 (map2 (XOR) xs ys)"

definition faketcp_nonzero_incarnation :: "byte list \<Rightarrow> bool" where
  "faketcp_nonzero_incarnation incarnation = (aggregate incarnation \<noteq> 0)"

definition faketcp_session_key_valid :: "FakeTCPSessionKey \<Rightarrow> bool" where
  "faketcp_session_key_valid key =
     (if k_Generation key = 0 \<or> k_LocalIPv4 key = 0 \<or> k_RemoteIPv4 key = 0 \<or>
         k_UnderlayIndex key = 0 \<or> k_LocalPort key = 0 \<or> k_RemotePort key = 0 \<or> k_WGID key = 0
      then False else aggregate (k_Reserved key) = 0)"

definition faketcp_session_metadata_valid_locked :: "FakeTCPSessionValue \<Rightarrow> u64 \<Rightarrow> bool" where
  "faketcp_session_metadata_valid_locked session generation =
     (v_Generation session = generation \<and> v_State session = FakeTCPStateEstablished \<and>
      v_Flags session = 0 \<and> aggregate (v_Reserved session) = 0 \<and>
      v_KernelReserved session = 0 \<and> v_Revision session \<noteq> 0 \<and> v_SessionID session \<noteq> 0 \<and>
      faketcp_nonzero_incarnation (v_RuntimeIncarnation session))"

record faketcp_session_authority =
  au_session_id :: u64
  au_runtime_incarnation :: "byte list"

record faketcp_session_projection =
  pj_local_isn :: u32
  pj_remote_isn :: u32
  pj_window :: u16
  pj_state :: u8
  pj_flags :: u8

definition faketcp_session_lifetime_snapshot_locked ::
  "FakeTCPSessionValue \<Rightarrow> faketcp_session_authority \<times> faketcp_session_projection" where
  "faketcp_session_lifetime_snapshot_locked session =
     (\<lparr>au_session_id = v_SessionID session, au_runtime_incarnation = v_RuntimeIncarnation session\<rparr>,
      \<lparr>pj_local_isn = v_LocalISN session, pj_remote_isn = v_RemoteISN session,
       pj_window = v_Window session, pj_state = v_State session, pj_flags = v_Flags session\<rparr>)"

definition faketcp_session_authority_matches_locked ::
  "FakeTCPSessionValue \<Rightarrow> u64 \<Rightarrow> faketcp_session_authority \<Rightarrow> faketcp_session_projection \<Rightarrow> bool" where
  "faketcp_session_authority_matches_locked session generation authority projection =
     (if \<not> faketcp_session_metadata_valid_locked session generation \<or>
         v_SessionID session \<noteq> au_session_id authority \<or>
         v_LocalISN session \<noteq> pj_local_isn projection \<or>
         v_RemoteISN session \<noteq> pj_remote_isn projection \<or>
         v_Window session \<noteq> pj_window projection \<or>
         v_State session \<noteq> pj_state projection \<or>
         v_Flags session \<noteq> pj_flags projection
      then False
      else difference (v_RuntimeIncarnation session) (au_runtime_incarnation authority) = 0)"

definition faketcp_session_compact_authority_matches_locked ::
  "FakeTCPSessionValue \<Rightarrow> u64 \<Rightarrow> faketcp_session_authority \<Rightarrow> bool" where
  "faketcp_session_compact_authority_matches_locked session generation authority =
     (if \<not> faketcp_session_metadata_valid_locked session generation \<or>
         v_SessionID session \<noteq> au_session_id authority
      then False
      else difference (v_RuntimeIncarnation session) (au_runtime_incarnation authority) = 0)"

definition faketcp_session_snapshot_direct_established ::
  "FakeTCPSessionValue \<Rightarrow> u64 \<Rightarrow> (faketcp_session_authority \<times> faketcp_session_projection) option" where
  "faketcp_session_snapshot_direct_established session generation =
     (if faketcp_session_metadata_valid_locked session generation
      then Some (faketcp_session_lifetime_snapshot_locked session) else None)"

section \<open>The one writer of the packet path\<close>

definition FAKETCP_SESSION_MUTATE_TX :: u32 where "FAKETCP_SESSION_MUTATE_TX = 1"
definition FAKETCP_SESSION_MUTATE_RX :: u32 where "FAKETCP_SESSION_MUTATE_RX = 2"
definition FAKETCP_SESSION_MUTATE_TOUCH :: u32 where "FAKETCP_SESSION_MUTATE_TOUCH = 3"

record faketcp_session_mutation_result =
  mr_sequence :: u32
  mr_acknowledgement :: u32
  mr_window :: u16

text \<open>
  The pointers are values here: every caller passes a session it has looked up, the authority and the
  projection of its admission, and a result for \<open>FAKETCP_SESSION_MUTATE_TX\<close>, so the refusal of null
  pointers has no counterpart. The second component is the session after the critical section.
\<close>

definition faketcp_session_mutate ::
  "FakeTCPSessionValue \<Rightarrow> u64 \<Rightarrow> u64 \<Rightarrow> u32 \<Rightarrow> u32 \<Rightarrow> faketcp_session_authority
     \<Rightarrow> faketcp_session_projection
     \<Rightarrow> bool \<times> FakeTCPSessionValue \<times> faketcp_session_mutation_result" where
  "faketcp_session_mutate session generation now operation argument authority projection =
     (let zero = \<lparr>mr_sequence = 0, mr_acknowledgement = 0, mr_window = 0\<rparr> in
      if operation < FAKETCP_SESSION_MUTATE_TX \<or> FAKETCP_SESSION_MUTATE_TOUCH < operation
      then (False, session, zero)
      else if \<not> (faketcp_session_authority_matches_locked session generation authority projection
                 \<and> v_Revision session \<noteq> NOT 0)
      then (False, session, zero)
      else
        let result = (if operation = FAKETCP_SESSION_MUTATE_TX
              then \<lparr>mr_sequence = v_TXSequence session, mr_acknowledgement = v_RXSequence session,
                    mr_window = v_Window session\<rparr> else zero);
            s1 = (if operation = FAKETCP_SESSION_MUTATE_TX
                  then session\<lparr>v_TXSequence := v_TXSequence session + argument\<rparr>
                  else if operation = FAKETCP_SESSION_MUTATE_RX
                       \<and> sint (argument - v_RXSequence session) > 0
                  then session\<lparr>v_RXSequence := argument\<rparr>
                  else session);
            s2 = (if operation \<noteq> FAKETCP_SESSION_MUTATE_TX \<and> v_LastSeenNanos s1 < now
                  then s1\<lparr>v_LastSeenNanos := now\<rparr> else s1)
        in (True, s2\<lparr>v_Revision := v_Revision s2 + 1\<rparr>, result))"

section \<open>The delete claim\<close>

definition FAKETCP_CLAIM_MALFORMED :: u32 where "FAKETCP_CLAIM_MALFORMED = 0"
definition FAKETCP_CLAIM_ABSENT :: u32 where "FAKETCP_CLAIM_ABSENT = 1"
definition FAKETCP_CLAIM_DIFFERENT :: u32 where "FAKETCP_CLAIM_DIFFERENT = 2"
definition FAKETCP_CLAIMED :: u32 where "FAKETCP_CLAIMED = 3"

lemmas claim_defs = FAKETCP_CLAIM_MALFORMED_def FAKETCP_CLAIM_ABSENT_def FAKETCP_CLAIM_DIFFERENT_def
  FAKETCP_CLAIMED_def

definition faketcp_session_matches_expected_locked ::
  "FakeTCPSessionValue \<Rightarrow> FakeTCPSessionValue \<Rightarrow> bool \<Rightarrow> bool" where
  "faketcp_session_matches_expected_locked session expected permit_claimed_state =
     (if v_Generation session \<noteq> v_Generation expected \<or>
         v_LastSeenNanos session \<noteq> v_LastSeenNanos expected \<or>
         v_TXSequence session \<noteq> v_TXSequence expected \<or>
         v_RXSequence session \<noteq> v_RXSequence expected \<or>
         v_LocalISN session \<noteq> v_LocalISN expected \<or>
         v_RemoteISN session \<noteq> v_RemoteISN expected \<or>
         v_Window session \<noteq> v_Window expected \<or>
         v_Flags session \<noteq> v_Flags expected \<or>
         v_KernelReserved session \<noteq> v_KernelReserved expected \<or>
         v_Revision session \<noteq> v_Revision expected \<or>
         v_SessionID session \<noteq> v_SessionID expected
      then False
      else if v_State session \<noteq> v_State expected \<and>
              \<not> (permit_claimed_state \<and> v_State session = FakeTCPStateDeleteClaimed
                 \<and> v_State expected = FakeTCPStateEstablished)
      then False
      else difference (v_Reserved session) (v_Reserved expected)
           OR difference (v_RuntimeIncarnation session) (v_RuntimeIncarnation expected) = 0)"

definition faketcp_claim_request_valid :: "FakeTCPSessionKey \<Rightarrow> FakeTCPSessionValue \<Rightarrow> bool" where
  "faketcp_claim_request_valid key expected =
     (faketcp_session_key_valid key \<and>
      k_Generation key = v_Generation expected \<and>
      v_State expected = FakeTCPStateEstablished \<and>
      v_Flags expected = 0 \<and> aggregate (v_Reserved expected) = 0 \<and> v_KernelLock expected = 0 \<and>
      v_KernelReserved expected = 0 \<and> v_Revision expected \<noteq> 0 \<and>
      v_SessionID expected \<noteq> 0 \<and>
      faketcp_nonzero_incarnation (v_RuntimeIncarnation expected))"

text \<open>
  The request travels as bytes: \<open>marshalFakeTCPSessionClaim\<close> writes the two structures in
  native byte order and the program loads them into its own structures.
\<close>

definition encode_key :: "endian \<Rightarrow> FakeTCPSessionKey \<Rightarrow> byte list" where
  "encode_key en k =
     put_ne64 en (k_Generation k) @ put_ne32 en (k_LocalIPv4 k) @ put_ne32 en (k_RemoteIPv4 k)
     @ put_ne32 en (k_UnderlayIndex k) @ put_ne16 en (k_LocalPort k) @ put_ne16 en (k_RemotePort k)
     @ put_ne32 en (k_WGID k) @ k_Reserved k"

definition encode_value :: "endian \<Rightarrow> FakeTCPSessionValue \<Rightarrow> byte list" where
  "encode_value en v =
     put_ne64 en (v_Generation v) @ put_ne64 en (v_LastSeenNanos v) @ put_ne32 en (v_TXSequence v)
     @ put_ne32 en (v_RXSequence v) @ put_ne32 en (v_LocalISN v) @ put_ne32 en (v_RemoteISN v)
     @ put_ne16 en (v_Window v) @ [v_State v, v_Flags v] @ v_Reserved v
     @ put_ne32 en (v_KernelLock v) @ put_ne32 en (v_KernelReserved v) @ put_ne64 en (v_Revision v)
     @ put_ne64 en (v_SessionID v) @ v_RuntimeIncarnation v"

definition marshalFakeTCPSessionClaim ::
  "endian \<Rightarrow> FakeTCPSessionKey \<Rightarrow> FakeTCPSessionValue \<Rightarrow> err + byte list" where
  "marshalFakeTCPSessionClaim en key expected =
     (let request = encode_key en key @ encode_value en expected in
      if length request \<noteq> 112 then Inl (ErrNew ''encoded faketcp compare-claim size'')
      else Inr request)"

definition load_key :: "endian \<Rightarrow> byte list \<Rightarrow> FakeTCPSessionKey option" where
  "load_key en b = do {
     generation \<leftarrow> ne64 en b;
     local \<leftarrow> ne32 en (drop 8 b);
     remote \<leftarrow> ne32 en (drop 12 b);
     underlay \<leftarrow> ne32 en (drop 16 b);
     lport \<leftarrow> ne16 en (drop 20 b);
     rport \<leftarrow> ne16 en (drop 22 b);
     wg \<leftarrow> ne32 en (drop 24 b);
     pad \<leftarrow> slice b 28 32;
     Some \<lparr>k_Generation = generation, k_LocalIPv4 = local, k_RemoteIPv4 = remote,
           k_UnderlayIndex = underlay, k_LocalPort = lport, k_RemotePort = rport, k_WGID = wg,
           k_Reserved = pad\<rparr>
   }"

definition load_value :: "endian \<Rightarrow> byte list \<Rightarrow> FakeTCPSessionValue option" where
  "load_value en b = do {
     generation \<leftarrow> ne64 en b;
     seen \<leftarrow> ne64 en (drop 8 b);
     tx \<leftarrow> ne32 en (drop 16 b);
     rx \<leftarrow> ne32 en (drop 20 b);
     lisn \<leftarrow> ne32 en (drop 24 b);
     risn \<leftarrow> ne32 en (drop 28 b);
     window \<leftarrow> ne16 en (drop 32 b);
     state \<leftarrow> rd b 34;
     flags \<leftarrow> rd b 35;
     pad \<leftarrow> slice b 36 40;
     lock \<leftarrow> ne32 en (drop 40 b);
     reserved \<leftarrow> ne32 en (drop 44 b);
     revision \<leftarrow> ne64 en (drop 48 b);
     session_id \<leftarrow> ne64 en (drop 56 b);
     incarnation \<leftarrow> slice b 64 80;
     Some \<lparr>v_Generation = generation, v_LastSeenNanos = seen, v_TXSequence = tx,
           v_RXSequence = rx, v_LocalISN = lisn, v_RemoteISN = risn, v_Window = window,
           v_State = state, v_Flags = flags, v_Reserved = pad, v_KernelLock = lock,
           v_KernelReserved = reserved, v_Revision = revision, v_SessionID = session_id,
           v_RuntimeIncarnation = incarnation\<rparr>
   }"

type_synonym session_map = "(FakeTCPSessionKey, FakeTCPSessionValue) gomap"

definition wg_faketcp_session_claim ::
  "endian \<Rightarrow> byte list \<Rightarrow> session_map \<Rightarrow> u32 \<times> session_map" where
  "wg_faketcp_session_claim en skb m =
     (if length skb \<noteq> 112 then (FAKETCP_CLAIM_MALFORMED, m)
      else case (load_key en skb, load_value en (drop 32 skb)) of
        (Some key, Some expected) \<Rightarrow>
          if \<not> faketcp_claim_request_valid key expected then (FAKETCP_CLAIM_MALFORMED, m)
          else (case m_get m key of
              None \<Rightarrow> (FAKETCP_CLAIM_ABSENT, m)
            | Some session \<Rightarrow>
                if faketcp_session_matches_expected_locked session expected True
                then (FAKETCP_CLAIMED,
                      if v_State session = FakeTCPStateEstablished
                      then m_put key (session\<lparr>v_State := FakeTCPStateDeleteClaimed\<rparr>) m else m)
                else (FAKETCP_CLAIM_DIFFERENT, m))
      | _ \<Rightarrow> (FAKETCP_CLAIM_MALFORMED, m))"

section \<open>Facts about the checks\<close>

lemma foldl_or_zero: "foldl (OR) a bs = (0 :: byte) \<longleftrightarrow> a = 0 \<and> (\<forall>b \<in> set bs. b = 0)"
  by (induction bs arbitrary: a) (auto simp: or_eq_0_iff)

lemma aggregate_zero: "aggregate bs = 0 \<longleftrightarrow> bs = zero_array (length bs)"
  by (auto simp: aggregate_def foldl_or_zero replicate_eqI)
    (metis in_set_replicate)

lemma word_xor_eq_0: "a XOR b = 0 \<longleftrightarrow> a = (b :: 'a :: len word)"
  by (metis xor.assoc xor.comm_neutral xor.left_neutral xor_self_eq)

lemma difference_zero: "length xs = length ys \<Longrightarrow> difference xs ys = 0 \<longleftrightarrow> xs = ys"
  unfolding difference_def foldl_or_zero
  by (induction xs ys rule: list_induct2) (auto simp: word_xor_eq_0)

text \<open>The array lengths that the Go and C types fix.\<close>

definition wf_key :: "FakeTCPSessionKey \<Rightarrow> bool" where
  "wf_key k \<longleftrightarrow> length (k_Reserved k) = 4"

definition wf_value :: "FakeTCPSessionValue \<Rightarrow> bool" where
  "wf_value v \<longleftrightarrow> length (v_Reserved v) = 4 \<and> length (v_RuntimeIncarnation v) = 16"

lemma validateEstablished_None:
  "validateEstablishedSessionValue v g = None \<longleftrightarrow>
     v_Generation v = g \<and> v_State v = FakeTCPStateEstablished \<and> v_Flags v = 0
     \<and> v_Reserved v = zero_array 4 \<and> v_KernelLock v = 0 \<and> v_KernelReserved v = 0
     \<and> v_Revision v \<noteq> 0 \<and> v_SessionID v \<noteq> 0 \<and> v_RuntimeIncarnation v \<noteq> zero_array 16"
  by (auto simp: validateEstablishedSessionValue_def)

lemma validateBound_None:
  "validateBoundSessionKey k g = None \<longleftrightarrow>
     k_Generation k = g \<and> k_LocalIPv4 k \<noteq> 0 \<and> k_RemoteIPv4 k \<noteq> 0 \<and> k_UnderlayIndex k \<noteq> 0
     \<and> k_LocalPort k \<noteq> 0 \<and> k_RemotePort k \<noteq> 0 \<and> k_WGID k \<noteq> 0 \<and> k_Reserved k = zero_array 4"
  by (auto simp: validateBoundSessionKey_def)

lemma claim_request_valid_iff:
  assumes "wf_key k" "wf_value v"
  shows "faketcp_claim_request_valid k v \<longleftrightarrow>
     k_Generation k \<noteq> 0 \<and> validateBoundSessionKey k (v_Generation v) = None
     \<and> validateEstablishedSessionValue v (k_Generation k) = None"
  using assms
  by (auto simp: faketcp_claim_request_valid_def faketcp_session_key_valid_def wf_key_def wf_value_def
      validateBound_None validateEstablished_None aggregate_zero faketcp_nonzero_incarnation_def)

lemma load_key_encode: "wf_key k \<Longrightarrow> load_key en (encode_key en k @ rest) = Some k"
  by (simp add: load_key_def encode_key_def wf_key_def slice_def
      ne64c.dec_enc ne32c.dec_enc ne16c.dec_enc)

lemma load_value_encode: "wf_value v \<Longrightarrow> load_value en (encode_value en v @ rest) = Some v"
  by (simp add: load_value_def encode_value_def wf_value_def slice_def rd_def nth_append
      ne64c.dec_enc ne32c.dec_enc ne16c.dec_enc)

lemma encode_lengths:
  "wf_key k \<Longrightarrow> length (encode_key en k) = 32" "wf_value v \<Longrightarrow> length (encode_value en v) = 80"
  by (simp_all add: encode_key_def encode_value_def wf_key_def wf_value_def)

lemma marshal_Inr:
  "wf_key k \<Longrightarrow> wf_value v \<Longrightarrow>
     marshalFakeTCPSessionClaim en k v = Inr (encode_key en k @ encode_value en v)"
  by (simp add: marshalFakeTCPSessionClaim_def encode_lengths)

definition claimed :: "FakeTCPSessionValue \<Rightarrow> FakeTCPSessionValue" where
  "claimed v = v\<lparr>v_State := FakeTCPStateDeleteClaimed\<rparr>"

lemma matches_expected_iff:
  assumes "wf_value s" "wf_value v" "v_KernelLock s = v_KernelLock v" "v_State v = FakeTCPStateEstablished"
  shows "faketcp_session_matches_expected_locked s v True \<longleftrightarrow> s = v \<or> s = claimed v"
  using assms
  by (auto simp: faketcp_session_matches_expected_locked_def wf_value_def claimed_def or_eq_0_iff
      difference_zero state_defs intro: FakeTCPSessionValue.equality)

text \<open>What a marshalled, locally validated claim does to the map.\<close>

definition claim_map :: "FakeTCPSessionKey \<Rightarrow> FakeTCPSessionValue \<Rightarrow> session_map \<Rightarrow> u32 \<times> session_map" where
  "claim_map k v m =
     (case m_get m k of
        None \<Rightarrow> (FAKETCP_CLAIM_ABSENT, m)
      | Some s \<Rightarrow>
          if s = v then (FAKETCP_CLAIMED, m_put k (claimed v) m)
          else if s = claimed v then (FAKETCP_CLAIMED, m)
          else (FAKETCP_CLAIM_DIFFERENT, m))"

definition wf_map :: "session_map \<Rightarrow> bool" where
  "wf_map m \<longleftrightarrow> m_wf m \<and> (\<forall>(k, v) \<in> set m. wf_key k \<and> wf_value v \<and> v_KernelLock v = 0)"

lemma claim_program:
  assumes "wf_map m" "wf_key k" "wf_value v"
    and "k_Generation k \<noteq> 0" "validateBoundSessionKey k (v_Generation v) = None"
    and "validateEstablishedSessionValue v (k_Generation k) = None"
  shows "wg_faketcp_session_claim en (encode_key en k @ encode_value en v) m = claim_map k v m"
proof -
  have "faketcp_claim_request_valid k v" using assms by (simp add: claim_request_valid_iff)
  moreover have "load_value en (encode_value en v) = Some v"
    using load_value_encode [of v en "[]"] assms by simp
  moreover have "faketcp_session_matches_expected_locked s v True \<longleftrightarrow> s = v \<or> s = claimed v"
    if "m_get m k = Some s" for s
  proof (rule matches_expected_iff)
    show "wf_value s" "v_KernelLock s = v_KernelLock v" "v_State v = FakeTCPStateEstablished" "wf_value v"
      using assms that by (auto simp: wf_map_def validateEstablished_None dest!: m_get_Some_in)
  qed
  moreover have "v_State v = FakeTCPStateEstablished" "v_State (claimed v) \<noteq> FakeTCPStateEstablished"
    using assms by (simp_all add: validateEstablished_None claimed_def state_defs)
  ultimately show ?thesis
    using assms
    by (auto simp: wg_faketcp_session_claim_def claim_map_def claimed_def load_key_encode encode_lengths
        split: option.splits)
qed

section \<open>Packets on the session map\<close>

text \<open>
  A packet that reached the writer: the entry it looked up, the authority and projection it was
  admitted under, and the change it asks for.
\<close>

record packet_op =
  pk_key :: FakeTCPSessionKey
  pk_generation :: u64
  pk_now :: u64
  pk_operation :: u32
  pk_argument :: u32
  pk_authority :: faketcp_session_authority
  pk_projection :: faketcp_session_projection

definition mutate_with :: "packet_op \<Rightarrow> FakeTCPSessionValue \<Rightarrow> bool \<times> FakeTCPSessionValue" where
  "mutate_with p s =
     (case faketcp_session_mutate s (pk_generation p) (pk_now p) (pk_operation p) (pk_argument p)
             (pk_authority p) (pk_projection p) of (admitted, s', _) \<Rightarrow> (admitted, s'))"

definition packet_step :: "packet_op \<Rightarrow> session_map \<Rightarrow> session_map" where
  "packet_step p m =
     (case m_get m (pk_key p) of
        None \<Rightarrow> m
      | Some s \<Rightarrow> m_put (pk_key p) (snd (mutate_with p s)) m)"

fun packet_steps :: "packet_op list \<Rightarrow> session_map \<Rightarrow> session_map" where
  "packet_steps [] m = m"
| "packet_steps (p # ps) m = packet_steps ps (packet_step p m)"

text \<open>How many of the packets the writer admitted on one entry.\<close>

fun admitted_count :: "FakeTCPSessionKey \<Rightarrow> packet_op list \<Rightarrow> session_map \<Rightarrow> nat" where
  "admitted_count k [] m = 0"
| "admitted_count k (p # ps) m =
     (if pk_key p = k \<and> (\<exists>s \<in> set_option (m_get m k). fst (mutate_with p s)) then 1 else 0)
     + admitted_count k ps (packet_step p m)"

definition same_lifetime :: "FakeTCPSessionValue \<Rightarrow> FakeTCPSessionValue \<Rightarrow> bool" where
  "same_lifetime v v' \<longleftrightarrow>
     v_Generation v' = v_Generation v \<and> v_LocalISN v' = v_LocalISN v \<and> v_RemoteISN v' = v_RemoteISN v
     \<and> v_Window v' = v_Window v \<and> v_State v' = v_State v \<and> v_Flags v' = v_Flags v
     \<and> v_Reserved v' = v_Reserved v \<and> v_KernelLock v' = v_KernelLock v
     \<and> v_KernelReserved v' = v_KernelReserved v \<and> v_SessionID v' = v_SessionID v
     \<and> v_RuntimeIncarnation v' = v_RuntimeIncarnation v"

text \<open>An entry after some packets: only an established one changes, and every change counts.\<close>

definition value_evolves :: "nat \<Rightarrow> FakeTCPSessionValue \<Rightarrow> FakeTCPSessionValue \<Rightarrow> bool" where
  "value_evolves n v v' \<longleftrightarrow>
     same_lifetime v v' \<and> unat (v_Revision v') = unat (v_Revision v) + n
     \<and> v_LastSeenNanos v \<le> v_LastSeenNanos v'
     \<and> (n = 0 \<longrightarrow> v' = v) \<and> (0 < n \<longrightarrow> v_State v = FakeTCPStateEstablished)"

lemma value_evolves_refl: "value_evolves 0 v v"
  by (simp add: value_evolves_def same_lifetime_def)

lemma value_evolves_trans:
  "value_evolves a u v \<Longrightarrow> value_evolves b v w \<Longrightarrow> value_evolves (a + b) u w"
  by (auto simp: value_evolves_def same_lifetime_def)

lemma unat_Suc_no_wrap: "w \<noteq> - 1 \<Longrightarrow> unat (w + 1 :: u64) = unat w + 1"
  by (metis Suc_eq_plus1 add.commute add_eq_0_iff unatSuc)

lemma mutate_with_cases:
  obtains (refused) "mutate_with p s = (False, s)"
  | (admitted) tx rx seen where
      "mutate_with p s = (True, s\<lparr>v_TXSequence := tx, v_RXSequence := rx, v_LastSeenNanos := seen,
                                  v_Revision := v_Revision s + 1\<rparr>)"
      "v_LastSeenNanos s \<le> seen" "v_Revision s \<noteq> - 1" "v_State s = FakeTCPStateEstablished"
proof (cases "pk_operation p < FAKETCP_SESSION_MUTATE_TX \<or> FAKETCP_SESSION_MUTATE_TOUCH < pk_operation p
     \<or> \<not> (faketcp_session_authority_matches_locked s (pk_generation p) (pk_authority p) (pk_projection p)
          \<and> v_Revision s \<noteq> NOT 0)")
  case True
  then show thesis by (intro refused) (auto simp: mutate_with_def faketcp_session_mutate_def Let_def)
next
  case False
  let ?tx = "if pk_operation p = FAKETCP_SESSION_MUTATE_TX then v_TXSequence s + pk_argument p
             else v_TXSequence s"
  let ?rx = "if pk_operation p \<noteq> FAKETCP_SESSION_MUTATE_TX \<and> pk_operation p = FAKETCP_SESSION_MUTATE_RX
                \<and> sint (pk_argument p - v_RXSequence s) > 0 then pk_argument p else v_RXSequence s"
  let ?seen = "if pk_operation p \<noteq> FAKETCP_SESSION_MUTATE_TX \<and> v_LastSeenNanos s < pk_now p
               then pk_now p else v_LastSeenNanos s"
  have "mutate_with p s = (True, s\<lparr>v_TXSequence := ?tx, v_RXSequence := ?rx, v_LastSeenNanos := ?seen,
                                  v_Revision := v_Revision s + 1\<rparr>)"
    using False by (simp add: mutate_with_def faketcp_session_mutate_def Let_def)
  moreover have "v_State s = FakeTCPStateEstablished"
    using False by (simp add: faketcp_session_authority_matches_locked_def
        faketcp_session_metadata_valid_locked_def split: if_splits)
  ultimately show thesis using False by (intro admitted) auto
qed

lemma mutate_evolves:
  "value_evolves (if fst (mutate_with p s) then 1 else 0) s (snd (mutate_with p s))"
  by (cases p s rule: mutate_with_cases)
    (simp_all add: value_evolves_refl, simp add: value_evolves_def same_lifetime_def unat_Suc_no_wrap)

lemma packet_step_get:
  "m_get (packet_step p m) k =
     (if pk_key p = k then map_option (\<lambda>s. snd (mutate_with p s)) (m_get m k) else m_get m k)"
  by (auto simp: packet_step_def split: option.splits)

lemma packet_step_m_wf: "m_wf m \<Longrightarrow> m_wf (packet_step p m)"
  by (simp add: packet_step_def split: option.splits)

lemma packet_steps_entry:
  assumes "m_wf m" "m_get m k = Some v"
  shows "\<exists>v'. m_get (packet_steps ps m) k = Some v' \<and> value_evolves (admitted_count k ps m) v v'"
  using assms
proof (induction ps arbitrary: m v)
  case (Cons p ps)
  let ?n = "if pk_key p = k \<and> fst (mutate_with p v) then 1 else 0"
  let ?u = "if pk_key p = k then snd (mutate_with p v) else v"
  have "m_get (packet_step p m) k = Some ?u" using Cons.prems by (simp add: packet_step_get)
  then obtain w where w: "m_get (packet_steps ps (packet_step p m)) k = Some w"
    "value_evolves (admitted_count k ps (packet_step p m)) ?u w"
    using Cons.IH [OF packet_step_m_wf [OF Cons.prems(1)]] by blast
  have "value_evolves ?n v ?u"
    using mutate_evolves [of p v] value_evolves_refl by auto
  from value_evolves_trans [OF this w(2)] w(1) Cons.prems show ?case by auto
qed (simp add: value_evolves_refl)

lemma packet_steps_absent: "m_get m k = None \<Longrightarrow> m_get (packet_steps ps m) k = None"
proof (induction ps arbitrary: m)
  case (Cons p ps)
  then have "m_get (packet_step p m) k = None"
    by (auto simp: packet_step_get)
  with Cons.IH show ?case by simp
qed simp

lemma same_lifetime_wf: "same_lifetime v v' \<Longrightarrow> wf_value v' = wf_value v"
  by (simp add: same_lifetime_def wf_value_def)

lemma packet_step_wf: "wf_map m \<Longrightarrow> wf_map (packet_step p m)"
proof -
  assume m: "wf_map m"
  have "wf_value (snd (mutate_with p s)) \<and> v_KernelLock (snd (mutate_with p s)) = 0"
    if "wf_value s" "v_KernelLock s = 0" for s
    using mutate_evolves [of p s] that same_lifetime_wf [of s "snd (mutate_with p s)"]
    by (auto simp: value_evolves_def same_lifetime_def)
  then show ?thesis
    using m by (auto simp: packet_step_def wf_map_def set_m_put split: option.splits dest!: m_get_Some_in)
qed

lemma packet_steps_wf: "wf_map m \<Longrightarrow> wf_map (packet_steps ps m)"
  by (induction ps arbitrary: m) (auto simp: packet_step_wf)

text \<open>Maps that differ by packets only.\<close>

definition drifts :: "session_map \<Rightarrow> session_map \<Rightarrow> bool" where
  "drifts m m' \<longleftrightarrow> (\<exists>ps. m' = packet_steps ps m)"

lemma packet_steps_append: "packet_steps (ps @ qs) m = packet_steps qs (packet_steps ps m)"
  by (induction ps arbitrary: m) auto

lemma drifts_refl [intro, simp]: "drifts m m"
  unfolding drifts_def by (rule exI [of _ "[]"]) simp

lemma drifts_trans [trans]: "drifts m m' \<Longrightarrow> drifts m' m'' \<Longrightarrow> drifts m m''"
  unfolding drifts_def by (metis packet_steps_append)

lemma drifts_wf: "drifts m m' \<Longrightarrow> wf_map m \<Longrightarrow> wf_map m'"
  by (auto simp: drifts_def packet_steps_wf)

lemma drifts_absent: "drifts m m' \<Longrightarrow> m_get m k = None \<Longrightarrow> m_get m' k = None"
  by (auto simp: drifts_def packet_steps_absent)

lemma drifts_present:
  "drifts m m' \<Longrightarrow> wf_map m \<Longrightarrow> m_get m k = Some v \<Longrightarrow> \<exists>n v'. m_get m' k = Some v' \<and> value_evolves n v v'"
  using packet_steps_entry by (fastforce simp: drifts_def wf_map_def)

text \<open>A claimed entry is out of reach of the packets.\<close>

lemma drifts_claimed:
  assumes "drifts m m'" "wf_map m" "m_get m k = Some (claimed v)"
  shows "m_get m' k = Some (claimed v)"
proof -
  have "v_State (claimed v) \<noteq> FakeTCPStateEstablished" by (simp add: claimed_def state_defs)
  with drifts_present [OF assms] show ?thesis by (auto simp: value_evolves_def)
qed

text \<open>Every entry of the later map continues the session that had its key before.\<close>

definition same_session :: "FakeTCPSessionValue \<Rightarrow> FakeTCPSessionValue \<Rightarrow> bool" where
  "same_session v v' \<longleftrightarrow>
     v_Generation v' = v_Generation v \<and> v_LocalISN v' = v_LocalISN v \<and> v_RemoteISN v' = v_RemoteISN v
     \<and> v_SessionID v' = v_SessionID v \<and> v_RuntimeIncarnation v' = v_RuntimeIncarnation v"

definition descends :: "session_map \<Rightarrow> session_map \<Rightarrow> bool" where
  "descends m m' \<longleftrightarrow>
     (\<forall>k v'. m_get m' k = Some v' \<longrightarrow> (\<exists>v. m_get m k = Some v \<and> same_session v v'))"

lemma descendsD:
  "descends m m' \<Longrightarrow> m_get m' k = Some v' \<Longrightarrow> \<exists>v. m_get m k = Some v \<and> same_session v v'"
  by (simp add: descends_def)

lemma descends_trans: "descends a b \<Longrightarrow> descends b c \<Longrightarrow> descends a c"
proof -
  assume ab: "descends a b" and bc: "descends b c"
  have "\<exists>v. m_get a k = Some v \<and> same_session v v'" if c: "m_get c k = Some v'" for k v'
  proof -
    obtain u where u: "m_get b k = Some u" "same_session u v'" using descendsD [OF bc c] by blast
    then obtain v where "m_get a k = Some v" "same_session v u" using descendsD [OF ab] by blast
    then show ?thesis using u by (auto simp: same_session_def)
  qed
  then show "descends a c" by (auto simp: descends_def)
qed

lemma drifts_descends:
  assumes "drifts m m'" "wf_map m"
  shows "descends m m'"
proof -
  have "\<exists>v. m_get m k = Some v \<and> same_session v v'" if k: "m_get m' k = Some v'" for k v'
  proof (cases "m_get m k")
    case None
    then show ?thesis using drifts_absent [OF assms(1)] k by simp
  next
    case (Some v)
    then show ?thesis using drifts_present [OF assms Some] k
      by (auto simp: value_evolves_def same_lifetime_def same_session_def)
  qed
  then show ?thesis by (auto simp: descends_def)
qed

lemma descends_del: "descends m (m_del k m)"
  by (auto simp: descends_def same_session_def split: if_splits)

lemma descends_claim:
  "m_get m k = Some v \<or> m_get m k = Some (claimed v) \<Longrightarrow> descends m (m_put k (claimed v) m)"
  by (auto simp: descends_def same_session_def claimed_def split: if_splits)

lemma descends_claim_map: "descends m (snd (claim_map k v m))"
  by (auto simp: claim_map_def descends_def same_session_def claimed_def split: option.splits if_splits)

lemma descends_absent: "descends m m' \<Longrightarrow> m_get m k = None \<Longrightarrow> m_get m' k = None"
  unfolding descends_def by (metis not_None_eq)

lemma wf_map_put:
  "wf_map m \<Longrightarrow> wf_key k \<Longrightarrow> wf_value v \<Longrightarrow> v_KernelLock v = 0 \<Longrightarrow> wf_map (m_put k v m)"
  by (auto simp: wf_map_def set_m_put)

lemma wf_map_del: "wf_map m \<Longrightarrow> wf_map (m_del k m)"
  by (auto simp: wf_map_def set_m_del)

lemma wf_claimed: "wf_value (claimed v) = wf_value v" "v_KernelLock (claimed v) = v_KernelLock v"
  by (simp_all add: wf_value_def claimed_def)

section \<open>Properties\<close>

definition sample_key :: FakeTCPSessionKey where
  "sample_key = \<lparr>k_Generation = 7, k_LocalIPv4 = 0x0100000a, k_RemoteIPv4 = 0x0200000a,
     k_UnderlayIndex = 2, k_LocalPort = 8080, k_RemotePort = 8081, k_WGID = 1, k_Reserved = [0, 0, 0, 0]\<rparr>"

definition sample_incarnation :: "byte list" where
  "sample_incarnation = [1, 0, 0, 0, 0, 0, 0, 0, 0, 0, 0, 0, 0, 0, 0, 9]"

definition sample_value :: FakeTCPSessionValue where
  "sample_value = \<lparr>v_Generation = 7, v_LastSeenNanos = 100, v_TXSequence = 1001, v_RXSequence = 2001,
     v_LocalISN = 1000, v_RemoteISN = 2000, v_Window = 65535, v_State = 3, v_Flags = 0,
     v_Reserved = [0, 0, 0, 0], v_KernelLock = 0, v_KernelReserved = 0, v_Revision = 1, v_SessionID = 5,
     v_RuntimeIncarnation = sample_incarnation\<rparr>"

lemma sample_facts:
  "wf_key sample_key" "wf_value sample_value" "wf_map [(sample_key, sample_value)]"
  "validateBoundSessionKey sample_key 7 = None" "validateEstablishedSessionValue sample_value 7 = None"
  "k_Generation sample_key = 7" "v_Generation sample_value = 7"
  by (simp_all add: wf_map_def m_wf_def wf_key_def wf_value_def sample_key_def sample_value_def
      sample_incarnation_def validateBoundSessionKey_def validateEstablishedSessionValue_def state_defs
      zero_arrays)

text \<open>
  C27. Userspace and kernel agree on a delete claim: the bytes that userspace encodes for a key
  and a value that pass its own checks are, run through the BPF claim program, one atomic
  compare-and-claim. An absent entry is reported absent, an entry that equals the expected value
  (or already carries its claim) becomes the claimed tombstone, and any other entry is left
  exactly as it is.
\<close>

theorem kernel_claim_is_compare_and_claim:
  assumes "wf_map m" "wf_key k" "wf_value v" "k_Generation k \<noteq> 0"
    and "validateBoundSessionKey k (v_Generation v) = None"
    and "validateEstablishedSessionValue v (k_Generation k) = None"
  shows "\<exists>request. marshalFakeTCPSessionClaim en k v = Inr request
           \<and> wg_faketcp_session_claim en request m =
               (case m_get m k of
                  None \<Rightarrow> (FAKETCP_CLAIM_ABSENT, m)
                | Some s \<Rightarrow>
                    if s = v then (FAKETCP_CLAIMED, m_put k (v\<lparr>v_State := FakeTCPStateDeleteClaimed\<rparr>) m)
                    else if s = v\<lparr>v_State := FakeTCPStateDeleteClaimed\<rparr> then (FAKETCP_CLAIMED, m)
                    else (FAKETCP_CLAIM_DIFFERENT, m))"
  using claim_program [OF assms] assms
  by (simp add: marshal_Inr claim_map_def claimed_def split: option.splits)

theorem kernel_claim_is_compare_and_claim_witness:
  "\<exists>request. marshalFakeTCPSessionClaim LittleEndian sample_key sample_value = Inr request
     \<and> wg_faketcp_session_claim LittleEndian request [(sample_key, sample_value)] =
         (FAKETCP_CLAIMED, [(sample_key, claimed sample_value)])"
  using kernel_claim_is_compare_and_claim
    [of "[(sample_key, sample_value)]" sample_key sample_value LittleEndian] sample_facts
  by (simp add: claimed_def m_get_def m_put_def)

text \<open>
  C28. Packets never lose or forge a change: after any sequence of packets an entry of the session
  map still belongs to the same session (identifier, incarnation, initial sequence numbers, window,
  state), its revision has grown by exactly the number of packets the writer admitted on it,
  without wrap-around, its activity clock never went back, and an entry that is not established,
  in particular a claimed one, has not changed at all.
\<close>

theorem packet_path_counts_changes:
  assumes "m_wf m" "m_get m k = Some v"
  shows "\<exists>v'. m_get (packet_steps ps m) k = Some v' \<and> same_lifetime v v'
           \<and> unat (v_Revision v') = unat (v_Revision v) + admitted_count k ps m
           \<and> v_LastSeenNanos v \<le> v_LastSeenNanos v'
           \<and> (admitted_count k ps m = 0 \<longrightarrow> v' = v)
           \<and> (v_State v \<noteq> FakeTCPStateEstablished \<longrightarrow> v' = v)"
  using packet_steps_entry [OF assms] by (auto simp: value_evolves_def)

definition sample_packet :: packet_op where
  "sample_packet = \<lparr>pk_key = sample_key, pk_generation = 7, pk_now = 200, pk_operation = 2,
     pk_argument = 2101, pk_authority = fst (faketcp_session_lifetime_snapshot_locked sample_value),
     pk_projection = snd (faketcp_session_lifetime_snapshot_locked sample_value)\<rparr>"

theorem packet_path_counts_changes_witness:
  "\<exists>v'. m_get (packet_steps [sample_packet] [(sample_key, sample_value)]) sample_key = Some v'
     \<and> same_lifetime sample_value v' \<and> unat (v_Revision v') = 2"
proof -
  have "fst (mutate_with sample_packet sample_value)"
    by (simp add: mutate_with_def sample_packet_def faketcp_session_mutate_def sample_value_def Let_def
        FAKETCP_SESSION_MUTATE_TX_def FAKETCP_SESSION_MUTATE_TOUCH_def FAKETCP_SESSION_MUTATE_RX_def
        faketcp_session_authority_matches_locked_def faketcp_session_metadata_valid_locked_def
        faketcp_session_lifetime_snapshot_locked_def state_defs aggregate_def difference_def
        faketcp_nonzero_incarnation_def sample_incarnation_def)
  then have "admitted_count sample_key [sample_packet] [(sample_key, sample_value)] = 1"
    by (simp add: m_get_def) (simp add: sample_packet_def)
  then show ?thesis
    using packet_path_counts_changes [of "[(sample_key, sample_value)]" sample_key sample_value "[sample_packet]"]
    by (auto simp: m_wf_def m_get_def) (simp add: sample_value_def)
qed

end
