(* ===== verification/Session_Store.thy ===== *)
theory Session_Store
  imports Session_Kernel
begin

text \<open>
  The userspace store of established sessions: \<open>internal/faketcp/session_store.go\<close> and
  \<open>session_compare_delete.go\<close>. The map handle and the claim program are reached through two
  interfaces whose implementation is the kernel and the eBPF library; both are records of
  functions on an outside world of type \<open>'x\<close>, passed to every operation that calls them. A
  map handle is a number; a nil handle is \<open>None\<close>.
\<close>

definition SessionDeleteDifferent :: u8 where "SessionDeleteDifferent = 0"
definition SessionDeleteAbsent :: u8 where "SessionDeleteAbsent = 1"
definition SessionDeleteRemoved :: u8 where "SessionDeleteRemoved = 2"

lemmas delete_result_defs = SessionDeleteDifferent_def SessionDeleteAbsent_def SessionDeleteRemoved_def

record SessionMapIdentity =
  mi_ID :: u32
  mi_Name :: string
  mi_MapType :: u32
  mi_KeySize :: u32
  mi_ValueSize :: u32
  mi_MaxEntries :: u32
  mi_Flags :: u32

record 'x sessionMapBackend =
  bk_Clone :: "nat \<Rightarrow> 'x \<Rightarrow> err option \<times> nat option \<times> 'x"
  bk_Close :: "nat \<Rightarrow> 'x \<Rightarrow> err option \<times> 'x"
  bk_Identity :: "nat \<Rightarrow> 'x \<Rightarrow> (err + SessionMapIdentity) \<times> 'x"
  bk_InsertNoExist :: "nat \<Rightarrow> FakeTCPSessionKey \<Rightarrow> FakeTCPSessionValue \<Rightarrow> 'x \<Rightarrow> err option \<times> 'x"
  bk_Lookup :: "nat \<Rightarrow> FakeTCPSessionKey \<Rightarrow> 'x \<Rightarrow> (err + FakeTCPSessionValue) \<times> 'x"

datatype program_type = SchedCLS | OtherProgram nat

record 'x linuxSessionClaimKernel =
  ck_SessionMapIdentity :: "'x \<Rightarrow> (err + SessionMapIdentity) \<times> 'x"
  ck_ClaimProgramBinding :: "'x \<Rightarrow> (err + program_type \<times> u32 list) \<times> 'x"
  ck_RunClaim :: "byte list \<Rightarrow> 'x \<Rightarrow> (err + u32) \<times> 'x"
  ck_DeleteSession :: "FakeTCPSessionKey \<Rightarrow> 'x \<Rightarrow> err option \<times> 'x"

type_synonym 'x compare_deleter =
  "SessionMapIdentity \<Rightarrow> FakeTCPSessionKey \<Rightarrow> FakeTCPSessionValue \<Rightarrow> 'x \<Rightarrow> (err + u8) \<times> 'x"

text \<open>An interface value: nil, a nil pointer of a concrete type, or an object.\<close>

datatype 'a iface = IfaceNil | IfaceTypedNil | IfaceValue 'a

record 'x LinuxSessionStore =
  ls_backend :: "nat option"
  ls_compareDelete :: "'x compare_deleter option"
  ls_generation :: u64
  ls_identity :: SessionMapIdentity
  ls_closed :: bool

section \<open>Construction\<close>

definition validateSessionMapIdentity :: "SessionMapIdentity \<Rightarrow> err option" where
  "validateSessionMapIdentity identity =
     (if mi_ID identity = 0 then Some (ErrNew ''map ID is unavailable or zero'')
      else if mi_Name identity \<noteq> ''faketcp_session'' then Some (ErrNew ''kernel map name'')
      else if mi_MapType identity \<noteq> 1 then Some (ErrNew ''map type, want BPF_MAP_TYPE_HASH'')
      else if mi_KeySize identity \<noteq> 32 \<or> mi_ValueSize identity \<noteq> 80 \<or>
              mi_MaxEntries identity \<noteq> 16384 \<or> mi_Flags identity \<noteq> 0
      then Some (ErrNew ''map ABI'')
      else None)"

definition closeClonedSessionMapAfterConstructionFailure ::
  "'x sessionMapBackend \<Rightarrow> nat \<Rightarrow> err \<Rightarrow> 'x \<Rightarrow> (err + 'x LinuxSessionStore) \<times> 'x" where
  "closeClonedSessionMapAfterConstructionFailure ops owned cause x =
     (case bk_Close ops owned x of
        (closeErr, x') \<Rightarrow>
          (let closeErr' = map_option (\<lambda>e. ErrWrap ''close cloned faketcp session map'' [e]) closeErr
           in case errors_join [Some cause, closeErr'] of
                Some e \<Rightarrow> (Inl e, x')
              | None \<Rightarrow> (Inl cause, x')))"

definition newLinuxSessionStoreWithAtomicCompareDelete ::
  "'x sessionMapBackend \<Rightarrow> nat option \<Rightarrow> u64 \<Rightarrow> SessionMapIdentity \<Rightarrow> 'x compare_deleter iface \<Rightarrow> 'x
     \<Rightarrow> (err + 'x LinuxSessionStore) \<times> 'x" where
  "newLinuxSessionStoreWithAtomicCompareDelete ops backend generation expected compareDelete x =
     (case backend of
        None \<Rightarrow> (Inl (ErrNew ''faketcp session map backend is nil''), x)
      | Some b \<Rightarrow>
        if (case compareDelete of IfaceTypedNil \<Rightarrow> True | _ \<Rightarrow> False)
        then (Inl (ErrNew ''faketcp atomic session compare-deleter is typed nil''), x)
        else if generation = 0
        then (Inl (ErrNew ''faketcp session store generation must be non-zero''), x)
        else (case validateSessionMapIdentity expected of
          Some e \<Rightarrow> (Inl (ErrWrap ''invalid expected faketcp session map identity'' [e]), x)
        | None \<Rightarrow>
          (case bk_Clone ops b x of
             (Some e, None, x1) \<Rightarrow> (Inl (ErrWrap ''clone faketcp session map handle'' [e]), x1)
           | (Some e, Some owned, x1) \<Rightarrow>
               closeClonedSessionMapAfterConstructionFailure ops owned
                 (ErrWrap ''clone faketcp session map handle'' [e]) x1
           | (None, None, x1) \<Rightarrow> (Inl (ErrNew ''clone faketcp session map handle: backend returned nil''), x1)
           | (None, Some owned, x1) \<Rightarrow>
               (case bk_Identity ops owned x1 of
                  (Inl e, x2) \<Rightarrow>
                    closeClonedSessionMapAfterConstructionFailure ops owned
                      (ErrWrap ''inspect cloned faketcp session map identity'' [e]) x2
                | (Inr actual, x2) \<Rightarrow>
                    (case validateSessionMapIdentity actual of
                       Some e \<Rightarrow>
                         closeClonedSessionMapAfterConstructionFailure ops owned
                           (ErrWrap ''invalid cloned faketcp session map identity'' [e]) x2
                     | None \<Rightarrow>
                         if actual \<noteq> expected
                         then closeClonedSessionMapAfterConstructionFailure ops owned
                                (ErrWrap ''during construction'' [ErrVar ErrSessionMapIdentityChanged]) x2
                         else (Inr \<lparr>ls_backend = Some owned,
                                    ls_compareDelete = (case compareDelete of IfaceValue d \<Rightarrow> Some d | _ \<Rightarrow> None),
                                    ls_generation = generation, ls_identity = expected,
                                    ls_closed = False\<rparr>, x2))))))"

definition newLinuxSessionStore ::
  "'x sessionMapBackend \<Rightarrow> nat option \<Rightarrow> u64 \<Rightarrow> SessionMapIdentity \<Rightarrow> 'x
     \<Rightarrow> (err + 'x LinuxSessionStore) \<times> 'x" where
  "newLinuxSessionStore ops backend generation expected x =
     newLinuxSessionStoreWithAtomicCompareDelete ops backend generation expected IfaceNil x"

section \<open>Operations\<close>

definition requireOpenLocked :: "'x LinuxSessionStore \<Rightarrow> err + nat" where
  "requireOpenLocked store =
     (if ls_closed store then Inl (ErrVar ErrSessionStoreClosed)
      else case ls_backend store of
        None \<Rightarrow> Inl (ErrNew ''faketcp session store has no owned map backend'')
      | Some b \<Rightarrow> Inr b)"

definition validateMapBindingLocked ::
  "'x sessionMapBackend \<Rightarrow> 'x LinuxSessionStore \<Rightarrow> nat \<Rightarrow> 'x \<Rightarrow> err option \<times> 'x" where
  "validateMapBindingLocked ops store b x =
     (case bk_Identity ops b x of
        (Inl e, x1) \<Rightarrow> (Some (ErrWrap ''inspect bound faketcp session map identity'' [e]), x1)
      | (Inr actual, x1) \<Rightarrow>
          if actual \<noteq> ls_identity store
          then (Some (ErrWrap ''map binding'' [ErrVar ErrSessionMapIdentityChanged]), x1)
          else (case validateSessionMapIdentity actual of
                  Some e \<Rightarrow> (Some (ErrWrap ''bound faketcp session map failed ABI validation'' [e]), x1)
                | None \<Rightarrow> (None, x1)))"

definition InsertEstablished ::
  "'x sessionMapBackend \<Rightarrow> 'x LinuxSessionStore option \<Rightarrow> FakeTCPSessionKey \<Rightarrow> FakeTCPSessionValue \<Rightarrow> 'x
     \<Rightarrow> err option \<times> 'x" where
  "InsertEstablished ops store_ptr key value x =
     (case store_ptr of
        None \<Rightarrow> (Some (ErrNew ''faketcp session store is nil''), x)
      | Some store \<Rightarrow>
        (case requireOpenLocked store of
           Inl e \<Rightarrow> (Some e, x)
         | Inr b \<Rightarrow>
           (case validateBoundSessionKey key (ls_generation store) of
              Some e \<Rightarrow> (Some e, x)
            | None \<Rightarrow>
              (case validateEstablishedSessionValue value (ls_generation store) of
                 Some e \<Rightarrow> (Some e, x)
               | None \<Rightarrow>
                 (case validateMapBindingLocked ops store b x of
                    (Some e, x1) \<Rightarrow> (Some e, x1)
                  | (None, x1) \<Rightarrow>
                    (case bk_InsertNoExist ops b key value x1 of
                       (Some e, x2) \<Rightarrow>
                         (Some (ErrWrap ''insert established faketcp session without overwrite'' [e]), x2)
                     | (None, x2) \<Rightarrow> (None, x2)))))))"

definition lookupEstablishedLocked ::
  "'x sessionMapBackend \<Rightarrow> 'x LinuxSessionStore \<Rightarrow> nat \<Rightarrow> FakeTCPSessionKey \<Rightarrow> 'x
     \<Rightarrow> (err + FakeTCPSessionValue option) \<times> 'x" where
  "lookupEstablishedLocked ops store b key x =
     (case bk_Lookup ops b key x of
        (Inl e, x1) \<Rightarrow>
          if errors_is e ErrSessionMapKeyNotExist then (Inr None, x1)
          else (Inl (ErrWrap ''lookup established faketcp session'' [e]), x1)
      | (Inr value, x1) \<Rightarrow>
          (case validateEstablishedSessionValue value (ls_generation store) of
             Some e \<Rightarrow> (Inl (ErrWrap ''invalid established faketcp session from map'' [e]), x1)
           | None \<Rightarrow> (Inr (Some value), x1)))"

definition LookupEstablished ::
  "'x sessionMapBackend \<Rightarrow> 'x LinuxSessionStore option \<Rightarrow> FakeTCPSessionKey \<Rightarrow> 'x
     \<Rightarrow> (err + FakeTCPSessionValue option) \<times> 'x" where
  "LookupEstablished ops store_ptr key x =
     (case store_ptr of
        None \<Rightarrow> (Inl (ErrNew ''faketcp session store is nil''), x)
      | Some store \<Rightarrow>
        (case requireOpenLocked store of
           Inl e \<Rightarrow> (Inl e, x)
         | Inr b \<Rightarrow>
           (case validateBoundSessionKey key (ls_generation store) of
              Some e \<Rightarrow> (Inl e, x)
            | None \<Rightarrow>
              (case validateMapBindingLocked ops store b x of
                 (Some e, x1) \<Rightarrow> (Inl e, x1)
               | (None, x1) \<Rightarrow> lookupEstablishedLocked ops store b key x1))))"

definition DeleteEstablishedIfUnchanged ::
  "'x sessionMapBackend \<Rightarrow> 'x LinuxSessionStore option \<Rightarrow> FakeTCPSessionKey \<Rightarrow> FakeTCPSessionValue \<Rightarrow> 'x
     \<Rightarrow> (err + u8) \<times> 'x" where
  "DeleteEstablishedIfUnchanged ops store_ptr key expected x =
     (case store_ptr of
        None \<Rightarrow> (Inl (ErrNew ''faketcp session store is nil''), x)
      | Some store \<Rightarrow>
        (case requireOpenLocked store of
           Inl e \<Rightarrow> (Inl e, x)
         | Inr b \<Rightarrow>
           (case validateBoundSessionKey key (ls_generation store) of
              Some e \<Rightarrow> (Inl e, x)
            | None \<Rightarrow>
              (case validateEstablishedSessionValue expected (ls_generation store) of
                 Some e \<Rightarrow> (Inl e, x)
               | None \<Rightarrow>
                 (case validateMapBindingLocked ops store b x of
                    (Some e, x1) \<Rightarrow> (Inl e, x1)
                  | (None, x1) \<Rightarrow>
                    (case ls_compareDelete store of
                       Some compareDelete \<Rightarrow>
                         (case compareDelete (ls_identity store) key expected x1 of
                            (Inl e, x2) \<Rightarrow>
                              (Inl (ErrWrap ''atomically compare-delete established faketcp session'' [e]), x2)
                          | (Inr result, x2) \<Rightarrow> (Inr result, x2))
                     | None \<Rightarrow>
                         (case lookupEstablishedLocked ops store b key x1 of
                            (Inl e, x2) \<Rightarrow> (Inl e, x2)
                          | (Inr None, x2) \<Rightarrow> (Inr SessionDeleteAbsent, x2)
                          | (Inr (Some actual), x2) \<Rightarrow>
                              if actual \<noteq> expected then (Inr SessionDeleteDifferent, x2)
                              else (Inl (ErrWrap ''entry was preserved''
                                          [ErrVar ErrSessionCompareDeleteUnavailable]), x2))))))))"

text \<open>\<open>LinuxSessionStore.Close\<close>: the error and the store afterwards.\<close>

definition Store_Close ::
  "'x sessionMapBackend \<Rightarrow> 'x LinuxSessionStore option \<Rightarrow> 'x
     \<Rightarrow> err option \<times> 'x LinuxSessionStore option \<times> 'x" where
  "Store_Close ops store_ptr x =
     (case store_ptr of
        None \<Rightarrow> (None, None, x)
      | Some store \<Rightarrow>
        (case ls_backend store of
           None \<Rightarrow>
             if ls_closed store then (None, Some store, x)
             else (Some (ErrNew ''close faketcp session store: owned backend is nil''),
                   Some (store\<lparr>ls_closed := True\<rparr>), x)
         | Some b \<Rightarrow>
             (case bk_Close ops b x of
                (Some e, x1) \<Rightarrow>
                  (Some (ErrWrap ''close owned faketcp session map handle'' [e]),
                   Some (store\<lparr>ls_closed := True\<rparr>), x1)
              | (None, x1) \<Rightarrow>
                  (None, Some (store\<lparr>ls_closed := True, ls_backend := None, ls_compareDelete := None\<rparr>), x1))))"

section \<open>The kernel compare-deleter\<close>

definition validateBinding ::
  "'x linuxSessionClaimKernel \<Rightarrow> SessionMapIdentity \<Rightarrow> 'x \<Rightarrow> err option \<times> 'x" where
  "validateBinding kern identity x =
     (case ck_SessionMapIdentity kern x of
        (Inl e, x1) \<Rightarrow> (Some (ErrWrap ''inspect compare-delete session map'' [e]), x1)
      | (Inr actual, x1) \<Rightarrow>
          if actual \<noteq> identity
          then (Some (ErrWrap ''for compare-delete'' [ErrVar ErrSessionMapIdentityChanged]), x1)
          else (case ck_ClaimProgramBinding kern x1 of
                  (Inl e, x2) \<Rightarrow> (Some (ErrWrap ''inspect faketcp compare-claim program'' [e]), x2)
                | (Inr (programType, mapIDs), x2) \<Rightarrow>
                    if programType \<noteq> SchedCLS
                    then (Some (ErrNew ''faketcp compare-claim program type''), x2)
                    else if mapIDs \<noteq> [mi_ID identity]
                    then (Some (ErrNew ''faketcp compare-claim program map IDs''), x2)
                    else (None, x2)))"

definition newLinuxAtomicSessionCompareDeleter ::
  "'x linuxSessionClaimKernel option \<Rightarrow> SessionMapIdentity \<Rightarrow> 'x
     \<Rightarrow> (err + 'x linuxSessionClaimKernel \<times> SessionMapIdentity) \<times> 'x" where
  "newLinuxAtomicSessionCompareDeleter kernel_ptr expected x =
     (case kernel_ptr of
        None \<Rightarrow> (Inl (ErrNew ''faketcp compare-delete kernel backend is nil''), x)
      | Some kern \<Rightarrow>
        (case validateSessionMapIdentity expected of
           Some e \<Rightarrow> (Inl (ErrWrap ''invalid compare-delete map identity'' [e]), x)
         | None \<Rightarrow>
           (case validateBinding kern expected x of
              (Some e, x1) \<Rightarrow> (Inl e, x1)
            | (None, x1) \<Rightarrow> (Inr (kern, expected), x1))))"

definition CompareDeleteEstablished ::
  "endian \<Rightarrow> ('x linuxSessionClaimKernel \<times> SessionMapIdentity) option \<Rightarrow> 'x compare_deleter" where
  "CompareDeleteEstablished en deleter identity key expected x =
     (case deleter of
        None \<Rightarrow> (Inl (ErrNew ''faketcp compare-delete backend is nil''), x)
      | Some (kern, bound) \<Rightarrow>
        if identity \<noteq> bound
        then (Inl (ErrWrap ''for compare-delete'' [ErrVar ErrSessionMapIdentityChanged]), x)
        else (case validateBoundSessionKey key (v_Generation expected) of
          Some e \<Rightarrow> (Inl e, x)
        | None \<Rightarrow>
          (case validateEstablishedSessionValue expected (k_Generation key) of
             Some e \<Rightarrow> (Inl e, x)
           | None \<Rightarrow>
             (case validateBinding kern bound x of
                (Some e, x1) \<Rightarrow> (Inl e, x1)
              | (None, x1) \<Rightarrow>
                (case marshalFakeTCPSessionClaim en key expected of
                   Inl e \<Rightarrow> (Inl e, x1)
                 | Inr request \<Rightarrow>
                   (case ck_RunClaim kern request x1 of
                      (Inl e, x2) \<Rightarrow> (Inl (ErrWrap ''run faketcp kernel compare-claim'' [e]), x2)
                    | (Inr result, x2) \<Rightarrow>
                        if result = FAKETCP_CLAIM_ABSENT then (Inr SessionDeleteAbsent, x2)
                        else if result = FAKETCP_CLAIM_DIFFERENT then (Inr SessionDeleteDifferent, x2)
                        else if result = FAKETCP_CLAIM_MALFORMED
                        then (Inl (ErrNew ''faketcp kernel rejected a locally validated compare-claim''), x2)
                        else if result = FAKETCP_CLAIMED
                        then (case validateBinding kern bound x2 of
                                (Some e, x3) \<Rightarrow> (Inl e, x3)
                              | (None, x3) \<Rightarrow>
                                (case ck_DeleteSession kern key x3 of
                                   (Some e, x4) \<Rightarrow> (Inl (ErrWrap ''delete claimed faketcp session'' [e]), x4)
                                 | (None, x4) \<Rightarrow> (Inr SessionDeleteRemoved, x4)))
                        else (Inl (ErrNew ''faketcp kernel compare-claim returned unknown status''), x2)))))))"

section \<open>What the kernel promises\<close>

lemma claim_map_codes:
  "fst (claim_map k v m) \<in> {FAKETCP_CLAIM_ABSENT, FAKETCP_CLAIM_DIFFERENT, FAKETCP_CLAIMED}"
  by (auto simp: claim_map_def split: option.splits)

lemma claim_map_hit:
  "m_get m k = Some v \<or> m_get m k = Some (claimed v) \<Longrightarrow>
     claim_map k v m = (FAKETCP_CLAIMED, m_put k (claimed v) m)"
  by (auto simp: claim_map_def m_put_same)

text \<open>
  What a delete request for the value \<open>v\<close> does to the map, by its result. Packets may run at any
  time; besides them only the entry of the key is touched, and only when it is \<open>v\<close> or the tombstone
  of an earlier attempt for \<open>v\<close>.
\<close>

definition delete_effect ::
  "FakeTCPSessionKey \<Rightarrow> FakeTCPSessionValue \<Rightarrow> err + u8 \<Rightarrow> session_map \<Rightarrow> session_map \<Rightarrow> bool" where
  "delete_effect k v r m0 m' \<longleftrightarrow>
     (\<exists>m. drifts m0 m \<and>
        (case r of
           Inl e \<Rightarrow> drifts m m'
              \<or> m_get m k \<in> {Some v, Some (claimed v)} \<and> drifts (m_put k (claimed v) m) m'
                \<and> m_get m' k = Some (claimed v)
         | Inr c \<Rightarrow>
              c = SessionDeleteRemoved \<and> m_get m k \<in> {Some v, Some (claimed v)}
                \<and> (\<exists>m2. drifts (m_put k (claimed v) m) m2 \<and> m_get m2 k = Some (claimed v) \<and> drifts (m_del k m2) m')
              \<or> c = SessionDeleteAbsent \<and> m_get m k = None \<and> drifts m m'
              \<or> c = SessionDeleteDifferent \<and> m_get m k \<notin> {None, Some v, Some (claimed v)} \<and> drifts m m'))"

lemma delete_effectI:
  "drifts m0 m' \<Longrightarrow> delete_effect k v (Inl e) m0 m'"
  "drifts m0 m \<Longrightarrow> m_get m k = None \<Longrightarrow> drifts m m' \<Longrightarrow> delete_effect k v (Inr SessionDeleteAbsent) m0 m'"
  "drifts m0 m \<Longrightarrow> m_get m k \<notin> {None, Some v, Some (claimed v)} \<Longrightarrow> drifts m m' \<Longrightarrow>
     delete_effect k v (Inr SessionDeleteDifferent) m0 m'"
  "drifts m0 m \<Longrightarrow> m_get m k \<in> {Some v, Some (claimed v)} \<Longrightarrow> drifts (m_put k (claimed v) m) m' \<Longrightarrow>
     m_get m' k = Some (claimed v) \<Longrightarrow> delete_effect k v (Inl e) m0 m'"
  "drifts m0 m \<Longrightarrow> m_get m k \<in> {Some v, Some (claimed v)} \<Longrightarrow> drifts (m_put k (claimed v) m) m2 \<Longrightarrow>
     m_get m2 k = Some (claimed v) \<Longrightarrow> drifts (m_del k m2) m' \<Longrightarrow> delete_effect k v (Inr SessionDeleteRemoved) m0 m'"
  unfolding delete_effect_def sum.case by blast+

lemma delete_effect_error: "delete_effect k v (Inl e) m0 m' \<Longrightarrow> delete_effect k v (Inl e') m0 m'"
  by (simp add: delete_effect_def)

lemma wf_after_claim:
  assumes "m_get m k \<in> {Some v, Some (claimed v)}" "wf_map m" "wf_value v"
  shows "wf_map (m_put k (claimed v) m)"
proof -
  have "wf_key k" "v_KernelLock v = 0"
    using assms(1,2) by (auto simp: wf_map_def claimed_def dest!: m_get_Some_in)
  then show ?thesis using assms(2,3) by (simp add: wf_map_put wf_claimed)
qed

lemma delete_effect_cases:
  assumes "delete_effect k v r m0 m'" "wf_map m0" "wf_value v"
  obtains (untouched) "r \<noteq> Inr SessionDeleteRemoved" "drifts m0 m'"
      "r = Inr SessionDeleteAbsent \<Longrightarrow> m_get m' k = None"
  | (tombstone) m e where "r = Inl e" "drifts m0 m" "m_get m k \<in> {Some v, Some (claimed v)}" "wf_map m"
      "wf_map (m_put k (claimed v) m)" "drifts (m_put k (claimed v) m) m'"
  | (removed) m m2 where "r = Inr SessionDeleteRemoved" "drifts m0 m" "m_get m k \<in> {Some v, Some (claimed v)}"
      "wf_map m" "wf_map (m_put k (claimed v) m)" "drifts (m_put k (claimed v) m) m2"
      "m_get m2 k = Some (claimed v)" "wf_map (m_del k m2)" "drifts (m_del k m2) m'"
proof -
  obtain m where m: "drifts m0 m" and r: "case r of
      Inl e \<Rightarrow> drifts m m' \<or> m_get m k \<in> {Some v, Some (claimed v)} \<and> drifts (m_put k (claimed v) m) m'
    | Inr c \<Rightarrow> c = SessionDeleteRemoved \<and> m_get m k \<in> {Some v, Some (claimed v)}
          \<and> (\<exists>m2. drifts (m_put k (claimed v) m) m2 \<and> m_get m2 k = Some (claimed v) \<and> drifts (m_del k m2) m')
        \<or> (c = SessionDeleteAbsent \<longrightarrow> m_get m k = None) \<and> c \<noteq> SessionDeleteRemoved \<and> drifts m m'"
    using assms(1) unfolding delete_effect_def delete_result_defs by (cases r) auto
  have wm: "wf_map m" using m assms(2) by (rule drifts_wf)
  have wc: "wf_map (m_put k (claimed v) m)" if "m_get m k \<in> {Some v, Some (claimed v)}"
    using that wm assms(3) by (rule wf_after_claim)
  have wd: "wf_map (m_del k m2)" if "m_get m k \<in> {Some v, Some (claimed v)}" "drifts (m_put k (claimed v) m) m2" for m2
    using drifts_wf [OF that(2) wc [OF that(1)]] by (rule wf_map_del)
  show thesis
  proof (cases r)
    case (Inl e)
    with r consider "drifts m m'" | "m_get m k \<in> {Some v, Some (claimed v)}" "drifts (m_put k (claimed v) m) m'"
      by auto
    then show thesis
    proof cases
      case 1
      then show thesis using untouched [OF _ drifts_trans [OF m]] Inl by simp
    next
      case 2
      then show thesis using tombstone [OF Inl m 2(1) wm wc] by blast
    qed
  next
    case (Inr c)
    show thesis
    proof (cases "c = SessionDeleteRemoved")
      case True
      with r Inr obtain m2 where "m_get m k \<in> {Some v, Some (claimed v)}" "drifts (m_put k (claimed v) m) m2"
        "m_get m2 k = Some (claimed v)" "drifts (m_del k m2) m'" by auto
      then show thesis using removed [of m m2] Inr True m wm wc wd by blast
    next
      case False
      with r Inr have "drifts m m'" "c = SessionDeleteAbsent \<Longrightarrow> m_get m' k = None"
        using drifts_absent by auto
      then show thesis using untouched drifts_trans [OF m] Inr False by simp
    qed
  qed
qed

text \<open>What the effect leaves: every other session lives on, and nothing appears.\<close>

lemma delete_effect_descends:
  assumes "delete_effect k v r m0 m'" "wf_map m0" "wf_value v"
  shows "descends m0 m' \<and> wf_map m'"
  using assms
proof (cases rule: delete_effect_cases)
  case untouched
  then show ?thesis using drifts_descends drifts_wf assms(2) by blast
next
  case (tombstone m e)
  then show ?thesis
    using descends_claim [of m k v] drifts_descends [OF _ assms(2)] drifts_descends drifts_wf descends_trans
    by (metis insertE singletonD)
next
  case (removed m m2)
  have "descends m0 (m_put k (claimed v) m)"
    using descends_claim [of m k v] drifts_descends [OF removed(2) assms(2)] removed(3) descends_trans by blast
  then have "descends m0 (m_del k m2)"
    using drifts_descends [OF removed(6,5)] descends_del descends_trans by blast
  then show ?thesis using drifts_descends drifts_wf removed(8,9) descends_trans by blast
qed

lemma delete_effect_keeps:
  assumes "delete_effect k v r m0 m'" "wf_map m0" "wf_value v"
    and u: "m_get m0 k' = Some u" and other: "k' \<noteq> k \<or> \<not> same_session u v"
  shows "\<exists>n u'. m_get m' k' = Some u' \<and> value_evolves n u u'"
proof -
  have pass: "\<exists>n u2. m_get b k' = Some u2 \<and> value_evolves n u u2"
    if "drifts a b" "wf_map a" "m_get a k' = Some u1" "value_evolves n1 u u1" for a b n1 u1
    using drifts_present [OF that(1-3)] value_evolves_trans [OF that(4)] by blast
  have at: "k' \<noteq> k" if "drifts m0 m" "m_get m k \<in> {Some v, Some (claimed v)}" for m
    using drifts_present [OF that(1) assms(2) u] that(2) other
    by (auto simp: value_evolves_def same_lifetime_def same_session_def claimed_def)
  show ?thesis
    using assms(1-3)
  proof (cases rule: delete_effect_cases)
    case untouched
    then show ?thesis using pass [OF _ assms(2) u value_evolves_refl] by blast
  next
    case (tombstone m e)
    obtain n u1 where u1: "m_get m k' = Some u1" "value_evolves n u u1"
      using pass [OF tombstone(2) assms(2) u value_evolves_refl] by blast
    show ?thesis using pass [OF tombstone(6,5) _ u1(2)] u1(1) at [OF tombstone(2,3)] by simp
  next
    case (removed m m2)
    note k' = at [OF removed(2,3)]
    obtain n u1 where u1: "m_get m k' = Some u1" "value_evolves n u u1"
      using pass [OF removed(2) assms(2) u value_evolves_refl] by blast
    obtain n2 u2 where u2: "m_get m2 k' = Some u2" "value_evolves n2 u u2"
      using pass [OF removed(6,5) _ u1(2)] u1(1) k' by auto
    show ?thesis using pass [OF removed(9,8) _ u2(2)] u2(1) k' by simp
  qed
qed

lemma delete_effect_present:
  assumes "delete_effect k v r m0 m'" "wf_map m0" "wf_value v"
    and "r \<noteq> Inr SessionDeleteRemoved" "m_get m0 k' \<noteq> None"
  shows "m_get m' k' \<noteq> None"
proof -
  have keep: "m_get b k' \<noteq> None" if "drifts a b" "wf_map a" "m_get a k' \<noteq> None" for a b
    using that drifts_present by fastforce
  show ?thesis
    using assms(1-3)
  proof (cases rule: delete_effect_cases)
    case (tombstone m e)
    then show ?thesis using keep [OF tombstone(2) assms(2,5)] keep [OF tombstone(6,5)] by simp
  qed (use keep assms in auto)
qed

text \<open>
  \<open>view\<close> is the content of the session map in a world. Packets may run before, between and
  after the calls, so every law speaks of some map that the packets lead to. The laws are the
  documented behaviour of \<open>BPF_MAP_UPDATE_ELEM\<close> with \<open>BPF_NOEXIST\<close>, of a locked lookup, of
  \<open>BPF_MAP_DELETE_ELEM\<close> and of running the claim program; a failed call leaves the entries
  alone, except that a failed run of the claim program may have happened.
\<close>

locale session_kernel =
  fixes ops :: "'x sessionMapBackend"
    and kern :: "'x linuxSessionClaimKernel"
    and view :: "'x \<Rightarrow> session_map"
    and en :: endian
  assumes identity_reads: "bk_Identity ops b x = (r, x') \<Longrightarrow> drifts (view x) (view x')"
    and insert_new: "bk_InsertNoExist ops b k v x = (None, x') \<Longrightarrow>
          \<exists>m. drifts (view x) m \<and> m_get m k = None \<and> drifts (m_put k v m) (view x')"
    and insert_fails: "bk_InsertNoExist ops b k v x = (Some e, x') \<Longrightarrow> drifts (view x) (view x')"
    and lookup_hit: "bk_Lookup ops b k x = (Inr v, x') \<Longrightarrow>
          \<exists>m. drifts (view x) m \<and> m_get m k = Some v \<and> drifts m (view x')"
    and lookup_miss: "bk_Lookup ops b k x = (Inl e, x') \<Longrightarrow> errors_is e ErrSessionMapKeyNotExist \<Longrightarrow>
          \<exists>m. drifts (view x) m \<and> m_get m k = None \<and> drifts m (view x')"
    and lookup_fails: "bk_Lookup ops b k x = (Inl e, x') \<Longrightarrow> drifts (view x) (view x')"
    and map_identity_reads: "ck_SessionMapIdentity kern x = (ri, x') \<Longrightarrow> drifts (view x) (view x')"
    and binding_reads: "ck_ClaimProgramBinding kern x = (rb, x') \<Longrightarrow> drifts (view x) (view x')"
    and claim_runs: "ck_RunClaim kern req x = (Inr c, x') \<Longrightarrow>
          \<exists>m. drifts (view x) m \<and> fst (wg_faketcp_session_claim en req m) = c
              \<and> drifts (snd (wg_faketcp_session_claim en req m)) (view x')"
    and claim_fails: "ck_RunClaim kern req x = (Inl e, x') \<Longrightarrow>
          \<exists>m. drifts (view x) m
              \<and> (drifts m (view x') \<or> drifts (snd (wg_faketcp_session_claim en req m)) (view x'))"
    and delete_removes: "ck_DeleteSession kern k x = (None, x') \<Longrightarrow>
          \<exists>m. drifts (view x) m \<and> drifts (m_del k m) (view x')"
    and delete_fails: "ck_DeleteSession kern k x = (Some e, x') \<Longrightarrow> drifts (view x) (view x')"
begin

lemma validateBinding_reads: "validateBinding kern i x = (r, x') \<Longrightarrow> drifts (view x) (view x')"
  by (auto simp: validateBinding_def split: prod.splits sum.splits if_splits
      dest!: map_identity_reads binding_reads intro: drifts_trans)

lemma validateMapBinding_reads:
  "validateMapBindingLocked ops store b x = (r, x') \<Longrightarrow> drifts (view x) (view x')"
  by (auto simp: validateMapBindingLocked_def split: prod.splits sum.splits if_splits option.splits
      dest!: identity_reads)

lemma insert_exclusive:
  assumes "InsertEstablished ops (Some store) k v x = (None, x')"
  shows "\<exists>m. drifts (view x) m \<and> m_get m k = None \<and> drifts (m_put k v m) (view x')"
proof -
  obtain b x1 where "validateMapBindingLocked ops store b x = (None, x1)"
    "bk_InsertNoExist ops b k v x1 = (None, x')"
    using assms by (auto simp: InsertEstablished_def split: sum.splits option.splits prod.splits)
  then show ?thesis using validateMapBinding_reads insert_new drifts_trans by meson
qed

lemma lookup_reads: "lookupEstablishedLocked ops store b k x = (r, x') \<Longrightarrow> drifts (view x) (view x')"
proof -
  have "drifts (view y) (view y')" if "bk_Lookup ops b k y = (r, y')" for b y r y'
    using that lookup_fails lookup_hit drifts_trans by (cases r) blast+
  then show "lookupEstablishedLocked ops store b k x = (r, x') \<Longrightarrow> drifts (view x) (view x')"
    by (auto simp: lookupEstablishedLocked_def split: sum.splits option.splits prod.splits if_splits)
qed

text \<open>The guards of an insert that reached the map, and an insert that did not.\<close>

lemma insert_guarded:
  assumes "InsertEstablished ops (Some store) k v x = (None, x')"
  shows "\<not> ls_closed store \<and> validateSessionMapIdentity (ls_identity store) = None
       \<and> validateBoundSessionKey k (ls_generation store) = None
       \<and> validateEstablishedSessionValue v (ls_generation store) = None
       \<and> (\<exists>b x1. ls_backend store = Some b \<and> bk_Identity ops b x = (Inr (ls_identity store), x1)
            \<and> bk_InsertNoExist ops b k v x1 = (None, x'))"
  using assms
  by (auto simp: InsertEstablished_def requireOpenLocked_def validateMapBindingLocked_def
      split: sum.splits option.splits prod.splits if_splits)

lemma insert_refused:
  "ls_closed store \<or> ls_backend store = None \<or> validateBoundSessionKey k (ls_generation store) \<noteq> None
     \<or> validateEstablishedSessionValue v (ls_generation store) \<noteq> None \<Longrightarrow>
   \<exists>e. InsertEstablished ops (Some store) k v x = (Some e, x)"
  by (auto simp: InsertEstablished_def requireOpenLocked_def split: sum.splits option.splits)

lemma insert_error_reads:
  "InsertEstablished ops (Some store) k v x = (Some e, x') \<Longrightarrow> drifts (view x) (view x')"
  by (auto simp: InsertEstablished_def split: sum.splits option.splits prod.splits
      dest!: validateMapBinding_reads insert_fails intro: drifts_trans)

lemma insert_finds_entry:
  assumes "InsertEstablished ops (Some store) k v x = (r, x')" "wf_map (view x)" "m_get (view x) k = Some u"
  shows "r \<noteq> None"
proof
  assume "r = None"
  with assms(1) obtain m where "drifts (view x) m" "m_get m k = None" using insert_exclusive by blast
  then show False using drifts_present [OF _ assms(2,3)] by fastforce
qed

text \<open>An entry that was there before an insert is the same session afterwards.\<close>

lemma insert_keeps:
  assumes run: "InsertEstablished ops (Some store) k v x = (r, x')"
    and wf: "wf_map (view x)" "wf_value v" and u: "m_get (view x) k' = Some u"
  shows "\<exists>n u'. m_get (view x') k' = Some u' \<and> value_evolves n u u'"
proof (cases r)
  case (Some e)
  then show ?thesis using insert_error_reads drifts_present [OF _ wf(1) u] run by blast
next
  case None
  with run obtain m where m: "drifts (view x) m" "m_get m k = None" "drifts (m_put k v m) (view x')"
    using insert_exclusive by blast
  then obtain n u1 where u1: "m_get m k' = Some u1" "value_evolves n u u1"
    using drifts_present [OF m(1) wf(1) u] by blast
  have "k' \<noteq> k" using m(2) u1(1) by auto
  moreover have "v_KernelLock v = 0" "wf_key k"
    using insert_guarded run None by (auto simp: validateEstablished_None validateBound_None wf_key_def)
  then have "wf_map (m_put k v m)" using drifts_wf [OF m(1) wf(1)] wf(2) by (simp add: wf_map_put)
  ultimately obtain n' u2 where "m_get (view x') k' = Some u2" "value_evolves n' u1 u2"
    using drifts_present [OF m(3), of k' u1] u1(1) by auto
  then show ?thesis using value_evolves_trans [OF u1(2)] by blast
qed

lemma lookup_found:
  "lookupEstablishedLocked ops store b k x = (Inr (Some v), x') \<Longrightarrow>
     v_State v = FakeTCPStateEstablished \<and> (\<exists>m. drifts (view x) m \<and> m_get m k = Some v \<and> drifts m (view x'))"
  using lookup_hit [of b k x v x']
  by (auto simp: lookupEstablishedLocked_def validateEstablished_None
      split: sum.splits option.splits prod.splits if_splits)

lemma lookup_missed:
  "lookupEstablishedLocked ops store b k x = (Inr None, x') \<Longrightarrow>
     \<exists>m. drifts (view x) m \<and> m_get m k = None \<and> drifts m (view x')"
  using lookup_miss [of b k x _ x']
  by (auto simp: lookupEstablishedLocked_def split: sum.splits option.splits prod.splits if_splits)

lemma delete_without_deleter:
  assumes "DeleteEstablishedIfUnchanged ops (Some store) k v x = (r, x')" "ls_compareDelete store = None"
  shows "r \<noteq> Inr SessionDeleteRemoved \<and> drifts (view x) (view x')"
  using assms
  by (auto simp: DeleteEstablishedIfUnchanged_def delete_result_defs
      split: sum.splits option.splits prod.splits if_splits
      dest!: validateMapBinding_reads lookup_reads intro: drifts_trans)

lemma delete_effect_without_deleter:
  assumes run: "DeleteEstablishedIfUnchanged ops (Some store) k v x = (r, x')" and none: "ls_compareDelete store = None"
  shows "delete_effect k v r (view x) (view x')"
proof (cases r)
  case (Inl e)
  then show ?thesis using delete_without_deleter [OF assms] delete_effectI(1) by simp
next
  case (Inr c)
  with run none obtain b x1 where b: "validateMapBindingLocked ops store b x = (None, x1)"
    and l: "lookupEstablishedLocked ops store b k x1 = (Inr None, x') \<and> c = SessionDeleteAbsent
      \<or> (\<exists>a. lookupEstablishedLocked ops store b k x1 = (Inr (Some a), x') \<and> a \<noteq> v \<and> c = SessionDeleteDifferent)"
    by (auto simp: DeleteEstablishedIfUnchanged_def split: sum.splits option.splits prod.splits if_splits)
  have after: "drifts (view x1) m \<Longrightarrow> drifts (view x) m" for m
    using validateMapBinding_reads [OF b] by (rule drifts_trans)
  have live: "a \<noteq> claimed v" if "v_State a = FakeTCPStateEstablished" for a
    using that by (auto simp: claimed_def state_defs)
  from l show ?thesis
  proof
    assume "lookupEstablishedLocked ops store b k x1 = (Inr None, x') \<and> c = SessionDeleteAbsent"
    then show ?thesis using lookup_missed [of store b k x1 x'] after Inr delete_effectI(2) by blast
  next
    assume "\<exists>a. lookupEstablishedLocked ops store b k x1 = (Inr (Some a), x') \<and> a \<noteq> v \<and> c = SessionDeleteDifferent"
    then obtain a m where "drifts (view x1) m" "m_get m k = Some a" "drifts m (view x')" "a \<noteq> v" "a \<noteq> claimed v"
        "c = SessionDeleteDifferent" using lookup_found [of store b k x1 _ x'] live by blast
    then show ?thesis using after Inr delete_effectI(3) [of "view x" m k v "view x'"] by simp
  qed
qed

text \<open>The end of a successful claim: recheck both handles, then delete.\<close>

lemma reclaim_trace:
  assumes "(case validateBinding kern i x2 of
       (Some e, x3) \<Rightarrow> (Inl e, x3)
     | (None, x3) \<Rightarrow> (case ck_DeleteSession kern k x3 of
           (Some e, x4) \<Rightarrow> (Inl (ErrWrap msg [e]), x4)
         | (None, x4) \<Rightarrow> (Inr SessionDeleteRemoved, x4))) = (res, x')"
    and d: "drifts m' (view x2)"
  shows "(\<exists>e. res = Inl e) \<and> drifts m' (view x')
         \<or> res = Inr SessionDeleteRemoved \<and> (\<exists>m2. drifts m' m2 \<and> drifts (m_del k m2) (view x'))"
proof -
  obtain rb x3 where b: "validateBinding kern i x2 = (rb, x3)" by fastforce
  obtain rd' x4 where de: "ck_DeleteSession kern k x3 = (rd', x4)" by fastforce
  have d3: "drifts m' (view x3)" using d validateBinding_reads [OF b] by (rule drifts_trans)
  show ?thesis
  proof (cases rb)
    case (Some e)
    then show ?thesis using assms(1) b d3 by auto
  next
    case rb: None
    show ?thesis
    proof (cases rd')
      case (Some e)
      then show ?thesis using assms(1) b de rb drifts_trans [OF d3 delete_fails] by auto
    next
      case None
      then obtain m2 where "drifts (view x3) m2" "drifts (m_del k m2) (view x4)"
        using delete_removes de by blast
      then show ?thesis using assms(1) b de rb None drifts_trans [OF d3] by auto
    qed
  qed
qed

text \<open>
  A run of the compare-deleter, by how far it got: it stopped before the claim, the claim itself
  failed, the claim missed, or it hit the entry on some map \<open>m\<close>.
\<close>

lemma compare_delete_trace:
  assumes run: "CompareDeleteEstablished en (Some (kern, i)) i' k v x = (res, x')"
    and wf: "wf_map (view x)" "wf_key k" "wf_value v" "k_Generation k \<noteq> 0"
  obtains (before) e where "res = Inl e" "drifts (view x) (view x')"
  | (failed) e m where "res = Inl e" "drifts (view x) m"
      "drifts m (view x') \<or> drifts (snd (claim_map k v m)) (view x')"
  | (missed) m r where "res = Inr r" "drifts (view x) m" "drifts m (view x')"
      "r = SessionDeleteAbsent \<and> m_get m k = None
       \<or> r = SessionDeleteDifferent \<and> m_get m k \<notin> {None, Some v, Some (claimed v)}"
  | (hit) m where "drifts (view x) m" "m_get m k = Some v \<or> m_get m k = Some (claimed v)"
      "(\<exists>e. res = Inl e) \<and> drifts (m_put k (claimed v) m) (view x')
       \<or> res = Inr SessionDeleteRemoved
          \<and> (\<exists>m2. drifts (m_put k (claimed v) m) m2 \<and> drifts (m_del k m2) (view x'))"
proof (cases "i' \<noteq> i \<or> validateBoundSessionKey k (v_Generation v) \<noteq> None
              \<or> validateEstablishedSessionValue v (k_Generation k) \<noteq> None")
  case True
  then show thesis using run before
    by (auto simp: CompareDeleteEstablished_def split: if_splits option.splits)
next
  case False
  let ?req = "encode_key en k @ encode_value en v"
  obtain rb x1 where b: "validateBinding kern i x = (rb, x1)" by fastforce
  note d1 = validateBinding_reads [OF b]
  obtain rc x2 where c: "ck_RunClaim kern ?req x1 = (rc, x2)" by fastforce
  have prog: "wg_faketcp_session_claim en ?req m = claim_map k v m" if "drifts (view x1) m" for m
    using False wf drifts_wf [OF drifts_trans [OF d1 that] wf(1)] by (simp add: claim_program)
  note unf = CompareDeleteEstablished_def marshal_Inr [OF wf(2,3)] b c
  consider (unbound) e where "rb = Some e" | (bad) e where "rb = None" "rc = Inl e"
    | (ran) cl where "rb = None" "rc = Inr cl" by (cases rb; cases rc) auto
  then show thesis
  proof cases
    case unbound
    then show thesis using run False d1 before by (auto simp: unf)
  next
    case bad
    then obtain m where m: "drifts (view x1) m"
      "drifts m (view x2) \<or> drifts (snd (wg_faketcp_session_claim en ?req m)) (view x2)"
      using claim_fails [of ?req x1 e x2] c by auto
    then show thesis
      using run False bad failed [OF _ drifts_trans [OF d1 m(1)]] prog [OF m(1)] by (auto simp: unf)
  next
    case ran
    then obtain m where m: "drifts (view x1) m" "fst (claim_map k v m) = cl"
      "drifts (snd (claim_map k v m)) (view x2)"
      using claim_runs [of ?req x1 cl x2] c prog by auto
    have dm: "drifts (view x) m" using d1 m(1) by (rule drifts_trans)
    show thesis
    proof (cases "m_get m k = Some v \<or> m_get m k = Some (claimed v)")
      case True
      then show thesis
        using run False ran m claim_map_hit [OF True] hit [OF dm True reclaim_trace]
        by (auto simp: unf claim_defs)
    next
      case F: False
      then show thesis
        using run False ran m missed [OF _ dm]
        by (auto simp: unf claim_map_def claim_defs split: option.splits if_splits)
    qed
  qed
qed

end

section \<open>What the store promises\<close>

text \<open>
  The contract of a \<open>SessionStore\<close> towards the engine: an insert never overwrites, a lookup
  reports what the map held, and a compare-delete removes an entry only if, at one instant
  during the call, it was exactly the expected value, reports absence only of an entry that is
  not there, and never lets an entry continue another session.
\<close>

locale established_store =
  fixes insert_op :: "FakeTCPSessionKey \<Rightarrow> FakeTCPSessionValue \<Rightarrow> 'x \<Rightarrow> err option \<times> 'x"
    and lookup_op :: "FakeTCPSessionKey \<Rightarrow> 'x \<Rightarrow> (err + FakeTCPSessionValue option) \<times> 'x"
    and delete_op :: "FakeTCPSessionKey \<Rightarrow> FakeTCPSessionValue \<Rightarrow> 'x \<Rightarrow> (err + u8) \<times> 'x"
    and view :: "'x \<Rightarrow> session_map"
  assumes store_insert: "insert_op k v x = (None, x') \<Longrightarrow>
          \<exists>m. drifts (view x) m \<and> m_get m k = None \<and> drifts (m_put k v m) (view x')"
    and store_insert_fails: "insert_op k v x = (Some e, x') \<Longrightarrow> drifts (view x) (view x')"
    and store_hit: "lookup_op k x = (Inr (Some v), x') \<Longrightarrow>
          v_State v = FakeTCPStateEstablished
          \<and> (\<exists>m. drifts (view x) m \<and> m_get m k = Some v \<and> drifts m (view x'))"
    and store_miss: "lookup_op k x = (Inr None, x') \<Longrightarrow>
          \<exists>m. drifts (view x) m \<and> m_get m k = None \<and> drifts m (view x')"
    and store_lookup_fails: "lookup_op k x = (Inl e, x') \<Longrightarrow> drifts (view x) (view x')"
    and store_removed: "delete_op k v x = (Inr SessionDeleteRemoved, x') \<Longrightarrow>
          wf_map (view x) \<Longrightarrow> wf_value v \<Longrightarrow>
          \<exists>m m2. drifts (view x) m \<and> (m_get m k = Some v \<or> m_get m k = Some (claimed v))
            \<and> drifts (m_put k (claimed v) m) m2 \<and> m_get m2 k = Some (claimed v)
            \<and> drifts (m_del k m2) (view x')"
    and store_kept: "delete_op k v x = (r, x') \<Longrightarrow> r \<noteq> Inr SessionDeleteRemoved \<Longrightarrow>
          wf_map (view x) \<Longrightarrow> wf_value v \<Longrightarrow>
          m_get (view x) k' \<noteq> None \<Longrightarrow> m_get (view x') k' \<noteq> None"
    and store_absent: "delete_op k v x = (Inr SessionDeleteAbsent, x') \<Longrightarrow>
          wf_map (view x) \<Longrightarrow> wf_value v \<Longrightarrow> m_get (view x') k = None"
    and store_delete_descends: "delete_op k v x = (r, x') \<Longrightarrow>
          wf_map (view x) \<Longrightarrow> wf_value v \<Longrightarrow> descends (view x) (view x') \<and> wf_map (view x')"
begin

text \<open>Removal takes away the expected session and no other.\<close>

lemma removal_is_exact:
  assumes "delete_op k v x = (Inr SessionDeleteRemoved, x')" "wf_map (view x)" "wf_value v"
  shows "\<exists>u. m_get (view x) k = Some u
           \<and> v_SessionID u = v_SessionID v \<and> v_RuntimeIncarnation u = v_RuntimeIncarnation v"
    and "m_get (view x') k = None"
    and "k' \<noteq> k \<Longrightarrow> (m_get (view x') k' = None) = (m_get (view x) k' = None)"
proof -
  from store_removed [OF assms] obtain m m2 where m: "drifts (view x) m"
    "m_get m k = Some v \<or> m_get m k = Some (claimed v)" "drifts (m_put k (claimed v) m) m2"
    "drifts (m_del k m2) (view x')" by blast
  have w: "wf_map m" using drifts_wf [OF m(1) assms(2)] .
  obtain u where u: "m_get (view x) k = Some u" using m(1,2) drifts_absent by fastforce
  then obtain n u' where "m_get m k = Some u'" "value_evolves n u u'"
    using drifts_present [OF m(1) assms(2)] by blast
  with m(2) u show "\<exists>u. m_get (view x) k = Some u
      \<and> v_SessionID u = v_SessionID v \<and> v_RuntimeIncarnation u = v_RuntimeIncarnation v"
    by (auto simp: value_evolves_def same_lifetime_def claimed_def)
  show "m_get (view x') k = None" by (rule drifts_absent [OF m(4)]) simp
  have "wf_key k" "v_KernelLock v = 0"
    using m(2) w by (auto simp: wf_map_def claimed_def dest!: m_get_Some_in)
  then have w1: "wf_map (m_put k (claimed v) m)" using w assms(3) by (simp add: wf_map_put wf_claimed)
  have w2: "wf_map (m_del k m2)" using drifts_wf [OF m(3) w1] by (rule wf_map_del)
  have same: "(m_get b k' = None) = (m_get a k' = None)" if "drifts a b" "wf_map a" for a b
    using that drifts_absent drifts_present by (metis not_None_eq)
  show "(m_get (view x') k' = None) = (m_get (view x) k' = None)" if "k' \<noteq> k"
    using same [OF m(1) assms(2)] same [OF m(3) w1] same [OF m(4) w2] that by simp
qed

end

text \<open>
  A store of the shape that the constructors return, on a kernel that keeps its promises, with
  the kernel compare-deleter: it fulfils the contract.
\<close>

locale linux_store = session_kernel +
  fixes store :: "'a LinuxSessionStore"
    and bound :: SessionMapIdentity
  assumes generation_set: "ls_generation store \<noteq> 0"
    and atomic_deleter: "ls_compareDelete store = Some (CompareDeleteEstablished en (Some (kern, bound)))"
begin

lemma delete_uses_deleter:
  assumes "DeleteEstablishedIfUnchanged ops (Some store) k v x = (r, x')"
  obtains (refused) e where "r = Inl e" "drifts (view x) (view x')"
  | (ran) x1 r' where "drifts (view x) (view x1)" "wf_key k" "k_Generation k \<noteq> 0"
      "CompareDeleteEstablished en (Some (kern, bound)) (ls_identity store) k v x1 = (r', x')"
      "\<And>c. r = Inr c \<longleftrightarrow> r' = Inr c"
proof (cases "requireOpenLocked store")
  case (Inl e)
  then show thesis using assms refused by (auto simp: DeleteEstablishedIfUnchanged_def)
next
  case (Inr b)
  obtain rv x1 where v: "validateMapBindingLocked ops store b x = (rv, x1)" by fastforce
  obtain rc x2 where c: "CompareDeleteEstablished en (Some (kern, bound)) (ls_identity store) k v x1 = (rc, x2)"
    by fastforce
  show thesis
  proof (cases "validateBoundSessionKey k (ls_generation store) = None
      \<and> validateEstablishedSessionValue v (ls_generation store) = None \<and> rv = None")
    case True
    then have "wf_key k" "k_Generation k \<noteq> 0"
      using generation_set by (auto simp: validateBound_None wf_key_def)
    moreover have "x' = x2" "\<And>c. r = Inr c \<longleftrightarrow> rc = Inr c"
      using assms True Inr v c
      by (auto simp: DeleteEstablishedIfUnchanged_def atomic_deleter split: sum.splits)
    ultimately show thesis using ran validateMapBinding_reads [OF v] c by blast
  next
    case False
    then show thesis using assms Inr v validateMapBinding_reads [OF v] refused
      by (auto simp: DeleteEstablishedIfUnchanged_def split: option.splits)
  qed
qed

lemma delete_does:
  assumes run: "DeleteEstablishedIfUnchanged ops (Some store) k v x = (r, x')"
    and wf: "wf_map (view x)" "wf_value v"
  shows "delete_effect k v r (view x) (view x')"
  using run
proof (cases rule: delete_uses_deleter)
  case (refused e)
  then show ?thesis using delete_effectI(1) by simp
next
  case (ran x1 r')
  have w1: "wf_map (view x1)" using ran(1) wf(1) by (rule drifts_wf)
  have after: "drifts (view x1) m \<Longrightarrow> drifts (view x) m" for m using ran(1) by (rule drifts_trans)
  have tomb: "m_get m' k = Some (claimed v)"
    if "drifts (view x1) m" "m_get m k = Some v \<or> m_get m k = Some (claimed v)" "drifts (m_put k (claimed v) m) m'" for m m'
    using drifts_claimed [OF that(3) wf_after_claim [OF _ drifts_wf [OF that(1) w1] wf(2)]] that(2) by simp
  have "delete_effect k v r' (view x) (view x')"
    using ran(4)
  proof (cases rule: compare_delete_trace [OF _ w1 ran(2) wf(2) ran(3), consumes 1,
      case_names before failed missed hit])
    case (before e)
    then show ?thesis using after delete_effectI(1) by simp
  next
    case (failed e m)
    have "snd (claim_map k v m) = m" if "m_get m k \<notin> {Some v, Some (claimed v)}"
      using that by (auto simp: claim_map_def split: option.splits)
    then consider "drifts m (view x')"
      | "m_get m k \<in> {Some v, Some (claimed v)}" "drifts (m_put k (claimed v) m) (view x')"
      using failed(3) claim_map_hit [of m k v] by fastforce
    then show ?thesis
      using failed(1) delete_effectI(1) delete_effectI(4) [OF after [OF failed(2)]] tomb [OF failed(2)]
        drifts_trans [OF after [OF failed(2)]] by cases (simp, blast)
  next
    case (missed m c)
    then show ?thesis using after delete_effectI(2,3) by blast
  next
    case (hit m)
    note hit' = after [OF hit(1)] tomb [OF hit(1,2)]
    have k: "m_get m k \<in> {Some v, Some (claimed v)}" using hit(2) by simp
    show ?thesis using hit(3) delete_effectI(4,5) [OF hit'(1) k] hit'(2) by blast
  qed
  moreover have "\<exists>e e'. r = Inl e \<and> r' = Inl e'" if "r \<noteq> r'" using that ran(5) by (metis sum.exhaust)
  ultimately show ?thesis using delete_effect_error by metis
qed

end

sublocale linux_store \<subseteq> st: established_store
  "InsertEstablished ops (Some store)" "LookupEstablished ops (Some store)"
  "DeleteEstablishedIfUnchanged ops (Some store)" view
proof unfold_locales
  fix k v x x'
  assume "InsertEstablished ops (Some store) k v x = (None, x')"
  then show "\<exists>m. drifts (view x) m \<and> m_get m k = None \<and> drifts (m_put k v m) (view x')"
    by (rule insert_exclusive)
next
  fix k v x e x'
  assume "InsertEstablished ops (Some store) k v x = (Some e, x')"
  then show "drifts (view x) (view x')" by (rule insert_error_reads)
next
  fix k x v x'
  assume "LookupEstablished ops (Some store) k x = (Inr (Some v), x')"
  then obtain b x1 where "validateMapBindingLocked ops store b x = (None, x1)"
    "lookupEstablishedLocked ops store b k x1 = (Inr (Some v), x')"
    by (auto simp: LookupEstablished_def split: sum.splits option.splits prod.splits)
  then show "v_State v = FakeTCPStateEstablished
      \<and> (\<exists>m. drifts (view x) m \<and> m_get m k = Some v \<and> drifts m (view x'))"
    using validateMapBinding_reads lookup_found drifts_trans by meson
next
  fix k x x'
  assume "LookupEstablished ops (Some store) k x = (Inr None, x')"
  then obtain b x1 where "validateMapBindingLocked ops store b x = (None, x1)"
    "lookupEstablishedLocked ops store b k x1 = (Inr None, x')"
    by (auto simp: LookupEstablished_def split: sum.splits option.splits prod.splits)
  then show "\<exists>m. drifts (view x) m \<and> m_get m k = None \<and> drifts m (view x')"
    using validateMapBinding_reads lookup_missed drifts_trans by meson
next
  fix k x e x'
  assume "LookupEstablished ops (Some store) k x = (Inl e, x')"
  then show "drifts (view x) (view x')"
    by (auto simp: LookupEstablished_def split: sum.splits option.splits prod.splits
        dest!: validateMapBinding_reads lookup_reads intro: drifts_trans)
next
  fix k v x x'
  assume "DeleteEstablishedIfUnchanged ops (Some store) k v x = (Inr SessionDeleteRemoved, x')"
    and wf: "wf_map (view x)" "wf_value v"
  then have "delete_effect k v (Inr SessionDeleteRemoved) (view x) (view x')" by (rule delete_does)
  then show "\<exists>m m2. drifts (view x) m \<and> (m_get m k = Some v \<or> m_get m k = Some (claimed v))
      \<and> drifts (m_put k (claimed v) m) m2 \<and> m_get m2 k = Some (claimed v)
      \<and> drifts (m_del k m2) (view x')"
    by (fastforce simp: delete_effect_def delete_result_defs)
next
  fix k v x r x' k'
  assume "DeleteEstablishedIfUnchanged ops (Some store) k v x = (r, x')"
    "r \<noteq> Inr SessionDeleteRemoved" "wf_map (view x)" "wf_value v" "m_get (view x) k' \<noteq> None"
  then show "m_get (view x') k' \<noteq> None" using delete_effect_present delete_does by blast
next
  fix k v x x'
  assume "DeleteEstablishedIfUnchanged ops (Some store) k v x = (Inr SessionDeleteAbsent, x')"
    "wf_map (view x)" "wf_value v"
  then have "delete_effect k v (Inr SessionDeleteAbsent) (view x) (view x')" by (rule delete_does)
  then show "m_get (view x') k = None"
    by (auto simp: delete_effect_def delete_result_defs intro: drifts_absent)
next
  fix k v x r x'
  assume "DeleteEstablishedIfUnchanged ops (Some store) k v x = (r, x')" "wf_map (view x)" "wf_value v"
  then show "descends (view x) (view x') \<and> wf_map (view x')" using delete_effect_descends delete_does by blast
qed

context linux_store
begin

lemmas st_contract = st.established_store_axioms

end

section \<open>A kernel that keeps the promises\<close>

text \<open>
  A world with the session map, a schedule of packet batches that run before each call, and a
  schedule of calls that fail. The claim is the BPF program itself; map updates behave as a BPF
  hash map of 16384 entries.
\<close>

record kworld =
  kw_sessions :: session_map
  kw_identity :: SessionMapIdentity
  kw_binding :: "program_type \<times> u32 list"
  kw_packets :: "packet_op list list"
  kw_faults :: "nat option list"
  kw_handles :: nat

definition kcall :: "(session_map \<Rightarrow> 'r \<times> session_map) \<Rightarrow> (err \<Rightarrow> 'r) \<Rightarrow> kworld \<Rightarrow> 'r \<times> kworld" where
  "kcall act bad w =
     (let m = packet_steps (case kw_packets w of [] \<Rightarrow> [] | ps # _ \<Rightarrow> ps) (kw_sessions w);
          w1 = w\<lparr>kw_packets := tl (kw_packets w), kw_faults := tl (kw_faults w)\<rparr>
      in case (case kw_faults w of [] \<Rightarrow> None | f # _ \<Rightarrow> f) of
           Some n \<Rightarrow> (bad (ErrExt n), w1\<lparr>kw_sessions := m\<rparr>)
         | None \<Rightarrow> (case act m of (r, m') \<Rightarrow> (r, w1\<lparr>kw_sessions := m'\<rparr>)))"

definition kernel_backend :: "kworld sessionMapBackend" where
  "kernel_backend = \<lparr>
     bk_Clone = (\<lambda>b w. (None, Some (kw_handles w), w\<lparr>kw_handles := Suc (kw_handles w)\<rparr>)),
     bk_Close = (\<lambda>b. kcall (\<lambda>m. (None, m)) Some),
     bk_Identity = (\<lambda>b w. kcall (\<lambda>m. (Inr (kw_identity w), m)) Inl w),
     bk_InsertNoExist = (\<lambda>b k v. kcall
        (\<lambda>m. if m_get m k \<noteq> None then (Some (ErrExt 17), m)
             else if 16384 \<le> length m then (Some (ErrExt 7), m) else (None, m_put k v m)) Some),
     bk_Lookup = (\<lambda>b k. kcall
        (\<lambda>m. case m_get m k of
               Some v \<Rightarrow> (Inr v, m)
             | None \<Rightarrow> (Inl (ErrWrap ''lookup'' [ErrVar ErrSessionMapKeyNotExist, ErrVar ErrKeyNotExist]), m))
        Inl)\<rparr>"

definition kernel_claims :: "endian \<Rightarrow> kworld linuxSessionClaimKernel" where
  "kernel_claims en = \<lparr>
     ck_SessionMapIdentity = (\<lambda>w. kcall (\<lambda>m. (Inr (kw_identity w), m)) Inl w),
     ck_ClaimProgramBinding = (\<lambda>w. kcall (\<lambda>m. (Inr (kw_binding w), m)) Inl w),
     ck_RunClaim = (\<lambda>req. kcall (\<lambda>m. case wg_faketcp_session_claim en req m of (r, m') \<Rightarrow> (Inr r, m')) Inl),
     ck_DeleteSession = (\<lambda>k. kcall
        (\<lambda>m. if m_get m k = None then (Some (ErrVar ErrKeyNotExist), m) else (None, m_del k m)) Some)\<rparr>"

lemma kcall_cases:
  assumes "kcall act bad w = (r, w')"
  obtains (fault) n where "r = bad (ErrExt n)" "drifts (kw_sessions w) (kw_sessions w')"
  | (acted) m where "drifts (kw_sessions w) m" "act m = (r, kw_sessions w')"
proof -
  let ?m = "packet_steps (case kw_packets w of [] \<Rightarrow> [] | ps # _ \<Rightarrow> ps) (kw_sessions w)"
  have d: "drifts (kw_sessions w) ?m" by (auto simp: drifts_def)
  show thesis
    using assms d fault acted [of ?m] by (auto simp: kcall_def Let_def split: option.splits prod.splits)
qed

interpretation sk: session_kernel kernel_backend "kernel_claims en" kw_sessions en for en
proof unfold_locales
  fix b k v x x' e r
  show "bk_Identity kernel_backend b x = (r, x') \<Longrightarrow> drifts (kw_sessions x) (kw_sessions x')"
    by (auto simp: kernel_backend_def elim!: kcall_cases)
  show "bk_InsertNoExist kernel_backend b k v x = (None, x') \<Longrightarrow>
      \<exists>m. drifts (kw_sessions x) m \<and> m_get m k = None \<and> drifts (m_put k v m) (kw_sessions x')"
    by (auto simp: kernel_backend_def elim!: kcall_cases split: if_splits)
  show "bk_InsertNoExist kernel_backend b k v x = (Some e, x') \<Longrightarrow> drifts (kw_sessions x) (kw_sessions x')"
    by (auto simp: kernel_backend_def elim!: kcall_cases split: if_splits)
  show "bk_Lookup kernel_backend b k x = (Inr v, x') \<Longrightarrow>
      \<exists>m. drifts (kw_sessions x) m \<and> m_get m k = Some v \<and> drifts m (kw_sessions x')"
    by (auto simp: kernel_backend_def elim!: kcall_cases split: option.splits)
  show "bk_Lookup kernel_backend b k x = (Inl e, x') \<Longrightarrow> errors_is e ErrSessionMapKeyNotExist \<Longrightarrow>
      \<exists>m. drifts (kw_sessions x) m \<and> m_get m k = None \<and> drifts m (kw_sessions x')"
    by (auto simp: kernel_backend_def elim!: kcall_cases split: option.splits)
  show "bk_Lookup kernel_backend b k x = (Inl e, x') \<Longrightarrow> drifts (kw_sessions x) (kw_sessions x')"
    by (auto simp: kernel_backend_def elim!: kcall_cases split: option.splits)
  show "ck_DeleteSession (kernel_claims en) k x = (None, x') \<Longrightarrow>
      \<exists>m. drifts (kw_sessions x) m \<and> drifts (m_del k m) (kw_sessions x')"
    by (auto simp: kernel_claims_def elim!: kcall_cases split: if_splits)
  show "ck_DeleteSession (kernel_claims en) k x = (Some e, x') \<Longrightarrow> drifts (kw_sessions x) (kw_sessions x')"
    by (auto simp: kernel_claims_def elim!: kcall_cases split: if_splits)
next
  fix x x' ri
  show "ck_SessionMapIdentity (kernel_claims en) x = (ri, x') \<Longrightarrow> drifts (kw_sessions x) (kw_sessions x')"
    by (auto simp: kernel_claims_def elim!: kcall_cases)
next
  fix x x' rb
  show "ck_ClaimProgramBinding (kernel_claims en) x = (rb, x') \<Longrightarrow> drifts (kw_sessions x) (kw_sessions x')"
    by (auto simp: kernel_claims_def elim!: kcall_cases)
next
  fix x x' req c
  show "ck_RunClaim (kernel_claims en) req x = (Inr c, x') \<Longrightarrow>
      \<exists>m. drifts (kw_sessions x) m \<and> fst (wg_faketcp_session_claim en req m) = c
        \<and> drifts (snd (wg_faketcp_session_claim en req m)) (kw_sessions x')"
    by (fastforce simp: kernel_claims_def elim!: kcall_cases split: prod.splits)
next
  fix x x' req e
  show "ck_RunClaim (kernel_claims en) req x = (Inl e, x') \<Longrightarrow>
      \<exists>m. drifts (kw_sessions x) m \<and> (drifts m (kw_sessions x')
        \<or> drifts (snd (wg_faketcp_session_claim en req m)) (kw_sessions x'))"
    by (fastforce simp: kernel_claims_def elim!: kcall_cases split: prod.splits)
qed

section \<open>Properties\<close>

lemma constructed_store:
  assumes "session_kernel ops kern view en"
    and "newLinuxSessionStoreWithAtomicCompareDelete ops b g i
           (IfaceValue (CompareDeleteEstablished en (Some (kern, i)))) x0 = (Inr store, x1)"
  shows "linux_store ops kern view en store i"
proof -
  have "ls_generation store \<noteq> 0"
    "ls_compareDelete store = Some (CompareDeleteEstablished en (Some (kern, i)))"
    using assms(2)
    by (auto simp: newLinuxSessionStoreWithAtomicCompareDelete_def Let_def
        closeClonedSessionMapAfterConstructionFailure_def
        split: option.splits prod.splits sum.splits if_splits)
  with assms(1) show ?thesis by (simp add: linux_store_def linux_store_axioms_def)
qed

lemma constructed_without_deleter:
  "newLinuxSessionStoreWithAtomicCompareDelete ops b g i IfaceNil x0 = (Inr store, x1) \<Longrightarrow>
     ls_compareDelete store = None"
  by (auto simp: newLinuxSessionStoreWithAtomicCompareDelete_def Let_def
      closeClonedSessionMapAfterConstructionFailure_def
      split: option.splits prod.splits sum.splits if_splits)

lemma constructed_delete_does:
  assumes "session_kernel ops kern view en"
    and "newLinuxSessionStoreWithAtomicCompareDelete ops b g i deleter x0 = (Inr store, x1)"
    and "deleter = IfaceNil \<or> deleter = IfaceValue (CompareDeleteEstablished en (Some (kern, i)))"
    and "DeleteEstablishedIfUnchanged ops (Some store) k v x = (r, x')"
    and "wf_map (view x)" "wf_value v"
  shows "delete_effect k v r (view x) (view x')"
  using assms(3)
proof
  assume "deleter = IfaceNil"
  then show ?thesis
    using session_kernel.delete_effect_without_deleter [OF assms(1,4)] constructed_without_deleter [of ops b g i x0 store x1] assms(2) by simp
next
  assume "deleter = IfaceValue (CompareDeleteEstablished en (Some (kern, i)))"
  then have "linux_store ops kern view en store i" using constructed_store [OF assms(1)] assms(2) by blast
  then show ?thesis using assms(4-6) by (rule linux_store.delete_does)
qed

definition sample_identity :: SessionMapIdentity where
  "sample_identity = \<lparr>mi_ID = 3, mi_Name = ''faketcp_session'', mi_MapType = 1, mi_KeySize = 32,
     mi_ValueSize = 80, mi_MaxEntries = 16384, mi_Flags = 0\<rparr>"

definition sample_world :: kworld where
  "sample_world = \<lparr>kw_sessions = [(sample_key, sample_value)], kw_identity = sample_identity,
     kw_binding = (SchedCLS, [3]), kw_packets = [], kw_faults = [], kw_handles = 1\<rparr>"

definition sample_store :: "kworld LinuxSessionStore" where
  "sample_store = \<lparr>ls_backend = Some 1,
     ls_compareDelete = Some (CompareDeleteEstablished LittleEndian
        (Some (kernel_claims LittleEndian, sample_identity))),
     ls_generation = 7, ls_identity = sample_identity, ls_closed = False\<rparr>"

lemma sample_store_constructed:
  "newLinuxSessionStoreWithAtomicCompareDelete kernel_backend (Some 0) 7 sample_identity
     (IfaceValue (CompareDeleteEstablished LittleEndian (Some (kernel_claims LittleEndian, sample_identity))))
     sample_world = (Inr sample_store, sample_world\<lparr>kw_handles := 2\<rparr>)"
  by (simp add: newLinuxSessionStoreWithAtomicCompareDelete_def kernel_backend_def sample_world_def
      kcall_def sample_identity_def validateSessionMapIdentity_def sample_store_def)

interpretation ls: linux_store kernel_backend "kernel_claims LittleEndian" kw_sessions LittleEndian
  sample_store sample_identity
  using sk.session_kernel_axioms sample_store_constructed by (rule constructed_store)

text \<open>
  C24. A compare-delete of an established session is exact although packets keep running. If it
  reports a removal, then at some instant during the call the map entry was byte for byte the
  expected value (or the tombstone that an earlier attempt for that value left), no packet changed
  the entry between that instant and the deletion, and the deleted entry was that tombstone. If it
  reports absence or difference, then at some instant the entry was absent, or neither the expected
  value nor its tombstone, and the call changed nothing. If it fails, the call changed nothing, or it
  left the tombstone of an entry that was the expected value. Without a kernel compare-deleter it
  never removes and never changes anything. In every case the entries of other keys, and an entry of
  the key that is another session than the expected one, live on and change by packets only, no entry
  appears, and without a reported removal none disappears.
\<close>

theorem compare_delete_exact:
  assumes "session_kernel ops kern view en"
    and "newLinuxSessionStoreWithAtomicCompareDelete ops b g i deleter x0 = (Inr store, x1)"
    and "deleter = IfaceNil \<or> deleter = IfaceValue (CompareDeleteEstablished en (Some (kern, i)))"
    and "DeleteEstablishedIfUnchanged ops (Some store) k v x = (r, x')"
    and "wf_map (view x)" "wf_value v"
  shows "(case r of
            Inr c \<Rightarrow>
              c = SessionDeleteRemoved
                \<and> (\<exists>m m2. drifts (view x) m \<and> (m_get m k = Some v \<or> m_get m k = Some (claimed v))
                     \<and> drifts (m_put k (claimed v) m) m2 \<and> m_get m2 k = Some (claimed v)
                     \<and> drifts (m_del k m2) (view x'))
              \<or> c = SessionDeleteAbsent
                \<and> (\<exists>m. drifts (view x) m \<and> m_get m k = None \<and> drifts m (view x'))
              \<or> c = SessionDeleteDifferent
                \<and> (\<exists>m. drifts (view x) m \<and> m_get m k \<notin> {None, Some v, Some (claimed v)} \<and> drifts m (view x'))
          | Inl e \<Rightarrow>
              drifts (view x) (view x')
              \<or> (\<exists>m. drifts (view x) m \<and> (m_get m k = Some v \<or> m_get m k = Some (claimed v))
                   \<and> drifts (m_put k (claimed v) m) (view x') \<and> m_get (view x') k = Some (claimed v)))
       \<and> (deleter = IfaceNil \<longrightarrow> r \<noteq> Inr SessionDeleteRemoved \<and> drifts (view x) (view x'))
       \<and> (\<forall>k' u. m_get (view x) k' = Some u \<and> (k' \<noteq> k \<or> \<not> same_session u v) \<longrightarrow>
            (\<exists>n u'. m_get (view x') k' = Some u' \<and> value_evolves n u u'))
       \<and> (\<forall>k'. m_get (view x) k' = None \<longrightarrow> m_get (view x') k' = None)
       \<and> (r \<noteq> Inr SessionDeleteRemoved \<longrightarrow>
            (\<forall>k'. m_get (view x) k' \<noteq> None \<longrightarrow> m_get (view x') k' \<noteq> None))"
proof (intro conjI)
  note eff = constructed_delete_does [OF assms]
  show "case r of
      Inr c \<Rightarrow>
        c = SessionDeleteRemoved
          \<and> (\<exists>m m2. drifts (view x) m \<and> (m_get m k = Some v \<or> m_get m k = Some (claimed v))
               \<and> drifts (m_put k (claimed v) m) m2 \<and> m_get m2 k = Some (claimed v)
               \<and> drifts (m_del k m2) (view x'))
        \<or> c = SessionDeleteAbsent
          \<and> (\<exists>m. drifts (view x) m \<and> m_get m k = None \<and> drifts m (view x'))
        \<or> c = SessionDeleteDifferent
          \<and> (\<exists>m. drifts (view x) m \<and> m_get m k \<notin> {None, Some v, Some (claimed v)} \<and> drifts m (view x'))
    | Inl e \<Rightarrow>
        drifts (view x) (view x')
        \<or> (\<exists>m. drifts (view x) m \<and> (m_get m k = Some v \<or> m_get m k = Some (claimed v))
             \<and> drifts (m_put k (claimed v) m) (view x') \<and> m_get (view x') k = Some (claimed v))"
    using eff drifts_trans [of "view x" _ "view x'"] unfolding delete_effect_def
    by (cases r; simp only: sum.case; blast)
  show "deleter = IfaceNil \<longrightarrow> r \<noteq> Inr SessionDeleteRemoved \<and> drifts (view x) (view x')"
    using session_kernel.delete_without_deleter [OF assms(1,4)]
      constructed_without_deleter [of ops b g i x0 store x1] assms(2) by auto
  show "\<forall>k' u. m_get (view x) k' = Some u \<and> (k' \<noteq> k \<or> \<not> same_session u v) \<longrightarrow>
      (\<exists>n u'. m_get (view x') k' = Some u' \<and> value_evolves n u u')"
    using delete_effect_keeps [OF eff assms(5,6)] by blast
  show "\<forall>k'. m_get (view x) k' = None \<longrightarrow> m_get (view x') k' = None"
    using delete_effect_descends [OF eff assms(5,6)] descends_absent by blast
  show "r \<noteq> Inr SessionDeleteRemoved \<longrightarrow> (\<forall>k'. m_get (view x) k' \<noteq> None \<longrightarrow> m_get (view x') k' \<noteq> None)"
    using delete_effect_present [OF eff assms(5,6)] by blast
qed

text \<open>
  Three runs: one with a packet between the claim and the deletion, one whose deletion fails after
  the claim, and one that meets the next session of the flow.
\<close>

lemma sample_delete:
  "DeleteEstablishedIfUnchanged kernel_backend (Some sample_store) sample_key sample_value
     (sample_world\<lparr>kw_packets := [[], [], [], [], [sample_packet]]\<rparr>) =
   (Inr SessionDeleteRemoved, sample_world\<lparr>kw_sessions := []\<rparr>)"
  "DeleteEstablishedIfUnchanged kernel_backend (Some sample_store) sample_key sample_value
     (sample_world\<lparr>kw_faults := replicate 6 None @ [Some 5]\<rparr>) =
   (Inl (ErrWrap ''atomically compare-delete established faketcp session''
           [ErrWrap ''delete claimed faketcp session'' [ErrExt 5]]),
    sample_world\<lparr>kw_sessions := [(sample_key, claimed sample_value)]\<rparr>)"
  "DeleteEstablishedIfUnchanged kernel_backend (Some sample_store) sample_key (sample_value\<lparr>v_SessionID := 4\<rparr>)
     sample_world = (Inr SessionDeleteDifferent, sample_world)"
  by code_simp+

theorem compare_delete_exact_witness:
  "(\<exists>m m2. drifts [(sample_key, sample_value)] m
      \<and> (m_get m sample_key = Some sample_value \<or> m_get m sample_key = Some (claimed sample_value))
      \<and> drifts (m_put sample_key (claimed sample_value) m) m2
      \<and> m_get m2 sample_key = Some (claimed sample_value) \<and> drifts (m_del sample_key m2) [])
   \<and> (drifts [(sample_key, sample_value)] [(sample_key, claimed sample_value)]
      \<or> (\<exists>m. drifts [(sample_key, sample_value)] m
           \<and> (m_get m sample_key = Some sample_value \<or> m_get m sample_key = Some (claimed sample_value))
           \<and> drifts (m_put sample_key (claimed sample_value) m) [(sample_key, claimed sample_value)]))
   \<and> (\<exists>n u. m_get [(sample_key, sample_value)] sample_key = Some u \<and> value_evolves n sample_value u)"
proof -
  note exact = compare_delete_exact [OF sk.session_kernel_axioms sample_store_constructed disjI2 [OF refl]]
  have other: "\<not> same_session sample_value (sample_value\<lparr>v_SessionID := 4\<rparr>)"
    and wf: "wf_map [(sample_key, sample_value)]" "wf_value (sample_value\<lparr>v_SessionID := 4\<rparr>)"
    "wf_value sample_value"
    using sample_facts by (simp_all add: same_session_def sample_value_def wf_value_def)
  show ?thesis
    using exact [OF sample_delete(1), THEN conjunct1] exact [OF sample_delete(2), THEN conjunct1]
      exact [OF sample_delete(3), THEN conjunct2, THEN conjunct2, THEN conjunct1, rule_format,
        of sample_key sample_value] wf other
    by (auto simp: sample_world_def delete_result_defs m_get_def)
qed

text \<open>
  C25. An insert never overwrites and is guarded. It succeeds only on an open store whose map handle
  still has the store's own valid identity, for a key and an established value of the store's
  generation, and then the key was absent at the instant of the insert and got exactly the value. A
  closed store, a missing handle, an invalid key and an invalid value are refused before the map is
  reached, and a failed insert changes nothing. Whatever the result, every entry that was there
  before lives on as the same session and changes by packets only; in particular an insert for a key
  that was present fails.
\<close>

theorem store_never_overwrites:
  assumes "session_kernel ops kern view en"
    and "InsertEstablished ops (Some store) k v x = (r, x')" and "wf_map (view x)" "wf_value v"
  shows "(r = None \<longrightarrow>
            \<not> ls_closed store
          \<and> (\<exists>b x1. ls_backend store = Some b \<and> bk_Identity ops b x = (Inr (ls_identity store), x1))
          \<and> validateSessionMapIdentity (ls_identity store) = None
          \<and> validateBoundSessionKey k (ls_generation store) = None
          \<and> validateEstablishedSessionValue v (ls_generation store) = None
          \<and> k_Generation k = ls_generation store \<and> v_Generation v = ls_generation store
          \<and> v_State v = FakeTCPStateEstablished
          \<and> (\<exists>m. drifts (view x) m \<and> m_get m k = None \<and> drifts (m_put k v m) (view x')))
       \<and> (r \<noteq> None \<longrightarrow> drifts (view x) (view x'))
       \<and> (ls_closed store \<or> ls_backend store = None \<or> validateBoundSessionKey k (ls_generation store) \<noteq> None
            \<or> validateEstablishedSessionValue v (ls_generation store) \<noteq> None \<longrightarrow> r \<noteq> None \<and> x' = x)
       \<and> (\<forall>k' u. m_get (view x) k' = Some u \<longrightarrow>
            (\<exists>n u'. m_get (view x') k' = Some u' \<and> value_evolves n u u') \<and> (k' = k \<longrightarrow> r \<noteq> None))"
proof (intro conjI impI allI)
  assume r: "r = None"
  note run = assms(2) [unfolded r]
  note g = session_kernel.insert_guarded [OF assms(1) run]
  show "\<not> ls_closed store" "validateSessionMapIdentity (ls_identity store) = None"
    "validateBoundSessionKey k (ls_generation store) = None"
    "validateEstablishedSessionValue v (ls_generation store) = None"
    "\<exists>b x1. ls_backend store = Some b \<and> bk_Identity ops b x = (Inr (ls_identity store), x1)" using g by blast+
  then show "k_Generation k = ls_generation store" "v_Generation v = ls_generation store"
    "v_State v = FakeTCPStateEstablished" by (simp_all add: validateBound_None validateEstablished_None)
  show "\<exists>m. drifts (view x) m \<and> m_get m k = None \<and> drifts (m_put k v m) (view x')"
    using run by (rule session_kernel.insert_exclusive [OF assms(1)])
next
  assume "r \<noteq> None"
  then show "drifts (view x) (view x')"
    using session_kernel.insert_error_reads [OF assms(1)] assms(2) by blast
next
  assume "ls_closed store \<or> ls_backend store = None \<or> validateBoundSessionKey k (ls_generation store) \<noteq> None
      \<or> validateEstablishedSessionValue v (ls_generation store) \<noteq> None"
  then obtain e where "InsertEstablished ops (Some store) k v x = (Some e, x)"
    using session_kernel.insert_refused [OF assms(1)] by blast
  then show "r \<noteq> None" "x' = x" using assms(2) by simp_all
next
  fix k' u
  assume u: "m_get (view x) k' = Some u"
  show "\<exists>n u'. m_get (view x') k' = Some u' \<and> value_evolves n u u'"
    using assms u by (rule session_kernel.insert_keeps)
  show "r \<noteq> None" if "k' = k"
    using session_kernel.insert_finds_entry [OF assms(1-3)] u that by simp
qed

theorem store_never_overwrites_witness:
  "(\<exists>m. drifts [] m \<and> m_get m sample_key = None
        \<and> drifts (m_put sample_key sample_value m) [(sample_key, sample_value)])
   \<and> ls_generation sample_store = v_Generation sample_value
   \<and> (\<exists>e. InsertEstablished kernel_backend (Some sample_store) sample_key sample_value sample_world
            = (Some e, sample_world))"
proof -
  note never = store_never_overwrites [OF sk.session_kernel_axioms [of LittleEndian]]
  have "InsertEstablished kernel_backend (Some sample_store) sample_key sample_value
      (sample_world\<lparr>kw_sessions := []\<rparr>) = (None, sample_world)" by code_simp
  from never [OF this] have "(\<exists>m. drifts [] m \<and> m_get m sample_key = None
        \<and> drifts (m_put sample_key sample_value m) [(sample_key, sample_value)])
      \<and> ls_generation sample_store = v_Generation sample_value"
    using sample_facts by (simp add: sample_world_def wf_map_def)
  moreover have "InsertEstablished kernel_backend (Some sample_store) sample_key sample_value sample_world
      = (Some (ErrWrap ''insert established faketcp session without overwrite'' [ErrExt 17]), sample_world)"
    by code_simp
  ultimately show ?thesis by blast
qed

text \<open>
  C26. Closing fences the store: after the first \<open>Close\<close>, whether or not releasing the handle
  failed, every insert, lookup and delete is refused with the closed error and reaches neither
  the map nor the deleter; and once a close has succeeded, closing again does nothing.
\<close>

theorem close_fences_store:
  assumes "Store_Close ops (Some store) x = (e, Some store', x1)"
  shows "(InsertEstablished ops (Some store') k v y = (Some (ErrVar ErrSessionStoreClosed), y)
        \<and> LookupEstablished ops (Some store') k y = (Inl (ErrVar ErrSessionStoreClosed), y)
        \<and> DeleteEstablishedIfUnchanged ops (Some store') k v y = (Inl (ErrVar ErrSessionStoreClosed), y))
       \<and> (e = None \<longrightarrow> Store_Close ops (Some store') y = (None, Some store', y))"
proof -
  have "ls_closed store'" "e = None \<longrightarrow> ls_backend store' = None"
    using assms by (auto simp: Store_Close_def split: option.splits prod.splits if_splits)
  then show ?thesis
    by (auto simp: InsertEstablished_def LookupEstablished_def DeleteEstablishedIfUnchanged_def
        requireOpenLocked_def Store_Close_def)
qed

theorem close_fences_store_witness:
  "\<exists>store'. Store_Close kernel_backend (Some sample_store) sample_world = (None, Some store', sample_world)
     \<and> LookupEstablished kernel_backend (Some store') sample_key sample_world
         = (Inl (ErrVar ErrSessionStoreClosed), sample_world)"
proof -
  have "Store_Close kernel_backend (Some sample_store) sample_world =
     (None, Some (sample_store\<lparr>ls_closed := True, ls_backend := None, ls_compareDelete := None\<rparr>), sample_world)"
    by (simp add: Store_Close_def sample_store_def kernel_backend_def kcall_def sample_world_def)
  from close_fences_store [OF this] this show ?thesis
    by (auto simp: sample_store_def)
qed

end
