(* ===== verification/Checksum.thy ===== *)
theory Checksum
  imports Identity
begin

text \<open>
  Internet checksums and the checks on captured UDP packets:
  \<open>internal/faketcp/checksum.go\<close>, with \<open>validatePacketFlow\<close> of \<open>control_packet.go\<close>.
  The accumulator is a 32-bit word that wraps; the lemmas show that it never does on a packet
  whose length fits the IPv4 header.
\<close>

section \<open>The one's complement sum\<close>

fun addChecksumBytes :: "u32 \<Rightarrow> byte list \<Rightarrow> u32" where
  "addChecksumBytes acc (b0 # b1 # data) =
     addChecksumBytes (acc + ucast (the (be16 [b0, b1]))) data"
| "addChecksumBytes acc [b0] = acc + push_bit 8 (ucast b0)"
| "addChecksumBytes acc [] = acc"

lemma fold_step:
  "unat ((acc AND 0xffff) + drop_bit 16 acc :: u32) = unat acc mod 65536 + unat acc div 65536"
proof -
  have "acc AND 0xffff = take_bit 16 acc" by (simp add: take_bit_eq_mask mask_eq_exp_minus_1)
  then have lo: "unat (acc AND 0xffff) = unat acc mod 65536"
    by (simp add: unsigned_take_bit_eq take_bit_eq_mod unat_mod_distrib)
  have hi: "unat (drop_bit 16 acc) = unat acc div 65536"
    by (simp add: unat_drop_bit_eq drop_bit_eq_div unat_div_distrib)
  have "unat acc div 65536 < 65536"
    using unat_bound [of acc] by (simp add: less_mult_imp_div_less)
  then show ?thesis
    by (subst unat_plus_simple [THEN iffD1]) (simp_all add: lo hi no_olen_add_nat)
qed

lemma drop16_zero: "drop_bit 16 (acc :: u32) = 0 \<longleftrightarrow> unat acc < 65536"
  using unat_drop_bit_eq [of 16 acc] by (auto simp: word_unat_eq_iff drop_bit_eq_div div_eq_0_iff)

function finishChecksum :: "u32 \<Rightarrow> u16" where
  "finishChecksum acc =
     (if drop_bit 16 acc \<noteq> 0 then finishChecksum ((acc AND 0xffff) + drop_bit 16 acc)
      else NOT (ucast acc))"
  by auto
termination
proof (relation "measure unat")
  show "((acc AND 0xffff) + drop_bit 16 acc, acc) \<in> measure unat" if "drop_bit 16 acc \<noteq> 0" for acc :: u32
  proof -
    have "0 < unat acc div 65536" using that by (simp add: drop16_zero div_greater_zero_iff)
    then have "unat acc mod 65536 + unat acc div 65536 < unat acc"
      using div_mod_decomp [of "unat acc" 65536] by linarith
    then show ?thesis by (simp add: fold_step)
  qed
qed simp

declare finishChecksum.simps [simp del]

definition checksumValid :: "byte list \<Rightarrow> bool" where
  "checksumValid data = (finishChecksum (addChecksumBytes 0 data) = 0)"

text \<open>
  The pseudo header is a zeroed \<open>[12]byte\<close> into which at most eight address bytes are
  copied.
\<close>

definition transportChecksumSum :: "byte list \<Rightarrow> u8 \<Rightarrow> byte list \<Rightarrow> u32" where
  "transportChecksumSum addresses protocol transport =
     (let pseudo = take 8 addresses @ zero_array (8 - length addresses) @ [0, protocol]
                   @ put_be16 (of_nat (length transport));
          acc = addChecksumBytes 0 pseudo
      in addChecksumBytes acc transport)"

definition transportChecksum :: "byte list \<Rightarrow> u8 \<Rightarrow> byte list \<Rightarrow> u16" where
  "transportChecksum addresses protocol transport =
     finishChecksum (transportChecksumSum addresses protocol transport)"

definition transportChecksumValid :: "byte list \<Rightarrow> u8 \<Rightarrow> byte list \<Rightarrow> bool" where
  "transportChecksumValid addresses protocol transport =
     (finishChecksum (transportChecksumSum addresses protocol transport) = 0)"

section \<open>Captured packets\<close>

definition validatePacketFlow :: "FakeTCPSessionKey \<Rightarrow> err option" where
  "validatePacketFlow flow =
     (if k_Generation flow = 0 then Some (ErrNew ''flow generation must be non-zero'')
      else if k_LocalIPv4 flow = 0 then Some (ErrNew ''flow local IPv4 address must be non-zero'')
      else if k_RemoteIPv4 flow = 0 then Some (ErrNew ''flow remote IPv4 address must be non-zero'')
      else if k_UnderlayIndex flow = 0
      then Some (ErrNew ''flow underlay interface index must be non-zero'')
      else if k_LocalPort flow = 0 then Some (ErrNew ''flow local port must be non-zero'')
      else if k_RemotePort flow = 0 then Some (ErrNew ''flow remote port must be non-zero'')
      else if k_WGID flow = 0 then Some (ErrNew ''flow WGID must be non-zero'')
      else if k_Reserved flow \<noteq> zero_array 4 then Some (ErrNew ''flow reserved bytes must be zero'')
      else None)"

definition fixedIPv4UDP :: "byte list \<Rightarrow> string \<Rightarrow> (err + byte list) option" where
  "fixedIPv4UDP packet operation =
     (if length packet < 20 + 8 then Some (Inl (ErrNew (operation @ '': not complete IPv4/UDP'')))
      else do {
        b0 \<leftarrow> rd packet 0;
        if drop_bit 4 b0 \<noteq> 4 then Some (Inl (ErrNew (operation @ '': not complete IPv4/UDP'')))
        else let headerLength = unat (b0 AND 0x0f) * 4 in
        if headerLength \<noteq> 20
        then Some (Inl (ErrNew (operation @ '': IPv4 header length is unsupported'')))
        else do {
          total \<leftarrow> be16_at packet 2;
          if unat total \<noteq> length packet
          then Some (Inl (ErrNew (operation @ '': IPv4 total length is inconsistent'')))
          else do {
            frag \<leftarrow> be16_at packet 6;
            if frag AND 0xbfff \<noteq> 0
            then Some (Inl (ErrNew (operation @ '': reserved IPv4 flags and fragments are unsupported'')))
            else do {
              protocol \<leftarrow> rd packet 9;
              if protocol \<noteq> 17 then Some (Inl (ErrNew (operation @ '': IPv4 protocol is not UDP'')))
              else do {
                udp \<leftarrow> slice packet 20 (length packet);
                udpLength \<leftarrow> be16_at udp 4;
                if unat udpLength \<noteq> length udp
                then Some (Inl (ErrNew (operation @ '': UDP length is inconsistent'')))
                else Some (Inr udp)
              }
            }
          }
        }
      })"

text \<open>
  \<open>udp\<close> is a slice of \<open>packet\<close>, so a write to \<open>udp[i]\<close> is a write to
  \<open>packet[20+i]\<close>. The result is the error and the packet as the caller sees it afterwards.
\<close>

definition MaterializeIPv4UDPChecksums :: "byte list \<Rightarrow> (err option \<times> byte list) option" where
  "MaterializeIPv4UDPChecksums packet = do {
     r \<leftarrow> fixedIPv4UDP packet ''materialize faketcp packet'';
     case r of
       Inl e \<Rightarrow> Some (Some e, packet)
     | Inr _ \<Rightarrow> do {
         packet \<leftarrow> write_at 10 [0, 0] packet;
         header \<leftarrow> slice packet 0 20;
         packet \<leftarrow> write_at 10 (put_be16 (finishChecksum (addChecksumBytes 0 header))) packet;
         packet \<leftarrow> write_at 26 [0, 0] packet;
         addresses \<leftarrow> slice packet 12 20;
         udp \<leftarrow> slice packet 20 (length packet);
         let checksum = transportChecksum addresses 17 udp;
         let checksum = (if checksum = 0 then 0xffff else checksum);
         packet \<leftarrow> write_at 26 (put_be16 checksum) packet;
         Some (None, packet)
       }
   }"

definition ValidateMaterializedIPv4UDP ::
  "endian \<Rightarrow> byte list \<Rightarrow> FakeTCPSessionKey \<Rightarrow> err option option" where
  "ValidateMaterializedIPv4UDP en packet flow = do {
     r \<leftarrow> fixedIPv4UDP packet ''validate materialized faketcp packet'';
     case r of
       Inl e \<Rightarrow> Some (Some e)
     | Inr udp \<Rightarrow>
       (case validatePacketFlow flow of
          Some e \<Rightarrow> Some (Some (ErrWrap ''validate materialized faketcp packet'' [e]))
        | None \<Rightarrow> do {
            source \<leftarrow> slice packet 12 16;
            destination \<leftarrow> slice packet 16 20;
            if source \<noteq> put_ne32 en (k_LocalIPv4 flow) \<or> destination \<noteq> put_ne32 en (k_RemoteIPv4 flow)
            then Some (Some (ErrNew ''IPv4 endpoints do not match the flow''))
            else do {
              sourcePort \<leftarrow> be16_at udp 0;
              destinationPort \<leftarrow> be16_at udp 2;
              if sourcePort \<noteq> k_LocalPort flow \<or> destinationPort \<noteq> k_RemotePort flow
              then Some (Some (ErrNew ''UDP ports do not match the flow''))
              else do {
                header \<leftarrow> slice packet 0 20;
                if \<not> checksumValid header then Some (Some (ErrNew ''IPv4 checksum is invalid''))
                else do {
                  checksum \<leftarrow> be16_at udp 6;
                  if checksum = 0 then Some (Some (ErrNew ''UDP checksum is absent''))
                  else do {
                    addresses \<leftarrow> slice packet 12 20;
                    if \<not> transportChecksumValid addresses 17 udp
                    then Some (Some (ErrNew ''UDP checksum is invalid''))
                    else Some None
                  }
                }
              }
            }
          })
   }"

section \<open>The sum as a number\<close>

text \<open>
  Reference: the sum of the big-endian 16-bit words of the data, an odd byte padded on the
  right, and its end-around-carry fold.
\<close>

fun csum :: "byte list \<Rightarrow> nat" where
  "csum (b0 # b1 # data) = unat b0 * 256 + unat b1 + csum data"
| "csum [b0] = unat b0 * 256"
| "csum [] = 0"

definition fold16 :: "nat \<Rightarrow> nat" where
  "fold16 n = (if n = 0 then 0 else (n - 1) mod 65535 + 1)"

lemma be16_value: "unat (the (be16 [a, b])) = unat a * 256 + unat b"
proof -
  have "(ucast b :: u16) AND push_bit 8 (ucast a) = 0"
    by (rule bit_word_eqI) (auto simp: bit_simps dest: bit_imp_le_length)
  then have "the (be16 [a, b]) = ucast b + push_bit 8 (ucast a)"
    by (simp add: disjunctive_add_eq_or)
  moreover have "unat (push_bit 8 (ucast a :: u16)) = unat a * 256"
    using unat_bound [of a] by (simp add: push_bit_eq_mult unat_mult_lem [THEN iffD1] unat_ucast_wider)
  ultimately show ?thesis
    using unat_bound [of a] unat_bound [of b]
    by (simp add: unat_plus_simple [THEN iffD1] no_olen_add_nat unat_ucast_wider)
qed

lemma csum_put_be16 [simp]: "csum (put_be16 v) = unat v"
proof -
  obtain a b where ab: "put_be16 v = [a, b]" by (simp add: put_be16_def)
  then have "be16 [a, b] = Some v" using be16c.dec_enc [of v "[]"] by simp
  then show ?thesis using be16_value [of a b] ab by simp
qed

lemma csum_append: "even (length xs) \<Longrightarrow> csum (xs @ ys) = csum xs + csum ys"
  by (induction xs rule: csum.induct) auto

lemma csum_bound: "csum data \<le> 65535 * ((length data + 1) div 2)"
proof (induction data rule: csum.induct)
  case (1 b0 b1 data)
  then show ?case using unat_bound [of b0] unat_bound [of b1] by simp
next
  case (2 b0)
  then show ?case using unat_bound [of b0] by simp
qed simp

lemma add_value:
  "unat s + csum data < 2 ^ 32 \<Longrightarrow> unat (addChecksumBytes s data) = unat s + csum data"
proof (induction s data rule: addChecksumBytes.induct)
  case (1 s b0 b1 data)
  have w: "unat (ucast (the (be16 [b0, b1])) :: u32) = unat b0 * 256 + unat b1"
    using be16_value [of b0 b1] by (simp add: unat_ucast_wider del: be16.simps)
  have "unat (s + ucast (the (be16 [b0, b1]))) = unat s + (unat b0 * 256 + unat b1)"
    using 1(2) w by (subst unat_plus_simple [THEN iffD1]) (simp_all add: no_olen_add_nat del: be16.simps)
  then show ?case using 1 by (simp del: be16.simps)
next
  case (2 s b0)
  have "unat (push_bit 8 (ucast b0) :: u32) = unat b0 * 256"
    using unat_bound [of b0] by (simp add: push_bit_eq_mult unat_mult_lem [THEN iffD1] unat_ucast_wider)
  then show ?case using 2 by (simp add: unat_plus_simple [THEN iffD1] no_olen_add_nat)
qed simp

lemma fold16_bound: "fold16 n \<le> 65535"
  unfolding fold16_def using mod_less_divisor [of 65535 "n - 1"] by auto

lemma fold16_step: "fold16 (n mod 65536 + n div 65536) = fold16 n"
proof (cases "n = 0")
  case False
  let ?m = "n mod 65536 + n div 65536"
  have n: "n = ?m + n div 65536 * 65535" using div_mod_decomp [of n 65536] by linarith
  have m: "0 < ?m" using False by (cases "n div 65536 = 0") (auto simp: div_eq_0_iff)
  have "n - 1 = ?m - 1 + n div 65536 * 65535" using n m by linarith
  then have "(n - 1) mod 65535 = (?m - 1) mod 65535" by (metis mod_mult_self1)
  with False m show ?thesis by (simp add: fold16_def)
qed simp

lemma unat_not16: "unat (NOT (w :: u16)) = 65535 - unat w"
proof -
  have "unat (- 1 :: u16) = 65535"
    by (simp add: unsigned_minus_1_eq_mask mask_eq_exp_minus_1)
  moreover have "NOT w = - 1 - w" by (simp add: not_eq_complement)
  ultimately show ?thesis by (simp add: unat_sub)
qed

lemma finish_value: "unat (finishChecksum s) = 65535 - fold16 (unat s)"
proof (induction s rule: finishChecksum.induct)
  case (1 s)
  show ?case
  proof (cases "drop_bit 16 s = 0")
    case True
    then have small: "unat s < 65536" by (simp add: drop16_zero)
    have "finishChecksum s = NOT (ucast s)" using True by (simp add: finishChecksum.simps [of s])
    moreover have "unat (NOT (ucast s :: u16)) = 65535 - unat (ucast s :: u16)"
      by (rule unat_not16)
    ultimately show ?thesis using small by (auto simp: fold16_def unsigned_ucast_eq take_bit_eq_mod)
  next
    case False
    then show ?thesis
      using 1 finishChecksum.simps [of s] by (simp add: fold_step fold16_step)
  qed
qed

lemma finish_zero: "finishChecksum s = 0 \<longleftrightarrow> fold16 (unat s) = 65535"
  using fold16_bound [of "unat s"] by (simp add: word_unat_eq_iff finish_value)

lemma fold16_full: "fold16 n = 65535 \<longleftrightarrow> 0 < n \<and> 65535 dvd n"
proof (cases "n = 0")
  case False
  then obtain m where m: "n = Suc m" using not0_implies_Suc by blast
  have "m mod 65535 = 65534 \<longleftrightarrow> Suc m mod 65535 = 0"
    using mod_Suc [of m 65535] by auto
  then show ?thesis using m by (simp add: fold16_def dvd_eq_mod_eq_0)
qed (simp add: fold16_def)

lemma fold16_complement: "65535 dvd n + (65535 - fold16 n)"
proof (cases "n = 0")
  case False
  define q r where "q = (n - 1) div 65535" and "r = (n - 1) mod 65535"
  have n: "n = Suc (q * 65535 + r)" and r: "r < 65535"
    using False div_mod_decomp [of "n - 1" 65535] by (simp_all add: q_def r_def)
  have "fold16 n = Suc r" using r by (simp add: n fold16_def)
  then have "n + (65535 - fold16 n) = Suc q * 65535" using n r by simp
  then show ?thesis by (simp only: dvd_triv_right)
qed (simp add: fold16_def)

text \<open>
  Adding the checksum of the rest to the sum makes it complete, and so does the substitute
  \<open>0xffff\<close> that UDP uses for a zero checksum.
\<close>

lemma finish_complete:
  assumes "unat s1 = unat s0 + unat c"
    and "c = finishChecksum s0 \<or> finishChecksum s0 = 0 \<and> c = 0xffff"
  shows "finishChecksum s1 = 0"
proof -
  have "0 < unat s1 \<and> 65535 dvd unat s1"
    using assms(2)
  proof (elim disjE conjE)
    assume c: "c = finishChecksum s0"
    have "fold16 (unat s0) = 0 \<longleftrightarrow> unat s0 = 0" by (simp add: fold16_def)
    then show ?thesis
      using assms(1) fold16_complement [of "unat s0"] fold16_bound [of "unat s0"]
      by (auto simp: c finish_value)
  next
    assume "finishChecksum s0 = 0" "c = 0xffff"
    then show ?thesis
      using assms(1) by (simp add: finish_zero fold16_full)
  qed
  then show ?thesis by (simp add: finish_zero fold16_full)
qed

lemma header_value: "length h \<le> 65535 \<Longrightarrow> unat (addChecksumBytes 0 h) = csum h"
  using csum_bound [of h] by (subst add_value) auto

definition pseudo_header :: "byte list \<Rightarrow> u8 \<Rightarrow> nat \<Rightarrow> byte list" where
  "pseudo_header addresses protocol n =
     take 8 addresses @ zero_array (8 - length addresses) @ [0, protocol] @ put_be16 (of_nat n)"

lemma transport_value:
  assumes "length t \<le> 65535"
  shows "unat (transportChecksumSum a p t) = csum (pseudo_header a p (length t)) + csum t"
proof -
  let ?h = "pseudo_header a p (length t)"
  have "length ?h = 12" by (simp add: pseudo_header_def)
  then have h: "csum ?h \<le> 65535 * 6" using csum_bound [of ?h] by simp
  have "(length t + 1) div 2 \<le> 32768" using assms by presburger
  then have "csum t \<le> 65535 * 32768" using csum_bound [of t] by linarith
  then show ?thesis
    using h unfolding transportChecksumSum_def Let_def pseudo_header_def [symmetric]
    by (simp add: add_value)
qed

section \<open>Completing a captured packet\<close>

text \<open>
  The two packets the code builds one from the other, with the first 28 bytes spelled out: the
  checksum fields are bytes 10, 11 and 26, 27.
\<close>

definition captured :: "byte list \<Rightarrow> u16 \<Rightarrow> byte list \<Rightarrow> byte list \<Rightarrow> u16 \<Rightarrow> byte list \<Rightarrow> byte list" where
  "captured h c a u d r = h @ put_be16 c @ a @ u @ put_be16 d @ r"

lemma split_at: "n \<le> length xs \<Longrightarrow> \<exists>ys zs. xs = ys @ zs \<and> length ys = n"
  by (rule exI [of _ "take n xs"], rule exI [of _ "drop n xs"]) simp

lemma captured_exists:
  assumes "28 \<le> length p"
  obtains h c a u d r where "p = captured h c a u d r" "length h = 10" "length a = 8" "length u = 6"
proof -
  obtain h p1 where 1: "p = h @ p1" "length h = 10" using split_at [of 10 p] assms by auto
  obtain x p2 where 2: "p1 = x @ p2" "length x = 2" using split_at [of 2 p1] assms 1 by auto
  obtain a p3 where 3: "p2 = a @ p3" "length a = 8" using split_at [of 8 p2] assms 1 2 by auto
  obtain u p4 where 4: "p3 = u @ p4" "length u = 6" using split_at [of 6 p3] assms 1 2 3 by auto
  obtain y r where 5: "p4 = y @ r" "length y = 2" using split_at [of 2 p4] assms 1 2 3 4 by auto
  obtain c where c: "put_be16 c = x" using be16c.enc_onto 2(2) by blast
  obtain d where d: "put_be16 d = y" using be16c.enc_onto 5(2) by blast
  show thesis by (rule that [of h c a u d r]) (simp_all add: captured_def 1 2 3 4 5 c d)
qed

lemma be16_at_append:
  "i + 2 \<le> length xs \<Longrightarrow> be16_at (xs @ ys) i = be16_at xs i"
  "length xs \<le> i \<Longrightarrow> be16_at (xs @ ys) i = be16_at ys (i - length xs)"
  by (auto simp: be16_at_def slice_def)

text \<open>The structural checks look at no checksum byte.\<close>

lemma fixed_captured:
  assumes "length h = 10" "length a = 8" "length u = 6"
  shows "fixedIPv4UDP (captured h c a u d r) op =
    (if drop_bit 4 (h ! 0) \<noteq> 4 then Some (Inl (ErrNew (op @ '': not complete IPv4/UDP'')))
     else if unat (h ! 0 AND 0x0f) * 4 \<noteq> 20
     then Some (Inl (ErrNew (op @ '': IPv4 header length is unsupported'')))
     else if unat (the (be16_at h 2)) \<noteq> 28 + length r
     then Some (Inl (ErrNew (op @ '': IPv4 total length is inconsistent'')))
     else if the (be16_at h 6) AND 0xbfff \<noteq> 0
     then Some (Inl (ErrNew (op @ '': reserved IPv4 flags and fragments are unsupported'')))
     else if h ! 9 \<noteq> 17 then Some (Inl (ErrNew (op @ '': IPv4 protocol is not UDP'')))
     else if unat (the (be16_at u 4)) \<noteq> 8 + length r
     then Some (Inl (ErrNew (op @ '': UDP length is inconsistent'')))
     else Some (Inr (u @ put_be16 d @ r)))"
proof -
  obtain t f l where "be16_at h 2 = Some t" "be16_at h 6 = Some f" "be16_at u 4 = Some l"
    using be16_at_returns [of 2 h] be16_at_returns [of 6 h] be16_at_returns [of 4 u] assms by auto
  then show ?thesis
    using assms by (simp add: fixedIPv4UDP_def captured_def be16_at_append rd_Some slice_Some Let_def nth_append
        split del: if_split cong: if_cong)
qed

definition ip_complete :: "byte list \<Rightarrow> byte list \<Rightarrow> u16" where
  "ip_complete h a = finishChecksum (addChecksumBytes 0 (h @ put_be16 0 @ a))"

definition udp_complete :: "byte list \<Rightarrow> byte list \<Rightarrow> byte list \<Rightarrow> u16" where
  "udp_complete a u r =
     (let checksum = transportChecksum a 17 (u @ put_be16 0 @ r)
      in if checksum = 0 then 0xffff else checksum)"

lemma put_be16_zero: "put_be16 0 = [0, 0]"
  by (simp add: put_be16_def)

lemma materialize_captured:
  assumes "length h = 10" "length a = 8" "length u = 6"
    and "fixedIPv4UDP (captured h c a u d r) ''materialize faketcp packet'' = Some (Inr udp)"
  shows "MaterializeIPv4UDPChecksums (captured h c a u d r) =
           Some (None, captured h (ip_complete h a) a u (udp_complete a u r) r)"
  using assms
  by (simp add: MaterializeIPv4UDPChecksums_def write_at_Some slice_Some captured_def
      ip_complete_def udp_complete_def put_be16_zero Let_def)

lemma ip_complete_valid:
  assumes "length h = 10" "length a = 8"
  shows "checksumValid (h @ put_be16 (ip_complete h a) @ a)"
  unfolding checksumValid_def
proof (rule finish_complete)
  show "unat (addChecksumBytes 0 (h @ put_be16 (ip_complete h a) @ a)) =
      unat (addChecksumBytes 0 (h @ put_be16 0 @ a)) + unat (ip_complete h a)"
    using assms by (simp add: header_value csum_append)
qed (simp add: ip_complete_def)

lemma udp_complete_valid:
  assumes "length u = 6" "length r < 65528"
  shows "transportChecksumValid a 17 (u @ put_be16 (udp_complete a u r) @ r)"
    and "udp_complete a u r \<noteq> 0"
proof -
  show "transportChecksumValid a 17 (u @ put_be16 (udp_complete a u r) @ r)"
    unfolding transportChecksumValid_def
  proof (rule finish_complete)
    show "unat (transportChecksumSum a 17 (u @ put_be16 (udp_complete a u r) @ r)) =
        unat (transportChecksumSum a 17 (u @ put_be16 0 @ r)) + unat (udp_complete a u r)"
      using assms by (simp add: transport_value csum_append)
  qed (auto simp: udp_complete_def transportChecksum_def Let_def)
  show "udp_complete a u r \<noteq> 0" by (simp add: udp_complete_def Let_def)
qed

text \<open>The flow a captured packet belongs to: its addresses and ports, in a valid key.\<close>

definition packet_of_flow :: "endian \<Rightarrow> byte list \<Rightarrow> FakeTCPSessionKey \<Rightarrow> bool" where
  "packet_of_flow en p flow \<longleftrightarrow>
     validatePacketFlow flow = None
     \<and> take 4 (drop 12 p) = put_ne32 en (k_LocalIPv4 flow)
     \<and> take 4 (drop 16 p) = put_ne32 en (k_RemoteIPv4 flow)
     \<and> be16_at p 20 = Some (k_LocalPort flow) \<and> be16_at p 22 = Some (k_RemotePort flow)"

lemma validate_captured:
  assumes "length h = 10" "length a = 8" "length u = 6"
    and fx: "fixedIPv4UDP (captured h c a u d r) ''validate materialized faketcp packet''
               = Some (Inr (u @ put_be16 d @ r))"
    and "checksumValid (h @ put_be16 c @ a)" "transportChecksumValid a 17 (u @ put_be16 d @ r)" "d \<noteq> 0"
  shows "ValidateMaterializedIPv4UDP en (captured h c a u d r) flow = Some None \<longleftrightarrow>
           packet_of_flow en (captured h c a u d r) flow"
proof -
  have "be16_at (put_be16 d @ r) 0 = Some d" by (simp add: be16_at_drop be16c.dec_enc)
  moreover obtain s t where "be16_at u 0 = Some s" "be16_at u 2 = Some t"
    using be16_at_returns [of 0 u] be16_at_returns [of 2 u] assms(3) by auto
  ultimately show ?thesis
    using assms unfolding ValidateMaterializedIPv4UDP_def fx packet_of_flow_def
    by (auto simp: captured_def be16_at_append slice_Some split: option.splits)
qed

lemma fixed_Inr_captured:
  assumes "fixedIPv4UDP p op = Some (Inr udp)"
  obtains h c a u d r where "p = captured h c a u d r" "length h = 10" "length a = 8" "length u = 6"
    "length r < 65508"
    "\<And>c' d' op'. fixedIPv4UDP (captured h c' a u d' r) op' = Some (Inr (u @ put_be16 d' @ r))"
proof -
  have "28 \<le> length p" using assms by (auto simp: fixedIPv4UDP_def split: if_splits)
  then obtain h c a u d r where p: "p = captured h c a u d r" "length h = 10" "length a = 8" "length u = 6"
    by (rule captured_exists)
  have ok: "drop_bit 4 (h ! 0) = 4" "unat (h ! 0 AND 0x0f) * 4 = 20" "unat (the (be16_at h 2)) = 28 + length r"
    "the (be16_at h 6) AND 0xbfff = 0" "h ! 9 = 17" "unat (the (be16_at u 4)) = 8 + length r"
    using assms unfolding p(1) fixed_captured [OF p(2-4)] by (auto split: if_splits)
  then have "length r < 65508" using unat_bound [of "the (be16_at h 2)"] by simp
  moreover have "fixedIPv4UDP (captured h c' a u d' r) op' = Some (Inr (u @ put_be16 d' @ r))" for c' d' op'
    unfolding fixed_captured [OF p(2-4)] using ok by simp
  ultimately show thesis using that p by blast
qed

lemma captured_same_elsewhere:
  assumes "length h = 10" "length a = 8" "length u = 6" "i \<notin> {10, 11, 26, 27}"
  shows "captured h c a u d r ! i = captured h c' a u d' r ! i"
  using assms by (auto simp: captured_def nth_append)

lemma flow_captured:
  assumes "length h = 10" "length a = 8" "length u = 6"
  shows "packet_of_flow en (captured h c a u d r) flow = packet_of_flow en (captured h c' a u d' r) flow"
  using assms by (simp add: packet_of_flow_def captured_def be16_at_append)

text \<open>
  C32. The checksum loop is the Internet checksum: on data of any length that an IPv4 length
  field can express, the 32-bit accumulation never wraps and the carry loop ends with the
  complement of the end-around-carry fold of the true sum of the 16-bit words.
\<close>

theorem checksum_is_reference:
  assumes "length data \<le> 65535"
  shows "unat (finishChecksum (addChecksumBytes 0 data)) = 65535 - fold16 (csum data)"
  using assms by (simp add: finish_value header_value)

theorem checksum_is_reference_witness:
  "unat (finishChecksum (addChecksumBytes 0 [0x45, 0, 0xff, 0xff, 7]))
     = 65535 - fold16 (csum [0x45, 0, 0xff, 0xff, 7])"
  using checksum_is_reference [of "[0x45, 0, 0xff, 0xff, 7]"] by simp

text \<open>
  C31. Completing the checksums of a captured packet makes it valid for reinjection: whenever
  the structural checks accept the packet, the completion succeeds, changes nothing but the two
  checksum fields, and the result passes the validation for a flow exactly when the flow key is
  well formed and names the addresses and ports of the packet.
\<close>

theorem materialize_then_validate:
  assumes "fixedIPv4UDP p ''materialize faketcp packet'' = Some (Inr udp)"
  shows "\<exists>p'. MaterializeIPv4UDPChecksums p = Some (None, p') \<and> length p' = length p
           \<and> (\<forall>i. i \<notin> {10, 11, 26, 27} \<longrightarrow> p' ! i = p ! i)
           \<and> (\<forall>en flow. ValidateMaterializedIPv4UDP en p' flow = Some None \<longleftrightarrow> packet_of_flow en p flow)"
  using assms
proof (rule fixed_Inr_captured)
  fix h c a u d r
  let ?c = "ip_complete h a" and ?d = "udp_complete a u r"
  assume p: "p = captured h c a u d r" and len: "length h = 10" "length a = 8" "length u = 6"
    and r: "length r < 65508"
    and fx: "\<And>c' d' op'. fixedIPv4UDP (captured h c' a u d' r) op' = Some (Inr (u @ put_be16 d' @ r))"
  have "ValidateMaterializedIPv4UDP en (captured h ?c a u ?d r) flow = Some None
      \<longleftrightarrow> packet_of_flow en p flow" for en flow
    using validate_captured [OF len fx ip_complete_valid udp_complete_valid] flow_captured [OF len] len r
    by (simp add: p)
  then show ?thesis
    using materialize_captured [OF len] assms captured_same_elsewhere [OF len] len
    by (auto simp: p captured_def)
qed

definition sample_capture :: "byte list" where
  "sample_capture = [0x45, 0, 0, 29, 0, 0, 0x40, 0, 64, 17, 0, 0, 10, 0, 0, 1, 10, 0, 0, 2,
                     0x1f, 0x90, 0x1f, 0x91, 0, 9, 0xab, 0xcd, 7]"

theorem materialize_then_validate_witness:
  "\<exists>p'. MaterializeIPv4UDPChecksums sample_capture = Some (None, p') \<and> length p' = length sample_capture
     \<and> (\<forall>i. i \<notin> {10, 11, 26, 27} \<longrightarrow> p' ! i = sample_capture ! i)
     \<and> (\<forall>en flow. ValidateMaterializedIPv4UDP en p' flow = Some None
          \<longleftrightarrow> packet_of_flow en sample_capture flow)"
  by (rule materialize_then_validate [of _ "drop 20 sample_capture"])
    (simp add: sample_capture_def fixedIPv4UDP_def be16_at_def slice_def rd_def Let_def)

lemma fixed_returns: "\<exists>r. fixedIPv4UDP p op = Some r"
proof (cases "length p < 28")
  case False
  then have "28 \<le> length p" by simp
  then obtain h c a u d r where p: "p = captured h c a u d r" "length h = 10" "length a = 8" "length u = 6"
    by (rule captured_exists)
  then show ?thesis by (simp add: fixed_captured)
qed (simp add: fixedIPv4UDP_def)

lemma fixed_Inr_shape:
  "fixedIPv4UDP p op = Some (Inr udp) \<Longrightarrow> 28 \<le> length p \<and> 8 \<le> length udp"
  by (auto simp: fixedIPv4UDP_def slice_def Let_def bind_eq_Some_conv split: if_splits)

lemma materialize_returns: "MaterializeIPv4UDPChecksums p \<noteq> None"
  using fixed_returns [of p "''materialize faketcp packet''"]
proof (elim exE)
  fix res assume res: "fixedIPv4UDP p ''materialize faketcp packet'' = Some res"
  show ?thesis
  proof (cases res)
    case (Inr udp)
    then have "28 \<le> length p" using res fixed_Inr_shape by blast
    then obtain h c a u d r where "p = captured h c a u d r" "length h = 10" "length a = 8" "length u = 6"
      by (rule captured_exists)
    then show ?thesis using materialize_captured res Inr by simp
  qed (simp add: MaterializeIPv4UDPChecksums_def res)
qed

text \<open>
  C33. Handling of captured packets never panics: for every byte string, however short or
  malformed, completion and validation return normally.
\<close>

theorem captured_packet_no_panic:
  "MaterializeIPv4UDPChecksums p \<noteq> None \<and> ValidateMaterializedIPv4UDP en p flow \<noteq> None"
proof
  show "MaterializeIPv4UDPChecksums p \<noteq> None" by (rule materialize_returns)
  show "ValidateMaterializedIPv4UDP en p flow \<noteq> None"
    using fixed_returns [of p "''validate materialized faketcp packet''"]
  proof (elim exE)
    fix res assume res: "fixedIPv4UDP p ''validate materialized faketcp packet'' = Some res"
    show ?thesis
    proof (cases res)
      case (Inr udp)
      then have "28 \<le> length p" "8 \<le> length udp" using fixed_Inr_shape res by auto
      moreover from this obtain s t l where "be16_at udp 0 = Some s" "be16_at udp 2 = Some t" "be16_at udp 6 = Some l"
        using be16_at_returns [of 0 udp] be16_at_returns [of 2 udp] be16_at_returns [of 6 udp] by auto
      ultimately show ?thesis
        by (simp add: ValidateMaterializedIPv4UDP_def res Inr slice_Some split: option.splits)
    qed (simp add: ValidateMaterializedIPv4UDP_def res)
  qed
qed

end
