(* ===== verification/L3_Parser.thy ===== *)
theory L3_Parser
  imports Fake_ABI
begin

text \<open>
  The bounded packet parser and the managed ingress policy: \<open>internal/faketcp/l3_parser.go\<close> and
  \<open>ingress_policy.go\<close>. Slice reads are in the option monad, so that a run-time panic would be
  \<open>None\<close>. Lengths and offsets are natural numbers; a comparison of a difference with a bound is
  written as the comparison of a sum.
\<close>

datatype L3ParseStatus =
    L3ParseOK | L3ParseSafeBypass | L3ParseTruncated | L3ParseMalformed | L3ParseUnsupported
  | L3ParseFirstFragment | L3ParseNonInitialFragment | L3ParseExtensionTooDeep

definition L3FamilyIPv4 :: u8 where "L3FamilyIPv4 = 4"
definition L3FamilyIPv6 :: u8 where "L3FamilyIPv6 = 6"
definition L3ProtocolICMP :: u8 where "L3ProtocolICMP = 1"
definition L3ProtocolTCP :: u8 where "L3ProtocolTCP = 6"
definition L3ProtocolUDP :: u8 where "L3ProtocolUDP = 17"
definition L3ProtocolIPv6 :: u8 where "L3ProtocolIPv6 = 41"
definition L3ProtocolESP :: u8 where "L3ProtocolESP = 50"
definition L3ProtocolAH :: u8 where "L3ProtocolAH = 51"
definition L3ProtocolICMPv6 :: u8 where "L3ProtocolICMPv6 = 58"
definition L3ProtocolNone :: u8 where "L3ProtocolNone = 59"
definition l3IPv6HopByHop :: u8 where "l3IPv6HopByHop = 0"
definition l3IPv6Routing :: u8 where "l3IPv6Routing = 43"
definition l3IPv6Fragment :: u8 where "l3IPv6Fragment = 44"
definition l3IPv6Destination :: u8 where "l3IPv6Destination = 60"

lemmas protocol_defs = L3ProtocolICMP_def L3ProtocolTCP_def L3ProtocolUDP_def L3ProtocolIPv6_def
  L3ProtocolESP_def L3ProtocolAH_def L3ProtocolICMPv6_def L3ProtocolNone_def l3IPv6HopByHop_def
  l3IPv6Routing_def l3IPv6Fragment_def l3IPv6Destination_def

definition L3FlagIPv4Options :: u8 where "L3FlagIPv4Options = 1"
definition L3FlagIPv4DontFragment :: u8 where "L3FlagIPv4DontFragment = 2"
definition L3FlagMoreFragments :: u8 where "L3FlagMoreFragments = 4"
definition L3FlagIPv6Extensions :: u8 where "L3FlagIPv6Extensions = 8"
definition L3FlagFragment :: u8 where "L3FlagFragment = 16"

definition L3MaxIPv6ExtensionHeaders :: nat where "L3MaxIPv6ExtensionHeaders = 8"
definition L3MaxIPv6ExtensionBytes :: nat where "L3MaxIPv6ExtensionBytes = 512"

record L3Info =
  in_L3Offset :: u32
  in_L3Length :: u32
  in_L4Offset :: u32
  in_L4Length :: u32
  in_L3HeaderLength :: u16
  in_L4HeaderLength :: u16
  in_FragmentOffsetBytes :: u16
  in_Family :: u8
  in_TransportProtocol :: u8
  in_ExtensionCount :: u8
  in_Flags :: u8

definition zero_info :: L3Info where
  "zero_info = \<lparr>in_L3Offset = 0, in_L3Length = 0, in_L4Offset = 0, in_L4Length = 0,
     in_L3HeaderLength = 0, in_L4HeaderLength = 0, in_FragmentOffsetBytes = 0, in_Family = 0,
     in_TransportProtocol = 0, in_ExtensionCount = 0, in_Flags = 0\<rparr>"

abbreviation set_flag :: "u8 \<Rightarrow> L3Info \<Rightarrow> L3Info" where
  "set_flag f info \<equiv> info\<lparr>in_Flags := in_Flags info OR f\<rparr>"

section \<open>Transport header\<close>

definition validateL4 :: "byte list \<Rightarrow> L3Info \<Rightarrow> (L3Info \<times> L3ParseStatus) option" where
  "validateL4 packet info =
     (let offset = unat (in_L4Offset info); len = unat (in_L4Length info) in
      if length packet < offset \<or> length packet < offset + len then Some (info, L3ParseTruncated)
      else if in_TransportProtocol info = L3ProtocolUDP then
        (if len < 8 then Some (info, L3ParseMalformed)
         else do {
           udpLength \<leftarrow> be16_at packet (offset + 4);
           if unat udpLength < 8 \<or> unat udpLength \<noteq> len then Some (info, L3ParseMalformed)
           else Some (info\<lparr>in_L4HeaderLength := 8\<rparr>, L3ParseOK)
         })
      else if in_TransportProtocol info = L3ProtocolTCP then
        (if len < 20 then Some (info, L3ParseMalformed)
         else do {
           b \<leftarrow> rd packet (offset + 12);
           let headerLength = unat (drop_bit 4 b) * 4;
           if headerLength < 20 \<or> len < headerLength then Some (info, L3ParseMalformed)
           else Some (info\<lparr>in_L4HeaderLength := of_nat headerLength\<rparr>, L3ParseOK)
         })
      else Some (info, L3ParseUnsupported))"

section \<open>IPv4\<close>

definition parseIPv4L3 :: "byte list \<Rightarrow> (L3Info \<times> L3ParseStatus) option" where
  "parseIPv4L3 packet =
     (let info = zero_info\<lparr>in_Family := L3FamilyIPv4\<rparr> in
      if length packet < 20 then Some (info, L3ParseTruncated)
      else do {
        b0 \<leftarrow> rd packet 0;
        let headerLength = unat (b0 AND 0x0f) * 4;
        if headerLength < 20 then Some (info, L3ParseMalformed)
        else if length packet < headerLength then Some (info, L3ParseTruncated)
        else do {
          total \<leftarrow> be16_at packet 2;
          let totalLength = unat total;
          if totalLength < headerLength then Some (info, L3ParseMalformed)
          else if length packet < totalLength then Some (info, L3ParseTruncated)
          else do {
            protocol \<leftarrow> rd packet 9;
            let info = info\<lparr>in_L3Length := of_nat totalLength, in_L3HeaderLength := of_nat headerLength,
                            in_L4Offset := of_nat headerLength,
                            in_L4Length := of_nat (totalLength - headerLength),
                            in_TransportProtocol := protocol\<rparr>;
            let info = (if 20 < headerLength then set_flag L3FlagIPv4Options info else info);
            fragment \<leftarrow> be16_at packet 6;
            if fragment AND 0x8000 \<noteq> 0 then Some (info, L3ParseMalformed)
            else let info = (if fragment AND 0x4000 \<noteq> 0 then set_flag L3FlagIPv4DontFragment info else info) in
            if fragment AND 0x4000 \<noteq> 0 \<and> fragment AND 0x3fff \<noteq> 0 then Some (info, L3ParseMalformed)
            else let info = (if fragment AND 0x2000 \<noteq> 0
                             then set_flag (L3FlagMoreFragments OR L3FlagFragment) info else info);
                     fragmentOffset = fragment AND 0x1fff;
                     info = info\<lparr>in_FragmentOffsetBytes := fragmentOffset * 8\<rparr> in
            if fragmentOffset \<noteq> 0 then Some (set_flag L3FlagFragment info, L3ParseNonInitialFragment)
            else if fragment AND 0x2000 \<noteq> 0 then Some (info, L3ParseFirstFragment)
            else if in_TransportProtocol info = L3ProtocolICMP then Some (info, L3ParseSafeBypass)
            else if in_TransportProtocol info \<noteq> L3ProtocolTCP \<and> in_TransportProtocol info \<noteq> L3ProtocolUDP
            then Some (info, L3ParseUnsupported)
            else do {
              whole \<leftarrow> slice packet 0 totalLength;
              validateL4 whole info
            }
          }
        }
      })"

section \<open>IPv6\<close>

text \<open>
  The loop over extension headers, with its depth counter, the current header number, its offset
  and the extension bytes seen. It ends because the depth grows to at most nine.
\<close>

function ipv6_chain ::
  "byte list \<Rightarrow> nat \<Rightarrow> nat \<Rightarrow> u8 \<Rightarrow> nat \<Rightarrow> nat \<Rightarrow> L3Info \<Rightarrow> (L3Info \<times> L3ParseStatus) option" where
  "ipv6_chain packet totalLength depth nextHeader offset extensionBytes info =
     (if \<not> depth \<le> L3MaxIPv6ExtensionHeaders then Some (info, L3ParseExtensionTooDeep)
      else if nextHeader = L3ProtocolTCP \<or> nextHeader = L3ProtocolUDP then
        do {
          whole \<leftarrow> slice packet 0 totalLength;
          validateL4 whole (info\<lparr>in_L4Offset := of_nat offset, in_L4Length := of_nat (totalLength - offset),
                                 in_TransportProtocol := nextHeader\<rparr>)
        }
      else if nextHeader = L3ProtocolICMPv6 \<or> nextHeader = L3ProtocolNone then
        Some (info\<lparr>in_L4Offset := of_nat offset, in_L4Length := of_nat (totalLength - offset),
                   in_TransportProtocol := nextHeader\<rparr>, L3ParseSafeBypass)
      else if nextHeader = l3IPv6Fragment then
        (if depth = L3MaxIPv6ExtensionHeaders then Some (info, L3ParseExtensionTooDeep)
         else if totalLength < offset + 8 then Some (info, L3ParseMalformed)
         else do {
           fragment \<leftarrow> be16_at packet (offset + 2);
           b1 \<leftarrow> rd packet (offset + 1);
           if b1 \<noteq> 0 \<or> fragment AND 0x0006 \<noteq> 0 then Some (info, L3ParseMalformed)
           else do {
             b0 \<leftarrow> rd packet offset;
             let info = (set_flag (L3FlagIPv6Extensions OR L3FlagFragment) info)
                          \<lparr>in_ExtensionCount := in_ExtensionCount info + 1, in_TransportProtocol := b0,
                           in_FragmentOffsetBytes := drop_bit 3 (fragment AND 0xfff8) * 8\<rparr>;
             let info = (if fragment AND 1 \<noteq> 0 then set_flag L3FlagMoreFragments info else info);
             if in_FragmentOffsetBytes info \<noteq> 0 then Some (info, L3ParseNonInitialFragment)
             else Some (info, L3ParseFirstFragment)
           }
         })
      else if nextHeader = l3IPv6HopByHop \<or> nextHeader = l3IPv6Routing \<or> nextHeader = l3IPv6Destination then
        (if depth = L3MaxIPv6ExtensionHeaders then Some (info, L3ParseExtensionTooDeep)
         else if nextHeader = l3IPv6HopByHop \<and> depth \<noteq> 0 then Some (info, L3ParseMalformed)
         else if totalLength < offset + 2 then Some (info, L3ParseMalformed)
         else do {
           b1 \<leftarrow> rd packet (offset + 1);
           let extensionLength = (unat b1 + 1) * 8;
           if extensionLength < 8 \<or> totalLength < offset + extensionLength then Some (info, L3ParseMalformed)
           else if L3MaxIPv6ExtensionBytes < extensionBytes + extensionLength
           then Some (info, L3ParseExtensionTooDeep)
           else do {
             b0 \<leftarrow> rd packet offset;
             ipv6_chain packet totalLength (depth + 1) b0 (offset + extensionLength)
               (extensionBytes + extensionLength)
               ((set_flag L3FlagIPv6Extensions info)\<lparr>in_ExtensionCount := in_ExtensionCount info + 1\<rparr>)
           }
         })
      else if nextHeader = L3ProtocolAH then
        (if depth = L3MaxIPv6ExtensionHeaders then Some (info, L3ParseExtensionTooDeep)
         else if totalLength < offset + 2 then Some (info, L3ParseMalformed)
         else do {
           b1 \<leftarrow> rd packet (offset + 1);
           let extensionLength = (unat b1 + 2) * 4;
           if extensionLength < 12 \<or> totalLength < offset + extensionLength then Some (info, L3ParseMalformed)
           else Some ((set_flag L3FlagIPv6Extensions info)
                        \<lparr>in_ExtensionCount := in_ExtensionCount info + 1,
                         in_TransportProtocol := nextHeader\<rparr>, L3ParseUnsupported)
         })
      else Some (info\<lparr>in_TransportProtocol := nextHeader\<rparr>, L3ParseUnsupported))"
  by pat_completeness auto
termination
  by (relation "measure (\<lambda>(packet, total, depth, next, offset, bytes, info). 9 - depth)")
    (auto simp: L3MaxIPv6ExtensionHeaders_def)

declare ipv6_chain.simps [simp del]

definition parseIPv6L3 :: "byte list \<Rightarrow> (L3Info \<times> L3ParseStatus) option" where
  "parseIPv6L3 packet =
     (let info = zero_info\<lparr>in_Family := L3FamilyIPv6\<rparr> in
      if length packet < 40 then Some (info, L3ParseTruncated)
      else do {
        payload \<leftarrow> be16_at packet 4;
        let payloadLength = unat payload;
        let totalLength = 40 + payloadLength;
        if length packet < totalLength then Some (info, L3ParseTruncated)
        else do {
          let info = info\<lparr>in_L3Length := of_nat totalLength, in_L3HeaderLength := 40\<rparr>;
          nextHeader \<leftarrow> rd packet 6;
          if payloadLength = 0
          then (if nextHeader = L3ProtocolNone
                then Some (info\<lparr>in_TransportProtocol := nextHeader\<rparr>, L3ParseSafeBypass)
                else Some (info, L3ParseUnsupported))
          else ipv6_chain packet totalLength 0 nextHeader 40 0 info
        }
      })"

definition ParseL3 :: "byte list \<Rightarrow> (L3Info \<times> L3ParseStatus) option" where
  "ParseL3 packet =
     (if length packet = 0 then Some (zero_info, L3ParseTruncated)
      else do {
        b0 \<leftarrow> rd packet 0;
        if drop_bit 4 b0 = L3FamilyIPv4 then parseIPv4L3 packet
        else if drop_bit 4 b0 = L3FamilyIPv6 then parseIPv6L3 packet
        else Some (zero_info, L3ParseMalformed)
      })"

section \<open>The parser stays inside the packet\<close>

lemma validateL4_returns: "returns (validateL4 p info)"
proof (cases "length p < unat (in_L4Offset info) + unat (in_L4Length info)")
  case False
  let ?o = "unat (in_L4Offset info)" and ?n = "unat (in_L4Length info)"
  obtain u where "?n \<ge> 8 \<Longrightarrow> be16_at p (?o + 4) = Some u"
    using be16_at_returns [of "?o + 4" p] False by fastforce
  moreover have "?n \<ge> 20 \<Longrightarrow> rd p (?o + 12) = Some (p ! (?o + 12))"
    using False by (simp add: rd_Some)
  ultimately show ?thesis by (auto simp: validateL4_def Let_def not_less returns_simps)
qed (simp add: validateL4_def Let_def returns_simps)

definition l4_ok :: "L3Info \<Rightarrow> bool" where
  "l4_ok info \<longleftrightarrow>
     unat (in_L4HeaderLength info) \<le> unat (in_L4Length info)
     \<and> (in_TransportProtocol info = L3ProtocolUDP \<and> in_L4HeaderLength info = 8
        \<or> in_TransportProtocol info = L3ProtocolTCP \<and> 20 \<le> unat (in_L4HeaderLength info)
           \<and> unat (in_L4HeaderLength info) \<le> 60)"

lemma nibble_bound: "unat (drop_bit 4 (b :: byte)) \<le> 15"
proof -
  have "unat b div 16 < 16" using unat_bound [of b] by (simp add: less_mult_imp_div_less)
  moreover have "unat (drop_bit 4 b) = unat b div 16" by (simp add: unat_drop_bit_eq drop_bit_eq_div unat_div_distrib)
  ultimately show ?thesis by simp
qed

lemma validateL4_OK:
  assumes "validateL4 p info = Some (info', L3ParseOK)"
  shows "l4_ok info' \<and> (\<exists>n. info' = info\<lparr>in_L4HeaderLength := n\<rparr>)
         \<and> unat (in_L4Offset info) + unat (in_L4Length info) \<le> length p"
proof -
  have small: "unat (of_nat (unat (drop_bit 4 b) * 4) :: u16) = unat (drop_bit 4 b) * 4" for b :: byte
    using nibble_bound [of b] by (intro unat_of_nat_small) simp
  show ?thesis
    using assms nibble_bound
    by (auto simp: validateL4_def Let_def l4_ok_def small protocol_defs bind_eq_Some_conv not_less
        simp del: of_nat_mult split: if_splits)
qed

definition l3_ok :: "byte list \<Rightarrow> L3Info \<Rightarrow> bool" where
  "l3_ok p info \<longleftrightarrow>
     unat (in_L3Length info) \<le> length p
     \<and> unat (in_L3HeaderLength info) \<le> unat (in_L4Offset info)
     \<and> unat (in_L4Offset info) + unat (in_L4Length info) = unat (in_L3Length info)
     \<and> in_FragmentOffsetBytes info = 0
     \<and> in_Flags info AND (L3FlagMoreFragments OR L3FlagFragment) = 0
     \<and> l4_ok info"

lemma parseIPv4L3_returns: "returns (parseIPv4L3 p)"
proof (cases "length p < 20")
  case False
  then obtain t f where "be16_at p 2 = Some t" "be16_at p 6 = Some f"
    using be16_at_returns [of 2 p] be16_at_returns [of 6 p] by auto
  moreover have "rd p 0 = Some (p ! 0)" using False by (intro rd_Some) linarith
  ultimately show ?thesis
    using False by (simp add: parseIPv4L3_def Let_def rd_Some slice_Some returns_simps validateL4_returns)
qed (simp add: parseIPv4L3_def Let_def returns_simps)

lemma ipv6_chain_returns:
  assumes "tot \<le> length p" "offset \<le> tot"
  shows "returns (ipv6_chain p tot depth nh offset bytes info)"
  using assms
proof (induction p tot depth nh offset bytes info rule: ipv6_chain.induct)
  case (1 p tot depth nx offset bytes info)
  obtain f where "offset + 8 \<le> tot \<Longrightarrow> be16_at p (offset + 2) = Some f"
    using be16_at_returns [of "offset + 2" p] 1(2) by fastforce
  then show ?case
    using 1
    by (subst ipv6_chain.simps)
      (auto simp: Let_def rd_Some slice_Some returns_simps validateL4_returns not_less)
qed

lemma ParseL3_returns: "returns (ParseL3 p)"
proof -
  have v6: "returns (parseIPv6L3 p)"
  proof (cases "length p < 40")
    case False
    then obtain t where "be16_at p 4 = Some t" using be16_at_returns [of 4 p] by auto
    moreover have "rd p 6 = Some (p ! 6)" using False by (intro rd_Some) linarith
    ultimately show ?thesis
      by (simp add: parseIPv6L3_def Let_def returns_simps ipv6_chain_returns)
  qed (simp add: parseIPv6L3_def Let_def returns_simps)
  show ?thesis
    using v6 parseIPv4L3_returns by (simp add: ParseL3_def returns_simps rd_def)
qed

lemma parseIPv4L3_OK:
  assumes "parseIPv4L3 p = Some (info, L3ParseOK)"
  shows "l3_ok p info \<and> in_Family info = L3FamilyIPv4"
proof -
  obtain t h i flags where tl: "h \<le> unat (t :: u16)" "unat t \<le> length p" and h: "h \<le> 60"
    and v: "validateL4 (take (unat t) p) i = Some (info, L3ParseOK)"
    and i: "in_L3Length i = of_nat (unat t)" "in_L3HeaderLength i = of_nat h" "in_L4Offset i = of_nat h"
      "in_L4Length i = of_nat (unat t - h)" "in_FragmentOffsetBytes i = 0" "in_Family i = L3FamilyIPv4"
      "in_Flags i AND (L3FlagMoreFragments OR L3FlagFragment) = 0"
  proof -
    let ?h = "unat (p ! 0 AND 0x0f) * 4"
    have "?h \<le> 60"
      using word_and_le1 [of "p ! 0" "0x0f"] by (simp add: word_le_nat_alt)
    moreover obtain t f where tf: "be16_at p 2 = Some t" "be16_at p 6 = Some f" "\<not> length p < 20"
      using assms be16_at_returns [of 2 p] be16_at_returns [of 6 p]
      by (fastforce simp: parseIPv4L3_def Let_def split: if_splits)
    moreover have "rd p 0 = Some (p ! 0)" "rd p 9 = Some (p ! 9)"
      using tf(3) by (auto simp: rd_def)
    ultimately show thesis
      using assms that [of ?h t]
      by (auto simp: parseIPv4L3_def Let_def zero_info_def L3FlagIPv4Options_def L3FlagIPv4DontFragment_def
          L3FlagMoreFragments_def L3FlagFragment_def slice_Some split: if_splits)
  qed
  have "unat t - h + h = unat t" using tl by simp
  moreover have "unat (in_L4Offset i) = h" "unat (in_L4Length i) = unat t - h" "unat (in_L3Length i) = unat t"
    "unat (in_L3HeaderLength i) = h"
    using i tl h unat_bound [of t] by (simp_all add: unat_of_nat_small unat_ucast_wider del: of_nat_diff)
  ultimately show ?thesis
    using validateL4_OK [OF v] i tl by (auto simp: l3_ok_def)
qed

text \<open>The state of the extension loop: what it has put into the result so far.\<close>

definition chain_state :: "nat \<Rightarrow> nat \<Rightarrow> nat \<Rightarrow> nat \<Rightarrow> L3Info \<Rightarrow> bool" where
  "chain_state tot depth offset bytes info \<longleftrightarrow>
     offset \<le> tot \<and> tot \<le> 65575 \<and> offset = 40 + bytes \<and> bytes \<le> L3MaxIPv6ExtensionBytes \<and> depth \<le> 8
     \<and> in_L3Length info = of_nat tot \<and> in_L3HeaderLength info = 40
     \<and> in_FragmentOffsetBytes info = 0 \<and> in_ExtensionCount info = of_nat depth
     \<and> in_Flags info AND (L3FlagMoreFragments OR L3FlagFragment) = 0 \<and> in_Family info = L3FamilyIPv6"

lemma chain_state_step:
  assumes "chain_state tot depth offset bytes info" "depth \<noteq> 8"
    and "offset + n \<le> tot" "bytes + n \<le> L3MaxIPv6ExtensionBytes"
  shows "chain_state tot (depth + 1) (offset + n) (bytes + n)
           ((set_flag L3FlagIPv6Extensions info)\<lparr>in_ExtensionCount := in_ExtensionCount info + 1\<rparr>)"
proof -
  have "(in_Flags info OR L3FlagIPv6Extensions) AND (L3FlagMoreFragments OR L3FlagFragment)
      = in_Flags info AND (L3FlagMoreFragments OR L3FlagFragment)"
    by (simp add: L3FlagIPv6Extensions_def L3FlagMoreFragments_def L3FlagFragment_def bit.conj_disj_distrib2)
  then show ?thesis using assms by (auto simp: chain_state_def)
qed

definition v6_ok :: "byte list \<Rightarrow> L3Info \<Rightarrow> bool" where
  "v6_ok p info \<longleftrightarrow> l3_ok p info \<and> in_Family info = L3FamilyIPv6
     \<and> unat (in_ExtensionCount info) \<le> 8 \<and> unat (in_L4Offset info) \<le> 552"

lemma chain_accepts:
  assumes "validateL4 (take tot p)
      (info\<lparr>in_L4Offset := of_nat offset, in_L4Length := of_nat (tot - offset), in_TransportProtocol := nh\<rparr>)
      = Some (info', L3ParseOK)"
    and "chain_state tot depth offset bytes info" "tot \<le> length p"
  shows "v6_ok p info'"
proof -
  have b: "offset \<le> 552" "offset \<le> tot" "tot \<le> 65575" "depth \<le> 8"
    using assms(2) by (simp_all add: chain_state_def L3MaxIPv6ExtensionBytes_def)
  then have "unat (of_nat offset :: u32) = offset" "unat (of_nat (tot - offset) :: u32) = tot - offset"
    "unat (of_nat tot :: u32) = tot" "unat (of_nat depth :: u8) = depth"
    by (simp_all add: unat_of_nat_small del: of_nat_diff)
  with b show ?thesis
    using validateL4_OK [OF assms(1)] assms(2,3)
    by (auto simp: v6_ok_def l3_ok_def chain_state_def simp del: of_nat_diff)
qed

lemma ipv6_chain_OK:
  assumes "ipv6_chain p tot depth nh offset bytes info = Some (info', L3ParseOK)"
    and "chain_state tot depth offset bytes info" "tot \<le> length p"
  shows "v6_ok p info'"
  using assms
proof (induction "9 - depth" arbitrary: depth nh offset bytes info rule: less_induct)
  case (less depth nh offset bytes info)
  show ?case
  proof (cases "nh = L3ProtocolTCP \<or> nh = L3ProtocolUDP")
    case True
    then show ?thesis
      using less(2,4) chain_accepts [OF _ less(3,4)]
      by (simp add: ipv6_chain.simps [of p tot depth] slice_Some split: if_splits)
  next
    case False
    let ?i = "(set_flag L3FlagIPv6Extensions info)\<lparr>in_ExtensionCount := in_ExtensionCount info + 1\<rparr>"
    from less(2) [unfolded ipv6_chain.simps [of p tot depth nh offset bytes info]] False
    have "\<exists>b0 n. depth \<le> L3MaxIPv6ExtensionHeaders \<and> depth \<noteq> L3MaxIPv6ExtensionHeaders
        \<and> offset + n \<le> tot \<and> bytes + n \<le> L3MaxIPv6ExtensionBytes
        \<and> ipv6_chain p tot (depth + 1) b0 (offset + n) (bytes + n) ?i = Some (info', L3ParseOK)"
      by (auto simp: Let_def bind_eq_Some_conv not_less split: if_splits)
    then obtain b0 n where d: "depth \<le> L3MaxIPv6ExtensionHeaders" "depth \<noteq> L3MaxIPv6ExtensionHeaders"
      and n: "offset + n \<le> tot" "bytes + n \<le> L3MaxIPv6ExtensionBytes"
      and rec: "ipv6_chain p tot (depth + 1) b0 (offset + n) (bytes + n) ?i = Some (info', L3ParseOK)"
      by blast
    have "chain_state tot (depth + 1) (offset + n) (bytes + n) ?i"
      using chain_state_step [OF less(3)] d n by (simp add: L3MaxIPv6ExtensionHeaders_def)
    then show ?thesis
      using less(1) [OF _ rec] less(4) d by (simp add: L3MaxIPv6ExtensionHeaders_def)
  qed
qed

lemma ParseL3_OK:
  assumes "ParseL3 p = Some (info, L3ParseOK)"
  shows "l3_ok p info \<and> (in_Family info = L3FamilyIPv4 \<or> v6_ok p info)"
proof -
  have "v6_ok p info" if v6: "parseIPv6L3 p = Some (info, L3ParseOK)"
  proof -
    from v6 obtain t nh i where "40 + unat (t :: u16) \<le> length p"
      and i: "i = zero_info\<lparr>in_Family := L3FamilyIPv6, in_L3Length := of_nat (40 + unat t), in_L3HeaderLength := 40\<rparr>"
      and "ipv6_chain p (40 + unat t) 0 nh 40 0 i = Some (info, L3ParseOK)"
      by (auto simp: parseIPv6L3_def Let_def bind_eq_Some_conv not_less split: if_splits)
    moreover have "chain_state (40 + unat t) 0 40 0 i"
      using unat_bound [of t] by (simp add: i chain_state_def zero_info_def)
    ultimately show ?thesis using ipv6_chain_OK by blast
  qed
  then show ?thesis
    using assms parseIPv4L3_OK by (auto simp: ParseL3_def bind_eq_Some_conv v6_ok_def split: if_splits)
qed

section \<open>The managed ingress policy\<close>

datatype IngressDisposition = IngressPass | IngressDecodeIPv4 | IngressDrop

record ManagedIngressPolicy =
  mp_InterfaceManaged :: bool
  mp_Ports :: "u16 list"

definition managedIngressPort :: "ManagedIngressPolicy \<Rightarrow> u16 \<Rightarrow> bool" where
  "managedIngressPort policy port = (port \<in> set (mp_Ports policy))"

definition managedFakeTCPTransformStatus :: "L3Info \<Rightarrow> u8 \<Rightarrow> L3ParseStatus" where
  "managedFakeTCPTransformStatus info transport =
     (if in_Family info \<noteq> L3FamilyIPv4 \<or> in_L3HeaderLength info \<noteq> 20 \<or>
         in_TransportProtocol info \<noteq> transport
      then L3ParseUnsupported
      else if transport = L3ProtocolUDP \<and> in_L4HeaderLength info = 8 \<or>
              transport = L3ProtocolTCP \<and> in_L4HeaderLength info = 20
      then L3ParseOK
      else L3ParseUnsupported)"

definition managedFakeTCPDisposition ::
  "byte list \<Rightarrow> L3Info \<Rightarrow> L3ParseStatus \<Rightarrow> ManagedIngressPolicy \<Rightarrow> IngressDisposition option" where
  "managedFakeTCPDisposition l3 info status policy =
     (let fallback = Some (if mp_InterfaceManaged policy then IngressDrop else IngressPass) in
      if status = L3ParseSafeBypass then Some IngressPass
      else if status \<noteq> L3ParseOK then fallback
      else let l4Offset = unat (in_L4Offset info) in
      if length l3 < l4Offset + 4 then fallback
      else do {
        port \<leftarrow> be16_at l3 (l4Offset + 2);
        if \<not> managedIngressPort policy port then Some IngressPass
        else if managedFakeTCPTransformStatus info (in_TransportProtocol info) \<noteq> L3ParseOK
        then Some IngressDrop
        else if in_TransportProtocol info = L3ProtocolUDP then Some IngressDrop
        else Some IngressDecodeIPv4
      })"

definition is_vlan :: "u16 \<Rightarrow> bool" where
  "is_vlan etherType = (etherType = 0x8100 \<or> etherType = 0x88a8)"

text \<open>
  The loop over at most two VLAN tags, with the number of iterations left: the offset and the
  type behind the tags, or nothing when the frame ends inside a tag.
\<close>

fun strip_vlan :: "nat \<Rightarrow> byte list \<Rightarrow> nat \<Rightarrow> u16 \<Rightarrow> (nat \<times> u16) option option" where
  "strip_vlan 0 frame offset etherType = Some (Some (offset, etherType))"
| "strip_vlan (Suc n) frame offset etherType =
     (if is_vlan etherType then
        (if length frame < offset + 4 then Some None
         else do {
           et \<leftarrow> be16_at frame (offset + 2);
           strip_vlan n frame (offset + 4) et
         })
      else Some (Some (offset, etherType)))"

definition ClassifyManagedIngressFrame ::
  "byte list \<Rightarrow> ManagedIngressPolicy \<Rightarrow> IngressDisposition option" where
  "ClassifyManagedIngressFrame frame policy =
     (if length frame < 14 then managedFakeTCPDisposition [] zero_info L3ParseTruncated policy
      else do {
        et0 \<leftarrow> be16_at frame 12;
        r \<leftarrow> strip_vlan 2 frame 14 et0;
        case r of
          None \<Rightarrow> managedFakeTCPDisposition [] zero_info L3ParseTruncated policy
        | Some (offset, etherType) \<Rightarrow>
            if is_vlan etherType then managedFakeTCPDisposition [] zero_info L3ParseUnsupported policy
            else if etherType \<noteq> 0x0800 \<and> etherType \<noteq> 0x86dd then Some IngressPass
            else do {
              l3 \<leftarrow> slice frame offset (length frame);
              (info, status) \<leftarrow> ParseL3 l3;
              managedFakeTCPDisposition l3 info status policy
            }
      })"

lemma disposition_returns: "returns (managedFakeTCPDisposition l3 info status policy)"
proof (cases "length l3 < unat (in_L4Offset info) + 4")
  case False
  then obtain t where "be16_at l3 (unat (in_L4Offset info) + 2) = Some t"
    using be16_at_returns [of "unat (in_L4Offset info) + 2" l3] by auto
  then show ?thesis by (simp add: managedFakeTCPDisposition_def Let_def returns_simps)
qed (simp add: managedFakeTCPDisposition_def Let_def returns_simps)

lemma strip_vlan_returns:
  "offset \<le> length frame \<Longrightarrow>
     \<exists>r. strip_vlan n frame offset et = Some r \<and> (\<forall>o' et'. r = Some (o', et') \<longrightarrow> o' \<le> length frame)"
proof (induction n frame offset et rule: strip_vlan.induct)
  case (2 n frame offset et)
  then show ?case
    using be16_at_returns [of "offset + 2" frame] by (fastforce simp: not_less)
qed auto

lemma classify_returns: "returns (ClassifyManagedIngressFrame frame policy)"
proof (cases "length frame < 14")
  case False
  then obtain et where et: "be16_at frame 12 = Some et" using be16_at_returns [of 12 frame] by auto
  obtain r where r: "strip_vlan 2 frame 14 et = Some r" "\<And>o' et'. r = Some (o', et') \<Longrightarrow> o' \<le> length frame"
    using strip_vlan_returns [of 14 frame 2 et] False by auto
  have "returns (ParseL3 l \<bind> (\<lambda>(info, status). managedFakeTCPDisposition l info status policy))" for l
    using ParseL3_returns [of l] disposition_returns by (cases "ParseL3 l") (auto simp: returns_def)
  then show ?thesis
    using False et r
    by (auto simp: ClassifyManagedIngressFrame_def disposition_returns slice_Some returns_Some
        split: option.splits prod.splits)
qed (simp add: ClassifyManagedIngressFrame_def disposition_returns)

lemma disposition_values:
  "managedFakeTCPDisposition l3 info status policy \<in> {Some IngressPass, Some IngressDecodeIPv4, Some IngressDrop}"
proof -
  obtain d where "managedFakeTCPDisposition l3 info status policy = Some d"
    using disposition_returns [of l3 info status policy] by (auto simp: returns_def)
  then show ?thesis by (cases d) auto
qed

lemma be16_at_length: "be16_at bs i = Some v \<Longrightarrow> i + 2 \<le> length bs"
  by (auto simp: be16_at_def slice_def bind_eq_Some_conv split: if_splits)

text \<open>
  Where the network header of an Ethernet frame starts, and the type that announces it: behind the
  two addresses and the type, or behind one or two VLAN tags.
\<close>

definition network_header :: "byte list \<Rightarrow> nat \<Rightarrow> u16 \<Rightarrow> bool" where
  "network_header frame offset et \<longleftrightarrow>
     offset \<in> {14, 18, 22} \<and> offset \<le> length frame \<and> be16_at frame (offset - 2) = Some et \<and> \<not> is_vlan et
     \<and> (14 < offset \<longrightarrow> (\<exists>tag. be16_at frame 12 = Some tag \<and> is_vlan tag))
     \<and> (18 < offset \<longrightarrow> (\<exists>tag. be16_at frame 16 = Some tag \<and> is_vlan tag))"

lemma network_header_unique:
  "network_header frame offset et \<Longrightarrow> network_header frame offset' et' \<Longrightarrow> offset' = offset \<and> et' = et"
  by (auto simp: network_header_def)

lemma strip_vlan_header:
  assumes "14 \<le> length frame" "be16_at frame 12 = Some et0"
  shows "network_header frame offset et \<longleftrightarrow>
           strip_vlan 2 frame 14 et0 = Some (Some (offset, et)) \<and> \<not> is_vlan et"
proof (cases "is_vlan et0 \<and> 18 \<le> length frame")
  case True
  then obtain et1 where et1: "be16_at frame 16 = Some et1" using be16_at_returns [of 16 frame] by auto
  show ?thesis
  proof (cases "is_vlan et1 \<and> 22 \<le> length frame")
    case tags: True
    then obtain et2 where "be16_at frame 20 = Some et2" using be16_at_returns [of 20 frame] by auto
    then show ?thesis using True assms et1 tags by (auto simp: network_header_def numeral_2_eq_2)
  qed (use True assms et1 in \<open>auto simp: network_header_def numeral_2_eq_2\<close>)
qed (use assms in \<open>auto simp: network_header_def numeral_2_eq_2\<close>)

text \<open>How a frame is classified: by a fixed answer of the policy, by its type, or by its packet.\<close>

lemma classify_headless:
  assumes "\<nexists>offset et. network_header frame offset et"
  shows "ClassifyManagedIngressFrame frame policy =
           Some (if mp_InterfaceManaged policy then IngressDrop else IngressPass)"
proof (cases "length frame < 14")
  case False
  then obtain et0 r where et: "be16_at frame 12 = Some et0" and r: "strip_vlan 2 frame 14 et0 = Some r"
    using be16_at_returns [of 12 frame] strip_vlan_returns [of 14 frame 2] by fastforce
  then have "r = Some (offset, e) \<Longrightarrow> is_vlan e" for offset e
    using assms strip_vlan_header [OF _ et, of offset e] False by auto
  then show ?thesis
    using False et r
    by (auto simp: ClassifyManagedIngressFrame_def managedFakeTCPDisposition_def split: option.splits)
qed (simp add: ClassifyManagedIngressFrame_def managedFakeTCPDisposition_def)

lemma classify_header:
  assumes "network_header frame offset et"
  shows "ClassifyManagedIngressFrame frame policy =
           (if et \<noteq> 0x0800 \<and> et \<noteq> 0x86dd then Some IngressPass
            else case the (ParseL3 (drop offset frame)) of
                   (info, status) \<Rightarrow> managedFakeTCPDisposition (drop offset frame) info status policy)"
proof -
  have len: "14 \<le> length frame" "offset \<le> length frame" using assms by (auto simp: network_header_def)
  then obtain et0 where et: "be16_at frame 12 = Some et0" using be16_at_returns [of 12 frame] by auto
  obtain info status where "ParseL3 (drop offset frame) = Some (info, status)"
    using ParseL3_returns [of "drop offset frame"] by (auto simp: returns_def)
  then show ?thesis
    using assms len et strip_vlan_header [OF len(1) et]
    by (simp add: ClassifyManagedIngressFrame_def slice_Some)
qed

lemma disposition_Pass:
  "mp_InterfaceManaged policy \<Longrightarrow>
     managedFakeTCPDisposition l3 info status policy = Some IngressPass \<longleftrightarrow>
     status = L3ParseSafeBypass \<or> status = L3ParseOK
     \<and> (\<exists>port. be16_at l3 (unat (in_L4Offset info) + 2) = Some port \<and> port \<notin> set (mp_Ports policy))"
  using be16_at_length [of l3 "unat (in_L4Offset info) + 2"]
  by (auto simp: managedFakeTCPDisposition_def Let_def bind_eq_Some_conv managedIngressPort_def)

lemma disposition_Decode:
  "managedFakeTCPDisposition l3 info status policy = Some IngressDecodeIPv4 \<longleftrightarrow>
     status = L3ParseOK \<and> in_TransportProtocol info = L3ProtocolTCP
     \<and> in_Family info = L3FamilyIPv4 \<and> in_L3HeaderLength info = 20 \<and> in_L4HeaderLength info = 20
     \<and> (\<exists>port. be16_at l3 (unat (in_L4Offset info) + 2) = Some port \<and> port \<in> set (mp_Ports policy))"
  using be16_at_length [of l3 "unat (in_L4Offset info) + 2"]
  by (auto simp: managedFakeTCPDisposition_def Let_def bind_eq_Some_conv managedIngressPort_def
      managedFakeTCPTransformStatus_def protocol_defs)

section \<open>Properties\<close>

text \<open>
  C35. Parsing never panics: for every byte string the packet parser and the ingress classifier
  return, whatever lengths, option fields or extension chains the bytes claim.
\<close>

theorem parser_no_panic:
  "(\<exists>info status. ParseL3 p = Some (info, status))
   \<and> (\<exists>d. ClassifyManagedIngressFrame frame policy = Some d)"
  using ParseL3_returns [of p] classify_returns [of frame policy] by (auto simp: returns_def)

text \<open>
  C34. An accepted packet is what its offsets say: when the parser answers \<open>L3ParseOK\<close>, the
  declared length fits the bytes, the transport header lies behind the network header and ends
  exactly with the packet, the packet is no fragment, and the transport is UDP with its eight byte
  header or TCP with a header of 20 to 60 bytes inside the segment; an IPv6 packet has at most
  eight extension headers of at most 512 bytes.
\<close>

theorem parser_ok_bounds:
  assumes "ParseL3 p = Some (info, L3ParseOK)"
  shows "unat (in_L3Length info) \<le> length p
       \<and> unat (in_L3HeaderLength info) \<le> unat (in_L4Offset info)
       \<and> unat (in_L4Offset info) + unat (in_L4Length info) = unat (in_L3Length info)
       \<and> in_FragmentOffsetBytes info = 0
       \<and> in_Flags info AND (L3FlagMoreFragments OR L3FlagFragment) = 0
       \<and> unat (in_L4HeaderLength info) \<le> unat (in_L4Length info)
       \<and> (in_TransportProtocol info = L3ProtocolUDP \<and> in_L4HeaderLength info = 8
          \<or> in_TransportProtocol info = L3ProtocolTCP
             \<and> 20 \<le> unat (in_L4HeaderLength info) \<and> unat (in_L4HeaderLength info) \<le> 60)
       \<and> (in_Family info \<noteq> L3FamilyIPv4 \<longrightarrow>
            unat (in_ExtensionCount info) \<le> 8 \<and> unat (in_L4Offset info) \<le> 40 + L3MaxIPv6ExtensionBytes)"
  using ParseL3_OK [OF assms]
  by (auto simp: l3_ok_def l4_ok_def v6_ok_def L3MaxIPv6ExtensionBytes_def)

definition sample_udp :: "byte list" where
  "sample_udp = [0x45, 0, 0, 29, 0, 0, 0x40, 0, 64, 17, 0, 0, 10, 0, 0, 1, 10, 0, 0, 2,
                 0x1f, 0x90, 0x1f, 0x91, 0, 9, 0xab, 0xcd, 7]"

theorem parser_ok_bounds_witness:
  "\<exists>info. ParseL3 sample_udp = Some (info, L3ParseOK) \<and> unat (in_L3Length info) \<le> length sample_udp
     \<and> in_FragmentOffsetBytes info = 0"
proof -
  have "\<exists>info. ParseL3 sample_udp = Some (info, L3ParseOK)"
    by (simp add: sample_udp_def ParseL3_def parseIPv4L3_def validateL4_def rd_def be16_at_def slice_def
        Let_def zero_info_def L3FamilyIPv4_def protocol_defs)
  then show ?thesis using parser_ok_bounds by blast
qed

text \<open>
  C36. The ingress policy is exact and fails closed. The network header is the one behind the
  Ethernet header and at most two VLAN tags. A frame is handed to FakeTCP decoding if and only if
  that header starts an accepted IPv4 TCP packet with 20-byte headers whose destination port is
  managed. On a managed interface a frame passes if and only if it has such a header and the header
  is of another protocol than IP, or of a transport that is provably neither TCP nor UDP, or of an
  accepted packet for a port that is not managed; every other frame is dropped there, truncated and
  over-tagged ones included.
\<close>

theorem ingress_fails_closed:
  "(ClassifyManagedIngressFrame frame policy = Some IngressDecodeIPv4 \<longleftrightarrow>
      (\<exists>offset et info port. network_header frame offset et \<and> (et = 0x0800 \<or> et = 0x86dd)
         \<and> ParseL3 (drop offset frame) = Some (info, L3ParseOK)
         \<and> be16_at (drop offset frame) (unat (in_L4Offset info) + 2) = Some port
         \<and> port \<in> set (mp_Ports policy) \<and> in_TransportProtocol info = L3ProtocolTCP
         \<and> in_Family info = L3FamilyIPv4 \<and> in_L3HeaderLength info = 20 \<and> in_L4HeaderLength info = 20))
   \<and> (mp_InterfaceManaged policy \<longrightarrow>
        (ClassifyManagedIngressFrame frame policy = Some IngressPass \<longleftrightarrow>
          (\<exists>offset et. network_header frame offset et \<and>
             (et \<noteq> 0x0800 \<and> et \<noteq> 0x86dd
              \<or> (\<exists>info. ParseL3 (drop offset frame) = Some (info, L3ParseSafeBypass))
              \<or> (\<exists>info port. ParseL3 (drop offset frame) = Some (info, L3ParseOK)
                   \<and> be16_at (drop offset frame) (unat (in_L4Offset info) + 2) = Some port
                   \<and> port \<notin> set (mp_Ports policy)))))
        \<and> ClassifyManagedIngressFrame frame policy \<in> {Some IngressPass, Some IngressDecodeIPv4, Some IngressDrop})"
proof (cases "\<exists>offset et. network_header frame offset et")
  case True
  then obtain offset et where h: "network_header frame offset et" by blast
  have only: "network_header frame offset' et' \<longleftrightarrow> offset' = offset \<and> et' = et" for offset' et'
    using network_header_unique [OF h] h by blast
  obtain info status where p: "ParseL3 (drop offset frame) = Some (info, status)"
    using ParseL3_returns [of "drop offset frame"] by (auto simp: returns_def)
  show ?thesis
    using disposition_values [of "drop offset frame" info status policy]
    by (auto simp: only classify_header [OF h] p disposition_Decode disposition_Pass)
qed (simp add: classify_headless)

text \<open>A TCP segment for port 8081 in a frame with two VLAN tags, and the same frame for another port.\<close>

definition sample_tagged :: "byte list \<Rightarrow> byte list" where
  "sample_tagged port = replicate 12 0 @ [0x88, 0xa8, 0, 1, 0x81, 0, 0, 2, 8, 0]
     @ [0x45, 0, 0, 40, 0, 0, 0x40, 0, 64, 6, 0, 0, 10, 0, 0, 1, 10, 0, 0, 2]
     @ [0x1f, 0x90] @ port @ [0, 0, 0, 1, 0, 0, 0, 2, 0x50, 0x10, 0, 1, 0, 0, 0, 0]"

theorem ingress_fails_closed_witness:
  "(\<exists>info. network_header (sample_tagged [0x1f, 0x91]) 22 0x0800
       \<and> ParseL3 (drop 22 (sample_tagged [0x1f, 0x91])) = Some (info, L3ParseOK)
       \<and> in_TransportProtocol info = L3ProtocolTCP \<and> in_L3HeaderLength info = 20)
   \<and> (\<exists>info port. ParseL3 (drop 22 (sample_tagged [0, 22])) = Some (info, L3ParseOK)
       \<and> be16_at (drop 22 (sample_tagged [0, 22])) (unat (in_L4Offset info) + 2) = Some port \<and> port \<noteq> 8081)
   \<and> ClassifyManagedIngressFrame (replicate 12 0 @ [8, 0] @ sample_udp)
        \<lparr>mp_InterfaceManaged = True, mp_Ports = [8081]\<rparr> = Some IngressDrop"
proof -
  let ?p = "\<lparr>mp_InterfaceManaged = True, mp_Ports = [8081]\<rparr>"
  have d: "ClassifyManagedIngressFrame (sample_tagged [0x1f, 0x91]) ?p = Some IngressDecodeIPv4"
    "ClassifyManagedIngressFrame (sample_tagged [0, 22]) ?p = Some IngressPass"
    "ClassifyManagedIngressFrame (replicate 12 0 @ [8, 0] @ sample_udp) ?p = Some IngressDrop"
    by code_simp+
  have h: "network_header (sample_tagged p) 22 0x0800" for p
    by (simp add: network_header_def sample_tagged_def be16_at_def slice_def is_vlan_def)
  have only: "offset = 22" "et = 0x0800" if "network_header (sample_tagged p) offset et" for p offset et
    using network_header_unique [OF h that] by auto
  have safe: "map_option snd (ParseL3 (drop 22 (sample_tagged [0, 22]))) = Some L3ParseOK" by code_simp
  have "\<exists>info. network_header (sample_tagged [0x1f, 0x91]) 22 0x0800
       \<and> ParseL3 (drop 22 (sample_tagged [0x1f, 0x91])) = Some (info, L3ParseOK)
       \<and> in_TransportProtocol info = L3ProtocolTCP \<and> in_L3HeaderLength info = 20"
    using ingress_fails_closed [THEN conjunct1, of "sample_tagged [0x1f, 0x91]" ?p, THEN iffD1, OF d(1)]
    by (metis only)
  moreover have "\<exists>info port. ParseL3 (drop 22 (sample_tagged [0, 22])) = Some (info, L3ParseOK)
       \<and> be16_at (drop 22 (sample_tagged [0, 22])) (unat (in_L4Offset info) + 2) = Some port \<and> port \<noteq> 8081"
  proof -
    have "\<exists>offset et. network_header (sample_tagged [0, 22]) offset et \<and>
             (et \<noteq> 0x0800 \<and> et \<noteq> 0x86dd
              \<or> (\<exists>info. ParseL3 (drop offset (sample_tagged [0, 22])) = Some (info, L3ParseSafeBypass))
              \<or> (\<exists>info port. ParseL3 (drop offset (sample_tagged [0, 22])) = Some (info, L3ParseOK)
                   \<and> be16_at (drop offset (sample_tagged [0, 22])) (unat (in_L4Offset info) + 2) = Some port
                   \<and> port \<notin> set (mp_Ports ?p)))"
      using ingress_fails_closed [THEN conjunct2, of ?p "sample_tagged [0, 22]"] d(2) by simp
    then show ?thesis using only safe by fastforce
  qed
  ultimately show ?thesis using d(3) by blast
qed

end
