(* ===== verification/Control_Packet.thy ===== *)
theory Control_Packet
  imports Checksum Session_Kernel L3_Parser
begin

text \<open>
  FakeTCP control packets: \<open>internal/faketcp/control_packet.go\<close> writes them,
  \<open>control_validation.go\<close> decides whether a captured RST or FIN may tear a session down.
\<close>

definition FlagFIN :: u8 where "FlagFIN = 0x01"
definition FlagSYN :: u8 where "FlagSYN = 0x02"
definition FlagRST :: u8 where "FlagRST = 0x04"
definition FlagPSH :: u8 where "FlagPSH = 0x08"
definition FlagACK :: u8 where "FlagACK = 0x10"

lemmas flag_defs = FlagFIN_def FlagSYN_def FlagRST_def FlagPSH_def FlagACK_def

record ControlPacket =
  cp_Flags :: u8
  cp_Sequence :: u32
  cp_Acknowledgement :: u32
  cp_Window :: u16

section \<open>Writing a control packet\<close>

text \<open>\<open>tcp\<close> is the slice \<open>packet[20:]\<close>: a write to \<open>tcp[i]\<close> goes to \<open>packet[20+i]\<close>.\<close>

definition MarshalIPv4TCPControl ::
  "endian \<Rightarrow> FakeTCPSessionKey \<Rightarrow> ControlPacket \<Rightarrow> (err + byte list) option" where
  "MarshalIPv4TCPControl en flow control =
     (case validatePacketFlow flow of
        Some e \<Rightarrow> Some (Inl (ErrWrap ''marshal faketcp control'' [e]))
      | None \<Rightarrow>
        if \<not> (cp_Flags control = FlagSYN \<or> cp_Flags control = FlagSYN OR FlagACK \<or> cp_Flags control = FlagACK)
        then Some (Inl (ErrNew ''marshal faketcp control: unsupported TCP flags''))
        else do {
          let packet = zero_array 40;
          packet \<leftarrow> write_at 0 [0x45] packet;
          packet \<leftarrow> write_at 2 (put_be16 40) packet;
          packet \<leftarrow> write_at 4 (put_be16 0x5747) packet;
          packet \<leftarrow> write_at 8 [64] packet;
          packet \<leftarrow> write_at 9 [6] packet;
          packet \<leftarrow> write_at 12 (put_ne32 en (k_LocalIPv4 flow)) packet;
          packet \<leftarrow> write_at 16 (put_ne32 en (k_RemoteIPv4 flow)) packet;
          packet \<leftarrow> write_at 20 (put_be16 (k_LocalPort flow)) packet;
          packet \<leftarrow> write_at 22 (put_be16 (k_RemotePort flow)) packet;
          packet \<leftarrow> write_at 24 (put_be32 (cp_Sequence control)) packet;
          packet \<leftarrow> write_at 28 (put_be32 (cp_Acknowledgement control)) packet;
          packet \<leftarrow> write_at 32 [0x50] packet;
          packet \<leftarrow> write_at 33 [cp_Flags control] packet;
          packet \<leftarrow> write_at 34 (put_be16 (cp_Window control)) packet;
          addresses \<leftarrow> slice packet 12 20;
          tcp \<leftarrow> slice packet 20 (length packet);
          packet \<leftarrow> write_at 36 (put_be16 (transportChecksum addresses 6 tcp)) packet;
          header \<leftarrow> slice packet 0 20;
          packet \<leftarrow> write_at 10 (put_be16 (finishChecksum (addChecksumBytes 0 header))) packet;
          Some (Inr packet)
        })"

section \<open>Authorising a teardown\<close>

definition tcpChecksumValid :: "byte list \<Rightarrow> byte list \<Rightarrow> bool" where
  "tcpChecksumValid addresses tcp = transportChecksumValid addresses 6 tcp"

text \<open>The checks on the event and the session come first, those on the packet second.\<close>

definition validateIPv4TCPControl_packet ::
  "endian \<Rightarrow> byte list \<Rightarrow> FakeTCPEvent \<Rightarrow> FakeTCPSessionValue \<Rightarrow> err option option" where
  "validateIPv4TCPControl_packet en packet event session =
     (let flow = ev_Key event in
      if length packet \<noteq> 40 then Some (Some (ErrNew ''faketcp close packet is not complete IPv4/TCP''))
      else do {
        b0 \<leftarrow> rd packet 0;
        let ipHeaderLength = unat (b0 AND 0x0f) * 4;
        if drop_bit 4 b0 \<noteq> 4 then Some (Some (ErrNew ''faketcp close packet is not complete IPv4/TCP''))
        else if ipHeaderLength \<noteq> 20 \<or> ipHeaderLength + 20 \<noteq> length packet
        then Some (Some (ErrNew ''faketcp close IPv4 header length is unsupported''))
        else do {
          total \<leftarrow> be16_at packet 2;
          fragment \<leftarrow> be16_at packet 6;
          protocol \<leftarrow> rd packet 9;
          header \<leftarrow> slice packet 0 ipHeaderLength;
          source \<leftarrow> slice packet 12 16;
          destination \<leftarrow> slice packet 16 20;
          addresses \<leftarrow> slice packet 12 20;
          tcp \<leftarrow> slice packet ipHeaderLength (length packet);
          offset \<leftarrow> rd tcp 12;
          sourcePort \<leftarrow> be16_at tcp 0;
          destinationPort \<leftarrow> be16_at tcp 2;
          flags \<leftarrow> rd tcp 13;
          urgent \<leftarrow> be16_at tcp 18;
          sequence \<leftarrow> be32_at tcp 4;
          acknowledgement \<leftarrow> be32_at tcp 8;
          window \<leftarrow> be16_at tcp 14;
          Some
            (if unat total \<noteq> length packet
             then Some (ErrNew ''faketcp close IPv4 total length is inconsistent'')
             else if fragment AND 0xbfff \<noteq> 0
             then Some (ErrNew ''faketcp close reserved IPv4 flags and fragments are unsupported'')
             else if protocol \<noteq> 6 then Some (ErrNew ''faketcp close IPv4 protocol is not TCP'')
             else if \<not> checksumValid header then Some (ErrNew ''faketcp close IPv4 checksum is invalid'')
             else if source \<noteq> put_ne32 en (k_RemoteIPv4 flow) \<or> destination \<noteq> put_ne32 en (k_LocalIPv4 flow)
             then Some (ErrNew ''faketcp close IPv4 endpoints do not match the session'')
             else if unat (drop_bit 4 offset) * 4 \<noteq> 20 \<or> offset \<noteq> 0x50
             then Some (ErrNew ''faketcp close TCP header length is invalid'')
             else if sourcePort \<noteq> k_RemotePort flow \<or> destinationPort \<noteq> k_LocalPort flow
             then Some (ErrNew ''faketcp close TCP ports do not match the session'')
             else if \<not> tcpChecksumValid addresses tcp
             then Some (ErrNew ''faketcp close TCP checksum is invalid'')
             else if flags \<noteq> FlagRST OR FlagACK \<and> flags \<noteq> FlagFIN OR FlagACK
             then Some (ErrNew ''faketcp close flags must be exactly RST|ACK or FIN|ACK'')
             else if urgent \<noteq> 0 then Some (ErrNew ''faketcp close urgent pointer must be zero'')
             else if sequence \<noteq> v_RXSequence session
             then Some (ErrNew ''faketcp close sequence does not exactly match the BPF receive sequence'')
             else if acknowledgement \<noteq> v_TXSequence session
             then Some (ErrNew ''faketcp close acknowledgement does not exactly match the BPF send sequence'')
             else if window \<noteq> v_Window session
             then Some (ErrNew ''faketcp close window does not exactly match the BPF session window'')
             else if flags \<noteq> ev_TCPFlags event \<or> sequence \<noteq> ev_Sequence event
                  \<or> acknowledgement \<noteq> ev_Acknowledgement event
                  \<or> (ev_Type event = FakeTCPEventRST \<and> flags \<noteq> FlagRST OR FlagACK)
                  \<or> (ev_Type event = FakeTCPEventFIN \<and> flags \<noteq> FlagFIN OR FlagACK)
             then Some (ErrNew ''faketcp close packet does not match its event metadata'')
             else None)
        }
      })"

definition validateIPv4TCPControl ::
  "endian \<Rightarrow> byte list \<Rightarrow> FakeTCPEvent \<Rightarrow> FakeTCPSessionValue \<Rightarrow> err option option" where
  "validateIPv4TCPControl en packet event session =
     (let flow = ev_Key event; identity = runtimeIdentityFromEvent event in
      case validateRuntimeIdentity identity of
        Some e \<Rightarrow> Some (Some (ErrWrap ''faketcp close runtime identity is invalid'' [e]))
      | None \<Rightarrow>
        if ev_EventABIVersion event \<noteq> FakeTCPEventABIVersion
        then Some (Some (ErrNew ''faketcp close event ABI version is invalid''))
        else if ev_Type event \<noteq> FakeTCPEventRST \<and> ev_Type event \<noteq> FakeTCPEventFIN
        then Some (Some (ErrNew ''faketcp close event type is invalid''))
        else if rt_Generation identity \<noteq> k_Generation flow
        then Some (Some (ErrNew ''faketcp close runtime identity generation does not match the flow''))
        else case validatePacketFlow flow of
          Some e \<Rightarrow> Some (Some (ErrWrap ''faketcp close flow is invalid'' [e]))
        | None \<Rightarrow>
          (case validateEstablishedSessionValue session (k_Generation flow) of
             Some e \<Rightarrow> Some (Some (ErrWrap ''faketcp close validation requires the session'' [e]))
           | None \<Rightarrow>
             if v_Window session = 0
             then Some (Some (ErrNew ''faketcp close validation requires a non-zero BPF session window''))
             else if ev_SessionRevision event \<noteq> v_Revision session \<or> ev_SessionID event \<noteq> v_SessionID session
                  \<or> ev_RuntimeIncarnation event \<noteq> v_RuntimeIncarnation session
             then Some (Some (ErrNew ''faketcp close event session identity does not match the BPF snapshot''))
             else validateIPv4TCPControl_packet en packet event session))"

section \<open>The layout of a control packet\<close>

definition control_header :: "byte list" where
  "control_header = [0x45, 0, 0, 40, 0x57, 0x47, 0, 0, 64, 6]"

definition control_addresses :: "endian \<Rightarrow> FakeTCPSessionKey \<Rightarrow> byte list" where
  "control_addresses en flow = put_ne32 en (k_LocalIPv4 flow) @ put_ne32 en (k_RemoteIPv4 flow)"

definition control_tcp :: "FakeTCPSessionKey \<Rightarrow> ControlPacket \<Rightarrow> byte list" where
  "control_tcp flow c = put_be16 (k_LocalPort flow) @ put_be16 (k_RemotePort flow)
     @ put_be32 (cp_Sequence c) @ put_be32 (cp_Acknowledgement c) @ [0x50, cp_Flags c] @ put_be16 (cp_Window c)"

definition control_bytes :: "endian \<Rightarrow> FakeTCPSessionKey \<Rightarrow> ControlPacket \<Rightarrow> byte list" where
  "control_bytes en flow c =
     (let a = control_addresses en flow; u = control_tcp flow c;
          d = transportChecksum a 6 (u @ put_be16 0 @ [0, 0]);
          ck = finishChecksum (addChecksumBytes 0 (control_header @ put_be16 0 @ a))
      in control_header @ put_be16 ck @ a @ u @ put_be16 d @ [0, 0])"

lemma control_lengths [simp]:
  "length control_header = 10" "length (control_addresses en flow) = 8" "length (control_tcp flow c) = 16"
  by (simp_all add: control_header_def control_addresses_def control_tcp_def)

lemma zero40:
  "zero_array 40 = [0, 0] @ [0, 0] @ [0, 0] @ [0, 0] @ [0, 0] @ [0, 0] @ zero_array 4 @ zero_array 4
     @ [0, 0] @ [0, 0] @ zero_array 4 @ zero_array 4 @ [0, 0] @ [0, 0] @ [0, 0] @ [0, 0]"
  by (simp add: numeral_eq_Suc)

lemma marshal_bytes:
  assumes "validatePacketFlow flow = None"
    and "cp_Flags c = FlagSYN \<or> cp_Flags c = FlagSYN OR FlagACK \<or> cp_Flags c = FlagACK"
  shows "MarshalIPv4TCPControl en flow c = Some (Inr (control_bytes en flow c))"
proof -
  have "put_be16 40 = [0, 40]" "put_be16 0x5747 = [0x57, 0x47]" by (simp_all add: put_be16_def)
  then show ?thesis
    using assms
    by (simp add: MarshalIPv4TCPControl_def zero40 write_at_Some slice_Some Let_def control_bytes_def
        control_header_def control_addresses_def control_tcp_def put_be16_zero)
qed

lemma control_checksums:
  shows "checksumValid (take 20 (control_bytes en flow c))"
    and "transportChecksumValid (control_addresses en flow) 6 (drop 20 (control_bytes en flow c))"
proof -
  let ?a = "control_addresses en flow" and ?u = "control_tcp flow c"
  let ?ck = "finishChecksum (addChecksumBytes 0 (control_header @ put_be16 0 @ ?a))"
  let ?d = "transportChecksum ?a 6 (?u @ put_be16 0 @ [0, 0])"
  have "finishChecksum (addChecksumBytes 0 (control_header @ put_be16 ?ck @ ?a)) = 0"
    by (rule finish_complete [where c = ?ck and ?s0.0 = "addChecksumBytes 0 (control_header @ put_be16 0 @ ?a)"])
      (simp_all add: header_value csum_append)
  then show "checksumValid (take 20 (control_bytes en flow c))"
    by (simp add: control_bytes_def Let_def checksumValid_def)
  have "finishChecksum (transportChecksumSum ?a 6 (?u @ put_be16 ?d @ [0, 0])) = 0"
    by (rule finish_complete [where c = ?d and ?s0.0 = "transportChecksumSum ?a 6 (?u @ put_be16 0 @ [0, 0])"])
      (simp_all add: transport_value csum_append transportChecksum_def)
  then show "transportChecksumValid ?a 6 (drop 20 (control_bytes en flow c))"
    by (simp add: control_bytes_def Let_def transportChecksumValid_def)
qed

lemma control_bytes_fields:
  "length (control_bytes en flow c) = 40"
  "take 8 (drop 12 (control_bytes en flow c)) = control_addresses en flow"
  "be16_at (control_bytes en flow c) 20 = Some (k_LocalPort flow)"
  "be16_at (control_bytes en flow c) 22 = Some (k_RemotePort flow)"
  "be32_at (control_bytes en flow c) 24 = Some (cp_Sequence c)"
  "be32_at (control_bytes en flow c) 28 = Some (cp_Acknowledgement c)"
  "rd (control_bytes en flow c) 33 = Some (cp_Flags c)"
  "be16_at (control_bytes en flow c) 34 = Some (cp_Window c)"
  by (simp_all add: control_bytes_def Let_def be16_at_drop be32_at_drop control_tcp_def rd_def nth_append
      be16c.dec_enc be32c.dec_enc)

definition control_info :: L3Info where
  "control_info = \<lparr>in_L3Offset = 0, in_L3Length = 40, in_L4Offset = 20, in_L4Length = 20,
     in_L3HeaderLength = 20, in_L4HeaderLength = 20, in_FragmentOffsetBytes = 0, in_Family = L3FamilyIPv4,
     in_TransportProtocol = L3ProtocolTCP, in_ExtensionCount = 0, in_Flags = 0\<rparr>"

lemma control_bytes_parse: "ParseL3 (control_bytes en flow c) = Some (control_info, L3ParseOK)"
proof -
  let ?p = "control_bytes en flow c"
  have r: "length ?p = 40" "rd ?p 0 = Some 0x45" "rd ?p 9 = Some 6" "rd ?p 32 = Some 0x50"
    "be16_at ?p 2 = Some 40" "be16_at ?p 6 = Some 0"
    by (simp_all add: control_bytes_def Let_def rd_def nth_append control_header_def control_tcp_def
        be16_at_drop)
  show ?thesis
    by (simp add: ParseL3_def parseIPv4L3_def validateL4_def Let_def r slice_Some zero_info_def
        control_info_def L3FamilyIPv4_def protocol_defs L3FlagIPv4Options_def)
qed

lemma marshal_Inr_iff:
  "MarshalIPv4TCPControl en flow c = Some (Inr p) \<longleftrightarrow>
     validatePacketFlow flow = None \<and> cp_Flags c \<in> {FlagSYN, FlagSYN OR FlagACK, FlagACK}
     \<and> p = control_bytes en flow c"
proof (cases "validatePacketFlow flow = None \<and> cp_Flags c \<in> {FlagSYN, FlagSYN OR FlagACK, FlagACK}")
  case True
  then show ?thesis using marshal_bytes [of flow c en] by auto
next
  case False
  then show ?thesis by (auto simp: MarshalIPv4TCPControl_def split: option.splits)
qed

lemma control_bytes_classified:
  assumes "length macs = 12" "k_RemotePort flow \<in> set (mp_Ports policy)"
  shows "ClassifyManagedIngressFrame (macs @ 8 # 0 # control_bytes en flow c) policy = Some IngressDecodeIPv4"
proof -
  let ?p = "control_bytes en flow c" and ?f = "macs @ 8 # 0 # control_bytes en flow c"
  have f: "be16_at ?f 12 = Some 0x0800" "slice ?f 14 54 = Some ?p" "length ?f = 54"
    using assms by (simp_all add: be16_at_drop slice_def control_bytes_fields)
  have v: "strip_vlan 2 ?f 14 0x0800 = Some (Some (14, 0x0800))"
    using strip_vlan.simps(2) [of "Suc 0" ?f 14 "0x0800"]
    by (simp add: is_vlan_def numeral_2_eq_2 [symmetric])
  show ?thesis
    using assms
    by (simp add: ClassifyManagedIngressFrame_def f v control_bytes_parse is_vlan_def
        managedFakeTCPDisposition_def control_info_def control_bytes_fields managedIngressPort_def
        managedFakeTCPTransformStatus_def protocol_defs)
qed

section \<open>Properties\<close>

text \<open>
  C30. Control packets are well formed: the writer accepts exactly the valid flows with the flags
  SYN, SYN|ACK or ACK, and the 40 bytes it writes carry valid IPv4 and TCP checksums, the flow's
  addresses and ports and the segment's numbers, parse as an unfragmented TCP packet, and are handed
  to FakeTCP decoding on every interface that manages the destination port.
\<close>

theorem control_packet_wellformed:
  assumes "MarshalIPv4TCPControl en flow c = Some (Inr p)"
  shows "validatePacketFlow flow = None \<and> cp_Flags c \<in> {FlagSYN, FlagSYN OR FlagACK, FlagACK}
       \<and> length p = 40 \<and> checksumValid (take 20 p)
       \<and> transportChecksumValid (take 8 (drop 12 p)) 6 (drop 20 p)
       \<and> take 8 (drop 12 p) = put_ne32 en (k_LocalIPv4 flow) @ put_ne32 en (k_RemoteIPv4 flow)
       \<and> be16_at p 20 = Some (k_LocalPort flow) \<and> be16_at p 22 = Some (k_RemotePort flow)
       \<and> be32_at p 24 = Some (cp_Sequence c) \<and> be32_at p 28 = Some (cp_Acknowledgement c)
       \<and> rd p 33 = Some (cp_Flags c) \<and> be16_at p 34 = Some (cp_Window c)
       \<and> (\<exists>info. ParseL3 p = Some (info, L3ParseOK) \<and> in_TransportProtocol info = L3ProtocolTCP
            \<and> in_L4Offset info = 20 \<and> in_L4Length info = 20)
       \<and> (\<forall>macs policy. length macs = 12 \<and> k_RemotePort flow \<in> set (mp_Ports policy) \<longrightarrow>
            ClassifyManagedIngressFrame (macs @ [8, 0] @ p) policy = Some IngressDecodeIPv4)"
  using assms control_checksums [of en flow c]
  by (auto simp: marshal_Inr_iff control_bytes_fields control_bytes_parse control_bytes_classified
      control_info_def control_addresses_def)

definition sample_syn :: ControlPacket where
  "sample_syn = \<lparr>cp_Flags = FlagSYN, cp_Sequence = 1000, cp_Acknowledgement = 0, cp_Window = 65535\<rparr>"

theorem control_packet_wellformed_witness:
  "\<exists>p. MarshalIPv4TCPControl LittleEndian sample_key sample_syn = Some (Inr p) \<and> length p = 40
     \<and> checksumValid (take 20 p) \<and> be32_at p 24 = Some 1000"
proof -
  have "validatePacketFlow sample_key = None"
    by (simp add: validatePacketFlow_def sample_key_def zero_arrays)
  then have "MarshalIPv4TCPControl LittleEndian sample_key sample_syn
      = Some (Inr (control_bytes LittleEndian sample_key sample_syn))"
    by (simp add: marshal_Inr_iff sample_syn_def)
  then show ?thesis
    using control_packet_wellformed [of LittleEndian sample_key sample_syn] by (simp add: sample_syn_def)
qed

lemma refusal_None: "((if c then Some e else r) = None) = (\<not> c \<and> r = None)"
  by simp

lemma version_and_length: "drop_bit 4 b = 4 \<and> unat (b AND 0x0f) * 4 = 20 \<longleftrightarrow> b = (0x45 :: byte)"
proof -
  have "b AND 0x0f = take_bit 4 b" by (simp add: take_bit_eq_mask mask_eq_exp_minus_1)
  moreover have "unat (drop_bit 4 b) = unat b div 16" "unat (take_bit 4 b) = unat b mod 16"
    by (simp_all add: drop_bit_eq_div take_bit_eq_mod unat_div_distrib unat_mod_distrib)
  moreover have "n div 16 = 4 \<and> n mod 16 = 5 \<longleftrightarrow> n = 69" for n :: nat by presburger
  ultimately show ?thesis by (auto simp: word_unat_eq_iff)
qed

text \<open>The packet part of the check, field by field.\<close>

lemma close_packet_iff:
  "validateIPv4TCPControl_packet en packet event session \<noteq> None
   \<and> (validateIPv4TCPControl_packet en packet event session = Some None \<longleftrightarrow>
        length packet = 40 \<and> rd packet 0 = Some 0x45 \<and> be16_at packet 2 = Some 40
      \<and> (\<exists>fragment. be16_at packet 6 = Some fragment \<and> fragment AND 0xbfff = 0)
      \<and> rd packet 9 = Some 6 \<and> checksumValid (take 20 packet)
      \<and> take 4 (drop 12 packet) = put_ne32 en (k_RemoteIPv4 (ev_Key event))
      \<and> take 4 (drop 16 packet) = put_ne32 en (k_LocalIPv4 (ev_Key event))
      \<and> be16_at packet 20 = Some (k_RemotePort (ev_Key event)) \<and> be16_at packet 22 = Some (k_LocalPort (ev_Key event))
      \<and> be32_at packet 24 = Some (v_RXSequence session) \<and> ev_Sequence event = v_RXSequence session
      \<and> be32_at packet 28 = Some (v_TXSequence session) \<and> ev_Acknowledgement event = v_TXSequence session
      \<and> rd packet 32 = Some 0x50 \<and> rd packet 33 = Some (ev_TCPFlags event)
      \<and> ev_TCPFlags event \<in> {FlagRST OR FlagACK, FlagFIN OR FlagACK}
      \<and> (ev_Type event = FakeTCPEventRST \<longrightarrow> ev_TCPFlags event = FlagRST OR FlagACK)
      \<and> (ev_Type event = FakeTCPEventFIN \<longrightarrow> ev_TCPFlags event = FlagFIN OR FlagACK)
      \<and> be16_at packet 34 = Some (v_Window session) \<and> be16_at packet 38 = Some 0
      \<and> transportChecksumValid (take 8 (drop 12 packet)) 6 (drop 20 packet))"
proof (cases "length packet = 40")
  case True
  define tcp where "tcp = drop 20 packet"
  have tcp: "length tcp = 20" using True by (simp add: tcp_def)
  have at: "be16_at packet (20 + i) = be16_at tcp i" "be32_at packet (20 + i) = be32_at tcp i"
    "rd packet (20 + i) = rd tcp i" for i
    using True by (auto simp: tcp_def be16_at_def be32_at_def slice_def rd_def add.commute)
  note at = at [of 0, simplified] at [of 2, simplified] at [of 4, simplified] at [of 8, simplified]
    at [of 12, simplified] at [of 13, simplified] at [of 14, simplified] at [of 18, simplified]
  obtain a b c d e f g h where reads: "be16_at packet 2 = Some a" "be16_at packet 6 = Some b"
    "be16_at tcp 0 = Some c" "be16_at tcp 2 = Some d" "be16_at tcp 18 = Some e" "be32_at tcp 4 = Some f"
    "be32_at tcp 8 = Some g" "be16_at tcp 14 = Some h"
    using be16_at_returns [of 2 packet] be16_at_returns [of 6 packet] be16_at_returns [of 0 tcp]
      be16_at_returns [of 2 tcp] be16_at_returns [of 18 tcp] be32_at_returns [of 4 tcp]
      be32_at_returns [of 8 tcp] be16_at_returns [of 14 tcp] True tcp by auto
  have rd0: "rd packet 0 = Some (packet ! 0)" using True by (simp add: rd_def)
  have total: "unat a = 40 \<longleftrightarrow> a = 40" by (simp add: word_unat_eq_iff)
  note defs = validateIPv4TCPControl_packet_def Let_def slice_Some rd_Some rd0
  show ?thesis
  proof (cases "packet ! 0 = 0x45")
    case head: True
    with reads total True tcp show ?thesis
      by (auto simp: defs at tcp_def [symmetric] tcpChecksumValid_def refusal_None split del: if_split)
  next
    case False
    with True version_and_length [of "packet ! 0"] show ?thesis
      by (cases "drop_bit 4 (packet ! 0) = 4") (simp_all add: defs)
  qed
qed (simp add: validateIPv4TCPControl_packet_def Let_def)

text \<open>The part of the check that reads the event and the session.\<close>

definition close_event_ok :: "FakeTCPEvent \<Rightarrow> FakeTCPSessionValue \<Rightarrow> bool" where
  "close_event_ok event session \<longleftrightarrow>
     validateRuntimeIdentity (runtimeIdentityFromEvent event) = None
     \<and> ev_EventABIVersion event = FakeTCPEventABIVersion
     \<and> (ev_Type event = FakeTCPEventRST \<or> ev_Type event = FakeTCPEventFIN)
     \<and> validatePacketFlow (ev_Key event) = None
     \<and> validateEstablishedSessionValue session (k_Generation (ev_Key event)) = None \<and> v_Window session \<noteq> 0
     \<and> ev_SessionRevision event = v_Revision session \<and> ev_SessionID event = v_SessionID session
     \<and> ev_RuntimeIncarnation event = v_RuntimeIncarnation session"

lemma close_event_part:
  "close_event_ok event session \<Longrightarrow>
     validateIPv4TCPControl en packet event session = validateIPv4TCPControl_packet en packet event session"
  "\<not> close_event_ok event session \<Longrightarrow> \<exists>e. validateIPv4TCPControl en packet event session = Some (Some e)"
  by (auto simp: validateIPv4TCPControl_def close_event_ok_def Let_def runtimeIdentityFromEvent_def
      simp del: validateRuntimeIdentity_None split: option.splits)

text \<open>
  C29. Teardown needs full authority: the check of a captured RST or FIN never panics, and it
  accepts if and only if the event is a current RST or FIN event with a valid runtime identity, it
  names exactly the revision, identifier and incarnation of an established kernel session of its
  generation with an open window, and the packet is a complete unfragmented 40-byte IPv4 TCP packet
  without options, with valid checksums, from the session's peer to its local endpoint, whose
  sequence and acknowledgement are both the session's and the event's, whose window is the
  session's, whose urgent pointer is zero and whose flags are the event's, exactly RST|ACK for a RST
  event and FIN|ACK for a FIN event.
\<close>

theorem close_needs_full_authority:
  "validateIPv4TCPControl en packet event session \<noteq> None
   \<and> (validateIPv4TCPControl en packet event session = Some None \<longleftrightarrow>
        validateRuntimeIdentity (runtimeIdentityFromEvent event) = None
      \<and> ev_EventABIVersion event = FakeTCPEventABIVersion
      \<and> validatePacketFlow (ev_Key event) = None
      \<and> validateEstablishedSessionValue session (k_Generation (ev_Key event)) = None \<and> v_Window session \<noteq> 0
      \<and> ev_SessionRevision event = v_Revision session \<and> ev_SessionID event = v_SessionID session
      \<and> ev_RuntimeIncarnation event = v_RuntimeIncarnation session
      \<and> length packet = 40 \<and> rd packet 0 = Some 0x45 \<and> be16_at packet 2 = Some 40
      \<and> (\<exists>fragment. be16_at packet 6 = Some fragment \<and> fragment AND 0xbfff = 0)
      \<and> rd packet 9 = Some 6 \<and> checksumValid (take 20 packet)
      \<and> take 4 (drop 12 packet) = put_ne32 en (k_RemoteIPv4 (ev_Key event))
      \<and> take 4 (drop 16 packet) = put_ne32 en (k_LocalIPv4 (ev_Key event))
      \<and> be16_at packet 20 = Some (k_RemotePort (ev_Key event)) \<and> be16_at packet 22 = Some (k_LocalPort (ev_Key event))
      \<and> be32_at packet 24 = Some (v_RXSequence session) \<and> ev_Sequence event = v_RXSequence session
      \<and> be32_at packet 28 = Some (v_TXSequence session) \<and> ev_Acknowledgement event = v_TXSequence session
      \<and> rd packet 32 = Some 0x50 \<and> rd packet 33 = Some (ev_TCPFlags event)
      \<and> (ev_Type event = FakeTCPEventRST \<and> ev_TCPFlags event = FlagRST OR FlagACK
         \<or> ev_Type event = FakeTCPEventFIN \<and> ev_TCPFlags event = FlagFIN OR FlagACK)
      \<and> be16_at packet 34 = Some (v_Window session) \<and> be16_at packet 38 = Some 0
      \<and> transportChecksumValid (take 8 (drop 12 packet)) 6 (drop 20 packet))"
proof (cases "close_event_ok event session")
  case True
  then show ?thesis
    using close_packet_iff [of en packet event session]
    by (auto simp: close_event_part(1) close_event_ok_def FakeTCPEventRST_def FakeTCPEventFIN_def)
next
  case False
  then obtain e where "validateIPv4TCPControl en packet event session = Some (Some e)"
    using close_event_part(2) by blast
  then show ?thesis using False by (auto simp: close_event_ok_def)
qed

definition sample_rst :: "byte list" where
  "sample_rst =
     (let addresses = put_ne32 LittleEndian (k_RemoteIPv4 sample_key) @ put_ne32 LittleEndian (k_LocalIPv4 sample_key);
          tcp = (\<lambda>d. put_be16 8081 @ put_be16 8080 @ put_be32 2001 @ put_be32 1001 @ [0x50, 0x14]
                 @ put_be16 65535 @ put_be16 d @ [0, 0]);
          header = (\<lambda>c. [0x45, 0, 0, 40, 0, 1, 0, 0, 64, 6] @ put_be16 c @ addresses)
      in header (finishChecksum (addChecksumBytes 0 (header 0))) @ tcp (transportChecksum addresses 6 (tcp 0)))"

definition sample_close_event :: FakeTCPEvent where
  "sample_close_event = \<lparr>ev_Key = sample_key, ev_TimestampNanos = 9, ev_RuntimeIncarnation = sample_incarnation,
     ev_CaptureSequence = 1, ev_SessionRevision = 1, ev_SessionID = 5, ev_CaptureCPU = 0, ev_Sequence = 2001,
     ev_Acknowledgement = 1001, ev_PayloadLength = 0, ev_FWMark = 0, ev_WGID = 1, ev_PacketLength = 40,
     ev_EventABIVersion = 3, ev_Type = 5, ev_TCPFlags = 0x14\<rparr>"

theorem close_needs_full_authority_witness:
  "validateIPv4TCPControl LittleEndian sample_rst sample_close_event sample_value = Some None
   \<and> be32_at sample_rst 24 = Some (v_RXSequence sample_value) \<and> rd sample_rst 9 = Some 6
   \<and> validateIPv4TCPControl LittleEndian sample_rst (sample_close_event\<lparr>ev_Sequence := 2000\<rparr>) sample_value
       \<notin> {None, Some None}"
proof -
  have accepted: "validateIPv4TCPControl LittleEndian sample_rst sample_close_event sample_value = Some None"
    by code_simp
  have "v_RXSequence sample_value \<noteq> 2000" by (simp add: sample_value_def)
  then show ?thesis
    using accepted close_needs_full_authority [of LittleEndian sample_rst sample_close_event sample_value]
      close_needs_full_authority [of LittleEndian sample_rst "sample_close_event\<lparr>ev_Sequence := 2000\<rparr>" sample_value]
    by simp
qed

end
