(* ===== verification/Engine.thy ===== *)
theory Engine
  imports Session_Store Control_Packet
begin

text \<open>
  The FakeTCP state machine, \<open>internal/faketcp/engine.go\<close>. Every exported method holds the
  engine's mutex from its first to its last line, so a method is one function on the engine
  record. What the engine calls and does not own (the clocks, the initial sequence source and
  the session store) is a record of functions on an outside world \<open>'x\<close>; the session identifier
  counter of the runtime domain, which engines share, is part of the \<open>world\<close> too.

  A \<open>*session\<close> is reached from one map entry only, so sessions are values that each method
  writes back. \<open>container/list\<close> holds source keys, front first.
\<close>

section \<open>Data\<close>

definition synSourcePruneBudget :: nat where "synSourcePruneBudget = 4"

record SessionLimits =
  o_Generation :: u64
  o_SessionCapacity :: int
  o_MaxHalfOpenSessions :: int
  o_MaxHalfOpenPerSource :: int
  o_SYNRateInterval :: duration
  o_SYNBurst :: int
  o_SYNBurstPerSource :: int
  o_SYNSourceLedgerCapacity :: int
  o_SYNSourceLedgerTTL :: duration
  o_MaxPendingFlows :: int
  o_MaxPendingPacketsPerFlow :: int
  o_MaxPendingBytes :: int
  o_HandshakeTimeout :: duration
  o_HandshakeRetries :: int
  o_KeepaliveInterval :: duration
  o_IdleTimeout :: duration
  o_Window :: u16

record 'x SessionStore =
  st_InsertEstablished :: "FakeTCPSessionKey \<Rightarrow> FakeTCPSessionValue \<Rightarrow> 'x \<Rightarrow> err option \<times> 'x"
  st_LookupEstablished :: "FakeTCPSessionKey \<Rightarrow> 'x \<Rightarrow> (err + FakeTCPSessionValue option) \<times> 'x"
  st_DeleteEstablishedIfUnchanged ::
    "FakeTCPSessionKey \<Rightarrow> FakeTCPSessionValue \<Rightarrow> 'x \<Rightarrow> (err + u8) \<times> 'x"

record 'x MonotonicClock =
  mc_Domain :: string
  mc_NowNanos :: "'x \<Rightarrow> (err + u64) \<times> 'x"

text \<open>
  \<open>Options\<close> as a caller fills it, with nil for a function or interface that is not set, and
  the same capabilities once \<open>newEngine\<close> has checked them.
\<close>

record 'x Options =
  opt_limits :: SessionLimits
  opt_Now :: "('x \<Rightarrow> time \<times> 'x) option"
  opt_MonotonicClock :: "'x MonotonicClock option"
  opt_InitialSequence :: "('x \<Rightarrow> u32 \<times> 'x) option"
  opt_Store :: "'x SessionStore option"

record 'x capabilities =
  cap_Now :: "'x \<Rightarrow> time \<times> 'x"
  cap_NowNanos :: "'x \<Rightarrow> (err + u64) \<times> 'x"
  cap_InitialSequence :: "'x \<Rightarrow> u32 \<times> 'x"
  cap_Store :: "'x SessionStore"

record Segment =
  sg_Flags :: u8
  sg_Sequence :: u32
  sg_Acknowledgement :: u32
  sg_PayloadLength :: u32

datatype ActionKind = ActionDrop | ActionForward | ActionSendControl | ActionReleasePending | ActionClose

record PendingPacket =
  pp_Data :: "byte list"
  pp_FWMark :: u32
  pp_WGID :: u32
  pp_CaptureNanos :: u64
  pp_CaptureID :: CaptureIdentity
  pp_CaptureFingerprint :: "byte list"
  pp_dataOwned :: bool

record Action =
  a_Kind :: ActionKind
  a_Flow :: FakeTCPSessionKey
  a_WGID :: u32
  a_Control :: ControlPacket
  a_Packets :: "PendingPacket list"
  a_Reason :: string

record capturedPacketBinding =
  cb_flow :: FakeTCPSessionKey
  cb_fwmark :: u32
  cb_wgID :: u32
  cb_captureNanos :: u64
  cb_captureFingerprint :: "byte list"
  cb_dataFingerprint :: "byte list"

record SessionSnapshot =
  sn_State :: u8
  sn_TXSequence :: u32
  sn_RXSequence :: u32
  sn_LastSeenNanos :: u64
  sn_PendingDelete :: bool
  sn_PendingPackets :: int
  sn_PendingBytes :: int
  sn_LastActivity :: time

record pendingSessionDelete =
  pd_expected :: FakeTCPSessionValue
  pd_reason :: string

record synSourceKey =
  sk_remoteIPv4 :: u32
  sk_underlayIndex :: u32

record tokenBucket =
  tb_tokens :: int
  tb_lastRefill :: time
  tb_initialized :: bool

text \<open>The list element of a source is the occurrence of its key in \<open>e_synSourceLRU\<close>.\<close>

record synSourceState =
  ss_bucket :: tokenBucket
  ss_halfOpen :: int
  ss_lastActivity :: time

record session =
  s_state :: u8
  s_wgID :: u32
  s_localISN :: u32
  s_remoteISN :: u32
  s_txSequence :: u32
  s_rxSequence :: u32
  s_lastActivity :: time
  s_nextRetry :: time
  s_nextKeepalive :: time
  s_retries :: int
  s_pending :: "PendingPacket list"
  s_pendingBytes :: int
  s_halfOpenHeld :: bool
  s_synSource :: synSourceKey
  s_sessionID :: u64
  s_pendingDelete :: "pendingSessionDelete option"

text \<open>\<open>e_instance\<close> is the address of the engine's instance token, \<open>e_domain\<close> that of its domain.\<close>

record Engine =
  e_opts :: SessionLimits
  e_identity :: RuntimeIdentity
  e_domain :: "nat option"
  e_instance :: "nat option"
  e_sessions :: "(FakeTCPSessionKey, session) gomap"
  e_pendingFlows :: int
  e_pendingBytes :: int
  e_halfOpen :: int
  e_globalSYNs :: tokenBucket
  e_admissionEpoch :: time
  e_synSources :: "(synSourceKey, synSourceState) gomap"
  e_synSourceLRU :: "synSourceKey list"
  e_synSourcePruneVisits :: u64

record engineCheckpoint =
  ck_session :: "session option"
  ck_pendingFlows :: int
  ck_pendingBytes :: int

record 'x world =
  w_next :: u64
  w_ext :: 'x

type_synonym 'x step_result = "Action list \<times> err option \<times> Engine \<times> 'x world"

text \<open>Zero values of the Go structs that the code leaves unset.\<close>

definition zero_key :: FakeTCPSessionKey where
  "zero_key = \<lparr>k_Generation = 0, k_LocalIPv4 = 0, k_RemoteIPv4 = 0, k_UnderlayIndex = 0, k_LocalPort = 0,
     k_RemotePort = 0, k_WGID = 0, k_Reserved = zero_array 4\<rparr>"

definition zero_control :: ControlPacket where
  "zero_control = \<lparr>cp_Flags = 0, cp_Sequence = 0, cp_Acknowledgement = 0, cp_Window = 0\<rparr>"

definition zero_capture :: CaptureIdentity where
  "zero_capture = \<lparr>ci_Runtime = zero_identity, ci_CPU = 0, ci_Sequence = 0\<rparr>"

definition zero_source :: synSourceKey where
  "zero_source = \<lparr>sk_remoteIPv4 = 0, sk_underlayIndex = 0\<rparr>"

definition zero_session :: session where
  "zero_session = \<lparr>s_state = 0, s_wgID = 0, s_localISN = 0, s_remoteISN = 0, s_txSequence = 0,
     s_rxSequence = 0, s_lastActivity = 0, s_nextRetry = 0, s_nextKeepalive = 0, s_retries = 0,
     s_pending = [], s_pendingBytes = 0, s_halfOpenHeld = False, s_synSource = zero_source,
     s_sessionID = 0, s_pendingDelete = None\<rparr>"

definition zero_packet :: PendingPacket where
  "zero_packet = \<lparr>pp_Data = [], pp_FWMark = 0, pp_WGID = 0, pp_CaptureNanos = 0,
     pp_CaptureID = zero_capture, pp_CaptureFingerprint = zero_array 32, pp_dataOwned = False\<rparr>"

text \<open>An action that sets only its kind, flow and reason.\<close>

definition plain_action :: "ActionKind \<Rightarrow> FakeTCPSessionKey \<Rightarrow> string \<Rightarrow> Action" where
  "plain_action kind flow reason =
     \<lparr>a_Kind = kind, a_Flow = flow, a_WGID = 0, a_Control = zero_control, a_Packets = [],
      a_Reason = reason\<rparr>"

abbreviation drop_action :: "FakeTCPSessionKey \<Rightarrow> string \<Rightarrow> Action" where
  "drop_action \<equiv> plain_action ActionDrop"

abbreviation close_action :: "FakeTCPSessionKey \<Rightarrow> string \<Rightarrow> Action" where
  "close_action \<equiv> plain_action ActionClose"

text \<open>A call of an outside function, on the world.\<close>

definition ext_call :: "('x \<Rightarrow> 'r \<times> 'x) \<Rightarrow> 'x world \<Rightarrow> 'r \<times> 'x world" where
  "ext_call f w = (case f (w_ext w) of (r, x) \<Rightarrow> (r, w\<lparr>w_ext := x\<rparr>))"

definition store_session :: "FakeTCPSessionKey \<Rightarrow> session \<Rightarrow> Engine \<Rightarrow> Engine" where
  "store_session flow s e = e\<lparr>e_sessions := m_put flow s (e_sessions e)\<rparr>"

section \<open>Captured packets\<close>

definition bindCapturedPacket ::
  "(byte list \<Rightarrow> byte list) \<Rightarrow> FakeTCPSessionKey \<Rightarrow> PendingPacket \<Rightarrow> capturedPacketBinding" where
  "bindCapturedPacket sha256 flow packet =
     \<lparr>cb_flow = flow, cb_fwmark = pp_FWMark packet, cb_wgID = pp_WGID packet,
      cb_captureNanos = pp_CaptureNanos packet, cb_captureFingerprint = pp_CaptureFingerprint packet,
      cb_dataFingerprint = sha256 (pp_Data packet)\<rparr>"

type_synonym capture_bindings = "(CaptureIdentity, capturedPacketBinding) gomap"

definition observeCapturedPacket ::
  "(byte list \<Rightarrow> byte list) \<Rightarrow> capture_bindings \<Rightarrow> FakeTCPSessionKey \<Rightarrow> PendingPacket
     \<Rightarrow> (err + bool) \<times> capture_bindings" where
  "observeCapturedPacket sha256 bindings flow packet =
     (let binding = bindCapturedPacket sha256 flow packet in
      case m_get bindings (pp_CaptureID packet) of
        None \<Rightarrow> (Inr False, m_put (pp_CaptureID packet) binding bindings)
      | Some previous \<Rightarrow>
          if previous \<noteq> binding then (Inl (ErrVar ErrCaptureIdentityConflict), bindings)
          else (Inr True, bindings))"

definition ownPendingPacket :: "PendingPacket \<Rightarrow> PendingPacket" where
  "ownPendingPacket packet = (if pp_dataOwned packet then packet else packet\<lparr>pp_dataOwned := True\<rparr>)"

section \<open>Construction\<close>

definition BPFMonotonicClockDomain :: string where
  "BPFMonotonicClockDomain = ''CLOCK_MONOTONIC/bpf_ktime_get_ns''"

text \<open>
  \<open>sys_now\<close> is \<open>time.Now\<close> and \<open>token\<close> the address of the fresh instance token. The commit state
  and the identifier allocator of a \<open>RuntimeDomain\<close> are never nil.
\<close>

definition newEngine ::
  "('x \<Rightarrow> time \<times> 'x) \<Rightarrow> nat \<Rightarrow> 'x Options \<Rightarrow> RuntimeDomain option \<Rightarrow> 'x
     \<Rightarrow> (err + 'x capabilities \<times> Engine) \<times> 'x" where
  "newEngine sys_now token options domain x =
     (let l = opt_limits options in
      if o_Generation l = 0 then (Inl (ErrNew ''faketcp generation must be non-zero''), x)
      else case domain of
        None \<Rightarrow> (Inl (ErrNew ''faketcp Engine options do not match a complete runtime domain''), x)
      | Some d \<Rightarrow>
      if rt_Generation (dom_identity d) \<noteq> o_Generation l
      then (Inl (ErrNew ''faketcp Engine options do not match a complete runtime domain''), x)
      else if o_SessionCapacity l \<le> 0 \<or> o_MaxPendingFlows l \<le> 0
        \<or> o_MaxPendingFlows l > o_SessionCapacity l
        \<or> o_MaxPendingPacketsPerFlow l \<le> 0 \<or> o_MaxPendingBytes l \<le> 0
      then (Inl (ErrNew ''faketcp session and pending limits must be positive and bounded''), x)
      else if o_MaxHalfOpenSessions l \<le> 0 \<or> o_MaxHalfOpenSessions l \<ge> o_SessionCapacity l
        \<or> o_MaxHalfOpenPerSource l \<le> 0 \<or> o_MaxHalfOpenPerSource l > o_MaxHalfOpenSessions l
        \<or> o_SYNRateInterval l \<le> 0 \<or> o_SYNBurst l \<le> 0
        \<or> o_SYNBurstPerSource l \<le> 0 \<or> o_SYNBurstPerSource l > o_SYNBurst l
        \<or> o_SYNSourceLedgerCapacity l < o_MaxHalfOpenSessions l
        \<or> o_SYNSourceLedgerTTL l < o_SYNRateInterval l
      then (Inl (ErrNew ''faketcp half-open and SYN-rate limits are invalid''), x)
      else if o_HandshakeTimeout l \<le> 0 \<or> o_HandshakeRetries l \<le> 0
        \<or> o_KeepaliveInterval l \<le> 0 \<or> o_IdleTimeout l \<le> o_KeepaliveInterval l
      then (Inl (ErrNew ''faketcp timeouts and retry limit are invalid''), x)
      else let now_fn = (case opt_Now options of None \<Rightarrow> sys_now | Some f \<Rightarrow> f) in
      case opt_InitialSequence options of
        None \<Rightarrow> (Inl (ErrNew ''faketcp initial sequence source is required''), x)
      | Some isn \<Rightarrow>
      (case opt_MonotonicClock options of
        None \<Rightarrow> (Inl (ErrNew ''faketcp CLOCK_MONOTONIC source is required''), x)
      | Some clock \<Rightarrow>
      if mc_Domain clock \<noteq> BPFMonotonicClockDomain
      then (Inl (ErrNew ''faketcp monotonic clock domain does not match BPF domain''), x)
      else (case opt_Store options of
        None \<Rightarrow> (Inl (ErrNew ''faketcp established session store is required''), x)
      | Some store \<Rightarrow>
      let l' = (if o_Window l = 0 then l\<lparr>o_Window := 65535\<rparr> else l) in
      case now_fn x of (admissionEpoch, x') \<Rightarrow>
      (Inr (\<lparr>cap_Now = now_fn, cap_NowNanos = mc_NowNanos clock, cap_InitialSequence = isn,
             cap_Store = store\<rparr>,
            \<lparr>e_opts = l', e_identity = dom_identity d, e_domain = Some (dom_state d),
             e_instance = Some token, e_sessions = [],
             e_pendingFlows = 0, e_pendingBytes = 0, e_halfOpen = 0,
             e_globalSYNs = \<lparr>tb_tokens = 0, tb_lastRefill = admissionEpoch, tb_initialized = True\<rparr>,
             e_admissionEpoch = admissionEpoch, e_synSources = [], e_synSourceLRU = [],
             e_synSourcePruneVisits = 0\<rparr>), x'))))"

definition NewEngine ::
  "('x \<Rightarrow> time \<times> 'x) \<Rightarrow> nat \<Rightarrow> RuntimeDomain option \<Rightarrow> 'x Options \<Rightarrow> 'x
     \<Rightarrow> (err + 'x capabilities \<times> Engine) \<times> 'x" where
  "NewEngine sys_now token domain options x =
     (case domain of
        None \<Rightarrow> (Inl (ErrNew ''faketcp runtime domain is nil''), x)
      | Some d \<Rightarrow> newEngine sys_now token options (Some d) x)"

definition New ::
  "err + byte list \<Rightarrow> ('x \<Rightarrow> time \<times> 'x) \<Rightarrow> nat \<Rightarrow> nat \<Rightarrow> 'x Options \<Rightarrow> 'x
     \<Rightarrow> (err + 'x capabilities \<times> Engine) \<times> 'x" where
  "New random sys_now address token options x =
     (if o_Generation (opt_limits options) = 0 then (Inl (ErrNew ''faketcp generation must be non-zero''), x)
      else case NewRuntimeDomain (o_Generation (opt_limits options)) random address of
        Inl err \<Rightarrow> (Inl err, x)
      | Inr domain \<Rightarrow> NewEngine sys_now token (Some domain) options x)"

definition Engine_Identity :: "Engine option \<Rightarrow> RuntimeIdentity" where
  "Engine_Identity e = (case e of None \<Rightarrow> zero_identity | Some e' \<Rightarrow> e_identity e')"

section \<open>Flows, checkpoints and pending packets\<close>

definition validateFlow :: "Engine \<Rightarrow> FakeTCPSessionKey \<Rightarrow> err option" where
  "validateFlow e flow =
     (if k_Generation flow \<noteq> o_Generation (e_opts e) \<or> k_LocalIPv4 flow = 0 \<or> k_RemoteIPv4 flow = 0
         \<or> k_UnderlayIndex flow = 0 \<or> k_LocalPort flow = 0 \<or> k_RemotePort flow = 0
         \<or> k_WGID flow = 0 \<or> k_Reserved flow \<noteq> zero_array 4
      then Some (ErrNew ''faketcp flow must use the active generation, a non-zero WGID/IPv4/port/underlay identity, and zero reserved bytes'')
      else None)"

definition checkpoint :: "Engine \<Rightarrow> session option \<Rightarrow> engineCheckpoint" where
  "checkpoint e s =
     \<lparr>ck_session = s, ck_pendingFlows = e_pendingFlows e, ck_pendingBytes = e_pendingBytes e\<rparr>"

definition restore :: "FakeTCPSessionKey \<Rightarrow> engineCheckpoint \<Rightarrow> Engine \<Rightarrow> Engine" where
  "restore flow c e =
     (let e1 = e\<lparr>e_pendingFlows := ck_pendingFlows c, e_pendingBytes := ck_pendingBytes c\<rparr> in
      case ck_session c of
        None \<Rightarrow> e1\<lparr>e_sessions := m_del flow (e_sessions e1)\<rparr>
      | Some s \<Rightarrow> store_session flow s e1)"

text \<open>\<open>enqueue\<close> returns whether the packet was kept, the engine and the session.\<close>

definition enqueue :: "Engine \<Rightarrow> session \<Rightarrow> PendingPacket \<Rightarrow> bool \<times> Engine \<times> session" where
  "enqueue e s packet =
     (let n = int (length (pp_Data packet)) in
      if n = 0 \<or> int (length (s_pending s)) \<ge> o_MaxPendingPacketsPerFlow (e_opts e)
         \<or> e_pendingBytes e + n > o_MaxPendingBytes (e_opts e)
      then (False, e, s)
      else if s_pending s = [] \<and> e_pendingFlows e \<ge> o_MaxPendingFlows (e_opts e)
      then (False, e, s)
      else
        let e1 = (if s_pending s = [] then e\<lparr>e_pendingFlows := e_pendingFlows e + 1\<rparr> else e) in
        (True, e1\<lparr>e_pendingBytes := e_pendingBytes e + n\<rparr>,
         s\<lparr>s_pending := s_pending s @ [ownPendingPacket packet],
           s_pendingBytes := s_pendingBytes s + n\<rparr>))"

definition release ::
  "FakeTCPSessionKey \<Rightarrow> Engine \<Rightarrow> session \<Rightarrow> Action list \<times> Engine \<times> session" where
  "release flow e s =
     (if s_pending s = [] then ([], e, s)
      else ([(plain_action ActionReleasePending flow [])\<lparr>a_WGID := s_wgID s, a_Packets := s_pending s\<rparr>],
            e\<lparr>e_pendingFlows := e_pendingFlows e - 1,
              e_pendingBytes := e_pendingBytes e - s_pendingBytes s\<rparr>,
            s\<lparr>s_pending := [], s_pendingBytes := 0\<rparr>))"

section \<open>SYN admission\<close>

definition refillTokenBucket :: "tokenBucket \<Rightarrow> time \<Rightarrow> duration \<Rightarrow> int \<Rightarrow> tokenBucket" where
  "refillTokenBucket bucket now interval burst =
     (if \<not> tb_initialized bucket then bucket\<lparr>tb_initialized := True, tb_lastRefill := now\<rparr>
      else if now < tb_lastRefill bucket + interval then bucket
      else
        let steps = time_sub now (tb_lastRefill bucket) div interval in
        if steps \<ge> burst then bucket\<lparr>tb_tokens := burst, tb_lastRefill := now\<rparr>
        else bucket\<lparr>tb_tokens := min burst (tb_tokens bucket + steps),
                    tb_lastRefill := tb_lastRefill bucket + steps * interval\<rparr>)"

definition update_source ::
  "synSourceKey \<Rightarrow> (synSourceState \<Rightarrow> synSourceState) \<Rightarrow> Engine \<Rightarrow> Engine" where
  "update_source key f e =
     (case m_get (e_synSources e) key of
        None \<Rightarrow> e
      | Some source \<Rightarrow> e\<lparr>e_synSources := m_put key (f source) (e_synSources e)\<rparr>)"

definition move_to_front :: "'a \<Rightarrow> 'a list \<Rightarrow> 'a list" where
  "move_to_front k ks = k # removeAll k ks"

definition touchSYNSource :: "synSourceKey \<Rightarrow> time \<Rightarrow> Engine \<Rightarrow> Engine" where
  "touchSYNSource key now e =
     (update_source key (\<lambda>source. source\<lparr>ss_lastActivity := now\<rparr>) e)
       \<lparr>e_synSourceLRU := move_to_front key (e_synSourceLRU e)\<rparr>"

fun pruneExpiredSYNSources :: "time \<Rightarrow> nat \<Rightarrow> Engine \<Rightarrow> Engine" where
  "pruneExpiredSYNSources now 0 e = e"
| "pruneExpiredSYNSources now (Suc budget) e =
     (if e_synSourceLRU e = [] then e
      else
        let key = last (e_synSourceLRU e);
            e1 = e\<lparr>e_synSourcePruneVisits := e_synSourcePruneVisits e + 1\<rparr> in
        case m_get (e_synSources e1) key of
          None \<Rightarrow>
            pruneExpiredSYNSources now budget (e1\<lparr>e_synSourceLRU := butlast (e_synSourceLRU e1)\<rparr>)
        | Some source \<Rightarrow>
            if now < ss_lastActivity source + o_SYNSourceLedgerTTL (e_opts e1) then e1
            else if ss_halfOpen source = 0
            then pruneExpiredSYNSources now budget
                   (e1\<lparr>e_synSources := m_del key (e_synSources e1),
                       e_synSourceLRU := butlast (e_synSourceLRU e1)\<rparr>)
            else pruneExpiredSYNSources now budget (touchSYNSource key now e1))"

text \<open>The rejection or the source, which is then the ledger's entry for the key.\<close>

definition lookupOrCreateSYNSource ::
  "synSourceKey \<Rightarrow> time \<Rightarrow> Engine \<Rightarrow> (string + synSourceState) \<times> Engine" where
  "lookupOrCreateSYNSource key now e =
     (let e1 = pruneExpiredSYNSources now synSourcePruneBudget e in
      case m_get (e_synSources e1) key of
        Some source \<Rightarrow> (Inr (source\<lparr>ss_lastActivity := now\<rparr>), touchSYNSource key now e1)
      | None \<Rightarrow>
          if int (length (e_synSources e1)) \<ge> o_SYNSourceLedgerCapacity (e_opts e1)
          then (Inl ''syn-source-ledger-capacity'', e1)
          else
            let source = \<lparr>ss_bucket = \<lparr>tb_tokens = 0, tb_lastRefill = e_admissionEpoch e1,
                                        tb_initialized = True\<rparr>,
                          ss_halfOpen = 0, ss_lastActivity = now\<rparr> in
            (Inr source, e1\<lparr>e_synSourceLRU := key # e_synSourceLRU e1,
                             e_synSources := m_put key source (e_synSources e1)\<rparr>))"

definition flow_source :: "FakeTCPSessionKey \<Rightarrow> synSourceKey" where
  "flow_source flow = \<lparr>sk_remoteIPv4 = k_RemoteIPv4 flow, sk_underlayIndex = k_UnderlayIndex flow\<rparr>"

definition observeSYN :: "FakeTCPSessionKey \<Rightarrow> time \<Rightarrow> Engine \<Rightarrow> (string + synSourceKey) \<times> Engine" where
  "observeSYN flow now e =
     (let l = e_opts e;
          g = refillTokenBucket (e_globalSYNs e) now (o_SYNRateInterval l) (o_SYNBurst l);
          e1 = e\<lparr>e_globalSYNs := g\<rparr> in
      if tb_tokens g = 0 then (Inl ''syn-rate-global'', e1)
      else
        let e2 = e1\<lparr>e_globalSYNs := g\<lparr>tb_tokens := tb_tokens g - 1\<rparr>\<rparr>;
            key = flow_source flow in
        case lookupOrCreateSYNSource key now e2 of
          (Inl rejection, e3) \<Rightarrow> (Inl rejection, e3)
        | (Inr source, e3) \<Rightarrow>
            let b = refillTokenBucket (ss_bucket source) now (o_SYNRateInterval l) (o_SYNBurstPerSource l) in
            if tb_tokens b = 0
            then (Inl ''syn-rate-source'', update_source key (\<lambda>s. s\<lparr>ss_bucket := b\<rparr>) e3)
            else (Inr key,
                  update_source key (\<lambda>s. s\<lparr>ss_bucket := b\<lparr>tb_tokens := tb_tokens b - 1\<rparr>\<rparr>) e3))"

definition reserveInboundHalfOpen :: "synSourceKey \<Rightarrow> Engine \<Rightarrow> string \<times> Engine" where
  "reserveInboundHalfOpen key e =
     (if e_halfOpen e \<ge> o_MaxHalfOpenSessions (e_opts e) then (''half-open-capacity'', e)
      else case m_get (e_synSources e) key of
        None \<Rightarrow> (''syn-source-ledger-missing'', e)
      | Some source \<Rightarrow>
          if ss_halfOpen source \<ge> o_MaxHalfOpenPerSource (e_opts e)
          then (''half-open-source-capacity'', e)
          else ([], (update_source key (\<lambda>s. s\<lparr>ss_halfOpen := ss_halfOpen s + 1\<rparr>) e)
                      \<lparr>e_halfOpen := e_halfOpen e + 1\<rparr>))"

text \<open>The session comes back with its hold cleared; the clock is read only to touch the source.\<close>

definition releaseHalfOpen ::
  "'x capabilities \<Rightarrow> Engine \<Rightarrow> session \<Rightarrow> 'x world \<Rightarrow> Engine \<times> session \<times> 'x world" where
  "releaseHalfOpen c e s w =
     (if \<not> s_halfOpenHeld s then (e, s, w)
      else
        let s1 = s\<lparr>s_halfOpenHeld := False\<rparr>;
            e1 = (if e_halfOpen e > 0 then e\<lparr>e_halfOpen := e_halfOpen e - 1\<rparr> else e);
            key = s_synSource s in
        if sk_remoteIPv4 key = 0 then (e1, s1, w)
        else case m_get (e_synSources e1) key of
          None \<Rightarrow> (e1, s1, w)
        | Some source \<Rightarrow>
            let e2 = (if ss_halfOpen source > 0
                      then update_source key (\<lambda>s. s\<lparr>ss_halfOpen := ss_halfOpen s - 1\<rparr>) e1 else e1) in
            (case ext_call (cap_Now c) w of
               (now, w1) \<Rightarrow> (touchSYNSource key now e2, s1, w1)))"

definition remove ::
  "'x capabilities \<Rightarrow> FakeTCPSessionKey \<Rightarrow> Engine \<Rightarrow> session \<Rightarrow> 'x world \<Rightarrow> Engine \<times> 'x world" where
  "remove c flow e s w =
     (case releaseHalfOpen c e s w of
        (e1, s1, w1) \<Rightarrow>
          let e2 = (if s_pending s1 \<noteq> []
                    then e1\<lparr>e_pendingFlows := e_pendingFlows e1 - 1,
                            e_pendingBytes := e_pendingBytes e1 - s_pendingBytes s1\<rparr>
                    else e1) in
          (e2\<lparr>e_sessions := m_del flow (e_sessions e2)\<rparr>, w1))"

section \<open>Control segments and the established store\<close>

definition control ::
  "FakeTCPSessionKey \<Rightarrow> Engine \<Rightarrow> session \<Rightarrow> u8 \<Rightarrow> u32 \<Rightarrow> u32 \<Rightarrow> string \<Rightarrow> Action" where
  "control flow e s flags seq ack reason =
     (plain_action ActionSendControl flow reason)
       \<lparr>a_WGID := s_wgID s,
        a_Control := \<lparr>cp_Flags = flags, cp_Sequence = seq, cp_Acknowledgement = ack,
                      cp_Window = o_Window (e_opts e)\<rparr>\<rparr>"

definition controlEstablished ::
  "FakeTCPSessionKey \<Rightarrow> Engine \<Rightarrow> session \<Rightarrow> FakeTCPSessionValue \<Rightarrow> u8 \<Rightarrow> u32 \<Rightarrow> u32 \<Rightarrow> string \<Rightarrow> Action" where
  "controlEstablished flow e s value flags seq ack reason =
     (let window = (if v_Window value = 0 then o_Window (e_opts e) else v_Window value) in
      (plain_action ActionSendControl flow reason)
       \<lparr>a_WGID := s_wgID s,
        a_Control := \<lparr>cp_Flags = flags, cp_Sequence = seq, cp_Acknowledgement = ack,
                      cp_Window = window\<rparr>\<rparr>)"

definition established_value ::
  "Engine \<Rightarrow> FakeTCPSessionKey \<Rightarrow> session \<Rightarrow> u64 \<Rightarrow> FakeTCPSessionValue" where
  "established_value e flow s nowMonotonic =
     \<lparr>v_Generation = k_Generation flow, v_LastSeenNanos = nowMonotonic, v_TXSequence = s_txSequence s,
      v_RXSequence = s_rxSequence s, v_LocalISN = s_localISN s, v_RemoteISN = s_remoteISN s,
      v_Window = o_Window (e_opts e), v_State = s_state s, v_Flags = 0, v_Reserved = zero_array 4,
      v_KernelLock = 0, v_KernelReserved = 0, v_Revision = 1, v_SessionID = s_sessionID s,
      v_RuntimeIncarnation = rt_Incarnation (e_identity e)\<rparr>"

definition insertEstablished ::
  "'x capabilities \<Rightarrow> Engine \<Rightarrow> FakeTCPSessionKey \<Rightarrow> session \<Rightarrow> 'x world
     \<Rightarrow> err option \<times> session \<times> 'x world" where
  "insertEstablished c e flow s w =
     (case ext_call (cap_NowNanos c) w of
        (Inl err, w1) \<Rightarrow> (Some (ErrWrap ''read faketcp clock for established insert'' [err]), s, w1)
      | (Inr nowMonotonic, w1) \<Rightarrow>
        (case (if s_sessionID s = 0
               then (case allocate (w_next w1) of
                       (Inl err, n) \<Rightarrow> (Some err, s\<lparr>s_sessionID := 0\<rparr>, w1\<lparr>w_next := n\<rparr>)
                     | (Inr i, n) \<Rightarrow> (None, s\<lparr>s_sessionID := i\<rparr>, w1\<lparr>w_next := n\<rparr>))
               else (None, s, w1)) of
           (Some err, s1, w2) \<Rightarrow> (Some err, s1, w2)
         | (None, s1, w2) \<Rightarrow>
           (case ext_call (st_InsertEstablished (cap_Store c) flow (established_value e flow s1 nowMonotonic)) w2 of
              (r, w3) \<Rightarrow> (r, s1, w3))))"

definition lookupEstablished ::
  "'x capabilities \<Rightarrow> Engine \<Rightarrow> FakeTCPSessionKey \<Rightarrow> session \<Rightarrow> 'x world
     \<Rightarrow> (err + FakeTCPSessionValue option) \<times> session \<times> 'x world" where
  "lookupEstablished c e flow s w =
     (case ext_call (st_LookupEstablished (cap_Store c) flow) w of
        (Inl err, w1) \<Rightarrow> (Inl err, s, w1)
      | (Inr None, w1) \<Rightarrow> (Inr None, s, w1)
      | (Inr (Some value), w1) \<Rightarrow>
          if v_Generation value \<noteq> k_Generation flow \<or> v_State value \<noteq> FakeTCPStateEstablished
          then (Inl (ErrNew ''faketcp fast session has invalid generation or state''), s, w1)
          else if v_LocalISN value \<noteq> s_localISN s \<or> v_RemoteISN value \<noteq> s_remoteISN s
          then (Inl (ErrNew ''faketcp fast session identity changed''), s, w1)
          else if v_SessionID value \<noteq> s_sessionID s
               \<or> v_RuntimeIncarnation value \<noteq> rt_Incarnation (e_identity e)
          then (Inl (ErrNew ''faketcp fast session incarnation changed''), s, w1)
          else (Inr (Some value),
                s\<lparr>s_txSequence := v_TXSequence value, s_rxSequence := v_RXSequence value\<rparr>, w1))"

definition compareDeleteEstablished ::
  "'x capabilities \<Rightarrow> FakeTCPSessionKey \<Rightarrow> session \<Rightarrow> pendingSessionDelete \<Rightarrow> 'x world
     \<Rightarrow> (err + u8) \<times> session \<times> 'x world" where
  "compareDeleteEstablished c flow s request w =
     (case ext_call (st_DeleteEstablishedIfUnchanged (cap_Store c) flow (pd_expected request)) w of
        (Inl err, w1) \<Rightarrow> (Inl err, s\<lparr>s_pendingDelete := Some request\<rparr>, w1)
      | (Inr result, w1) \<Rightarrow>
          if result > SessionDeleteRemoved
          then (Inl (ErrNew ''faketcp session store returned invalid delete result''),
                s\<lparr>s_pendingDelete := Some request\<rparr>, w1)
          else (Inr result, s\<lparr>s_pendingDelete := None\<rparr>, w1))"

definition retryPendingDelete ::
  "'x capabilities \<Rightarrow> FakeTCPSessionKey \<Rightarrow> Engine \<Rightarrow> session \<Rightarrow> pendingSessionDelete \<Rightarrow> 'x world
     \<Rightarrow> Action \<times> err option \<times> Engine \<times> 'x world" where
  "retryPendingDelete c flow e s request w =
     (case compareDeleteEstablished c flow s request w of
        (Inl err, s1, w1) \<Rightarrow>
          (drop_action flow ''session-store-unavailable'', Some err, store_session flow s1 e, w1)
      | (Inr result, s1, w1) \<Rightarrow>
          if result = SessionDeleteDifferent
          then (drop_action flow ''fast-session-raced'', None, store_session flow s1 e, w1)
          else (case remove c flow e s1 w1 of
                  (e1, w2) \<Rightarrow> (close_action flow (pd_reason request), None, e1, w2)))"

section \<open>Outbound packets\<close>

definition outbound ::
  "'x capabilities \<Rightarrow> Engine \<Rightarrow> FakeTCPSessionKey \<Rightarrow> PendingPacket \<Rightarrow> bool \<Rightarrow> 'x world \<Rightarrow> 'x step_result" where
  "outbound c e flow packet alreadyDropped w =
     (case validateFlow e flow of
        Some err \<Rightarrow> ([], Some err, e, w)
      | None \<Rightarrow>
      if pp_WGID packet \<noteq> k_WGID flow then ([drop_action flow ''wg-id-mismatch''], None, e, w)
      else
      let found_s = m_get (e_sessions e) flow in
      case found_s of
        Some s \<Rightarrow>
          if s_state s = FakeTCPStateEstablished
          then (case s_pendingDelete s of
              Some request \<Rightarrow>
                (case retryPendingDelete c flow e s request w of
                   (action, err, e1, w1) \<Rightarrow> ([action], err, e1, w1))
            | None \<Rightarrow>
                (case ext_call (cap_Now c) w of
                   (now, w1) \<Rightarrow>
                   if pp_WGID packet \<noteq> 0 \<and> s_wgID s \<noteq> 0 \<and> pp_WGID packet \<noteq> s_wgID s
                   then ([drop_action flow ''wg-id-mismatch''], None, e, w1)
                   else
                   let s1 = (if s_wgID s = 0 then s\<lparr>s_wgID := pp_WGID packet\<rparr> else s) in
                   (case lookupEstablished c e flow s1 w1 of
                      (Inl err, s2, w2) \<Rightarrow>
                        ([drop_action flow ''session-store-unavailable''], Some err, store_session flow s2 e, w2)
                    | (Inr None, s2, w2) \<Rightarrow>
                        (case remove c flow e s2 w2 of
                           (e1, w3) \<Rightarrow> ([close_action flow ''fast-session-missing''], None, e1, w3))
                    | (Inr (Some value), s2, w2) \<Rightarrow>
                        let s3 = s2\<lparr>s_nextKeepalive := now + o_KeepaliveInterval (e_opts e)\<rparr>;
                            e1 = store_session flow s3 e in
                        if alreadyDropped
                        then ([(plain_action ActionReleasePending flow [])
                                 \<lparr>a_WGID := s_wgID s3, a_Packets := [ownPendingPacket packet]\<rparr>], None, e1, w2)
                        else ([plain_action ActionForward flow []], None, e1, w2))))
          else (case ext_call (cap_Now c) w of
            (now, w1) \<Rightarrow>
              if s_wgID s \<noteq> 0 \<and> pp_WGID packet \<noteq> 0 \<and> pp_WGID packet \<noteq> s_wgID s
              then ([drop_action flow ''wg-id-mismatch''], None, e, w1)
              else
              let s1 = (if s_wgID s = 0 then s\<lparr>s_wgID := pp_WGID packet\<rparr> else s) in
              (case enqueue e s1 packet of
                 (queued, e1, s2) \<Rightarrow>
                   ((if queued then [] else [drop_action flow ''pending-capacity'']),
                    None, store_session flow s2 e1, w1)))
      | None \<Rightarrow>
          (case ext_call (cap_Now c) w of
             (now, w1) \<Rightarrow>
             if int (length (e_sessions e)) \<ge> o_SessionCapacity (e_opts e)
             then ([drop_action flow ''session-capacity''], None, e, w1)
             else if e_halfOpen e \<ge> o_MaxHalfOpenSessions (e_opts e)
             then ([drop_action flow ''half-open-capacity''], None, e, w1)
             else (case ext_call (cap_InitialSequence c) w1 of
               (isn, w2) \<Rightarrow>
               let s = zero_session\<lparr>s_state := FakeTCPStateSynSent, s_wgID := pp_WGID packet,
                         s_localISN := isn, s_txSequence := isn + 1, s_lastActivity := now,
                         s_nextRetry := now + o_HandshakeTimeout (e_opts e), s_retries := 1,
                         s_halfOpenHeld := True\<rparr>;
                   e1 = e\<lparr>e_halfOpen := e_halfOpen e + 1\<rparr> in
               (case enqueue e1 s packet of
                  (queued, e2, s1) \<Rightarrow>
                    (control flow e2 s1 FlagSYN (s_localISN s1) 0 ''initial-handshake''
                       # (if queued then [] else [drop_action flow ''pending-capacity'']),
                     None, store_session flow s1 e2, w2)))))"

definition Outbound ::
  "'x capabilities \<Rightarrow> Engine \<Rightarrow> FakeTCPSessionKey \<Rightarrow> byte list \<Rightarrow> 'x world \<Rightarrow> 'x step_result" where
  "Outbound c e flow packet w =
     outbound c e flow (zero_packet\<lparr>pp_Data := packet, pp_WGID := k_WGID flow\<rparr>) False w"

definition handleOwnedCapturedPacket ::
  "'x capabilities \<Rightarrow> Engine \<Rightarrow> FakeTCPEvent \<Rightarrow> byte list \<Rightarrow> byte list \<Rightarrow> 'x world \<Rightarrow> 'x step_result" where
  "handleOwnedCapturedPacket c e event packet fingerprint w =
     (if ev_Type event \<noteq> FakeTCPEventNeedHandshake
      then ([], Some (ErrNew ''faketcp packet event type is not NEED_HANDSHAKE''), e, w)
      else if length packet = 0 \<or> length packet \<noteq> unat (ev_PacketLength event)
              \<or> length packet > FakeTCPMaxCapturedPacket
      then ([], Some (ErrNew ''faketcp captured packet body does not have its declared length''), e, w)
      else if ev_EventABIVersion event \<noteq> FakeTCPEventABIVersion
      then ([], Some (ErrNew ''faketcp event ABI version does not match''), e, w)
      else if runtimeIdentityFromEvent event \<noteq> e_identity e
      then ([], Some (ErrNew ''faketcp packet event identity does not match Engine''), e, w)
      else
        let captureID = captureIdentityFromEvent event in
        case validateCaptureIdentity captureID (k_Generation (ev_Key event)) of
          Some err \<Rightarrow> ([], Some err, e, w)
        | None \<Rightarrow>
            outbound c e (ev_Key event)
              \<lparr>pp_Data = packet, pp_FWMark = ev_FWMark event, pp_WGID = ev_WGID event,
               pp_CaptureNanos = ev_TimestampNanos event, pp_CaptureID = captureID,
               pp_CaptureFingerprint = fingerprint, pp_dataOwned = True\<rparr> True w)"

text \<open>The event of \<open>abi.FakeTCPPacketEvent\<close> and its packet array.\<close>

definition HandlePacketEvent ::
  "(byte list \<Rightarrow> byte list) \<Rightarrow> 'x capabilities \<Rightarrow> Engine \<Rightarrow> FakeTCPEvent \<Rightarrow> byte list \<Rightarrow> 'x world
     \<Rightarrow> 'x step_result" where
  "HandlePacketEvent sha256 c e event packet_array w =
     (let n = unat (ev_PacketLength event) in
      if n = 0 \<or> n > length packet_array
      then ([], Some (ErrNew ''faketcp captured packet length is invalid''), e, w)
      else
        let packet = take n packet_array in
        handleOwnedCapturedPacket c e event packet (sha256 packet) w)"

section \<open>Inbound segments\<close>

text \<open>The segment of an unknown flow, after SYN admission: lines 606 to 635 of \<open>inbound\<close>.\<close>

definition inbound_new ::
  "'x capabilities \<Rightarrow> Engine \<Rightarrow> FakeTCPSessionKey \<Rightarrow> Segment \<Rightarrow> u32 \<Rightarrow> time \<Rightarrow> synSourceKey \<Rightarrow> 'x world
     \<Rightarrow> 'x step_result" where
  "inbound_new c e flow seg wgID now synSource w =
     (if sg_Flags seg \<noteq> FlagSYN then ([drop_action flow ''unknown-flow''], None, e, w)
      else if int (length (e_sessions e)) \<ge> o_SessionCapacity (e_opts e)
      then ([drop_action flow ''session-capacity''], None, e, w)
      else case reserveInboundHalfOpen synSource e of
        (rejection, e1) \<Rightarrow>
          if rejection \<noteq> [] then ([drop_action flow rejection], None, e1, w)
          else (case ext_call (cap_InitialSequence c) w of
            (isn, w1) \<Rightarrow>
              let s = zero_session\<lparr>s_state := FakeTCPStateSynReceived, s_wgID := wgID, s_localISN := isn,
                        s_remoteISN := sg_Sequence seg, s_txSequence := isn + 1,
                        s_rxSequence := sg_Sequence seg + 1, s_lastActivity := now,
                        s_nextRetry := now + o_HandshakeTimeout (e_opts e1), s_retries := 1,
                        s_halfOpenHeld := True, s_synSource := synSource\<rparr> in
              ([control flow e1 s (FlagSYN OR FlagACK) (s_localISN s) (s_rxSequence s) ''accept-syn''],
               None, store_session flow s e1, w1)))"

text \<open>
  The end of \<open>inbound\<close> for a handshake that this segment completed: publish the session, or put
  the checkpoint back.
\<close>

definition establish ::
  "'x capabilities \<Rightarrow> Engine \<Rightarrow> FakeTCPSessionKey \<Rightarrow> engineCheckpoint \<Rightarrow> session \<Rightarrow> Action list \<Rightarrow> 'x world
     \<Rightarrow> 'x step_result" where
  "establish c e flow saved s actions w =
     (case insertEstablished c e flow s w of
        (Some err, s1, w1) \<Rightarrow>
          ([drop_action flow ''session-store-unavailable''], Some err, restore flow saved e, w1)
      | (None, s1, w1) \<Rightarrow>
          (case releaseHalfOpen c e s1 w1 of
             (e1, s2, w2) \<Rightarrow> (actions, None, store_session flow s2 e1, w2)))"

text \<open>The segment of a known flow that is not a close: lines 636 to 700.\<close>

definition inbound_known ::
  "'x capabilities \<Rightarrow> Engine \<Rightarrow> FakeTCPSessionKey \<Rightarrow> Segment \<Rightarrow> u32 \<Rightarrow> time \<Rightarrow> engineCheckpoint \<Rightarrow> session
     \<Rightarrow> 'x world \<Rightarrow> 'x step_result" where
  "inbound_known c e flow seg wgID now saved s0 w =
     (let s1 = (if s_wgID s0 = 0 then s0\<lparr>s_wgID := wgID\<rparr> else s0);
          s = s1\<lparr>s_lastActivity := now, s_nextKeepalive := now + o_KeepaliveInterval (e_opts e)\<rparr> in
      if s_state s = FakeTCPStateSynSent
      then
        if sg_Flags seg AND (FlagSYN OR FlagACK) = FlagSYN OR FlagACK
           \<and> sg_Acknowledgement seg = s_txSequence s
        then
          let s2 = s\<lparr>s_remoteISN := sg_Sequence seg, s_rxSequence := sg_Sequence seg + 1,
                     s_state := FakeTCPStateEstablished\<rparr>;
              ack = control flow e s2 FlagACK (s_txSequence s2) (s_rxSequence s2) ''complete-handshake'' in
          (case release flow e s2 of
             (released, e1, s3) \<Rightarrow> establish c e1 flow saved s3 (ack # released) w)
        else if sg_Flags seg = FlagSYN
        then
          let s2 = s\<lparr>s_remoteISN := sg_Sequence seg, s_rxSequence := sg_Sequence seg + 1,
                     s_state := FakeTCPStateSynReceived\<rparr> in
          ([control flow e s2 (FlagSYN OR FlagACK) (s_localISN s2) (s_rxSequence s2) ''simultaneous-open''],
           None, store_session flow s2 e, w)
        else ([drop_action flow ''invalid-syn-sent-segment''], None, store_session flow s e, w)
      else if s_state s = FakeTCPStateSynReceived
      then
        if sg_Flags seg = FlagSYN \<and> sg_Sequence seg = s_remoteISN s
        then ([control flow e s (FlagSYN OR FlagACK) (s_localISN s) (s_rxSequence s) ''duplicate-syn''],
              None, store_session flow s e, w)
        else if sg_Flags seg AND FlagACK \<noteq> 0 \<and> sg_Acknowledgement seg = s_txSequence s
        then
          (case release flow e (s\<lparr>s_state := FakeTCPStateEstablished\<rparr>) of
             (released, e1, s3) \<Rightarrow> establish c e1 flow saved s3 released w)
        else ([drop_action flow ''invalid-syn-received-segment''], None, store_session flow s e, w)
      else if s_state s = FakeTCPStateEstablished
      then
        if sg_Flags seg AND FlagSYN \<noteq> 0
        then ([drop_action flow ''syn-on-established''], None, store_session flow s e, w)
        else
          (case lookupEstablished c e flow s w of
             (Inl err, s2, w1) \<Rightarrow>
               ([drop_action flow ''session-store-unavailable''], Some err,
                restore flow saved (store_session flow s2 e), w1)
           | (Inr None, s2, w1) \<Rightarrow>
               (case remove c flow e s2 w1 of
                  (e1, w2) \<Rightarrow> ([close_action flow ''fast-session-missing''], None, e1, w2))
           | (Inr (Some value), s2, w1) \<Rightarrow>
               ([plain_action ActionForward flow []], None, store_session flow s2 e, w1))
      else ([drop_action flow ''invalid-state''], None, store_session flow s e, w))"

definition inbound ::
  "'x capabilities \<Rightarrow> Engine \<Rightarrow> FakeTCPSessionKey \<Rightarrow> Segment \<Rightarrow> u32 \<Rightarrow> 'x world \<Rightarrow> 'x step_result" where
  "inbound c e flow seg wgID w =
     (case validateFlow e flow of
        Some err \<Rightarrow> ([], Some err, e, w)
      | None \<Rightarrow>
      if wgID \<noteq> k_WGID flow then ([drop_action flow ''wg-id-mismatch''], None, e, w)
      else
      (case ext_call (cap_Now c) w of
        (now, w1) \<Rightarrow>
        let found_s = m_get (e_sessions e) flow; saved = checkpoint e found_s in
        (case (found_s, Option.bind found_s s_pendingDelete) of
           (Some s, Some request) \<Rightarrow>
             (case retryPendingDelete c flow e s request w1 of
                (action, err, e1, w2) \<Rightarrow> ([action], err, e1, w2))
         | _ \<Rightarrow>
           (case (if sg_Flags seg = FlagSYN then observeSYN flow now e else (Inr zero_source, e)) of
              (Inl rejection, e1) \<Rightarrow> ([drop_action flow rejection], None, e1, w1)
            | (Inr synSource, e1) \<Rightarrow>
              (case found_s of
                 None \<Rightarrow>
                   if sg_Flags seg AND (FlagRST OR FlagFIN) \<noteq> 0
                   then ([drop_action flow ''unknown-close''], None, e1, w1)
                   else inbound_new c e1 flow seg wgID now synSource w1
               | Some s \<Rightarrow>
                   if wgID \<noteq> 0 \<and> s_wgID s \<noteq> 0 \<and> wgID \<noteq> s_wgID s
                   then ([drop_action flow ''wg-id-mismatch''], None, e1, w1)
                   else if sg_Flags seg AND (FlagRST OR FlagFIN) \<noteq> 0
                   then
                     if s_state s = FakeTCPStateEstablished
                     then ([drop_action flow ''unvalidated-close''], None, e1, w1)
                     else (case remove c flow e1 s w1 of
                             (e2, w2) \<Rightarrow> ([close_action flow ''peer-close''], None, e2, w2))
                   else inbound_known c e1 flow seg wgID now saved s w1)))))"

definition Inbound ::
  "'x capabilities \<Rightarrow> Engine \<Rightarrow> FakeTCPSessionKey \<Rightarrow> Segment \<Rightarrow> 'x world \<Rightarrow> 'x step_result" where
  "Inbound c e flow seg w = inbound c e flow seg (k_WGID flow) w"

definition InboundWithWGID ::
  "'x capabilities \<Rightarrow> Engine \<Rightarrow> FakeTCPSessionKey \<Rightarrow> Segment \<Rightarrow> u32 \<Rightarrow> 'x world \<Rightarrow> 'x step_result" where
  "InboundWithWGID c e flow seg wgID w = inbound c e flow seg wgID w"

text \<open>
  The packet check returns \<open>None\<close> only if it panics, which \<open>Control_Packet\<close> excludes for a packet
  of the length that the envelope test has required.
\<close>

definition InboundCapturedControl ::
  "endian \<Rightarrow> 'x capabilities \<Rightarrow> Engine \<Rightarrow> FakeTCPEvent \<Rightarrow> byte list \<Rightarrow> 'x world \<Rightarrow> 'x step_result" where
  "InboundCapturedControl en c e event packet w =
     (let flow = ev_Key event in
      case validateFlow e flow of
        Some err \<Rightarrow> ([], Some err, e, w)
      | None \<Rightarrow>
      if ev_WGID event \<noteq> k_WGID flow then ([drop_action flow ''wg-id-mismatch''], None, e, w)
      else if runtimeIdentityFromEvent event \<noteq> e_identity e
              \<or> ev_EventABIVersion event \<noteq> FakeTCPEventABIVersion
      then ([], Some (ErrNew ''faketcp close event does not match the active runtime identity''), e, w)
      else if ev_Type event \<noteq> FakeTCPEventRST \<and> ev_Type event \<noteq> FakeTCPEventFIN
      then ([], Some (ErrNew ''faketcp captured control event is not RST or FIN''), e, w)
      else if ev_PacketLength event \<noteq> of_nat (length packet) \<or> length packet \<noteq> 40
              \<or> ev_PayloadLength event \<noteq> 0 \<or> ev_CaptureSequence event \<noteq> 0 \<or> ev_CaptureCPU event \<noteq> 0
              \<or> ev_FWMark event \<noteq> 0
      then ([drop_action flow ''invalid-close-envelope''], None, e, w)
      else (case m_get (e_sessions e) flow of
        None \<Rightarrow> ([drop_action flow ''unknown-close''], None, e, w)
      | Some s \<Rightarrow>
      if ev_WGID event = 0 \<or> s_wgID s = 0 \<or> ev_WGID event \<noteq> s_wgID s
      then ([drop_action flow ''wg-id-mismatch''], None, e, w)
      else (case s_pendingDelete s of
        Some request \<Rightarrow>
          (case retryPendingDelete c flow e s request w of
             (action, err, e1, w1) \<Rightarrow> ([action], err, e1, w1))
      | None \<Rightarrow>
      if s_state s \<noteq> FakeTCPStateEstablished
      then ([drop_action flow ''unvalidated-close''], None, e, w)
      else (case lookupEstablished c e flow s w of
        (Inl err, s1, w1) \<Rightarrow>
          ([drop_action flow ''session-store-unavailable''], Some err, store_session flow s1 e, w1)
      | (Inr None, s1, w1) \<Rightarrow> ([drop_action flow ''fast-session-missing''], None, store_session flow s1 e, w1)
      | (Inr (Some value), s1, w1) \<Rightarrow>
          if validateIPv4TCPControl en packet event value \<noteq> Some None
          then ([drop_action flow ''invalid-close-control''], None, store_session flow s1 e, w1)
          else (case compareDeleteEstablished c flow s1 \<lparr>pd_expected = value, pd_reason = ''peer-close''\<rparr> w1 of
            (Inl err, s2, w2) \<Rightarrow>
              ([drop_action flow ''session-store-unavailable''], Some err, store_session flow s2 e, w2)
          | (Inr result, s2, w2) \<Rightarrow>
              if result = SessionDeleteDifferent
              then ([drop_action flow ''fast-session-raced''], None, store_session flow s2 e, w2)
              else (case remove c flow e s2 w2 of
                      (e1, w3) \<Rightarrow> ([close_action flow ''peer-close''], None, e1, w3)))))))"

section \<open>Timers and observation\<close>

text \<open>
  One iteration of \<open>Tick\<close>: the actions and errors it appends. \<open>range\<close> over a map visits the keys
  in an order of the runtime's choice; the iteration removes at most the entry it visits.
\<close>

definition tick_one ::
  "'x capabilities \<Rightarrow> time \<Rightarrow> u64 \<Rightarrow> FakeTCPSessionKey \<Rightarrow> session \<Rightarrow> Engine \<Rightarrow> 'x world
     \<Rightarrow> Action list \<times> err list \<times> Engine \<times> 'x world" where
  "tick_one c now nowMonotonic flow s e w =
     (if s_state s = FakeTCPStateSynSent \<or> s_state s = FakeTCPStateSynReceived
      then
        if now < s_nextRetry s then ([], [], e, w)
        else if s_retries s \<ge> o_HandshakeRetries (e_opts e)
        then (case remove c flow e s w of
                (e1, w1) \<Rightarrow> ([close_action flow ''handshake-timeout''], [], e1, w1))
        else
          let s1 = s\<lparr>s_retries := s_retries s + 1, s_nextRetry := now + o_HandshakeTimeout (e_opts e)\<rparr>;
              (flags, ack) = (if s_state s1 = FakeTCPStateSynReceived
                              then (FlagSYN OR FlagACK, s_rxSequence s1) else (FlagSYN, 0)) in
          ([control flow e s1 flags (s_localISN s1) ack ''handshake-retry''], [],
           store_session flow s1 e, w)
      else if s_state s = FakeTCPStateEstablished
      then (case s_pendingDelete s of
          Some request \<Rightarrow>
            (case retryPendingDelete c flow e s request w of
               (action, err, e1, w1) \<Rightarrow> ([action], (case err of None \<Rightarrow> [] | Some x \<Rightarrow> [x]), e1, w1))
        | None \<Rightarrow>
        (case lookupEstablished c e flow s w of
          (Inl err, s1, w1) \<Rightarrow>
            ([drop_action flow ''session-store-unavailable''], [err], store_session flow s1 e, w1)
        | (Inr None, s1, w1) \<Rightarrow>
            (case remove c flow e s1 w1 of
               (e1, w2) \<Rightarrow> ([close_action flow ''fast-session-missing''], [], e1, w2))
        | (Inr (Some value), s1, w1) \<Rightarrow>
            if nowMonotonic \<ge> v_LastSeenNanos value
               \<and> nowMonotonic - v_LastSeenNanos value \<ge> word_of_int (o_IdleTimeout (e_opts e))
            then (case compareDeleteEstablished c flow s1
                         \<lparr>pd_expected = value, pd_reason = ''idle-timeout''\<rparr> w1 of
                (Inl err, s2, w2) \<Rightarrow>
                  ([drop_action flow ''session-store-unavailable''], [err], store_session flow s2 e, w2)
              | (Inr result, s2, w2) \<Rightarrow>
                  if result = SessionDeleteDifferent then ([], [], store_session flow s2 e, w2)
                  else (case remove c flow e s2 w2 of
                          (e1, w3) \<Rightarrow> ([close_action flow ''idle-timeout''], [], e1, w3)))
            else if \<not> now < s_nextKeepalive s1
            then
              let s2 = s1\<lparr>s_nextKeepalive := now + o_KeepaliveInterval (e_opts e)\<rparr> in
              ([controlEstablished flow e s2 value FlagACK (v_TXSequence value - 1) (v_RXSequence value)
                  ''keepalive''], [], store_session flow s2 e, w1)
            else ([], [], store_session flow s1 e, w1)))
      else ([], [], e, w))"

fun tick_loop ::
  "'x capabilities \<Rightarrow> time \<Rightarrow> u64 \<Rightarrow> FakeTCPSessionKey list \<Rightarrow> Engine \<Rightarrow> 'x world
     \<Rightarrow> Action list \<times> err list \<times> Engine \<times> 'x world" where
  "tick_loop c now nowMonotonic [] e w = ([], [], e, w)"
| "tick_loop c now nowMonotonic (flow # flows) e w =
     (case m_get (e_sessions e) flow of
        None \<Rightarrow> tick_loop c now nowMonotonic flows e w
      | Some s \<Rightarrow>
          (case tick_one c now nowMonotonic flow s e w of
             (actions, errs, e1, w1) \<Rightarrow>
               (case tick_loop c now nowMonotonic flows e1 w1 of
                  (actions', errs', e2, w2) \<Rightarrow> (actions @ actions', errs @ errs', e2, w2))))"

definition Tick ::
  "'x capabilities \<Rightarrow> FakeTCPSessionKey list \<Rightarrow> Engine \<Rightarrow> 'x world \<Rightarrow> 'x step_result" where
  "Tick c order e w =
     (case ext_call (cap_Now c) w of
        (now, w1) \<Rightarrow>
        (case ext_call (cap_NowNanos c) w1 of
           (Inl err, w2) \<Rightarrow> ([], Some (ErrWrap ''read faketcp clock'' [err]), e, w2)
         | (Inr nowMonotonic, w2) \<Rightarrow>
           (case tick_loop c now nowMonotonic order e w2 of
              (actions, errs, e1, w3) \<Rightarrow> (actions, errors_join (map Some errs), e1, w3))))"

definition AdvanceGeneration :: "Engine option \<Rightarrow> u64 \<Rightarrow> Action list \<times> err option" where
  "AdvanceGeneration e generation =
     (case e of
        None \<Rightarrow> ([], Some (ErrWrap ''Engine is nil'' [ErrVar ErrEngineGenerationImmutable]))
      | Some e' \<Rightarrow> ([], Some (ErrWrap ''current and requested generation'' [ErrVar ErrEngineGenerationImmutable])))"

text \<open>\<open>Snapshot\<close>: the snapshot and its found flag, or an error for a session that exists.\<close>

definition Snapshot ::
  "'x capabilities \<Rightarrow> Engine \<Rightarrow> FakeTCPSessionKey \<Rightarrow> 'x world
     \<Rightarrow> (err + SessionSnapshot option) \<times> Engine \<times> 'x world" where
  "Snapshot c e flow w =
     (case m_get (e_sessions e) flow of
        None \<Rightarrow> (Inr None, e, w)
      | Some s \<Rightarrow>
        let report = (\<lambda>s tx rx seen. \<lparr>sn_State = s_state s, sn_TXSequence = tx, sn_RXSequence = rx,
              sn_LastSeenNanos = seen, sn_PendingDelete = s_pendingDelete s \<noteq> None,
              sn_PendingPackets = int (length (s_pending s)), sn_PendingBytes = s_pendingBytes s,
              sn_LastActivity = s_lastActivity s\<rparr>) in
        if s_state s = FakeTCPStateEstablished
        then (case s_pendingDelete s of
            Some request \<Rightarrow>
              let value = pd_expected request in
              (Inr (Some (report s (v_TXSequence value) (v_RXSequence value) (v_LastSeenNanos value))), e, w)
          | None \<Rightarrow>
              (case lookupEstablished c e flow s w of
                 (Inl err, s1, w1) \<Rightarrow> (Inl err, store_session flow s1 e, w1)
               | (Inr None, s1, w1) \<Rightarrow> (Inr None, store_session flow s1 e, w1)
               | (Inr (Some value), s1, w1) \<Rightarrow>
                   (Inr (Some (report s1 (v_TXSequence value) (v_RXSequence value) (v_LastSeenNanos value))),
                    store_session flow s1 e, w1)))
        else (Inr (Some (report s (s_txSequence s) (s_rxSequence s) 0)), e, w))"

end
