(* ===== verification/Engine_Invariant.thy ===== *)
theory Engine_Invariant
  imports Engine
begin

text \<open>
  The well-formedness invariant of the engine and its preservation by every operation. The
  counters of the engine are the sums of what its sessions hold, the SYN ledger agrees with the
  sessions that it admitted, and every quota of the options is respected.
\<close>

section \<open>The invariant\<close>

definition limits_ok :: "SessionLimits \<Rightarrow> bool" where
  "limits_ok l \<longleftrightarrow> o_Generation l \<noteq> 0 \<and> 0 < o_SessionCapacity l \<and> 0 < o_MaxPendingFlows l
     \<and> o_MaxPendingFlows l \<le> o_SessionCapacity l \<and> 0 < o_MaxPendingPacketsPerFlow l
     \<and> 0 < o_MaxPendingBytes l \<and> 0 < o_MaxHalfOpenSessions l
     \<and> o_MaxHalfOpenSessions l < o_SessionCapacity l \<and> 0 < o_MaxHalfOpenPerSource l
     \<and> o_MaxHalfOpenPerSource l \<le> o_MaxHalfOpenSessions l \<and> 0 < o_SYNRateInterval l
     \<and> 0 < o_SYNBurst l \<and> 0 < o_SYNBurstPerSource l \<and> o_SYNBurstPerSource l \<le> o_SYNBurst l
     \<and> o_MaxHalfOpenSessions l \<le> o_SYNSourceLedgerCapacity l
     \<and> o_SYNRateInterval l \<le> o_SYNSourceLedgerTTL l \<and> 0 < o_HandshakeTimeout l
     \<and> 0 < o_HandshakeRetries l \<and> 0 < o_KeepaliveInterval l
     \<and> o_KeepaliveInterval l < o_IdleTimeout l \<and> o_Window l \<noteq> 0"

definition flow_ok :: "SessionLimits \<Rightarrow> FakeTCPSessionKey \<Rightarrow> bool" where
  "flow_ok l flow \<longleftrightarrow> k_Generation flow = o_Generation l \<and> k_LocalIPv4 flow \<noteq> 0 \<and> k_RemoteIPv4 flow \<noteq> 0
     \<and> k_UnderlayIndex flow \<noteq> 0 \<and> k_LocalPort flow \<noteq> 0 \<and> k_RemotePort flow \<noteq> 0 \<and> k_WGID flow \<noteq> 0
     \<and> k_Reserved flow = zero_array 4"

definition packet_bytes :: "PendingPacket list \<Rightarrow> int" where
  "packet_bytes ps = (\<Sum>p\<leftarrow>ps. int (length (pp_Data p)))"

definition queued_ok :: "FakeTCPSessionKey \<Rightarrow> PendingPacket \<Rightarrow> bool" where
  "queued_ok flow p \<longleftrightarrow> pp_Data p \<noteq> [] \<and> pp_WGID p = k_WGID flow \<and> pp_dataOwned p"

definition session_ok :: "SessionLimits \<Rightarrow> FakeTCPSessionKey \<Rightarrow> session \<Rightarrow> bool" where
  "session_ok l flow s \<longleftrightarrow> flow_ok l flow \<and> s_wgID s = k_WGID flow
     \<and> s_state s \<in> {FakeTCPStateSynSent, FakeTCPStateSynReceived, FakeTCPStateEstablished}
     \<and> (s_halfOpenHeld s \<longleftrightarrow> s_state s \<noteq> FakeTCPStateEstablished)
     \<and> (s_state s = FakeTCPStateEstablished \<longrightarrow> s_pending s = [] \<and> s_sessionID s \<noteq> 0)
     \<and> (s_pendingDelete s \<noteq> None \<longrightarrow> s_state s = FakeTCPStateEstablished)
     \<and> s_pendingBytes s = packet_bytes (s_pending s)
     \<and> int (length (s_pending s)) \<le> o_MaxPendingPacketsPerFlow l
     \<and> list_all (queued_ok flow) (s_pending s)
     \<and> 1 \<le> s_retries s \<and> s_retries s \<le> o_HandshakeRetries l
     \<and> s_synSource s \<in> {zero_source, flow_source flow}"

text \<open>What one session adds to the counters.\<close>

definition held :: "session \<Rightarrow> int" where
  "held s = (if s_halfOpenHeld s then 1 else 0)"

definition held_from :: "synSourceKey \<Rightarrow> session \<Rightarrow> int" where
  "held_from k s = (if s_halfOpenHeld s \<and> s_synSource s = k then 1 else 0)"

definition queues :: "session \<Rightarrow> int" where
  "queues s = (if s_pending s = [] then 0 else 1)"

definition source_load :: "Engine \<Rightarrow> synSourceKey \<Rightarrow> int" where
  "source_load e k = m_sum (held_from k) (e_sessions e)"

definition sessions_ok :: "Engine \<Rightarrow> bool" where
  "sessions_ok e \<longleftrightarrow> m_wf (e_sessions e) \<and> int (length (e_sessions e)) \<le> o_SessionCapacity (e_opts e)
     \<and> (\<forall>flow s. m_get (e_sessions e) flow = Some s \<longrightarrow> session_ok (e_opts e) flow s)"

definition counters_ok :: "Engine \<Rightarrow> bool" where
  "counters_ok e \<longleftrightarrow> e_halfOpen e = m_sum held (e_sessions e)
     \<and> e_halfOpen e \<le> o_MaxHalfOpenSessions (e_opts e)
     \<and> e_pendingFlows e = m_sum queues (e_sessions e)
     \<and> e_pendingFlows e \<le> o_MaxPendingFlows (e_opts e)
     \<and> e_pendingBytes e = m_sum s_pendingBytes (e_sessions e)
     \<and> e_pendingBytes e \<le> o_MaxPendingBytes (e_opts e)"

definition bucket_ok :: "int \<Rightarrow> tokenBucket \<Rightarrow> bool" where
  "bucket_ok burst b \<longleftrightarrow> tb_initialized b \<and> 0 \<le> tb_tokens b \<and> tb_tokens b \<le> burst"

text \<open>The ledger against the number of half-open sessions that each source should hold.\<close>

definition ledger_ok :: "(synSourceKey \<Rightarrow> int) \<Rightarrow> Engine \<Rightarrow> bool" where
  "ledger_ok load e \<longleftrightarrow> m_wf (e_synSources e) \<and> distinct (e_synSourceLRU e)
     \<and> set (e_synSourceLRU e) = set (m_keys (e_synSources e))
     \<and> int (length (e_synSources e)) \<le> o_SYNSourceLedgerCapacity (e_opts e)
     \<and> (\<forall>k src. m_get (e_synSources e) k = Some src \<longrightarrow>
          sk_remoteIPv4 k \<noteq> 0 \<and> ss_halfOpen src = load k \<and> 0 \<le> load k
          \<and> load k \<le> o_MaxHalfOpenPerSource (e_opts e)
          \<and> bucket_ok (o_SYNBurstPerSource (e_opts e)) (ss_bucket src))
     \<and> (\<forall>k. m_get (e_synSources e) k = None \<longrightarrow> sk_remoteIPv4 k \<noteq> 0 \<longrightarrow> load k = 0)
     \<and> bucket_ok (o_SYNBurst (e_opts e)) (e_globalSYNs e)"

definition engine_ok :: "Engine \<Rightarrow> bool" where
  "engine_ok e \<longleftrightarrow> limits_ok (e_opts e) \<and> rt_Generation (e_identity e) = o_Generation (e_opts e)
     \<and> sessions_ok e \<and> counters_ok e \<and> ledger_ok (source_load e) e"

text \<open>The part of the engine that SYN admission does not touch.\<close>

definition same_core :: "Engine \<Rightarrow> Engine \<Rightarrow> bool" where
  "same_core e e' \<longleftrightarrow> e_opts e' = e_opts e \<and> e_identity e' = e_identity e \<and> e_domain e' = e_domain e
     \<and> e_instance e' = e_instance e
     \<and> e_sessions e' = e_sessions e \<and> e_pendingFlows e' = e_pendingFlows e
     \<and> e_pendingBytes e' = e_pendingBytes e \<and> e_halfOpen e' = e_halfOpen e
     \<and> e_admissionEpoch e' = e_admissionEpoch e"

lemma same_core_refl [simp]: "same_core e e"
  by (simp add: same_core_def)

lemma same_core_trans: "same_core a b \<Longrightarrow> same_core b c \<Longrightarrow> same_core a c"
  by (simp add: same_core_def)

lemma same_core_simps:
  assumes "same_core e e'"
  shows "e_opts e' = e_opts e" "e_identity e' = e_identity e" "e_instance e' = e_instance e"
    "e_domain e' = e_domain e"
    "e_sessions e' = e_sessions e" "e_pendingFlows e' = e_pendingFlows e"
    "e_pendingBytes e' = e_pendingBytes e" "e_halfOpen e' = e_halfOpen e"
    "e_admissionEpoch e' = e_admissionEpoch e"
  using assms by (simp_all add: same_core_def)

lemma state_distinct:
  "FakeTCPStateSynSent \<noteq> FakeTCPStateSynReceived" "FakeTCPStateSynReceived \<noteq> FakeTCPStateSynSent"
  "FakeTCPStateSynSent \<noteq> FakeTCPStateEstablished" "FakeTCPStateEstablished \<noteq> FakeTCPStateSynSent"
  "FakeTCPStateSynReceived \<noteq> FakeTCPStateEstablished" "FakeTCPStateEstablished \<noteq> FakeTCPStateSynReceived"
  by (simp_all add: state_defs)

lemma validateFlow_None: "validateFlow e flow = None \<longleftrightarrow> flow_ok (e_opts e) flow"
  by (auto simp: validateFlow_def flow_ok_def)

lemma newEngine_fresh:
  assumes "newEngine now token options d x = (Inr (c, e), x')"
  shows "e_opts e = (if o_Window (opt_limits options) = 0 then (opt_limits options)\<lparr>o_Window := 65535\<rparr>
                  else opt_limits options)
      \<and> rt_Generation (e_identity e) = o_Generation (opt_limits options) \<and> e_sessions e = [] \<and> e_pendingFlows e = 0
      \<and> e_pendingBytes e = 0 \<and> e_halfOpen e = 0 \<and> tb_tokens (e_globalSYNs e) = 0
      \<and> tb_initialized (e_globalSYNs e) \<and> e_synSources e = [] \<and> e_synSourceLRU e = []"
  using assms
  by (simp add: newEngine_def Let_def split: if_split_asm option.split_asm prod.split_asm)
    (safe, simp_all)

lemma newEngine_identity:
  "newEngine now token options (Some d) x = (Inr (c, e), x') \<Longrightarrow> e_identity e = dom_identity d"
  by (simp add: newEngine_def Let_def split: if_split_asm option.split_asm prod.split_asm)
    (safe, simp_all)

lemma newEngine_ok:
  assumes "newEngine now token options d x = (Inr (c, e), x')"
  shows "engine_ok e"
proof -
  let ?l = "opt_limits options"
  note fresh = newEngine_fresh [OF assms]
  have "limits_ok (if o_Window ?l = 0 then ?l\<lparr>o_Window := 65535\<rparr> else ?l)"
    using assms
    by (simp add: newEngine_def Let_def limits_ok_def not_le not_less split: if_split_asm option.split_asm)
  then have "limits_ok (e_opts e)" using fresh by auto
  then show ?thesis using fresh
    by (auto simp: engine_ok_def limits_ok_def sessions_ok_def counters_ok_def ledger_ok_def bucket_ok_def
        m_keys_def source_load_def)
qed

section \<open>SYN admission\<close>

lemma refill_ok:
  assumes "bucket_ok burst b" "0 < burst" "0 < interval"
  shows "bucket_ok burst (refillTokenBucket b now interval burst)"
proof -
  have "0 \<le> time_sub now (tb_lastRefill b) div interval" if "\<not> now < tb_lastRefill b + interval"
    using that assms(3) time_sub_nonneg [of "tb_lastRefill b" now] by (simp add: pos_imp_zdiv_nonneg_iff)
  with assms show ?thesis
    by (auto simp: refillTokenBucket_def bucket_ok_def Let_def)
qed

lemma ledger_get:
  assumes "ledger_ok load e" "m_get (e_synSources e) k = Some src"
  shows "sk_remoteIPv4 k \<noteq> 0" "ss_halfOpen src = load k" "0 \<le> load k"
    "load k \<le> o_MaxHalfOpenPerSource (e_opts e)"
    "bucket_ok (o_SYNBurstPerSource (e_opts e)) (ss_bucket src)"
  using assms by (auto simp: ledger_ok_def)

text \<open>One assignment to a ledger entry; \<open>load'\<close> may move the count of that source.\<close>

lemma update_source_ok:
  assumes ok: "ledger_ok load e" and src: "m_get (e_synSources e) k = Some src"
    and f: "ss_halfOpen (f src) = load' k" "0 \<le> load' k" "load' k \<le> o_MaxHalfOpenPerSource (e_opts e)"
      "bucket_ok (o_SYNBurstPerSource (e_opts e)) (ss_bucket (f src))"
    and others: "\<And>k'. k' \<noteq> k \<Longrightarrow> sk_remoteIPv4 k' \<noteq> 0 \<Longrightarrow> load' k' = load k'"
  shows "ledger_ok load' (update_source k f e)"
proof -
  have keys: "set (m_keys (m_put k (f src) (e_synSources e))) = set (m_keys (e_synSources e))"
    using src by (auto simp: m_keys_put m_get_in_keys [symmetric])
  have "ledger_ok load' (e\<lparr>e_synSources := m_put k (f src) (e_synSources e)\<rparr>)"
    unfolding ledger_ok_def
  proof (intro conjI allI impI)
    fix k' src' assume "m_get (e_synSources (e\<lparr>e_synSources := m_put k (f src) (e_synSources e)\<rparr>)) k' = Some src'"
    then have "k' = k \<and> src' = f src \<or> k' \<noteq> k \<and> m_get (e_synSources e) k' = Some src'"
      by (auto split: if_splits)
    moreover note ledger_get [OF ok] f others
    ultimately show "sk_remoteIPv4 k' \<noteq> 0" "ss_halfOpen src' = load' k'" "0 \<le> load' k'"
      "load' k' \<le> o_MaxHalfOpenPerSource (e_opts (e\<lparr>e_synSources := m_put k (f src) (e_synSources e)\<rparr>))"
      "bucket_ok (o_SYNBurstPerSource (e_opts (e\<lparr>e_synSources := m_put k (f src) (e_synSources e)\<rparr>))) (ss_bucket src')"
      using src by auto
  qed (use ok src others keys in \<open>auto simp: ledger_ok_def len_m_put split: if_splits\<close>)
  then show ?thesis using src by (simp add: update_source_def)
qed

lemma update_source_core: "same_core e (update_source k f e)"
  by (auto simp: update_source_def same_core_def split: option.splits)

lemma update_source_get:
  "m_get (e_synSources (update_source k f e)) k = map_option f (m_get (e_synSources e) k)"
  by (auto simp: update_source_def split: option.splits)

lemma touch_core: "same_core e (touchSYNSource k now e)"
  using update_source_core by (simp add: touchSYNSource_def same_core_def)

lemma ledger_reorder:
  assumes "ledger_ok load e" "distinct ks" "set ks = set (e_synSourceLRU e)"
  shows "ledger_ok load (e\<lparr>e_synSourceLRU := ks\<rparr>)"
  using assms by (auto simp: ledger_ok_def)

lemma touch_ok:
  assumes ok: "ledger_ok load e" and src: "m_get (e_synSources e) k = Some src"
  shows "ledger_ok load (touchSYNSource k now e)"
proof -
  let ?e = "update_source k (\<lambda>source. source\<lparr>ss_lastActivity := now\<rparr>) e"
  have lru: "e_synSourceLRU ?e = e_synSourceLRU e"
    by (auto simp: update_source_def split: option.splits)
  have "k \<in> set (e_synSourceLRU e)" using ok src by (auto simp: ledger_ok_def m_get_in_keys [symmetric])
  moreover have "ledger_ok load ?e" using ok src
    by (rule update_source_ok) (use ledger_get [OF ok src] in simp_all)
  moreover have "distinct (e_synSourceLRU e)" using ok by (simp add: ledger_ok_def)
  ultimately show ?thesis
    unfolding touchSYNSource_def by (intro ledger_reorder) (auto simp: lru move_to_front_def distinct_removeAll)
qed

lemma ledger_drop_last:
  assumes ok: "ledger_ok load e" and ne: "e_synSourceLRU e \<noteq> []"
    and src: "m_get (e_synSources e) (last (e_synSourceLRU e)) = Some src" "ss_halfOpen src = 0"
  shows "ledger_ok load (e\<lparr>e_synSources := m_del (last (e_synSourceLRU e)) (e_synSources e),
           e_synSourceLRU := butlast (e_synSourceLRU e)\<rparr>)"
proof -
  let ?k = "last (e_synSourceLRU e)"
  have d: "distinct (butlast (e_synSourceLRU e) @ [?k])" and
    s: "set (butlast (e_synSourceLRU e) @ [?k]) = set (m_keys (e_synSources e))"
    using ok ne by (simp_all add: ledger_ok_def)
  have "set (m_keys (m_del ?k (e_synSources e))) = set (m_keys (e_synSources e)) - {?k}"
    by (auto simp: m_keys_def set_m_del)
  then have "set (butlast (e_synSourceLRU e)) = set (m_keys (m_del ?k (e_synSources e)))"
    using d s by auto
  moreover have "load ?k = 0" using ledger_get(2) [OF ok src(1)] src(2) by simp
  ultimately show ?thesis
    using ok d src by (auto simp: ledger_ok_def len_m_del)
qed

lemma prune_ok:
  "ledger_ok load e \<Longrightarrow>
     ledger_ok load (pruneExpiredSYNSources now n e) \<and> same_core e (pruneExpiredSYNSources now n e)"
proof (induction n arbitrary: e)
  case (Suc n)
  let ?e1 = "e\<lparr>e_synSourcePruneVisits := e_synSourcePruneVisits e + 1\<rparr>"
  let ?k = "last (e_synSourceLRU e)"
  have ok1: "ledger_ok load ?e1" using Suc.prems by (simp add: ledger_ok_def)
  have core1: "same_core e ?e1" by (simp add: same_core_def)
  show ?case
  proof (cases "e_synSourceLRU e = []")
    case False
    then have "?k \<in> set (m_keys (e_synSources e))" using Suc.prems last_in_set by (auto simp: ledger_ok_def)
    then obtain src where src: "m_get (e_synSources e) ?k = Some src"
      by (auto simp: m_get_in_keys [symmetric])
    consider "now < ss_lastActivity src + o_SYNSourceLedgerTTL (e_opts e)"
      | "\<not> now < ss_lastActivity src + o_SYNSourceLedgerTTL (e_opts e)" "ss_halfOpen src = 0"
      | "\<not> now < ss_lastActivity src + o_SYNSourceLedgerTTL (e_opts e)" "ss_halfOpen src \<noteq> 0"
      by blast
    then show ?thesis
    proof cases
      case 1
      then show ?thesis using False src ok1 core1 by simp
    next
      case 2
      let ?e2 = "?e1\<lparr>e_synSources := m_del ?k (e_synSources ?e1), e_synSourceLRU := butlast (e_synSourceLRU ?e1)\<rparr>"
      have "ledger_ok load ?e2" using ledger_drop_last [OF ok1] False src 2(2) by simp
      moreover have "same_core e ?e2" by (simp add: same_core_def)
      ultimately show ?thesis using Suc.IH [of ?e2] False src 2 same_core_trans by auto
    next
      case 3
      let ?e2 = "touchSYNSource ?k now ?e1"
      have "ledger_ok load ?e2" using touch_ok [OF ok1, of ?k src] src by simp
      moreover have "same_core e ?e2" using core1 touch_core by (rule same_core_trans)
      ultimately show ?thesis using Suc.IH [of ?e2] False src 3 same_core_trans by auto
    qed
  qed (use Suc.prems in simp)
qed simp

lemma lookupOrCreate_ok:
  assumes ok: "ledger_ok load e" and l: "limits_ok (e_opts e)" and k: "sk_remoteIPv4 k \<noteq> 0"
    and run: "lookupOrCreateSYNSource k now e = (r, e')"
  shows "ledger_ok load e'" "same_core e e'" "r = Inr src \<Longrightarrow> m_get (e_synSources e') k = Some src"
proof -
  let ?e1 = "pruneExpiredSYNSources now synSourcePruneBudget e"
  have ok1: "ledger_ok load ?e1" and core1: "same_core e ?e1" using prune_ok [OF ok] by auto
  have "ledger_ok load e' \<and> same_core e e' \<and> (r = Inr src \<longrightarrow> m_get (e_synSources e') k = Some src)"
  proof (cases "m_get (e_synSources ?e1) k")
    case (Some s0)
    have "m_get (e_synSources (touchSYNSource k now ?e1)) k = Some (s0\<lparr>ss_lastActivity := now\<rparr>)"
      using Some by (simp add: touchSYNSource_def update_source_get)
    then show ?thesis
      using run Some touch_ok [OF ok1 Some] same_core_trans [OF core1 touch_core]
      by (auto simp: lookupOrCreateSYNSource_def Let_def)
  next
    case None
    then have "k \<notin> set (e_synSourceLRU ?e1)" using ok1 by (auto simp: ledger_ok_def m_get_in_keys [symmetric])
    moreover have "load k = 0" using ok1 None k by (auto simp: ledger_ok_def)
    moreover have "0 < o_SYNBurstPerSource (e_opts e)" "0 < o_MaxHalfOpenPerSource (e_opts e)"
      using l by (auto simp: limits_ok_def)
    ultimately show ?thesis
      using run None ok1 core1 k same_core_simps [OF core1]
      by (auto simp: lookupOrCreateSYNSource_def Let_def ledger_ok_def same_core_def bucket_ok_def
          len_m_put m_keys_put split: if_splits)
  qed
  then show "ledger_ok load e'" "same_core e e'"
    "r = Inr src \<Longrightarrow> m_get (e_synSources e') k = Some src" by auto
qed

lemma bucket_take: "bucket_ok burst b \<Longrightarrow> tb_tokens b \<noteq> 0 \<Longrightarrow> bucket_ok burst (b\<lparr>tb_tokens := tb_tokens b - 1\<rparr>)"
  by (auto simp: bucket_ok_def)

lemma ledger_global:
  "ledger_ok load e \<Longrightarrow> bucket_ok (o_SYNBurst (e_opts e)) g \<Longrightarrow> ledger_ok load (e\<lparr>e_globalSYNs := g\<rparr>)"
  by (simp add: ledger_ok_def)

lemma set_bucket_ok:
  assumes ok: "ledger_ok load e" and src: "m_get (e_synSources e) k = Some src"
    and "bucket_ok (o_SYNBurstPerSource (e_opts e)) b"
  shows "ledger_ok load (update_source k (\<lambda>s. s\<lparr>ss_bucket := b\<rparr>) e)"
  using ok src by (rule update_source_ok) (use ledger_get [OF ok src] assms(3) in simp_all)

lemma observeSYN_ok:
  assumes ok: "ledger_ok load e" and l: "limits_ok (e_opts e)" and k: "k_RemoteIPv4 flow \<noteq> 0"
    and run: "observeSYN flow now e = (r, e')"
  shows "ledger_ok load e'" "same_core e e'" "r = Inr key \<Longrightarrow> key = flow_source flow"
proof -
  let ?l = "e_opts e"
  let ?g = "refillTokenBucket (e_globalSYNs e) now (o_SYNRateInterval ?l) (o_SYNBurst ?l)"
  let ?e1 = "e\<lparr>e_globalSYNs := ?g\<rparr>"
  let ?e2 = "?e1\<lparr>e_globalSYNs := ?g\<lparr>tb_tokens := tb_tokens ?g - 1\<rparr>\<rparr>"
  have g: "bucket_ok (o_SYNBurst ?l) ?g"
    using ok l by (intro refill_ok) (auto simp: ledger_ok_def limits_ok_def)
  obtain r3 e3 where look: "lookupOrCreateSYNSource (flow_source flow) now ?e2 = (r3, e3)" by fastforce
  have core2: "same_core e ?e2" by (simp add: same_core_def)
  have "ledger_ok load e' \<and> same_core e e' \<and> (r = Inr key \<longrightarrow> key = flow_source flow)"
  proof (cases "tb_tokens ?g = 0")
    case True
    then show ?thesis using run ledger_global [OF ok g]
      by (auto simp: observeSYN_def Let_def same_core_def)
  next
    case False
    then have ok2: "ledger_ok load ?e2"
      using ledger_global [OF ok bucket_take [OF g]] by simp
    have kf: "sk_remoteIPv4 (flow_source flow) \<noteq> 0" using k by (simp add: flow_source_def)
    have l2: "limits_ok (e_opts ?e2)" using l by simp
    note lc = lookupOrCreate_ok [OF ok2 l2 kf look]
    have core3: "same_core e e3" using core2 lc(2) by (rule same_core_trans)
    show ?thesis
    proof (cases r3)
      case (Inl m)
      then show ?thesis using run look False lc core3 by (auto simp: observeSYN_def Let_def)
    next
      case (Inr src)
      let ?b = "refillTokenBucket (ss_bucket src) now (o_SYNRateInterval ?l) (o_SYNBurstPerSource ?l)"
      have get: "m_get (e_synSources e3) (flow_source flow) = Some src" using lc(3) Inr by simp
      have "bucket_ok (o_SYNBurstPerSource ?l) (ss_bucket src)"
        using ledger_get(5) [OF lc(1) get] same_core_simps(1) [OF core3] by simp
      then have b: "bucket_ok (o_SYNBurstPerSource (e_opts e3)) ?b"
        using l same_core_simps(1) [OF core3] by (auto intro!: refill_ok simp: limits_ok_def)
      show ?thesis
        using run look False Inr core3 same_core_trans [OF core3 update_source_core]
          set_bucket_ok [OF lc(1) get b] set_bucket_ok [OF lc(1) get bucket_take [OF b]]
        by (auto simp: observeSYN_def Let_def split: if_splits)
    qed
  qed
  then show "ledger_ok load e'" "same_core e e'" "r = Inr key \<Longrightarrow> key = flow_source flow" by auto
qed

text \<open>A reservation moves the count of its source and the half-open counter by one.\<close>

lemma reserve_cases:
  assumes run: "reserveInboundHalfOpen k e = (rejection, e')" and ok: "ledger_ok load e"
  obtains (rejected) "rejection \<noteq> []" "e' = e"
  | (reserved) e1 where "rejection = []" "e' = e1\<lparr>e_halfOpen := e_halfOpen e + 1\<rparr>" "same_core e e1"
      "ledger_ok (load(k := load k + 1)) e1" "e_halfOpen e < o_MaxHalfOpenSessions (e_opts e)"
proof (cases "m_get (e_synSources e) k")
  case None
  then show thesis using run rejected by (auto simp: reserveInboundHalfOpen_def split: if_splits)
next
  case (Some src)
  let ?e1 = "update_source k (\<lambda>s. s\<lparr>ss_halfOpen := ss_halfOpen s + 1\<rparr>) e"
  show thesis
  proof (cases "e_halfOpen e < o_MaxHalfOpenSessions (e_opts e)
                \<and> ss_halfOpen src < o_MaxHalfOpenPerSource (e_opts e)")
    case False
    then show thesis using run Some rejected by (auto simp: reserveInboundHalfOpen_def split: if_splits)
  next
    case True
    have "ledger_ok (load(k := load k + 1)) ?e1" using ok Some
      by (rule update_source_ok) (use ledger_get [OF ok Some] True in auto)
    then show thesis using run Some True reserved [of ?e1] update_source_core
      by (auto simp: reserveInboundHalfOpen_def)
  qed
qed

section \<open>Replacing and removing a session\<close>

definition same_weights :: "session \<Rightarrow> session \<Rightarrow> bool" where
  "same_weights s s' \<longleftrightarrow> s_halfOpenHeld s' = s_halfOpenHeld s \<and> s_synSource s' = s_synSource s
     \<and> s_pending s' = s_pending s \<and> s_pendingBytes s' = s_pendingBytes s"

lemmas weight_defs = held_def held_from_def queues_def

lemma same_weights_eqs:
  "same_weights s s' \<Longrightarrow> held s' = held s \<and> held_from k s' = held_from k s \<and> queues s' = queues s
     \<and> s_pendingBytes s' = s_pendingBytes s"
  by (simp add: same_weights_def weight_defs)

lemma engine_okD:
  assumes "engine_ok e"
  shows "limits_ok (e_opts e)" "sessions_ok e" "counters_ok e" "ledger_ok (source_load e) e"
    "m_wf (e_sessions e)" "int (length (e_sessions e)) \<le> o_SessionCapacity (e_opts e)"
    "m_get (e_sessions e) flow = Some s \<Longrightarrow> session_ok (e_opts e) flow s"
  using assms by (auto simp: engine_ok_def sessions_ok_def)

lemma ledger_cong:
  assumes "ledger_ok load e" "\<And>k. sk_remoteIPv4 k \<noteq> 0 \<Longrightarrow> load' k = load k"
    and "e_opts e' = e_opts e" "e_globalSYNs e' = e_globalSYNs e" "e_synSources e' = e_synSources e"
      "e_synSourceLRU e' = e_synSourceLRU e"
  shows "ledger_ok load' e'"
  using assms by (auto simp: ledger_ok_def)

lemma packet_bytes_nonneg: "0 \<le> packet_bytes ps"
  by (induction ps) (simp_all add: packet_bytes_def)

text \<open>
  An operation that puts one session in place of the old entry of its flow and moves every
  counter by the difference keeps the invariant.
\<close>

lemma put_ok:
  assumes ok: "engine_ok e" and old: "m_get (e_sessions e) flow = old"
    and frame: "e_opts e' = e_opts e" "e_identity e' = e_identity e"
    and sess: "e_sessions e' = m_put flow s' (e_sessions e)"
    and new: "session_ok (e_opts e) flow s'"
    and room: "old = None \<Longrightarrow> int (length (e_sessions e)) < o_SessionCapacity (e_opts e)"
    and half: "e_halfOpen e' = e_halfOpen e - w_at held old + held s'"
      "e_halfOpen e' \<le> o_MaxHalfOpenSessions (e_opts e)"
    and flows: "e_pendingFlows e' = e_pendingFlows e - w_at queues old + queues s'"
      "e_pendingFlows e' \<le> o_MaxPendingFlows (e_opts e)"
    and bytes: "e_pendingBytes e' = e_pendingBytes e - w_at s_pendingBytes old + s_pendingBytes s'"
      "e_pendingBytes e' \<le> o_MaxPendingBytes (e_opts e)"
    and ledger: "ledger_ok (\<lambda>k. source_load e k - w_at (held_from k) old + held_from k s') e'"
  shows "engine_ok e'"
proof -
  have "source_load e' = (\<lambda>k. source_load e k - w_at (held_from k) old + held_from k s')"
    using old by (auto simp: source_load_def sess m_sum_put)
  moreover have "sessions_ok e'"
    using engine_okD [OF ok] old new room
    by (cases old) (auto simp: sessions_ok_def frame sess len_m_put split: if_splits)
  moreover have "counters_ok e'"
    using engine_okD(3) [OF ok] old half flows bytes
    by (simp add: counters_ok_def frame sess m_sum_put)
  ultimately show ?thesis using ok ledger by (simp add: engine_ok_def frame)
qed

lemma del_ok:
  assumes ok: "engine_ok e" and old: "m_get (e_sessions e) flow = Some s"
    and frame: "e_opts e' = e_opts e" "e_identity e' = e_identity e"
    and sess: "e_sessions e' = m_del flow (e_sessions e)"
    and half: "e_halfOpen e' = e_halfOpen e - held s"
    and flows: "e_pendingFlows e' = e_pendingFlows e - queues s"
    and bytes: "e_pendingBytes e' = e_pendingBytes e - s_pendingBytes s"
    and ledger: "ledger_ok (\<lambda>k. source_load e k - held_from k s) e'"
  shows "engine_ok e'"
proof -
  have "source_load e' = (\<lambda>k. source_load e k - held_from k s)"
    using old engine_okD(5) [OF ok] by (auto simp: source_load_def sess m_sum_del)
  moreover have "sessions_ok e'"
    using engine_okD [OF ok] old by (auto simp: sessions_ok_def frame sess len_m_del)
  moreover have "0 \<le> held s" "0 \<le> queues s" by (simp_all add: weight_defs)
  moreover have "0 \<le> s_pendingBytes s"
    using engine_okD(7) [OF ok old] by (simp add: session_ok_def packet_bytes_nonneg)
  ultimately show ?thesis
    using engine_okD(3,5) [OF ok] ok old half flows bytes ledger
    by (auto simp: engine_ok_def counters_ok_def frame sess m_sum_del)
qed

lemma store_same_ok:
  assumes ok: "engine_ok e" and old: "m_get (e_sessions e) flow = Some s"
    and new: "session_ok (e_opts e) flow s'" and same: "same_weights s s'"
  shows "engine_ok (store_session flow s' e)"
proof (rule put_ok [OF ok old])
  show "ledger_ok (\<lambda>k. source_load e k - w_at (held_from k) (Some s) + held_from k s') (store_session flow s' e)"
    using same_weights_eqs [OF same]
    by (intro ledger_cong [OF engine_okD(4) [OF ok]]) (auto simp: store_session_def)
qed (use engine_okD(3) [OF ok] same_weights_eqs [OF same] new in
      \<open>auto simp: store_session_def counters_ok_def\<close>)

lemma held_counted:
  assumes ok: "engine_ok e" and s: "m_get (e_sessions e) flow = Some s" "s_halfOpenHeld s"
  shows "0 < e_halfOpen e" "1 \<le> source_load e (s_synSource s)"
proof -
  have in_s: "(flow, s) \<in> set (e_sessions e)" using s by (simp add: m_get_Some_in)
  have "held s \<le> m_sum held (e_sessions e)"
    using in_s by (intro m_sum_ge) (auto simp: weight_defs)
  then show "0 < e_halfOpen e" using engine_okD(3) [OF ok] s(2) by (simp add: counters_ok_def held_def)
  have "held_from (s_synSource s) s \<le> m_sum (held_from (s_synSource s)) (e_sessions e)"
    using in_s by (intro m_sum_ge) (auto simp: weight_defs)
  then show "1 \<le> source_load e (s_synSource s)" using s(2) by (simp add: source_load_def held_from_def)
qed

lemma ext_call_next: "ext_call f w = (r, w') \<Longrightarrow> w_next w' = w_next w"
  by (auto simp: ext_call_def split: prod.splits)

lemma releaseHalfOpen_ok:
  assumes run: "releaseHalfOpen c e s w = (e', s', w')" and ok: "ledger_ok load e"
    and counted: "s_halfOpenHeld s \<Longrightarrow> 0 < e_halfOpen e" "s_halfOpenHeld s \<Longrightarrow> 1 \<le> load (s_synSource s)"
  shows "s' = s\<lparr>s_halfOpenHeld := False\<rparr>" "same_core (e\<lparr>e_halfOpen := e_halfOpen e - held s\<rparr>) e'"
    "ledger_ok (\<lambda>k. load k - held_from k s) e'" "w_next w' = w_next w"
proof -
  let ?k = "s_synSource s" and ?e1 = "e\<lparr>e_halfOpen := e_halfOpen e - held s\<rparr>"
  let ?dec = "\<lambda>src :: synSourceState. src\<lparr>ss_halfOpen := ss_halfOpen src - 1\<rparr>"
  have "s' = s\<lparr>s_halfOpenHeld := False\<rparr> \<and> same_core ?e1 e' \<and> ledger_ok (\<lambda>k. load k - held_from k s) e'
        \<and> w_next w' = w_next w"
  proof (cases "s_halfOpenHeld s \<and> sk_remoteIPv4 ?k \<noteq> 0")
    case False
    have "ledger_ok (\<lambda>k. load k - held_from k s) ?e1"
      using False by (intro ledger_cong [OF ok]) (auto simp: held_from_def)
    then show ?thesis using False run counted
      by (auto simp: releaseHalfOpen_def Let_def held_def split: if_splits)
  next
    case True
    then obtain src where src: "m_get (e_synSources e) ?k = Some src"
      using ok counted(2) by (cases "m_get (e_synSources e) ?k") (auto simp: ledger_ok_def)
    have pos: "0 < ss_halfOpen src" using ledger_get(2) [OF ok src] counted(2) True by simp
    have src1: "m_get (e_synSources ?e1) ?k = Some src" using src by simp
    have ok1: "ledger_ok load ?e1" by (rule ledger_cong [OF ok]) simp_all
    have ok2: "ledger_ok (\<lambda>k. load k - held_from k s) (update_source ?k ?dec ?e1)"
      using ok1 src1 by (rule update_source_ok)
        (use ledger_get [OF ok src] counted(2) True in \<open>auto simp: held_from_def\<close>)
    obtain now w1 where clock: "ext_call (cap_Now c) w = (now, w1)" by fastforce
    have "m_get (e_synSources (update_source ?k ?dec ?e1)) ?k = Some (?dec src)"
      using src1 by (simp add: update_source_get)
    note touched = touch_ok [OF ok2 this, of now]
    have "same_core ?e1 (touchSYNSource ?k now (update_source ?k ?dec ?e1))"
      using update_source_core touch_core by (rule same_core_trans)
    with touched show ?thesis using run True src pos counted clock ext_call_next [OF clock]
      by (auto simp: releaseHalfOpen_def Let_def held_def)
  qed
  then show "s' = s\<lparr>s_halfOpenHeld := False\<rparr>" "same_core ?e1 e'"
    "ledger_ok (\<lambda>k. load k - held_from k s) e'" "w_next w' = w_next w" by auto
qed

lemma remove_ok:
  assumes run: "remove c flow e s w = (e', w')" and ok: "engine_ok e"
    and old: "m_get (e_sessions e) flow = Some s0" and same: "same_weights s0 s"
  shows "engine_ok e'" "e_sessions e' = m_del flow (e_sessions e)" "w_next w' = w_next w"
    "e_opts e' = e_opts e" "e_identity e' = e_identity e"
proof -
  have h: "s_halfOpenHeld s = s_halfOpenHeld s0" "s_synSource s = s_synSource s0"
    using same by (auto simp: same_weights_def)
  obtain e1 s1 w1 where rel: "releaseHalfOpen c e s w = (e1, s1, w1)" by (metis prod_cases3)
  have counted: "s_halfOpenHeld s \<Longrightarrow> 0 < e_halfOpen e" "s_halfOpenHeld s \<Longrightarrow> 1 \<le> source_load e (s_synSource s)"
    using held_counted [OF ok old] by (simp_all add: h)
  note r = releaseHalfOpen_ok [OF rel engine_okD(4) [OF ok] counted]
  note core = same_core_simps [OF r(2)]
  note eqs = same_weights_eqs [OF same]
  have led: "ledger_ok (\<lambda>k. source_load e k - held_from k s0) e1" using r(3) eqs by simp
  have z: "s_pending s0 = [] \<Longrightarrow> s_pendingBytes s0 = 0"
    using engine_okD(7) [OF ok old] by (simp add: session_ok_def packet_bytes_def)
  let ?e2 = "if s_pending s1 \<noteq> [] then e1\<lparr>e_pendingFlows := e_pendingFlows e1 - 1,
     e_pendingBytes := e_pendingBytes e1 - s_pendingBytes s1\<rparr> else e1"
  have e': "e' = ?e2\<lparr>e_sessions := m_del flow (e_sessions ?e2)\<rparr>" "w' = w1"
    using run rel by (auto simp: remove_def Let_def)
  show "w_next w' = w_next w" using e' r(4) by simp
  show "e_sessions e' = m_del flow (e_sessions e)" "e_opts e' = e_opts e" "e_identity e' = e_identity e"
    using e' core by auto
  show "engine_ok e'"
  proof (rule del_ok [OF ok old])
    show "ledger_ok (\<lambda>k. source_load e k - held_from k s0) e'"
      by (rule ledger_cong [OF led]) (auto simp: e')
  qed (use e' core r(1) same eqs z in \<open>auto simp: same_weights_def queues_def\<close>)
qed

section \<open>The store calls\<close>

lemma lookupEstablished_frame:
  assumes "lookupEstablished c e flow s w = (r, s', w')"
  shows "\<exists>tx rx. s' = s\<lparr>s_txSequence := tx, s_rxSequence := rx\<rparr>" "w_next w' = w_next w"
proof -
  have self: "\<exists>tx rx. s = s\<lparr>s_txSequence := tx, s_rxSequence := rx\<rparr>"
    by (intro exI [of _ "s_txSequence s"] exI [of _ "s_rxSequence s"]) simp
  obtain q w1 where call: "ext_call (st_LookupEstablished (cap_Store c) flow) w = (q, w1)" by fastforce
  have "s' = s \<or> (\<exists>tx rx. s' = s\<lparr>s_txSequence := tx, s_rxSequence := rx\<rparr>)"
    using assms call by (auto simp: lookupEstablished_def split: sum.splits option.splits if_splits)
  then show "\<exists>tx rx. s' = s\<lparr>s_txSequence := tx, s_rxSequence := rx\<rparr>" using self by metis
  show "w_next w' = w_next w"
    using assms call ext_call_next [OF call]
    by (auto simp: lookupEstablished_def split: sum.splits option.splits if_splits)
qed

lemma lookup_keeps:
  assumes run: "lookupEstablished c e flow s w = (r, s', w')"
  shows "session_ok l flow s' = session_ok l flow s" "same_weights s s'" "s_state s' = s_state s"
    "s_pendingDelete s' = s_pendingDelete s" "s_wgID s' = s_wgID s" "s_retries s' = s_retries s"
    "s_sessionID s' = s_sessionID s" "s_lastActivity s' = s_lastActivity s"
proof -
  obtain tx rx where "s' = s\<lparr>s_txSequence := tx, s_rxSequence := rx\<rparr>"
    using lookupEstablished_frame(1) [OF run] by blast
  then show "session_ok l flow s' = session_ok l flow s" "same_weights s s'" "s_state s' = s_state s"
    "s_pendingDelete s' = s_pendingDelete s" "s_wgID s' = s_wgID s" "s_retries s' = s_retries s"
    "s_sessionID s' = s_sessionID s" "s_lastActivity s' = s_lastActivity s"
    by (simp_all add: session_ok_def same_weights_def)
qed

lemma compareDelete_keeps:
  assumes run: "compareDeleteEstablished c flow s request w = (r, s', w')"
  shows "s_state s = FakeTCPStateEstablished \<Longrightarrow> session_ok l flow s \<Longrightarrow> session_ok l flow s'"
    "same_weights s s'" "s_state s' = s_state s" "w_next w' = w_next w"
proof -
  obtain q w1 where call: "ext_call (st_DeleteEstablishedIfUnchanged (cap_Store c) flow (pd_expected request)) w = (q, w1)"
    by fastforce
  then have "w_next w1 = w_next w" by (rule ext_call_next)
  moreover have "\<exists>pd. s' = s\<lparr>s_pendingDelete := pd\<rparr>" "w' = w1"
    using run call by (auto simp: compareDeleteEstablished_def split: sum.splits if_splits)
  ultimately show "s_state s = FakeTCPStateEstablished \<Longrightarrow> session_ok l flow s \<Longrightarrow> session_ok l flow s'"
    "same_weights s s'" "s_state s' = s_state s" "w_next w' = w_next w"
    by (auto simp: session_ok_def same_weights_def)
qed

lemma insertEstablished_keeps:
  assumes run: "insertEstablished c e flow s w = (r, s', w')"
  shows "\<exists>i. s' = s\<lparr>s_sessionID := i\<rparr>" "r = None \<Longrightarrow> s_sessionID s' \<noteq> 0" "unat (w_next w) \<le> unat (w_next w')"
proof -
  have self: "\<exists>i. s = s\<lparr>s_sessionID := i\<rparr>" by (intro exI [of _ "s_sessionID s"]) simp
  obtain q w1 where clock: "ext_call (cap_NowNanos c) w = (q, w1)" by fastforce
  note n1 = ext_call_next [OF clock]
  obtain a n where alloc: "allocate (w_next w1) = (a, n)" by fastforce
  note grow = allocate_mono [OF alloc]
  have nz: "i \<noteq> 0" if "a = Inr i" for i using alloc that allocate_fresh by blast
  note n2 = ext_call_next [of "st_InsertEstablished (cap_Store c) flow v" for v]
  have "s' = s \<or> (\<exists>i. s' = s\<lparr>s_sessionID := i\<rparr>)"
    using run clock alloc
    by (auto simp: insertEstablished_def split: sum.splits option.splits prod.splits if_splits)
  then show "\<exists>i. s' = s\<lparr>s_sessionID := i\<rparr>" using self by metis
  show "r = None \<Longrightarrow> s_sessionID s' \<noteq> 0"
    using run clock alloc nz
    by (auto simp: insertEstablished_def split: sum.splits option.splits prod.splits if_splits)
  show "unat (w_next w) \<le> unat (w_next w')"
    using run clock alloc grow n1
    by (auto simp: insertEstablished_def split: sum.splits option.splits prod.splits if_splits dest: n2)
qed

section \<open>Every operation keeps the invariant\<close>

definition keeps :: "Engine \<Rightarrow> Engine \<Rightarrow> bool" where
  "keeps e e' \<longleftrightarrow> engine_ok e' \<and> e_opts e' = e_opts e \<and> e_identity e' = e_identity e"

lemma keeps_refl: "engine_ok e \<Longrightarrow> keeps e e"
  by (simp add: keeps_def)

lemma keeps_trans: "keeps a b \<Longrightarrow> keeps b c \<Longrightarrow> keeps a c"
  by (simp add: keeps_def)

lemma keeps_store:
  assumes "engine_ok e" "m_get (e_sessions e) flow = Some s" "session_ok (e_opts e) flow s'" "same_weights s s'"
  shows "keeps e (store_session flow s' e)"
  using store_same_ok [OF assms] by (simp add: keeps_def store_session_def)

lemma keeps_remove:
  assumes "remove c flow e s w = (e', w')" "engine_ok e" "m_get (e_sessions e) flow = Some s0"
    "same_weights s0 s"
  shows "keeps e e'"
  using remove_ok [OF assms] by (simp add: keeps_def)

lemma keeps_ledger:
  assumes "engine_ok e" "same_core e e'" "ledger_ok (source_load e) e'"
  shows "keeps e e'"
proof -
  note core = same_core_simps [OF assms(2)]
  have "source_load e' = source_load e" by (simp add: source_load_def core fun_eq_iff)
  then show ?thesis using assms core
    by (simp add: keeps_def engine_ok_def sessions_ok_def counters_ok_def)
qed

lemma same_weights_trans: "same_weights a b \<Longrightarrow> same_weights b c \<Longrightarrow> same_weights a c"
  by (simp add: same_weights_def)

lemma same_weights_refl [simp]: "same_weights s s"
  by (simp add: same_weights_def)

lemma retryPendingDelete_keeps:
  assumes run: "retryPendingDelete c flow e s request w = (a, r, e', w')" and ok: "engine_ok e"
    and s: "m_get (e_sessions e) flow = Some s" "s_state s = FakeTCPStateEstablished"
  shows "keeps e e'"
proof -
  obtain q s1 w1 where cd: "compareDeleteEstablished c flow s request w = (q, s1, w1)" by (metis prod_cases3)
  have k1: "session_ok (e_opts e) flow s1" and sw: "same_weights s s1"
    using compareDelete_keeps [OF cd] s(2) engine_okD(7) [OF ok s(1)] by auto
  obtain e1 w2 where rem: "remove c flow e s1 w1 = (e1, w2)" by fastforce
  show ?thesis
    using run cd rem keeps_store [OF ok s(1) k1 sw] keeps_remove [OF rem ok s(1) sw]
    by (auto simp: retryPendingDelete_def split: sum.splits if_splits)
qed

text \<open>\<open>enqueue\<close> either refuses or keeps the packet within all three limits.\<close>

lemma enqueue_cases:
  assumes "enqueue e s p = (q, e', s')"
  obtains (refused) "\<not> q" "e' = e" "s' = s"
  | (kept) "q" "pp_Data p \<noteq> []" "int (length (s_pending s)) < o_MaxPendingPacketsPerFlow (e_opts e)"
      "e_pendingBytes e + int (length (pp_Data p)) \<le> o_MaxPendingBytes (e_opts e)"
      "s_pending s = [] \<Longrightarrow> e_pendingFlows e < o_MaxPendingFlows (e_opts e)"
      "e' = e\<lparr>e_pendingFlows := e_pendingFlows e + (1 - queues s),
              e_pendingBytes := e_pendingBytes e + int (length (pp_Data p))\<rparr>"
      "s' = s\<lparr>s_pending := s_pending s @ [ownPendingPacket p],
              s_pendingBytes := s_pendingBytes s + int (length (pp_Data p))\<rparr>"
proof (cases q)
  case True
  show thesis
    by (rule kept) (use assms True in \<open>auto simp: enqueue_def Let_def queues_def split: if_splits\<close>)
next
  case False
  then show thesis using assms by (intro refused) (auto simp: enqueue_def Let_def split: if_splits)
qed

lemma own_simps [simp]:
  "pp_Data (ownPendingPacket p) = pp_Data p" "pp_WGID (ownPendingPacket p) = pp_WGID p"
  "pp_dataOwned (ownPendingPacket p)"
  by (simp_all add: ownPendingPacket_def)

lemma packet_bytes_append [simp]: "packet_bytes (a @ b) = packet_bytes a + packet_bytes b"
  by (simp add: packet_bytes_def)

lemma packet_bytes_one [simp]: "packet_bytes [p] = int (length (pp_Data p))" "packet_bytes [] = 0"
  by (simp_all add: packet_bytes_def)

lemma release_simps:
  assumes "release flow e s = (acts, e', s')"
  shows "s' = s\<lparr>s_pending := [], s_pendingBytes := (if s_pending s = [] then s_pendingBytes s else 0)\<rparr>"
    "e' = e\<lparr>e_pendingFlows := e_pendingFlows e - queues s,
            e_pendingBytes := e_pendingBytes e - (if s_pending s = [] then 0 else s_pendingBytes s)\<rparr>"
  using assms by (auto simp: release_def queues_def split: if_splits)

text \<open>A queued packet on a session that is in the map.\<close>

lemma enqueue_keeps:
  assumes run: "enqueue e s p = (q, e1, s')" and ok: "engine_ok e"
    and s: "m_get (e_sessions e) flow = Some s" "s_state s \<noteq> FakeTCPStateEstablished"
    and p: "pp_WGID p = k_WGID flow"
  shows "keeps e (store_session flow s' e1)"
  using run
proof (cases rule: enqueue_cases)
  case refused
  then show ?thesis using keeps_store [OF ok s(1)] engine_okD(7) [OF ok s(1)] by simp
next
  case kept
  note so = engine_okD(7) [OF ok s(1)]
  have w: "held s' = held s" "held_from k s' = held_from k s" "queues s' = 1" for k
    using kept by (simp_all add: weight_defs)
  have "session_ok (e_opts e) flow s'"
    using so s(2) kept p by (auto simp: session_ok_def queued_ok_def)
  then have "engine_ok (store_session flow s' e1)"
  proof (rule put_ok [OF ok s(1), rotated 3])
    show "ledger_ok (\<lambda>k. source_load e k - w_at (held_from k) (Some s) + held_from k s') (store_session flow s' e1)"
      by (rule ledger_cong [OF engine_okD(4) [OF ok]]) (simp_all add: held_from_def store_session_def kept)
  qed (use engine_okD(3) [OF ok] kept w in \<open>auto simp: store_session_def counters_ok_def queues_def\<close>)
  then show ?thesis using kept by (simp add: keeps_def store_session_def)
qed

text \<open>A new outbound session, with its first packet queued or not.\<close>

lemma outbound_create_keeps:
  assumes ok: "engine_ok e" and none: "m_get (e_sessions e) flow = None" and flow: "flow_ok (e_opts e) flow"
    and room: "int (length (e_sessions e)) < o_SessionCapacity (e_opts e)"
      "e_halfOpen e < o_MaxHalfOpenSessions (e_opts e)"
    and s: "s = zero_session\<lparr>s_state := FakeTCPStateSynSent, s_wgID := k_WGID flow, s_localISN := isn,
              s_txSequence := isn + 1, s_lastActivity := now, s_nextRetry := rt, s_retries := 1,
              s_halfOpenHeld := True\<rparr>"
    and run: "enqueue (e\<lparr>e_halfOpen := e_halfOpen e + 1\<rparr>) s p = (q, e1, s')"
    and p: "pp_WGID p = k_WGID flow"
  shows "keeps e (store_session flow s' e1)"
proof -
  let ?e0 = "e\<lparr>e_halfOpen := e_halfOpen e + 1\<rparr>" and ?e = "store_session flow s (e\<lparr>e_halfOpen := e_halfOpen e + 1\<rparr>)"
  have so: "session_ok (e_opts e) flow s"
    using flow engine_okD(1) [OF ok]
    by (auto simp: s session_ok_def zero_session_def limits_ok_def state_defs packet_bytes_def)
  have "engine_ok ?e"
  proof (rule put_ok [OF ok none _ _ _ so])
    show "ledger_ok (\<lambda>k. source_load e k - w_at (held_from k) None + held_from k s) ?e"
      by (rule ledger_cong [OF engine_okD(4) [OF ok]])
        (auto simp: s held_from_def zero_session_def zero_source_def store_session_def)
  qed (use engine_okD(3) [OF ok] room in
        \<open>auto simp: s store_session_def counters_ok_def weight_defs zero_session_def\<close>)
  then have 1: "keeps e ?e" by (simp add: keeps_def store_session_def)
  have "enqueue ?e s p = (q, e1\<lparr>e_sessions := e_sessions ?e\<rparr>, s')"
    using run by (auto simp: enqueue_def store_session_def Let_def split: if_splits)
  then have "keeps ?e (store_session flow s' (e1\<lparr>e_sessions := e_sessions ?e\<rparr>))"
    by (rule enqueue_keeps) (use 1 p in \<open>simp_all add: keeps_def store_session_def s state_defs\<close>)
  moreover have "e_sessions e1 = e_sessions e"
    using run by (cases rule: enqueue_cases) simp_all
  then have "store_session flow s' (e1\<lparr>e_sessions := e_sessions ?e\<rparr>) = store_session flow s' e1"
    by (simp add: store_session_def m_put_put)
  ultimately show ?thesis using keeps_trans [OF 1] by simp
qed

lemma outbound_keeps:
  assumes ok: "engine_ok e" and run: "outbound c e flow p dropped w = (as, r, e', w')"
  shows "keeps e e'"
proof (cases "validateFlow e flow \<noteq> None \<or> pp_WGID p \<noteq> k_WGID flow")
  case True
  then show ?thesis using run keeps_refl [OF ok] by (auto simp: outbound_def split: option.splits)
next
  case False
  then have v: "validateFlow e flow = None" and fo: "flow_ok (e_opts e) flow" and wg: "pp_WGID p = k_WGID flow"
    by (auto simp: validateFlow_None)
  obtain now w1 where clock: "ext_call (cap_Now c) w = (now, w1)" by fastforce
  show ?thesis
  proof (cases "m_get (e_sessions e) flow")
    case None
    obtain isn w2 where isn: "ext_call (cap_InitialSequence c) w1 = (isn, w2)" by fastforce
    obtain q e1 s1 where enq: "enqueue (e\<lparr>e_halfOpen := e_halfOpen e + 1\<rparr>)
       (zero_session\<lparr>s_state := FakeTCPStateSynSent, s_wgID := k_WGID flow, s_localISN := isn,
          s_txSequence := isn + 1, s_lastActivity := now, s_nextRetry := now + o_HandshakeTimeout (e_opts e),
          s_retries := 1, s_halfOpenHeld := True\<rparr>) p = (q, e1, s1)" by (metis prod_cases3)
    show ?thesis
      using run v wg None clock isn enq keeps_refl [OF ok]
        outbound_create_keeps [OF ok None fo _ _ refl enq wg]
      by (auto simp: outbound_def Let_def split: if_splits)
  next
    case (Some s)
    note so = engine_okD(7) [OF ok Some]
    have wgs: "s_wgID s = k_WGID flow" "k_WGID flow \<noteq> 0" using so by (auto simp: session_ok_def flow_ok_def)
    show ?thesis
    proof (cases "s_state s = FakeTCPStateEstablished")
      case False
      obtain q e1 s1 where enq: "enqueue e s p = (q, e1, s1)" by (metis prod_cases3)
      show ?thesis using run v wg Some clock False wgs enq enqueue_keeps [OF enq ok Some False wg]
        by (auto simp: outbound_def Let_def)
    next
      case True
      show ?thesis
      proof (cases "s_pendingDelete s")
        case (Some request)
        obtain a r1 e1 w1 where "retryPendingDelete c flow e s request w = (a, r1, e1, w1)" by (metis prod_cases4)
        then show ?thesis
          using run v wg Some True retryPendingDelete_keeps [OF _ ok \<open>m_get (e_sessions e) flow = Some s\<close> True]
            \<open>m_get (e_sessions e) flow = Some s\<close>
          by (auto simp: outbound_def Let_def)
      next
        case None
        obtain q s2 w2 where look: "lookupEstablished c e flow s w1 = (q, s2, w2)" by (metis prod_cases3)
        note lk = lookup_keeps [OF look]
        obtain e1 w3 where rem: "remove c flow e s2 w2 = (e1, w3)" by fastforce
        have s2: "session_ok (e_opts e) flow s2" "session_ok (e_opts e) flow (s2\<lparr>s_nextKeepalive := t\<rparr>)"
          "same_weights s (s2\<lparr>s_nextKeepalive := t\<rparr>)" for t
          using so lk by (simp_all add: session_ok_def same_weights_def)
        show ?thesis
          using run v wg Some True None clock wgs look rem keeps_remove [OF rem ok Some lk(2)]
            keeps_store [OF ok Some s2(1) lk(2)] keeps_store [OF ok Some s2(2,3)]
          by (auto simp: outbound_def Let_def split: sum.splits option.splits if_splits)
      qed
    qed
  qed
qed

lemma inbound_new_keeps:
  assumes ok: "engine_ok e" and none: "m_get (e_sessions e) flow = None" and flow: "flow_ok (e_opts e) flow"
    and src: "sg_Flags seg = FlagSYN \<Longrightarrow> synSource = flow_source flow"
    and run: "inbound_new c e flow seg (k_WGID flow) now synSource w = (as, r, e', w')"
  shows "keeps e e'"
proof (cases "sg_Flags seg = FlagSYN \<and> int (length (e_sessions e)) < o_SessionCapacity (e_opts e)")
  case False
  then show ?thesis using run keeps_refl [OF ok] by (auto simp: inbound_new_def split: if_splits)
next
  case True
  then have key: "synSource = flow_source flow" using src by simp
  obtain rejection e1 where res: "reserveInboundHalfOpen synSource e = (rejection, e1)" by fastforce
  obtain isn w1 where isn: "ext_call (cap_InitialSequence c) w = (isn, w1)" by fastforce
  from res engine_okD(4) [OF ok] show ?thesis
  proof (cases rule: reserve_cases)
    case rejected
    then show ?thesis using run res True keeps_refl [OF ok] by (auto simp: inbound_new_def)
  next
    case (reserved e2)
    note core = same_core_simps [OF reserved(3)]
    define s where "s = zero_session\<lparr>s_state := FakeTCPStateSynReceived, s_wgID := k_WGID flow,
      s_localISN := isn, s_remoteISN := sg_Sequence seg, s_txSequence := isn + 1,
      s_rxSequence := sg_Sequence seg + 1, s_lastActivity := now,
      s_nextRetry := now + o_HandshakeTimeout (e_opts e1), s_retries := 1,
      s_halfOpenHeld := True, s_synSource := synSource\<rparr>"
    have e': "e' = store_session flow s e1"
      using run res True reserved isn by (auto simp: inbound_new_def s_def Let_def)
    have so: "session_ok (e_opts e) flow s"
      using flow engine_okD(1) [OF ok] key
      by (auto simp: s_def session_ok_def zero_session_def limits_ok_def state_defs packet_bytes_def)
    have "engine_ok (store_session flow s e1)"
    proof (rule put_ok [OF ok none _ _ _ so])
      show "ledger_ok (\<lambda>k. source_load e k - w_at (held_from k) None + held_from k s) (store_session flow s e1)"
        by (rule ledger_cong [OF reserved(4)])
          (auto simp: held_from_def s_def store_session_def reserved(2))
    qed (use engine_okD(3) [OF ok] True reserved core in
          \<open>auto simp: s_def store_session_def counters_ok_def weight_defs zero_session_def\<close>)
    then show ?thesis using e' reserved core by (simp add: keeps_def store_session_def)
  qed
qed

lemma restore_checkpoint_keeps:
  assumes ok: "engine_ok e0" and s0: "m_get (e_sessions e0) flow = Some s0"
    and e: "e_sessions e = e_sessions e0 \<or> e_sessions e = m_put flow s (e_sessions e0)"
      "e_opts e = e_opts e0" "e_identity e = e_identity e0" "e_halfOpen e = e_halfOpen e0"
      "e_globalSYNs e = e_globalSYNs e0" "e_synSources e = e_synSources e0" "e_synSourceLRU e = e_synSourceLRU e0"
    and saved: "ck_session saved = Some s0" "ck_pendingFlows saved = e_pendingFlows e0"
      "ck_pendingBytes saved = e_pendingBytes e0"
  shows "keeps e0 (restore flow saved e)"
proof -
  have put: "m_put flow s0 (e_sessions e) = e_sessions e0"
    using e(1) s0 by (auto simp: m_put_put m_put_same)
  have "source_load (restore flow saved e) = source_load e0"
    by (simp add: source_load_def restore_def saved store_session_def put fun_eq_iff)
  then show ?thesis using ok e saved put
    by (auto simp: keeps_def engine_ok_def sessions_ok_def counters_ok_def ledger_ok_def restore_def
        store_session_def)
qed

text \<open>The end of a handshake, from the session \<open>s\<close> that has just become established.\<close>

lemma establish_keeps:
  assumes ok: "engine_ok e0" and s0: "m_get (e_sessions e0) flow = Some s0" "s_halfOpenHeld s0"
    and rel: "release flow e0 s = (acts, e, s3)" and same: "same_weights s0 s"
    and s: "s_state s = FakeTCPStateEstablished" "s_wgID s = s_wgID s0" "s_retries s = s_retries s0"
      "s_pendingDelete s = s_pendingDelete s0"
    and saved: "ck_session saved = Some s0" "ck_pendingFlows saved = e_pendingFlows e0"
      "ck_pendingBytes saved = e_pendingBytes e0"
    and run: "establish c e flow saved s3 acts' w = (as, r, e', w')"
  shows "keeps e0 e'"
proof -
  obtain q s4 w1 where ins: "insertEstablished c e flow s3 w = (q, s4, w1)" by (metis prod_cases3)
  obtain i where i: "s4 = s3\<lparr>s_sessionID := i\<rparr>" using insertEstablished_keeps(1) [OF ins] by blast
  note re = release_simps [OF rel]
  show ?thesis
  proof (cases q)
    case (Some err)
    have "keeps e0 (restore flow saved e)"
      by (rule restore_checkpoint_keeps [OF ok s0(1) _ _ _ _ _ _ _ saved]) (simp_all add: re)
    then show ?thesis using run ins Some by (simp add: establish_def)
  next
    case None
    obtain e1 s5 w2 where half: "releaseHalfOpen c e s4 w1 = (e1, s5, w2)" by (metis prod_cases3)
    have h: "s_halfOpenHeld s4" "s_synSource s4 = s_synSource s0"
      using i re same s0(2) by (simp_all add: same_weights_def)
    have led: "ledger_ok (source_load e0) e" by (rule ledger_cong [OF engine_okD(4) [OF ok]]) (simp_all add: re)
    have counted: "0 < e_halfOpen e" "1 \<le> source_load e0 (s_synSource s4)"
      using held_counted [OF ok s0] by (simp_all add: re h)
    note ro = releaseHalfOpen_ok [OF half led counted]
    note core = same_core_simps [OF ro(2)]
    note so = engine_okD(7) [OF ok s0(1)]
    have z: "s_pending s0 = [] \<Longrightarrow> s_pendingBytes s0 = 0" "0 \<le> s_pendingBytes s0"
      using so by (auto simp: session_ok_def packet_bytes_nonneg)
    have new: "session_ok (e_opts e0) flow s5"
      using so s same ro(1) i re z insertEstablished_keeps(2) [OF ins None] engine_okD(1) [OF ok]
      by (auto simp: session_ok_def same_weights_def limits_ok_def)
    have "engine_ok (store_session flow s5 e1)"
    proof (rule put_ok [OF ok s0(1) _ _ _ new])
      show "ledger_ok (\<lambda>k. source_load e0 k - w_at (held_from k) (Some s0) + held_from k s5) (store_session flow s5 e1)"
        by (rule ledger_cong [OF ro(3)])
          (use h s0(2) in \<open>auto simp: held_from_def ro(1) store_session_def\<close>)
    qed (use engine_okD(3) [OF ok] core re same z s0(2) h ro(1) i in
        \<open>auto simp: store_session_def counters_ok_def weight_defs same_weights_def\<close>)
    then have "keeps e0 (store_session flow s5 e1)" using core re by (simp add: keeps_def store_session_def)
    then show ?thesis using run ins None half by (simp add: establish_def)
  qed
qed

lemma inbound_known_keeps:
  assumes ok: "engine_ok e" and s0: "m_get (e_sessions e) flow = Some s0" "s_pendingDelete s0 = None"
    and saved: "ck_session saved = Some s0" "ck_pendingFlows saved = e_pendingFlows e"
      "ck_pendingBytes saved = e_pendingBytes e"
    and run: "inbound_known c e flow seg wgID now saved s0 w = (as, r, e', w')"
  shows "keeps e e'"
proof -
  note so = engine_okD(7) [OF ok s0(1)]
  have wg: "s_wgID s0 \<noteq> 0" using so by (auto simp: session_ok_def flow_ok_def)
  define s where "s = s0\<lparr>s_lastActivity := now, s_nextKeepalive := now + o_KeepaliveInterval (e_opts e)\<rparr>"
  have s: "session_ok (e_opts e) flow s" "same_weights s0 s" "s_state s = s_state s0"
    using so by (simp_all add: s_def session_ok_def same_weights_def)
  note keep_s = keeps_store [OF ok s0(1) s(1,2)]
  note unf = inbound_known_def Let_def s_def [symmetric]
  show ?thesis
  proof (cases "s_state s0 = FakeTCPStateEstablished")
    case True
    obtain q s2 w1 where look: "lookupEstablished c e flow s w = (q, s2, w1)" by (metis prod_cases3)
    note lk = lookup_keeps [OF look]
    have s2: "session_ok (e_opts e) flow s2" "same_weights s0 s2"
      using s lk by (auto intro: same_weights_trans)
    obtain e1 w2 where rem: "remove c flow e s2 w1 = (e1, w2)" by fastforce
    have "keeps e (restore flow saved (store_session flow s2 e))"
      by (rule restore_checkpoint_keeps [OF ok s0(1) _ _ _ _ _ _ _ saved]) (auto simp: store_session_def)
    then show ?thesis
      using run True wg s(3) look rem keep_s keeps_store [OF ok s0(1) s2] keeps_remove [OF rem ok s0(1) s2(2)]
      by (auto simp: unf state_defs split: sum.splits option.splits if_splits)
  next
    case False
    then have half: "s_halfOpenHeld s0"
      "s_state s0 = FakeTCPStateSynSent \<or> s_state s0 = FakeTCPStateSynReceived"
      using so by (auto simp: session_ok_def)
    define done1 where "done1 = s\<lparr>s_remoteISN := sg_Sequence seg, s_rxSequence := sg_Sequence seg + 1,
                     s_state := FakeTCPStateEstablished\<rparr>"
    define done2 where "done2 = s\<lparr>s_state := FakeTCPStateEstablished\<rparr>"
    define open1 where "open1 = s\<lparr>s_remoteISN := sg_Sequence seg, s_rxSequence := sg_Sequence seg + 1,
                     s_state := FakeTCPStateSynReceived\<rparr>"
    have o1: "keeps e (store_session flow open1 e)"
      by (rule keeps_store [OF ok s0(1)])
        (use so False s0(2) in \<open>auto simp: open1_def s_def session_ok_def same_weights_def state_defs\<close>)
    have est: "keeps e e'"
      if d: "d = done1 \<or> d = done2" and "release flow e d = (acts, e1, s3)"
        and "establish c e1 flow saved s3 acts' w = (as, r, e', w')" for d acts e1 s3 acts'
    proof (rule establish_keeps [OF ok s0(1) half(1) that(2) _ _ _ _ _ saved that(3)])
      show "same_weights s0 d" "s_state d = FakeTCPStateEstablished" "s_wgID d = s_wgID s0"
        "s_retries d = s_retries s0" "s_pendingDelete d = s_pendingDelete s0"
        using d by (auto simp: done1_def done2_def s_def same_weights_def)
    qed
    show ?thesis
      using run half(2) wg s(3) keep_s o1 est [OF disjI1 [OF refl]] est [OF disjI2 [OF refl]]
      by (auto simp: unf done1_def [symmetric] done2_def [symmetric] open1_def [symmetric] state_distinct
          split: prod.splits if_splits)
  qed
qed

lemma inbound_keeps:
  assumes ok: "engine_ok e" and run: "inbound c e flow seg wgID w = (as, r, e', w')"
  shows "keeps e e'"
proof (cases "validateFlow e flow \<noteq> None \<or> wgID \<noteq> k_WGID flow")
  case True
  then show ?thesis using run keeps_refl [OF ok] by (auto simp: inbound_def split: option.splits)
next
  case False
  then have v: "validateFlow e flow = None" and fo: "flow_ok (e_opts e) flow" and wg: "wgID = k_WGID flow"
    by (auto simp: validateFlow_None)
  obtain now w1 where clock: "ext_call (cap_Now c) w = (now, w1)" by fastforce
  note unf = inbound_def v wg clock
  show ?thesis
  proof (cases "Option.bind (m_get (e_sessions e) flow) s_pendingDelete")
    case (Some request)
    then obtain s where s: "m_get (e_sessions e) flow = Some s" "s_pendingDelete s = Some request"
      by (auto simp: bind_eq_Some_conv)
    have "s_state s = FakeTCPStateEstablished"
      using engine_okD(7) [OF ok s(1)] s(2) by (auto simp: session_ok_def)
    then show ?thesis using run s retryPendingDelete_keeps [OF _ ok s(1)]
      by (auto simp: unf split: prod.splits)
  next
    case None
    obtain q e1 where obs: "(if sg_Flags seg = FlagSYN then observeSYN flow now e else (Inr zero_source, e)) = (q, e1)"
      by fastforce
    have adm: "ledger_ok (source_load e) e1 \<and> same_core e e1
        \<and> (\<forall>key. sg_Flags seg = FlagSYN \<longrightarrow> q = Inr key \<longrightarrow> key = flow_source flow)"
      using obs observeSYN_ok [OF engine_okD(4,1) [OF ok], of flow now q e1] fo engine_okD(4) [OF ok]
      by (auto simp: flow_ok_def split: if_splits)
    then have k1: "keeps e e1" using keeps_ledger [OF ok] by blast
    then have ok1: "engine_ok e1" by (simp add: keeps_def)
    note core = same_core_simps [OF adm [THEN conjunct2, THEN conjunct1]]
    show ?thesis
    proof (cases "m_get (e_sessions e) flow")
      case n: None
      have new: "keeps e1 e'" if "inbound_new c e1 flow seg (k_WGID flow) now key w1 = (as, r, e', w')" "q = Inr key" for key
        using inbound_new_keeps [OF ok1 _ _ _ that(1)] n fo core adm that(2) by simp
      show ?thesis using run n obs k1 new keeps_trans [OF k1]
        by (auto simp: unf Let_def split: sum.splits if_splits)
    next
      case (Some s)
      have s1: "m_get (e_sessions e1) flow = Some s" "s_pendingDelete s = None"
        using Some None core by simp_all
      have known: "keeps e1 e'" if "inbound_known c e1 flow seg (k_WGID flow) now (checkpoint e (Some s)) s w1 = (as, r, e', w')"
        using inbound_known_keeps [OF ok1 s1 _ _ _ that] core by (simp add: checkpoint_def)
      obtain e2 w2 where rem: "remove c flow e1 s w1 = (e2, w2)" by fastforce
      show ?thesis
        using run Some None obs k1 known keeps_trans [OF k1] keeps_remove [OF rem ok1 s1(1)] rem
        by (auto simp: unf Let_def split: sum.splits if_splits)
    qed
  qed
qed

text \<open>A compare-delete of an established session, followed by its removal when it succeeded.\<close>

lemma compareDelete_then:
  assumes cd: "compareDeleteEstablished c flow s1 request w = (q, s2, w1)" and ok: "engine_ok e"
    and s: "m_get (e_sessions e) flow = Some s" "s_state s1 = FakeTCPStateEstablished"
      "session_ok (e_opts e) flow s1" "same_weights s s1"
  shows "keeps e (store_session flow s2 e)" "remove c flow e s2 w1 = (e1, w2) \<Longrightarrow> keeps e e1"
proof -
  note k = compareDelete_keeps [OF cd]
  have sw: "same_weights s s2" using s(4) k(2) by (rule same_weights_trans)
  show "keeps e (store_session flow s2 e)" using keeps_store [OF ok s(1) k(1) [OF s(2,3)] sw] .
  show "remove c flow e s2 w1 = (e1, w2) \<Longrightarrow> keeps e e1" using keeps_remove ok s(1) sw by blast
qed

lemma captured_control_keeps:
  assumes ok: "engine_ok e" and run: "InboundCapturedControl en c e event packet w = (as, r, e', w')"
  shows "keeps e e'"
proof (cases "m_get (e_sessions e) (ev_Key event)")
  case None
  then show ?thesis using run keeps_refl [OF ok]
    by (auto simp: InboundCapturedControl_def Let_def split: option.splits if_splits)
next
  case (Some s)
  let ?flow = "ev_Key event"
  note so = engine_okD(7) [OF ok Some]
  have pd: "s_state s = FakeTCPStateEstablished" if "s_pendingDelete s = Some request" for request
    using so that by (auto simp: session_ok_def)
  obtain q s1 w1 where look: "lookupEstablished c e ?flow s w = (q, s1, w1)" by (metis prod_cases3)
  note lk = lookup_keeps [OF look]
  have s1: "session_ok (e_opts e) ?flow s1" using so lk by simp
  have del: "keeps e (store_session ?flow s2 e)" "remove c ?flow e s2 w2 = (e1, w3) \<Longrightarrow> keeps e e1"
    if "s_state s = FakeTCPStateEstablished" "compareDeleteEstablished c ?flow s1 req w1 = (q', s2, w2)"
    for req q' s2 w2 e1 w3
    using compareDelete_then [OF that(2) ok Some _ s1 lk(2)] that(1) lk(3) by simp_all
  show ?thesis
  proof (cases "s_pendingDelete s")
    case (Some request)
    then show ?thesis
      using run \<open>m_get (e_sessions e) ?flow = Some s\<close> keeps_refl [OF ok] pd
        retryPendingDelete_keeps [OF _ ok \<open>m_get (e_sessions e) ?flow = Some s\<close>]
      by (auto simp: InboundCapturedControl_def Let_def split: option.splits if_splits prod.splits)
  next
    case None
    then show ?thesis
      using run Some keeps_refl [OF ok] look keeps_store [OF ok Some s1 lk(2)] del
      by (auto simp: InboundCapturedControl_def Let_def split: option.splits if_splits prod.splits sum.splits)
  qed
qed

lemma tick_one_keeps:
  assumes ok: "engine_ok e" and s: "m_get (e_sessions e) flow = Some s"
    and run: "tick_one c now nm flow s e w = (as, errs, e', w')"
  shows "keeps e e'"
proof -
  note so = engine_okD(7) [OF ok s]
  obtain e1 w1 where rem: "remove c flow e s w = (e1, w1)" by fastforce
  show ?thesis
  proof (cases "s_state s = FakeTCPStateEstablished")
    case False
    let ?s1 = "s\<lparr>s_retries := s_retries s + 1, s_nextRetry := now + o_HandshakeTimeout (e_opts e)\<rparr>"
    have "keeps e (store_session flow ?s1 e)" if "\<not> s_retries s \<ge> o_HandshakeRetries (e_opts e)"
      by (rule keeps_store [OF ok s]) (use so that in \<open>auto simp: session_ok_def same_weights_def\<close>)
    then show ?thesis using run False so keeps_refl [OF ok] rem keeps_remove [OF rem ok s]
      by (auto simp: tick_one_def Let_def session_ok_def split: if_splits prod.splits)
  next
    case True
    obtain q s1 w2 where look: "lookupEstablished c e flow s w = (q, s1, w2)" by (metis prod_cases3)
    note lk = lookup_keeps [OF look]
    have s1: "session_ok (e_opts e) flow s1" using so lk by simp
    have del: "keeps e (store_session flow s2 e)" "remove c flow e s2 w3 = (e1, w4) \<Longrightarrow> keeps e e1"
      if "compareDeleteEstablished c flow s1 req w2 = (q', s2, w3)" for req q' s2 w3 e1 w4
      using compareDelete_then [OF that ok s _ s1 lk(2)] True lk(3) by simp_all
    have ka: "keeps e (store_session flow (s1\<lparr>s_nextKeepalive := t\<rparr>) e)" for t
      by (rule keeps_store [OF ok s]) (use s1 lk in \<open>auto simp: session_ok_def same_weights_def\<close>)
    have missing: "remove c flow e s1 w2 = (e1, w3) \<Longrightarrow> keeps e e1" for e1 w3
      using keeps_remove ok s lk(2) by blast
    show ?thesis
      using run True look del ka missing keeps_store [OF ok s s1 lk(2)]
        retryPendingDelete_keeps [OF _ ok s True]
      by (auto simp: tick_one_def Let_def state_distinct split: if_splits prod.splits option.splits sum.splits)
  qed
qed

lemma tick_loop_keeps:
  "engine_ok e \<Longrightarrow> tick_loop c now nm order e w = (as, errs, e', w') \<Longrightarrow> keeps e e'"
proof (induction order arbitrary: e w as errs e' w')
  case Nil
  then show ?case using keeps_refl by simp
next
  case (Cons flow order)
  show ?case
  proof (cases "m_get (e_sessions e) flow")
    case None
    then show ?thesis using Cons by simp
  next
    case (Some s)
    obtain as1 er1 e1 w1 where one: "tick_one c now nm flow s e w = (as1, er1, e1, w1)" by (metis prod_cases4)
    obtain as2 er2 e2 w2 where rest: "tick_loop c now nm order e1 w1 = (as2, er2, e2, w2)" by (metis prod_cases4)
    have 1: "keeps e e1" using tick_one_keeps [OF Cons.prems(1) Some one] .
    then have "keeps e1 e2" using Cons.IH [OF _ rest] Cons.prems(2) Some one rest by (simp add: keeps_def)
    then show ?thesis using keeps_trans [OF 1] Cons.prems(2) Some one rest by simp
  qed
qed

lemma Tick_keeps: "engine_ok e \<Longrightarrow> Tick c order e w = (as, r, e', w') \<Longrightarrow> keeps e e'"
  by (auto simp: Tick_def keeps_refl split: prod.splits sum.splits dest: tick_loop_keeps)

lemma Snapshot_keeps:
  assumes ok: "engine_ok e" and run: "Snapshot c e flow w = (r, e', w')"
  shows "keeps e e'"
proof (cases "m_get (e_sessions e) flow")
  case None
  then show ?thesis using run keeps_refl [OF ok] by (simp add: Snapshot_def)
next
  case (Some s)
  obtain q s1 w1 where look: "lookupEstablished c e flow s w = (q, s1, w1)" by (metis prod_cases3)
  note lk = lookup_keeps [OF look]
  have "session_ok (e_opts e) flow s1" using engine_okD(7) [OF ok Some] lk by simp
  from run Some look keeps_refl [OF ok] keeps_store [OF ok Some this lk(2)] show ?thesis
    by (auto simp: Snapshot_def Let_def split: if_splits option.splits sum.splits)
qed

lemma handle_keeps:
  assumes "engine_ok e" "handleOwnedCapturedPacket c e event packet fp w = (as, r, e', w')"
  shows "keeps e e'"
  using assms keeps_refl [OF assms(1)]
  by (auto simp: handleOwnedCapturedPacket_def Let_def split: if_splits option.splits dest: outbound_keeps)

section \<open>Runs of an engine\<close>

text \<open>
  The calls that a client makes. Any interleaving of client goroutines is one sequence of these
  calls, because each holds the mutex throughout.
\<close>

datatype engine_call =
    CallOutbound FakeTCPSessionKey "byte list"
  | CallPacketEvent FakeTCPEvent "byte list"
  | CallCapturedPacket FakeTCPEvent "byte list" "byte list"
  | CallInbound FakeTCPSessionKey Segment u32
  | CallCapturedControl FakeTCPEvent "byte list"
  | CallTick "FakeTCPSessionKey list"
  | CallSnapshot FakeTCPSessionKey

fun exec_call ::
  "(byte list \<Rightarrow> byte list) \<Rightarrow> endian \<Rightarrow> 'x capabilities \<Rightarrow> engine_call \<Rightarrow> Engine \<Rightarrow> 'x world \<Rightarrow> 'x step_result" where
  "exec_call sha en c (CallOutbound flow packet) e w = Outbound c e flow packet w"
| "exec_call sha en c (CallPacketEvent event packet) e w = HandlePacketEvent sha c e event packet w"
| "exec_call sha en c (CallCapturedPacket event packet fp) e w = handleOwnedCapturedPacket c e event packet fp w"
| "exec_call sha en c (CallInbound flow seg wgID) e w = InboundWithWGID c e flow seg wgID w"
| "exec_call sha en c (CallCapturedControl event packet) e w = InboundCapturedControl en c e event packet w"
| "exec_call sha en c (CallTick order) e w = Tick c order e w"
| "exec_call sha en c (CallSnapshot flow) e w =
     (case Snapshot c e flow w of
        (Inl err, e1, w1) \<Rightarrow> ([], Some err, e1, w1)
      | (Inr snap, e1, w1) \<Rightarrow> ([], None, e1, w1))"

lemma exec_call_keeps:
  assumes "engine_ok e" "exec_call sha en c call e w = (as, r, e', w')"
  shows "keeps e e'"
  using assms keeps_refl [OF assms(1)]
  by (cases call)
    (auto simp: Outbound_def HandlePacketEvent_def InboundWithWGID_def Let_def
      split: if_splits prod.splits sum.splits
      dest: outbound_keeps handle_keeps inbound_keeps captured_control_keeps Tick_keeps Snapshot_keeps)

fun run_calls ::
  "(byte list \<Rightarrow> byte list) \<Rightarrow> endian \<Rightarrow> 'x capabilities \<Rightarrow> engine_call list \<Rightarrow> Engine \<Rightarrow> 'x world \<Rightarrow> 'x step_result" where
  "run_calls sha en c [] e w = ([], None, e, w)"
| "run_calls sha en c (call # calls) e w =
     (case exec_call sha en c call e w of
        (as, r, e1, w1) \<Rightarrow>
          (case run_calls sha en c calls e1 w1 of (as', r', e2, w2) \<Rightarrow> (as @ as', first_err r r', e2, w2)))"

lemma run_calls_keeps:
  "engine_ok e \<Longrightarrow> run_calls sha en c calls e w = (as, r, e', w') \<Longrightarrow> keeps e e'"
proof (induction calls arbitrary: e w as r e' w')
  case Nil
  then show ?case using keeps_refl by simp
next
  case (Cons call calls)
  obtain as1 r1 e1 w1 where one: "exec_call sha en c call e w = (as1, r1, e1, w1)" by (metis prod_cases4)
  obtain as2 r2 e2 w2 where rest: "run_calls sha en c calls e1 w1 = (as2, r2, e2, w2)" by (metis prod_cases4)
  have 1: "keeps e e1" using exec_call_keeps [OF Cons.prems(1) one] .
  then have "keeps e1 e2" using Cons.IH [OF _ rest] Cons.prems(2) one rest by (simp add: keeps_def)
  then show ?case using keeps_trans [OF 1] Cons.prems(2) one rest by simp
qed

text \<open>The engines that a client can hold.\<close>

inductive reachable :: "'x capabilities \<Rightarrow> Engine \<Rightarrow> bool" for c :: "'x capabilities" where
  fresh: "newEngine sys_now token options domain x = (Inr (c, e), x') \<Longrightarrow> reachable c e"
| call: "reachable c e \<Longrightarrow> exec_call sha en c call e w = (as, r, e', w') \<Longrightarrow> reachable c e'"

lemma reachable_ok: "reachable c e \<Longrightarrow> engine_ok e"
proof (induction rule: reachable.induct)
  case (fresh sys_now token options domain x e x')
  then show ?case by (rule newEngine_ok)
next
  case (call e sha en call w as r e' w')
  then have "keeps e e'" using exec_call_keeps by blast
  then show ?case by (simp add: keeps_def)
qed

end
