(* ===== verification/Engine_Props.thy ===== *)
theory Engine_Props
  imports Engine_Invariant
begin

text \<open>
  What the engine promises its clients: its quotas hold in every reachable state, and an inbound
  segment that ends in an error changes no session, counter or waiting packet.
\<close>

section \<open>An engine on the Linux session store\<close>

text \<open>
  A concrete setting for the engine: the session store of \<open>Session_Store\<close> on its kernel map, a
  clock that advances by a fixed step with every reading, and a counter as sequence source.
\<close>

record ework =
  ew_now :: time
  ew_step :: duration
  ew_mono :: u64
  ew_isn :: u32
  ew_kernel :: kworld

definition on_kernel :: "(kworld \<Rightarrow> 'r \<times> kworld) \<Rightarrow> ework \<Rightarrow> 'r \<times> ework" where
  "on_kernel f x = (case f (ew_kernel x) of (r, k) \<Rightarrow> (r, x\<lparr>ew_kernel := k\<rparr>))"

definition linux_caps :: "kworld LinuxSessionStore \<Rightarrow> ework capabilities" where
  "linux_caps store = \<lparr>
     cap_Now = (\<lambda>x. (ew_now x, x\<lparr>ew_now := ew_now x + ew_step x\<rparr>)),
     cap_NowNanos = (\<lambda>x. (Inr (ew_mono x), x)),
     cap_InitialSequence = (\<lambda>x. (ew_isn x, x\<lparr>ew_isn := ew_isn x + 1000\<rparr>)),
     cap_Store = \<lparr>
       st_InsertEstablished = (\<lambda>k v. on_kernel (InsertEstablished kernel_backend (Some store) k v)),
       st_LookupEstablished = (\<lambda>k. on_kernel (LookupEstablished kernel_backend (Some store) k)),
       st_DeleteEstablishedIfUnchanged =
         (\<lambda>k v. on_kernel (DeleteEstablishedIfUnchanged kernel_backend (Some store) k v))\<rparr>\<rparr>"

abbreviation sample_caps :: "ework capabilities" where
  "sample_caps \<equiv> linux_caps sample_store"

definition sample_limits :: SessionLimits where
  "sample_limits = \<lparr>o_Generation = 7, o_SessionCapacity = 4, o_MaxHalfOpenSessions = 2,
     o_MaxHalfOpenPerSource = 1, o_SYNRateInterval = 10, o_SYNBurst = 4, o_SYNBurstPerSource = 2,
     o_SYNSourceLedgerCapacity = 4, o_SYNSourceLedgerTTL = 100, o_MaxPendingFlows = 2,
     o_MaxPendingPacketsPerFlow = 2, o_MaxPendingBytes = 3000, o_HandshakeTimeout = 50,
     o_HandshakeRetries = 2, o_KeepaliveInterval = 1000, o_IdleTimeout = 5000, o_Window = 0\<rparr>"

definition sample_options :: "ework Options" where
  "sample_options = \<lparr>opt_limits = sample_limits, opt_Now = Some (cap_Now sample_caps),
     opt_MonotonicClock = Some \<lparr>mc_Domain = BPFMonotonicClockDomain, mc_NowNanos = cap_NowNanos sample_caps\<rparr>,
     opt_InitialSequence = Some (cap_InitialSequence sample_caps), opt_Store = Some (cap_Store sample_caps)\<rparr>"

definition sample_domain :: RuntimeDomain where
  "sample_domain = \<lparr>dom_identity = \<lparr>rt_Generation = 7, rt_Incarnation = sample_incarnation\<rparr>,
     dom_commit = \<lparr>once_done = False, commit_err = None\<rparr>, dom_next = 0, dom_state = 1\<rparr>"

definition sample_ework :: ework where
  "sample_ework = \<lparr>ew_now = 1000, ew_step = 20, ew_mono = 500, ew_isn = 4000,
     ew_kernel = sample_world\<lparr>kw_sessions := []\<rparr>\<rparr>"

definition sample_engine :: Engine where
  "sample_engine = \<lparr>e_opts = sample_limits\<lparr>o_Window := 65535\<rparr>, e_identity = dom_identity sample_domain,
     e_domain = Some 1, e_instance = Some 1, e_sessions = [], e_pendingFlows = 0, e_pendingBytes = 0, e_halfOpen = 0,
     e_globalSYNs = \<lparr>tb_tokens = 0, tb_lastRefill = 1000, tb_initialized = True\<rparr>, e_admissionEpoch = 1000,
     e_synSources = [], e_synSourceLRU = [], e_synSourcePruneVisits = 0\<rparr>"

definition sample_after_new :: "ework world" where
  "sample_after_new = \<lparr>w_next = 0, w_ext = sample_ework\<lparr>ew_now := 1020\<rparr>\<rparr>"

lemma sample_engine_new:
  "newEngine sys_now 1 sample_options (Some sample_domain) sample_ework
     = (Inr (sample_caps, sample_engine), w_ext sample_after_new)"
  by (simp add: newEngine_def sample_options_def sample_limits_def sample_domain_def sample_engine_def
      sample_ework_def sample_after_new_def linux_caps_def Let_def)

section \<open>Quotas\<close>

lemma held_is_half_open:
  assumes "engine_ok e"
  shows "m_sum held (e_sessions e)
    = int (length (filter (\<lambda>x. s_state (snd x) \<noteq> FakeTCPStateEstablished) (e_sessions e)))"
proof -
  have "m_sum held (e_sessions e) = m_sum (\<lambda>s. if s_state s \<noteq> FakeTCPStateEstablished then 1 else 0) (e_sessions e)"
  proof (rule m_sum_cong)
    fix k v assume "(k, v) \<in> set (e_sessions e)"
    then have "session_ok (e_opts e) k v"
      using engine_okD(5,7) [OF assms] by (simp add: m_get_iff_in)
    then show "held v = (if s_state v \<noteq> FakeTCPStateEstablished then 1 else 0)"
      by (auto simp: session_ok_def held_def)
  qed
  then show ?thesis by (simp add: m_sum_count)
qed

lemma load_within_quota:
  assumes "engine_ok e" "sk_remoteIPv4 k \<noteq> 0"
  shows "source_load e k \<le> o_MaxHalfOpenPerSource (e_opts e)"
  using engine_okD(1,4) [OF assms(1)] assms(2)
  by (cases "m_get (e_synSources e) k") (auto simp: ledger_ok_def limits_ok_def)

text \<open>
  C1. Whatever calls are made on an engine that \<open>newEngine\<close> built, and however the clocks and
  the session store answer, the engine stays within its options: the number of sessions, of
  half-open sessions, of half-open sessions admitted from one remote source, of flows with
  waiting packets, of waiting packets of one flow and of waiting bytes are each bounded by the
  configured limit, and so is the number of sources that it remembers.
\<close>
theorem engine_within_quotas:
  assumes "newEngine sys_now token options domain x = (Inr (c, e), x')"
    and "run_calls sha en c calls e w = (as, r, e', w')"
  shows "int (length (e_sessions e')) \<le> o_SessionCapacity (opt_limits options)
    \<and> int (length (filter (\<lambda>x. s_state (snd x) \<noteq> FakeTCPStateEstablished) (e_sessions e')))
        \<le> o_MaxHalfOpenSessions (opt_limits options)
    \<and> (\<forall>src. sk_remoteIPv4 src \<noteq> 0 \<longrightarrow>
         int (length (filter (\<lambda>x. s_halfOpenHeld (snd x) \<and> s_synSource (snd x) = src) (e_sessions e')))
           \<le> o_MaxHalfOpenPerSource (opt_limits options))
    \<and> int (length (filter (\<lambda>x. s_pending (snd x) \<noteq> []) (e_sessions e'))) \<le> o_MaxPendingFlows (opt_limits options)
    \<and> (\<forall>flow s. m_get (e_sessions e') flow = Some s \<longrightarrow>
         int (length (s_pending s)) \<le> o_MaxPendingPacketsPerFlow (opt_limits options))
    \<and> m_sum (\<lambda>s. packet_bytes (s_pending s)) (e_sessions e') \<le> o_MaxPendingBytes (opt_limits options)
    \<and> int (length (e_synSources e')) \<le> o_SYNSourceLedgerCapacity (opt_limits options)"
proof -
  let ?l = "opt_limits options"
  have "e_opts e = (if o_Window ?l = 0 then ?l\<lparr>o_Window := 65535\<rparr> else ?l)"
    using newEngine_fresh [OF assms(1)] by blast
  moreover have k: "keeps e e'" using run_calls_keeps [OF newEngine_ok [OF assms(1)] assms(2)] .
  moreover from k have ok: "engine_ok e'" by (simp add: keeps_def)
  have bytes: "m_sum (\<lambda>s. packet_bytes (s_pending s)) (e_sessions e') = e_pendingBytes e'"
    using engine_okD(3) [OF ok] engine_okD(5,7) [OF ok]
    by (auto simp: counters_ok_def m_get_iff_in session_ok_def intro!: m_sum_cong)
  have flows: "int (length (filter (\<lambda>x. s_pending (snd x) \<noteq> []) (e_sessions e'))) = e_pendingFlows e'"
    using engine_okD(3) [OF ok] m_sum_count [of "\<lambda>s. s_pending s \<noteq> []" "e_sessions e'"]
      m_sum_cong [of "e_sessions e'" queues "\<lambda>s. if s_pending s \<noteq> [] then 1 else 0"]
    by (simp add: counters_ok_def queues_def)
  have src: "int (length (filter (\<lambda>x. s_halfOpenHeld (snd x) \<and> s_synSource (snd x) = src) (e_sessions e')))
      = source_load e' src" for src
    using m_sum_count [of "\<lambda>s. s_halfOpenHeld s \<and> s_synSource s = src" "e_sessions e'"]
    by (simp add: source_load_def held_from_def [abs_def])
  have limits: "o_SessionCapacity (e_opts e') = o_SessionCapacity ?l"
    "o_MaxHalfOpenSessions (e_opts e') = o_MaxHalfOpenSessions ?l"
    "o_MaxHalfOpenPerSource (e_opts e') = o_MaxHalfOpenPerSource ?l"
    "o_MaxPendingFlows (e_opts e') = o_MaxPendingFlows ?l"
    "o_MaxPendingPacketsPerFlow (e_opts e') = o_MaxPendingPacketsPerFlow ?l"
    "o_MaxPendingBytes (e_opts e') = o_MaxPendingBytes ?l"
    "o_SYNSourceLedgerCapacity (e_opts e') = o_SYNSourceLedgerCapacity ?l"
    using calculation by (simp_all add: keeps_def)
  show ?thesis
    using engine_okD(3,4,6,7) [OF ok] held_is_half_open [OF ok] load_within_quota [OF ok] bytes flows src limits
    by (auto simp: counters_ok_def ledger_ok_def session_ok_def)
qed

definition sample_calls :: "engine_call list" where
  "sample_calls = [CallOutbound sample_key [1, 2, 3],
     CallInbound sample_key \<lparr>sg_Flags = FlagSYN OR FlagACK, sg_Sequence = 90, sg_Acknowledgement = 4001,
       sg_PayloadLength = 0\<rparr> 1,
     CallInbound (sample_key\<lparr>k_LocalPort := 99\<rparr>) \<lparr>sg_Flags = FlagSYN, sg_Sequence = 7,
       sg_Acknowledgement = 0, sg_PayloadLength = 0\<rparr> 1]"

theorem engine_within_quotas_witness:
  "\<exists>as r e' w'. run_calls id LittleEndian sample_caps sample_calls sample_engine sample_after_new = (as, r, e', w')
     \<and> int (length (e_sessions e')) \<le> 4
     \<and> map (\<lambda>x. s_state (snd x)) (e_sessions e') = [FakeTCPStateEstablished, FakeTCPStateSynReceived]"
proof -
  obtain as r e' w' where run: "run_calls id LittleEndian sample_caps sample_calls sample_engine sample_after_new
      = (as, r, e', w')" by (metis prod_cases4)
  have "map (\<lambda>x. s_state (snd x)) (e_sessions (fst (snd (snd
          (run_calls id LittleEndian sample_caps sample_calls sample_engine sample_after_new)))))
        = [FakeTCPStateEstablished, FakeTCPStateSynReceived]" by code_simp
  moreover have "int (length (e_sessions e')) \<le> 4"
    using engine_within_quotas [OF sample_engine_new run] by (simp add: sample_options_def sample_limits_def)
  ultimately show ?thesis using run by simp
qed

lemma sample_reachable: "reachable sample_caps sample_engine"
  using sample_engine_new by (rule reachable.fresh)

section \<open>Errors\<close>

lemma retry_error:
  assumes "retryPendingDelete c flow e s request w = (a, Some err, e', w')"
    and "m_get (e_sessions e) flow = Some s" "s_pendingDelete s = Some request"
  shows "e' = e \<and> a_Kind a = ActionDrop"
proof -
  have "s\<lparr>s_pendingDelete := Some request\<rparr> = s" using assms(3) by (cases s) simp
  then show ?thesis using assms
    by (auto simp: retryPendingDelete_def compareDeleteEstablished_def store_session_def plain_action_def
        m_put_same split: sum.splits prod.splits if_splits)
qed

lemma establish_error:
  assumes "establish c e flow saved s acts w = (as, Some err, e', w')"
  shows "e' = restore flow saved e \<and> as = [drop_action flow ''session-store-unavailable'']"
  using assms by (auto simp: establish_def split: prod.splits option.splits)

lemma restore_core:
  assumes "m_get (e_sessions e0) flow = Some s0" "ck_session saved = Some s0"
    "ck_pendingFlows saved = e_pendingFlows e0" "ck_pendingBytes saved = e_pendingBytes e0"
    "e_sessions e = e_sessions e0 \<or> e_sessions e = m_put flow s (e_sessions e0)" "e_halfOpen e = e_halfOpen e0"
  shows "e_sessions (restore flow saved e) = e_sessions e0 \<and> e_pendingFlows (restore flow saved e) = e_pendingFlows e0
     \<and> e_pendingBytes (restore flow saved e) = e_pendingBytes e0 \<and> e_halfOpen (restore flow saved e) = e_halfOpen e0"
  using assms by (auto simp: restore_def store_session_def m_put_put m_put_same)

lemma inbound_known_error:
  assumes s0: "m_get (e_sessions e) flow = Some s0" and saved: "ck_session saved = Some s0"
      "ck_pendingFlows saved = e_pendingFlows e" "ck_pendingBytes saved = e_pendingBytes e"
    and run: "inbound_known c e flow seg wgID now saved s0 w = (as, Some err, e', w')"
  shows "e_sessions e' = e_sessions e \<and> e_pendingFlows e' = e_pendingFlows e
     \<and> e_pendingBytes e' = e_pendingBytes e \<and> e_halfOpen e' = e_halfOpen e
     \<and> as = [drop_action flow ''session-store-unavailable'']"
proof -
  have "(\<exists>acts s1 e1 s2 acts' w1. release flow e s1 = (acts, e1, s2)
           \<and> establish c e1 flow saved s2 acts' w1 = (as, Some err, e', w'))
        \<or> as = [drop_action flow ''session-store-unavailable'']
          \<and> (\<exists>s2. e' = restore flow saved (store_session flow s2 e))"
    using run
    by (auto simp: inbound_known_def Let_def split: if_splits prod.splits sum.splits option.splits)
  then show ?thesis
  proof (elim disjE exE conjE)
    fix acts s1 e1 s2 acts' w1
    assume rel: "release flow e s1 = (acts, e1, s2)" and est: "establish c e1 flow saved s2 acts' w1 = (as, Some err, e', w')"
    show ?thesis
      using establish_error [OF est] restore_core [OF s0 saved, of e1] release_simps(2) [OF rel] by simp
  next
    fix s2
    assume "as = [drop_action flow ''session-store-unavailable'']" "e' = restore flow saved (store_session flow s2 e)"
    then show ?thesis using restore_core [OF s0 saved, of "store_session flow s2 e" s2]
      by (simp add: store_session_def)
  qed
qed

text \<open>
  C4. An inbound segment that ends in an error is as if it had not come: when the clock, the
  identifier space or the session store fails while a segment is processed, the sessions of the
  engine, the packets that wait in them and all its counters are those of before the call, and
  the only actions returned are drops (no control segment is sent, no packet is forwarded and
  no waiting packet is released).
\<close>
theorem inbound_error_changes_nothing:
  assumes "reachable c e" and "inbound c e flow seg wgID w = (as, Some err, e', w')"
  shows "e_sessions e' = e_sessions e \<and> e_pendingFlows e' = e_pendingFlows e
     \<and> e_pendingBytes e' = e_pendingBytes e \<and> e_halfOpen e' = e_halfOpen e
     \<and> (\<forall>a \<in> set as. a_Kind a = ActionDrop)"
proof (cases "validateFlow e flow \<noteq> None \<or> wgID \<noteq> k_WGID flow")
  case True
  then show ?thesis using assms(2) by (auto simp: inbound_def split: option.splits)
next
  case False
  note ok = reachable_ok [OF assms(1)]
  have v: "validateFlow e flow = None" "wgID = k_WGID flow" and fo: "k_RemoteIPv4 flow \<noteq> 0"
    using False by (auto simp: validateFlow_None flow_ok_def)
  obtain now w1 where clock: "ext_call (cap_Now c) w = (now, w1)" by fastforce
  note unf = inbound_def v clock Let_def
  show ?thesis
  proof (cases "Option.bind (m_get (e_sessions e) flow) s_pendingDelete")
    case (Some request)
    then obtain s where s: "m_get (e_sessions e) flow = Some s" "s_pendingDelete s = Some request"
      by (auto simp: bind_eq_Some_conv)
    obtain a where retry: "retryPendingDelete c flow e s request w1 = (a, Some err, e', w')" "as = [a]"
      using assms(2) s by (auto simp: unf split: prod.splits)
    show ?thesis using retry_error [OF retry(1) s] retry(2) by simp
  next
    case None
    obtain q e1 where obs: "(if sg_Flags seg = FlagSYN then observeSYN flow now e else (Inr zero_source, e)) = (q, e1)"
      by fastforce
    have "same_core e e1"
      using obs observeSYN_ok(2) [OF engine_okD(4,1) [OF ok] fo] by (auto split: if_splits)
    note core = same_core_simps [OF this]
    obtain s where s: "m_get (e_sessions e1) flow = Some s"
      and run: "inbound_known c e1 flow seg (k_WGID flow) now (checkpoint e (Some s)) s w1 = (as, Some err, e', w')"
      using assms(2) None obs core
      by (auto simp: unf inbound_new_def split: sum.splits if_splits prod.splits option.splits)
    from inbound_known_error [OF s _ _ _ run] core show ?thesis
      by (auto simp: checkpoint_def plain_action_def)
  qed
qed

definition sample_opened :: "ework step_result" where
  "sample_opened = Outbound sample_caps sample_engine sample_key [1, 2, 3] sample_after_new"

abbreviation opened_engine :: Engine where
  "opened_engine \<equiv> fst (snd (snd sample_opened))"

abbreviation opened_world :: "ework world" where
  "opened_world \<equiv> snd (snd (snd sample_opened))"

definition sample_synack :: Segment where
  "sample_synack = \<lparr>sg_Flags = FlagSYN OR FlagACK, sg_Sequence = 90, sg_Acknowledgement = 4001,
     sg_PayloadLength = 0\<rparr>"

lemma opened_reachable: "reachable sample_caps opened_engine"
  by (rule reachable.call [OF sample_reachable, of id LittleEndian "CallOutbound sample_key [1, 2, 3]"
        sample_after_new "fst sample_opened" "fst (snd sample_opened)" _ opened_world])
    (simp add: sample_opened_def)

definition faulty_world :: "ework world" where
  "faulty_world = opened_world\<lparr>w_ext := (w_ext opened_world)
     \<lparr>ew_kernel := (ew_kernel (w_ext opened_world))\<lparr>kw_faults := [Some 5]\<rparr>\<rparr>\<rparr>"

theorem inbound_error_changes_nothing_witness:
  "\<exists>as err e' w'. inbound sample_caps opened_engine sample_key sample_synack 1 faulty_world = (as, Some err, e', w')
     \<and> e_sessions e' = e_sessions opened_engine \<and> e_pendingBytes e' = 3 \<and> as \<noteq> []"
proof -
  let ?run = "inbound sample_caps opened_engine sample_key sample_synack 1 faulty_world"
  have "fst (snd ?run) \<noteq> None \<and> fst ?run \<noteq> [] \<and> e_pendingBytes opened_engine = 3" by code_simp
  then obtain as err e' w' where run: "?run = (as, Some err, e', w')" "as \<noteq> []" "e_pendingBytes opened_engine = 3"
    by (cases ?run) auto
  from inbound_error_changes_nothing [OF opened_reachable run(1)] run show ?thesis by auto
qed

end
