(* ===== verification/Engine_Fastpath.thy ===== *)
theory Engine_Fastpath
  imports Engine_Props
begin

text \<open>
  The engine together with the session store: which sessions the kernel fast path serves. The
  interface is the contract of \<open>established_store\<close> and clocks that do not touch the session map;
  on it, the entries of the session map are always sessions that the engine has established.
\<close>

section \<open>Published sessions\<close>

text \<open>The map entry \<open>v\<close> belongs to the lifetime of the engine session \<open>s\<close>.\<close>

definition entry_of :: "byte list \<Rightarrow> session \<Rightarrow> FakeTCPSessionValue \<Rightarrow> bool" where
  "entry_of inc s v \<longleftrightarrow> v_SessionID v = s_sessionID s \<and> v_LocalISN v = s_localISN s
     \<and> v_RemoteISN v = s_remoteISN s \<and> v_RuntimeIncarnation v = inc"

definition published :: "byte list \<Rightarrow> (FakeTCPSessionKey, session) gomap \<Rightarrow> session_map \<Rightarrow> bool" where
  "published inc ss m \<longleftrightarrow> wf_map m \<and> length inc = 16
     \<and> (\<forall>k v. m_get m k = Some v \<longrightarrow>
          (\<exists>s. m_get ss k = Some s \<and> s_state s = FakeTCPStateEstablished \<and> entry_of inc s v))
     \<and> (\<forall>k s request. m_get ss k = Some s \<longrightarrow> s_pendingDelete s = Some request \<longrightarrow>
          wf_value (pd_expected request))"

definition delete_wf :: "session \<Rightarrow> bool" where
  "delete_wf s \<longleftrightarrow> (\<forall>request. s_pendingDelete s = Some request \<longrightarrow> wf_value (pd_expected request))"

lemma delete_wf_None [simp]: "s_pendingDelete s = None \<Longrightarrow> delete_wf s"
  by (simp add: delete_wf_def)

lemma delete_wf_cong: "s_pendingDelete s' = s_pendingDelete s \<Longrightarrow> delete_wf s' = delete_wf s"
  by (simp add: delete_wf_def)

lemma published_get:
  assumes "published inc ss m" "m_get m k = Some v"
  obtains s where "m_get ss k = Some s" "s_state s = FakeTCPStateEstablished" "entry_of inc s v"
  using assms unfolding published_def by blast

lemma published_descends:
  assumes pub: "published inc ss m" and d: "descends m m'" and wf: "wf_map m'"
  shows "published inc ss m'"
proof -
  have "\<exists>s. m_get ss k = Some s \<and> s_state s = FakeTCPStateEstablished \<and> entry_of inc s v'"
    if new: "m_get m' k = Some v'" for k v'
  proof -
    obtain v where v: "m_get m k = Some v" "same_session v v'" using descendsD [OF d new] by blast
    obtain s where "m_get ss k = Some s" "s_state s = FakeTCPStateEstablished" "entry_of inc s v"
      using published_get [OF pub v(1)] .
    then show ?thesis using v(2) by (auto simp: entry_of_def same_session_def)
  qed
  then show ?thesis using pub wf unfolding published_def by blast
qed

lemma published_drifts: "published inc ss m \<Longrightarrow> drifts m m' \<Longrightarrow> published inc ss m'"
  using published_descends drifts_descends drifts_wf by (metis published_def)

text \<open>A session is rewritten without giving up what its map entry says of it.\<close>

lemma published_put:
  assumes pub: "published inc ss m"
    and same: "m_get m k \<noteq> None \<Longrightarrow> m_get ss k = Some s \<Longrightarrow> s_state s' = s_state s
       \<and> s_sessionID s' = s_sessionID s \<and> s_localISN s' = s_localISN s \<and> s_remoteISN s' = s_remoteISN s"
    and old: "m_get m k \<noteq> None \<Longrightarrow> m_get ss k = Some s"
    and pd: "delete_wf s'"
  shows "published inc (m_put k s' ss) m"
proof -
  have "\<exists>t. m_get (m_put k s' ss) j = Some t \<and> s_state t = FakeTCPStateEstablished \<and> entry_of inc t v"
    if j: "m_get m j = Some v" for j v
  proof (cases "j = k")
    case True
    then have "m_get ss k = Some s" using old j by simp
    moreover obtain t where "m_get ss k = Some t" "s_state t = FakeTCPStateEstablished" "entry_of inc t v"
      using published_get [OF pub j] True by blast
    ultimately show ?thesis using same j True by (auto simp: entry_of_def)
  next
    case False
    then show ?thesis using published_get [OF pub j] by (metis m_get_put)
  qed
  moreover have "wf_value (pd_expected request)"
    if "m_get (m_put k s' ss) j = Some t" "s_pendingDelete t = Some request" for j t request
    using that pd pub unfolding published_def by (auto simp: delete_wf_def split: if_splits)
  ultimately show ?thesis using pub unfolding published_def by blast
qed

lemma published_del:
  assumes "published inc ss m" "m_get m k = None"
  shows "published inc (m_del k ss) m"
proof -
  have "\<exists>t. m_get (m_del k ss) j = Some t \<and> s_state t = FakeTCPStateEstablished \<and> entry_of inc t v"
    if "m_get m j = Some v" for j v
    using published_get [OF assms(1) that] that assms(2) by (metis m_get_del option.distinct(1))
  then show ?thesis using assms(1) unfolding published_def by (auto split: if_splits)
qed

lemma published_insert:
  assumes pub: "published inc ss m" and none: "m_get m k = None"
    and v: "wf_key k" "wf_value v" "v_KernelLock v = 0" "entry_of inc s v"
    and s: "s_state s = FakeTCPStateEstablished" "s_pendingDelete s = None"
  shows "published inc (m_put k s ss) (m_put k v m)"
proof -
  have "\<exists>t. m_get (m_put k s ss) j = Some t \<and> s_state t = FakeTCPStateEstablished \<and> entry_of inc t u"
    if "m_get (m_put k v m) j = Some u" for j u
    using that v s published_get [OF pub, of j u] by (cases "j = k") auto
  moreover have "wf_map (m_put k v m)" using pub v by (auto simp: published_def wf_map_put)
  ultimately show ?thesis using pub s unfolding published_def by (auto split: if_splits)
qed

lemma half_open_unpublished:
  assumes "published inc ss m" "m_get ss k = Some s" "s_state s \<noteq> FakeTCPStateEstablished"
  shows "m_get m k = None"
  using assms published_get [OF assms(1), of k] by (cases "m_get m k") auto

lemma absent_unpublished: "published inc ss m \<Longrightarrow> m_get ss k = None \<Longrightarrow> m_get m k = None"
  using published_get by (metis not_None_eq)

definition publishes :: "('x \<Rightarrow> session_map) \<Rightarrow> Engine \<Rightarrow> 'x world \<Rightarrow> bool" where
  "publishes view e w \<longleftrightarrow>
     published (rt_Incarnation (e_identity e)) (e_sessions e) (view (w_ext w))"

lemma delete_result_range:
  assumes "\<not> q > SessionDeleteRemoved"
  shows "q = SessionDeleteDifferent \<or> q = SessionDeleteAbsent \<or> q = SessionDeleteRemoved"
proof -
  have "unat q \<le> 2" using assms by (simp add: SessionDeleteRemoved_def word_less_nat_alt)
  then have "unat q = 0 \<or> unat q = 1 \<or> unat q = 2" by linarith
  then have "of_nat (unat q) = (0 :: u8) \<or> of_nat (unat q) = (1 :: u8) \<or> of_nat (unat q) = (2 :: u8)"
    by (elim disjE) simp_all
  then show ?thesis by (simp add: delete_result_defs)
qed

section \<open>The interface and what each operation keeps\<close>

locale engine_env =
  established_store "st_InsertEstablished (cap_Store c)" "st_LookupEstablished (cap_Store c)"
    "st_DeleteEstablishedIfUnchanged (cap_Store c)" view
  for c :: "'x capabilities" and view :: "'x \<Rightarrow> session_map" +
  assumes now_reads: "cap_Now c x = (t, x') \<Longrightarrow> drifts (view x) (view x')"
    and nanos_reads: "cap_NowNanos c x = (r, x') \<Longrightarrow> drifts (view x) (view x')"
    and sequence_reads: "cap_InitialSequence c x = (isn, x') \<Longrightarrow> drifts (view x) (view x')"
begin

abbreviation pub :: "Engine \<Rightarrow> 'x world \<Rightarrow> bool" where
  "pub \<equiv> publishes view"

lemma reads:
  "ext_call (cap_Now c) w = (t, w') \<Longrightarrow> drifts (view (w_ext w)) (view (w_ext w'))"
  "ext_call (cap_NowNanos c) w = (r, w') \<Longrightarrow> drifts (view (w_ext w)) (view (w_ext w'))"
  "ext_call (cap_InitialSequence c) w = (isn, w') \<Longrightarrow> drifts (view (w_ext w)) (view (w_ext w'))"
  by (auto simp: ext_call_def split: prod.splits dest: now_reads nanos_reads sequence_reads)

lemma pub_drifts: "pub e w \<Longrightarrow> drifts (view (w_ext w)) (view (w_ext w')) \<Longrightarrow> pub e w'"
  unfolding publishes_def by (rule published_drifts)

lemma pub_cong:
  "pub e w \<Longrightarrow> e_sessions e' = e_sessions e \<Longrightarrow> e_identity e' = e_identity e \<Longrightarrow> pub e' w"
  by (simp add: publishes_def)

lemma pub_store:
  assumes "pub e w" "m_get (e_sessions e) flow = Some s" "s_state s' = s_state s"
    "s_sessionID s' = s_sessionID s" "s_localISN s' = s_localISN s" "s_remoteISN s' = s_remoteISN s"
    "delete_wf s'"
  shows "pub (store_session flow s' e) w"
  using assms unfolding publishes_def store_session_def by (auto intro!: published_put)

lemma pub_store_half:
  assumes "pub e w" "m_get (view (w_ext w)) flow = None"
    "delete_wf s'"
  shows "pub (store_session flow s' e) w"
  using assms unfolding publishes_def store_session_def by (auto intro!: published_put)

lemma pub_delete_wf: "pub e w \<Longrightarrow> m_get (e_sessions e) flow = Some s \<Longrightarrow> delete_wf s"
  unfolding publishes_def published_def delete_wf_def by blast

lemma pub_pending:
  "pub e w \<Longrightarrow> m_get (e_sessions e) flow = Some s \<Longrightarrow> s_pendingDelete s = Some request \<Longrightarrow>
     wf_value (pd_expected request)"
  unfolding publishes_def published_def by blast

lemma release_half_reads:
  assumes "releaseHalfOpen c e s w = (e', s', w')"
  shows "drifts (view (w_ext w)) (view (w_ext w'))" "e_sessions e' = e_sessions e" "e_identity e' = e_identity e"
  using assms
  by (auto simp: releaseHalfOpen_def Let_def touchSYNSource_def update_source_def
      split: if_splits option.splits prod.splits dest: reads(1))

lemma pub_remove:
  assumes run: "remove c flow e s w = (e', w')" and p: "pub e w" and none: "m_get (view (w_ext w)) flow = None"
  shows "pub e' w'"
proof -
  obtain e1 s1 w1 where rel: "releaseHalfOpen c e s w = (e1, s1, w1)" by (metis prod_cases3)
  note rr = release_half_reads [OF rel]
  have "m_get (view (w_ext w1)) flow = None" using drifts_absent rr(1) none by blast
  moreover have "pub e1 w1" using pub_cong [OF pub_drifts [OF p rr(1)]] rr by simp
  ultimately show ?thesis
    using run rel by (auto simp: remove_def Let_def publishes_def intro!: published_del)
qed

lemma lookup_pub:
  assumes run: "lookupEstablished c e flow s w = (r, s', w')" and p: "pub e w"
  shows "pub e w'" "r = Inr None \<Longrightarrow> m_get (view (w_ext w')) flow = None" "r = Inr (Some v) \<Longrightarrow> wf_value v"
proof -
  obtain q x' where call: "st_LookupEstablished (cap_Store c) flow (w_ext w) = (q, x')" by fastforce
  have w': "w_ext w' = x'"
    using run call by (auto simp: lookupEstablished_def ext_call_def split: sum.splits option.splits if_splits)
  have wf: "wf_map (view (w_ext w))" using p by (simp add: publishes_def published_def)
  have d: "drifts (view (w_ext w)) (view x')"
  proof (cases q)
    case (Inl err)
    then show ?thesis using call store_lookup_fails by blast
  next
    case (Inr o1)
    then show ?thesis
      using call store_hit [of flow "w_ext w" _ x'] store_miss [of flow "w_ext w" x']
      by (cases o1) (auto intro: drifts_trans)
  qed
  show "pub e w'" using pub_drifts [OF p] d w' by simp
  show "r = Inr None \<Longrightarrow> m_get (view (w_ext w')) flow = None"
  proof -
    assume "r = Inr None"
    then have "q = Inr None"
      using run call by (auto simp: lookupEstablished_def ext_call_def split: sum.splits option.splits if_splits)
    then obtain m where "m_get m flow = None" "drifts m (view x')"
      using store_miss [of flow "w_ext w" x'] call by auto
    then show ?thesis using w' drifts_absent by simp
  qed
  show "r = Inr (Some v) \<Longrightarrow> wf_value v"
  proof -
    assume "r = Inr (Some v)"
    then have "q = Inr (Some v)"
      using run call by (auto simp: lookupEstablished_def ext_call_def split: sum.splits option.splits if_splits)
    then obtain m where m: "drifts (view (w_ext w)) m" "m_get m flow = Some v"
      using store_hit [of flow "w_ext w" v x'] call by auto
    have "wf_map m" "(flow, v) \<in> set m" using drifts_wf [OF m(1) wf] m_get_Some_in [OF m(2)] by auto
    then show ?thesis by (auto simp: wf_map_def)
  qed
qed

lemma compareDelete_pub:
  assumes run: "compareDeleteEstablished c flow s request w = (r, s', w')" and p: "pub e w"
    and wf: "wf_value (pd_expected request)"
  shows "pub e w'" "r = Inr q \<Longrightarrow> q \<noteq> SessionDeleteDifferent \<Longrightarrow> m_get (view (w_ext w')) flow = None"
    "delete_wf s'"
    "s_state s' = s_state s \<and> s_sessionID s' = s_sessionID s \<and> s_localISN s' = s_localISN s
       \<and> s_remoteISN s' = s_remoteISN s"
proof -
  obtain q0 x' where call: "st_DeleteEstablishedIfUnchanged (cap_Store c) flow (pd_expected request) (w_ext w) = (q0, x')"
    by fastforce
  have w': "w_ext w' = x'"
    using run call by (auto simp: compareDeleteEstablished_def ext_call_def split: sum.splits if_splits)
  have wm: "wf_map (view (w_ext w))" using p by (simp add: publishes_def published_def)
  show "pub e w'"
    using p store_delete_descends [OF call wm wf] published_descends w' unfolding publishes_def by blast
  show "m_get (view (w_ext w')) flow = None" if "r = Inr q" "q \<noteq> SessionDeleteDifferent"
  proof -
    have "q0 = Inr q" "\<not> q > SessionDeleteRemoved"
      using that run call by (auto simp: compareDeleteEstablished_def ext_call_def split: sum.splits if_splits)
    moreover have "q = SessionDeleteDifferent \<or> q = SessionDeleteAbsent \<or> q = SessionDeleteRemoved"
      if "\<not> q > SessionDeleteRemoved" for q
      using that by (rule delete_result_range)
    ultimately show ?thesis
      using that call w' removal_is_exact(2) [OF _ wm wf] store_absent [OF _ wm wf] by blast
  qed
  show "delete_wf s'"
    using run wf by (auto simp: delete_wf_def compareDeleteEstablished_def split: sum.splits if_splits prod.splits)
  show "s_state s' = s_state s \<and> s_sessionID s' = s_sessionID s \<and> s_localISN s' = s_localISN s
       \<and> s_remoteISN s' = s_remoteISN s"
    using run by (auto simp: compareDeleteEstablished_def split: sum.splits if_splits prod.splits)
qed

end

context engine_env
begin

lemma retry_pub:
  assumes run: "retryPendingDelete c flow e s request w = (a, r, e', w')" and p: "pub e w"
    and s: "m_get (e_sessions e) flow = Some s" "s_pendingDelete s = Some request"
  shows "pub e' w'"
proof -
  obtain q s1 w1 where cd: "compareDeleteEstablished c flow s request w = (q, s1, w1)" by (metis prod_cases3)
  note k = compareDelete_pub [OF cd p pub_pending [OF p s]]
  have st: "pub (store_session flow s1 e) w1" using pub_store [OF k(1) s(1)] k(3,4) by simp
  obtain e1 w2 where rem: "remove c flow e s1 w1 = (e1, w2)" by fastforce
  show ?thesis
  proof (cases q)
    case (Inl err)
    then show ?thesis using run cd st by (simp add: retryPendingDelete_def)
  next
    case (Inr n)
    then show ?thesis using run cd rem st pub_remove [OF rem k(1)] k(2)
      by (auto simp: retryPendingDelete_def split: if_splits)
  qed
qed

text \<open>A successful insert is the one moment at which the map gains an entry.\<close>

lemma insert_pub:
  assumes run: "insertEstablished c e flow s w = (r, s', w')" and p: "pub e w"
    and s: "s_state s = FakeTCPStateEstablished" "s_pendingDelete s = None" and flow: "wf_key flow"
  shows "r \<noteq> None \<Longrightarrow> pub e w'"
    "r = None \<Longrightarrow> e_identity e1 = e_identity e \<Longrightarrow> e_sessions e1 = e_sessions e \<Longrightarrow>
       pub (store_session flow (s'\<lparr>s_halfOpenHeld := h\<rparr>) e1) w'"
proof -
  obtain q w1 where clock: "ext_call (cap_NowNanos c) w = (q, w1)" by fastforce
  have p1: "pub e w1" using pub_drifts [OF p reads(2) [OF clock]] .
  obtain a n where alloc: "allocate (w_next w1) = (a, n)" by fastforce
  have ext: "\<exists>x. w_ext x = w_ext w1 \<and> (\<exists>now i. r = None \<longrightarrow>
      ext_call (st_InsertEstablished (cap_Store c) flow (established_value e flow (s\<lparr>s_sessionID := i\<rparr>) now)) x
        = (None, w') \<and> s' = s\<lparr>s_sessionID := i\<rparr>)" if r0: "r = None"
  proof -
    have self: "s\<lparr>s_sessionID := s_sessionID s\<rparr> = s" by simp
    show ?thesis
    proof (cases "s_sessionID s = 0")
      case True
      then show ?thesis using r0 run clock alloc
        by (auto simp: insertEstablished_def split: sum.splits prod.splits
            intro!: exI [of _ "w1\<lparr>w_next := n\<rparr>"])
    next
      case False
      obtain now where q: "q = Inr now" using r0 run clock by (cases q) (auto simp: insertEstablished_def)
      obtain r2 w2 where "ext_call (st_InsertEstablished (cap_Store c) flow (established_value e flow s now)) w1
          = (r2, w2)" by fastforce
      then have "ext_call (st_InsertEstablished (cap_Store c) flow (established_value e flow s now)) w1
          = (None, w')" "s' = s"
        using False r0 run clock q by (simp_all add: insertEstablished_def)
      then show ?thesis using self
        by (intro exI [of _ w1] conjI refl, rule_tac x = now in exI, rule_tac x = "s_sessionID s" in exI) simp
    qed
  qed
  show "pub e w'" if "r \<noteq> None"
  proof -
    have "drifts (view (w_ext w1)) (view (w_ext w'))"
      using that run clock alloc store_insert_fails
      by (auto simp: insertEstablished_def ext_call_def split: sum.splits prod.splits option.splits if_splits)
    then show ?thesis using pub_drifts [OF p1] by blast
  qed
  show "pub (store_session flow (s'\<lparr>s_halfOpenHeld := h\<rparr>) e1) w'"
    if ok: "r = None" "e_identity e1 = e_identity e" "e_sessions e1 = e_sessions e"
  proof -
    obtain x now i where x: "w_ext x = w_ext w1" "s' = s\<lparr>s_sessionID := i\<rparr>"
      "ext_call (st_InsertEstablished (cap_Store c) flow (established_value e flow (s\<lparr>s_sessionID := i\<rparr>) now)) x = (None, w')"
      using ext ok(1) by blast
    let ?v = "established_value e flow (s\<lparr>s_sessionID := i\<rparr>) now"
    have "st_InsertEstablished (cap_Store c) flow ?v (w_ext w1) = (None, w_ext w')"
      using x by (auto simp: ext_call_def split: prod.splits)
    then obtain m where m: "drifts (view (w_ext w1)) m" "m_get m flow = None"
      "drifts (m_put flow ?v m) (view (w_ext w'))" using store_insert by blast
    have pm: "published (rt_Incarnation (e_identity e)) (e_sessions e) m"
      using p1 m(1) published_drifts by (auto simp: publishes_def)
    have "published (rt_Incarnation (e_identity e)) (m_put flow (s'\<lparr>s_halfOpenHeld := h\<rparr>) (e_sessions e)) (m_put flow ?v m)"
      using pm s x(2) flow
      by (intro published_insert [OF pm m(2)])
        (auto simp: wf_value_def established_value_def entry_of_def published_def)
    then show ?thesis using published_drifts [OF _ m(3)] ok by (simp add: publishes_def store_session_def)
  qed
qed

lemma establish_pub:
  assumes run: "establish c e flow saved s3 acts w = (as, r, e', w')" and p: "pub e0 w"
    and e: "e_sessions e = e_sessions e0" "e_identity e = e_identity e0"
    and s0: "m_get (e_sessions e0) flow = Some s0" "ck_session saved = Some s0"
    and s: "s_state s3 = FakeTCPStateEstablished" "s_pendingDelete s3 = None" and flow: "wf_key flow"
    and held: "s_halfOpenHeld s3"
  shows "pub e' w'"
proof -
  have pe: "pub e w" using pub_cong [OF p] e by simp
  obtain q s4 w1 where ins: "insertEstablished c e flow s3 w = (q, s4, w1)" by (metis prod_cases3)
  note ip = insert_pub [OF ins pe s flow]
  show ?thesis
  proof (cases q)
    case (Some err)
    then have "pub e w1" using ip(1) by simp
    then have "pub (restore flow saved e) w1"
      by (rule pub_cong) (use s0 e in \<open>simp_all add: restore_def store_session_def m_put_same\<close>)
    then show ?thesis using run ins Some by (simp add: establish_def)
  next
    case None
    obtain e1 s5 w2 where rel: "releaseHalfOpen c e s4 w1 = (e1, s5, w2)" by (metis prod_cases3)
    note rr = release_half_reads [OF rel]
    obtain i where "s4 = s3\<lparr>s_sessionID := i\<rparr>" using insertEstablished_keeps(1) [OF ins] by blast
    then have s5: "s5 = s4\<lparr>s_halfOpenHeld := False\<rparr>"
      using rel held by (auto simp: releaseHalfOpen_def Let_def split: option.splits prod.splits if_splits)
    have "pub (store_session flow s5 e1) w1" using ip(2) [OF None rr(3,2), of False] s5 by simp
    then have "pub (store_session flow s5 e1) w2" using pub_drifts rr(1) by blast
    then show ?thesis using run ins None rel by (simp add: establish_def)
  qed
qed

end

context engine_env
begin

lemma lookup_store_pub:
  assumes look: "lookupEstablished c e flow s w = (r, s1, w1)" and p: "pub e w"
    and s: "m_get (e_sessions e) flow = Some s0" "s_pendingDelete s = None"
      "s_state s = s_state s0" "s_sessionID s = s_sessionID s0" "s_localISN s = s_localISN s0"
      "s_remoteISN s = s_remoteISN s0"
    and s2: "s_state s2 = s_state s1" "s_sessionID s2 = s_sessionID s1" "s_localISN s2 = s_localISN s1"
      "s_remoteISN s2 = s_remoteISN s1" "s_pendingDelete s2 = s_pendingDelete s1"
  shows "pub (store_session flow s2 e) w1"
proof -
  obtain tx rx where "s1 = s\<lparr>s_txSequence := tx, s_rxSequence := rx\<rparr>"
    using lookupEstablished_frame(1) [OF look] by blast
  then show ?thesis using pub_store [OF lookup_pub(1) [OF look p] s(1), of s2] s s2 by simp
qed

lemma outbound_pub:
  assumes ok: "engine_ok e" and p: "pub e w" and run: "outbound c e flow packet dropped w = (as, r, e', w')"
  shows "pub e' w'"
proof (cases "validateFlow e flow \<noteq> None \<or> pp_WGID packet \<noteq> k_WGID flow")
  case True
  then show ?thesis using run p by (auto simp: outbound_def split: option.splits)
next
  case False
  then have v: "validateFlow e flow = None" "pp_WGID packet = k_WGID flow" by auto
  obtain now w1 where clock: "ext_call (cap_Now c) w = (now, w1)" by fastforce
  have p1: "pub e w1" using pub_drifts [OF p reads(1) [OF clock]] .
  note unf = outbound_def v clock Let_def
  show ?thesis
  proof (cases "m_get (e_sessions e) flow")
    case None
    obtain isn w2 where isn: "ext_call (cap_InitialSequence c) w1 = (isn, w2)" by fastforce
    have p2: "pub e w2" using pub_drifts [OF p1 reads(3) [OF isn]] .
    have absent: "m_get (view (w_ext w2)) flow = None"
      using p2 None absent_unpublished by (auto simp: publishes_def)
    obtain q e2 s2 where enq: "enqueue (e\<lparr>e_halfOpen := e_halfOpen e + 1\<rparr>)
       (zero_session\<lparr>s_state := FakeTCPStateSynSent, s_wgID := k_WGID flow, s_localISN := isn,
          s_txSequence := isn + 1, s_lastActivity := now, s_nextRetry := now + o_HandshakeTimeout (e_opts e),
          s_retries := 1, s_halfOpenHeld := True\<rparr>) packet = (q, e2, s2)" by (metis prod_cases3)
    have e2: "e_sessions e2 = e_sessions e" "e_identity e2 = e_identity e" "s_pendingDelete s2 = None"
      using enq by (cases rule: enqueue_cases; simp add: zero_session_def)+
    have "pub (store_session flow s2 e2) w2"
      using pub_store_half [OF pub_cong [OF p2 e2(1,2)] absent] e2(3) by simp
    then show ?thesis using run None isn enq p1 by (auto simp: unf split: if_splits)
  next
    case (Some s)
    have wg: "s_wgID s = k_WGID flow" "k_WGID flow \<noteq> 0"
      using engine_okD(7) [OF ok Some] by (auto simp: session_ok_def flow_ok_def)
    consider "s_state s \<noteq> FakeTCPStateEstablished"
      | request where "s_state s = FakeTCPStateEstablished" "s_pendingDelete s = Some request"
      | "s_state s = FakeTCPStateEstablished" "s_pendingDelete s = None" by blast
    then show ?thesis
    proof cases
      case 1
      obtain q e2 s2 where enq: "enqueue e s packet = (q, e2, s2)" by (metis prod_cases3)
      have e2: "e_sessions e2 = e_sessions e" "e_identity e2 = e_identity e" "s_pendingDelete s2 = s_pendingDelete s"
        using enq by (cases rule: enqueue_cases; simp)+
      have "m_get (view (w_ext w1)) flow = None"
        using p1 half_open_unpublished Some 1 by (auto simp: publishes_def)
      then have "pub (store_session flow s2 e2) w1"
        using pub_store_half [OF pub_cong [OF p1 e2(1,2)]] e2(3) pub_delete_wf [OF p1 Some] delete_wf_cong by blast
      then show ?thesis using run Some 1 wg enq by (auto simp: unf)
    next
      case 2
      then show ?thesis using run Some retry_pub [OF _ p Some] by (auto simp: unf split: prod.splits)
    next
      case 3
      obtain q s1 w2 where look: "lookupEstablished c e flow s w1 = (q, s1, w2)" by (metis prod_cases3)
      note lk = lookup_pub [OF look p1]
      have st: "pub (store_session flow s1 e) w2" "pub (store_session flow (s1\<lparr>s_nextKeepalive := t\<rparr>) e) w2" for t
        using lookup_store_pub [OF look p1 Some 3(2)] by simp_all
      show ?thesis
      proof (cases "q = Inr None")
        case True
        then show ?thesis using run Some 3 wg look pub_remove [OF _ lk(1,2)]
          by (auto simp: unf split: prod.splits)
      next
        case False
        then show ?thesis using run Some 3 wg look st
          by (auto simp: unf split: sum.splits option.splits if_splits)
      qed
    qed
  qed
qed

lemma inbound_new_pub:
  assumes p: "pub e w" and none: "m_get (e_sessions e) flow = None"
    and run: "inbound_new c e flow seg wgID now src w = (as, r, e', w')"
  shows "pub e' w'"
proof -
  obtain rej e1 where res: "reserveInboundHalfOpen src e = (rej, e1)" by fastforce
  have e1: "e_sessions e1 = e_sessions e" "e_identity e1 = e_identity e"
    using res by (auto simp: reserveInboundHalfOpen_def update_source_def split: if_splits option.splits)
  obtain isn w1 where isn: "ext_call (cap_InitialSequence c) w = (isn, w1)" by fastforce
  have p1: "pub e1 w1" using pub_cong [OF pub_drifts [OF p reads(3) [OF isn]] e1] .
  have "m_get (view (w_ext w1)) flow = None"
    using p1 none e1 absent_unpublished by (auto simp: publishes_def)
  note st = pub_store_half [OF p1 this]
  show ?thesis using run res isn p pub_cong [OF p e1] st
    by (auto simp: inbound_new_def Let_def zero_session_def split: if_splits intro!: st)
qed

lemma inbound_known_pub:
  assumes ok: "engine_ok e" and p: "pub e w" and s0: "m_get (e_sessions e) flow = Some s0" "s_pendingDelete s0 = None"
    and saved: "ck_session saved = Some s0"
    and run: "inbound_known c e flow seg wgID now saved s0 w = (as, r, e', w')"
  shows "pub e' w'"
proof -
  note so = engine_okD(7) [OF ok s0(1)]
  have wg: "s_wgID s0 \<noteq> 0" and flow: "wf_key flow" using so by (auto simp: session_ok_def flow_ok_def wf_key_def)
  define s where "s = s0\<lparr>s_lastActivity := now, s_nextKeepalive := now + o_KeepaliveInterval (e_opts e)\<rparr>"
  note unf = inbound_known_def Let_def s_def [symmetric] wg
  have keep: "pub (store_session flow s e) w" using pub_store [OF p s0(1)] s0(2) by (simp add: s_def)
  show ?thesis
  proof (cases "s_state s0 = FakeTCPStateEstablished")
    case True
    obtain q s2 w1 where look: "lookupEstablished c e flow s w = (q, s2, w1)" by (metis prod_cases3)
    note lk = lookup_pub [OF look p]
    have st: "pub (store_session flow s2 e) w1"
      using lookup_store_pub [OF look p s0(1)] s0(2) by (simp add: s_def)
    have undone: "pub (restore flow saved (store_session flow s2 e)) w1"
      using lk(1) by (rule pub_cong)
        (use saved s0 in \<open>simp_all add: restore_def store_session_def m_put_put m_put_same\<close>)
    have s_st: "s_state s0 = FakeTCPStateEstablished" "s_state s = FakeTCPStateEstablished"
      using True by (simp_all add: s_def)
    show ?thesis
    proof (cases "q = Inr None \<and> sg_Flags seg AND FlagSYN = 0")
      case True
      then show ?thesis using run s_st look pub_remove [OF _ lk(1,2)]
        by (auto simp: unf state_distinct s_st split: prod.splits if_splits)
    next
      case False
      then show ?thesis using run s_st look st undone keep
        by (auto simp: unf state_distinct s_st split: sum.splits option.splits if_splits)
    qed
  next
    case False
    then have st: "s_halfOpenHeld s0" "s_state s0 = FakeTCPStateSynSent \<or> s_state s0 = FakeTCPStateSynReceived"
      using so by (auto simp: session_ok_def)
    have none: "m_get (view (w_ext w)) flow = None"
      using p half_open_unpublished s0(1) False by (auto simp: publishes_def)
    have open1: "pub (store_session flow t e) w" if "s_pendingDelete t = None" for t
      using pub_store_half [OF p none] that by simp
    have est: "pub e' w'"
      if "release flow e d = (acts, e1, s3)" "establish c e1 flow saved s3 acts' w = (as, r, e', w')"
        "s_state d = FakeTCPStateEstablished" "s_pendingDelete d = None" "s_halfOpenHeld d" for d acts e1 s3 acts'
      using establish_pub [OF that(2) p _ _ s0(1) saved _ _ flow] release_simps [OF that(1)] that by simp
    have s: "s_pendingDelete s = None" "s_halfOpenHeld s" "s_state s = s_state s0" using s0 st by (simp_all add: s_def)
    show ?thesis using run st(2) keep open1 s est
      by (auto simp: unf state_distinct split: prod.splits if_splits)
  qed
qed

end

context engine_env
begin

lemma inbound_pub:
  assumes ok: "engine_ok e" and p: "pub e w" and run: "inbound c e flow seg wgID w = (as, r, e', w')"
  shows "pub e' w'"
proof (cases "validateFlow e flow \<noteq> None \<or> wgID \<noteq> k_WGID flow")
  case True
  then show ?thesis using run p by (auto simp: inbound_def split: option.splits)
next
  case False
  then have v: "validateFlow e flow = None" "wgID = k_WGID flow" and fo: "flow_ok (e_opts e) flow"
    by (auto simp: validateFlow_None)
  obtain now w1 where clock: "ext_call (cap_Now c) w = (now, w1)" by fastforce
  have p1: "pub e w1" using pub_drifts [OF p reads(1) [OF clock]] .
  note unf = inbound_def v clock
  show ?thesis
  proof (cases "Option.bind (m_get (e_sessions e) flow) s_pendingDelete")
    case (Some request)
    then obtain s where s: "m_get (e_sessions e) flow = Some s" "s_pendingDelete s = Some request"
      by (auto simp: bind_eq_Some_conv)
    then show ?thesis using run retry_pub [OF _ p1] by (auto simp: unf split: prod.splits)
  next
    case None
    obtain q e1 where obs: "(if sg_Flags seg = FlagSYN then observeSYN flow now e else (Inr zero_source, e)) = (q, e1)"
      by fastforce
    have adm: "ledger_ok (source_load e) e1 \<and> same_core e e1"
      using obs observeSYN_ok [OF engine_okD(4,1) [OF ok], of flow now q e1] fo engine_okD(4) [OF ok]
      by (auto simp: flow_ok_def split: if_splits)
    then have ok1: "engine_ok e1" using keeps_ledger [OF ok] by (simp add: keeps_def)
    note core = same_core_simps [OF adm [THEN conjunct2]]
    have p2: "pub e1 w1" using pub_cong [OF p1] core by simp
    show ?thesis
    proof (cases "m_get (e_sessions e) flow")
      case n: None
      have new: "pub e' w'" if "inbound_new c e1 flow seg (k_WGID flow) now key w1 = (as, r, e', w')" for key
        using inbound_new_pub [OF p2 _ that] n core by simp
      show ?thesis using run n obs p2 new
        by (auto simp: unf Let_def split: sum.splits if_splits)
    next
      case (Some s)
      have s1: "m_get (e_sessions e1) flow = Some s" "s_pendingDelete s = None" using Some None core by simp_all
      have known: "pub e' w'" if "inbound_known c e1 flow seg (k_WGID flow) now (checkpoint e (Some s)) s w1 = (as, r, e', w')"
        using inbound_known_pub [OF ok1 p2 s1 _ that] by (simp add: checkpoint_def)
      have gone: "pub e2 w2" if "remove c flow e1 s w1 = (e2, w2)" "s_state s \<noteq> FakeTCPStateEstablished" for e2 w2
        using pub_remove [OF that(1) p2] half_open_unpublished s1(1) that(2) p2 by (auto simp: publishes_def)
      show ?thesis using run Some None obs p2 known gone
        by (auto simp: unf Let_def split: sum.splits if_splits prod.splits)
    qed
  qed
qed

text \<open>A compare-delete of the value that a lookup just returned, and what follows it.\<close>

lemma delete_after_lookup_pub:
  assumes look: "lookupEstablished c e flow s w = (Inr (Some v), s1, w1)" and p: "pub e w"
    and s: "m_get (e_sessions e) flow = Some s" "s_pendingDelete s = None"
    and cd: "compareDeleteEstablished c flow s1 \<lparr>pd_expected = v, pd_reason = reason\<rparr> w1 = (q, s2, w2)"
  shows "pub (store_session flow s2 e) w2"
    "q = Inr n \<Longrightarrow> n \<noteq> SessionDeleteDifferent \<Longrightarrow> remove c flow e s2 w2 = (e1, w3) \<Longrightarrow> pub e1 w3"
proof -
  note lk = lookup_pub [OF look p]
  have wf: "wf_value (pd_expected \<lparr>pd_expected = v, pd_reason = reason\<rparr>)" using lk(3) by simp
  note k = compareDelete_pub [OF cd lk(1) wf]
  obtain tx rx where "s1 = s\<lparr>s_txSequence := tx, s_rxSequence := rx\<rparr>"
    using lookupEstablished_frame(1) [OF look] by blast
  then show "pub (store_session flow s2 e) w2" using pub_store [OF k(1) s(1) _ _ _ _ k(3)] k(4) by simp
  show "q = Inr n \<Longrightarrow> n \<noteq> SessionDeleteDifferent \<Longrightarrow> remove c flow e s2 w2 = (e1, w3) \<Longrightarrow> pub e1 w3"
    using pub_remove [OF _ k(1)] k(2) by blast
qed

lemma captured_control_pub:
  assumes p: "pub e w" and run: "InboundCapturedControl en c e event packet w = (as, r, e', w')"
  shows "pub e' w'"
proof (cases "m_get (e_sessions e) (ev_Key event)")
  case None
  then show ?thesis using run p
    by (auto simp: InboundCapturedControl_def Let_def split: option.splits if_splits)
next
  case (Some s)
  let ?flow = "ev_Key event"
  obtain q s1 w1 where look: "lookupEstablished c e ?flow s w = (q, s1, w1)" by (metis prod_cases3)
  show ?thesis
  proof (cases "s_pendingDelete s")
    case pd: (Some request)
    show ?thesis using run Some pd p retry_pub [OF _ p Some pd]
      by (auto simp: InboundCapturedControl_def Let_def split: option.splits if_splits prod.splits)
  next
    case None
    have st: "pub (store_session ?flow s1 e) w1" using lookup_store_pub [OF look p Some None] by simp
    show ?thesis
    proof (cases "\<exists>v. q = Inr (Some v)")
      case False
      then show ?thesis using run Some None p look st
        by (auto simp: InboundCapturedControl_def Let_def split: option.splits if_splits sum.splits)
    next
      case True
      then obtain v where q: "q = Inr (Some v)" by blast
      obtain q2 s2 w2 where cd: "compareDeleteEstablished c ?flow s1 \<lparr>pd_expected = v, pd_reason = ''peer-close''\<rparr> w1
          = (q2, s2, w2)" by (metis prod_cases3)
      obtain e1 w3 where rem: "remove c ?flow e s2 w2 = (e1, w3)" by fastforce
      have look': "lookupEstablished c e ?flow s w = (Inr (Some v), s1, w1)" using look q by simp
      note da = delete_after_lookup_pub [OF look' p Some None cd]
      show ?thesis using run Some None p look' st cd da(1) da(2) [OF _ _ rem] rem
        by (auto simp: InboundCapturedControl_def Let_def split: option.splits if_splits sum.splits)
    qed
  qed
qed

lemma tick_one_pub:
  assumes p: "pub e w" and s: "m_get (e_sessions e) flow = Some s"
    and run: "tick_one c now nm flow s e w = (as, errs, e', w')"
  shows "pub e' w'"
proof (cases "s_state s = FakeTCPStateEstablished")
  case False
  have none: "m_get (view (w_ext w)) flow = None"
    using p half_open_unpublished s False by (auto simp: publishes_def)
  have st: "pub (store_session flow t e) w" if "s_pendingDelete t = s_pendingDelete s" for t
    using pub_store_half [OF p none] that pub_delete_wf [OF p s] delete_wf_cong by blast
  show ?thesis using run False p st pub_remove [OF _ p none]
    by (auto simp: tick_one_def Let_def split: if_splits prod.splits)
next
  case True
  obtain q s1 w1 where look: "lookupEstablished c e flow s w = (q, s1, w1)" by (metis prod_cases3)
  note lk = lookup_pub [OF look p]
  show ?thesis
  proof (cases "s_pendingDelete s")
    case pd: (Some request)
    show ?thesis using run True pd retry_pub [OF _ p s pd]
      by (auto simp: tick_one_def state_distinct split: prod.splits)
  next
    case None
    have st: "pub (store_session flow s1 e) w1" "pub (store_session flow (s1\<lparr>s_nextKeepalive := t\<rparr>) e) w1" for t
      using lookup_store_pub [OF look p s None] by simp_all
    consider (failed) err where "q = Inl err" | (missing) "q = Inr None" | (hit) v where "q = Inr (Some v)"
      by (cases q) auto
    then show ?thesis
    proof cases
      case failed
      then show ?thesis using run True None look st by (auto simp: tick_one_def state_distinct)
    next
      case missing
      then show ?thesis using run True None look pub_remove [OF _ lk(1,2)]
        by (auto simp: tick_one_def state_distinct split: prod.splits)
    next
      case hit
      obtain q2 s2 w2 where cd: "compareDeleteEstablished c flow s1 \<lparr>pd_expected = v, pd_reason = ''idle-timeout''\<rparr> w1
          = (q2, s2, w2)" by (metis prod_cases3)
      obtain e1 w3 where rem: "remove c flow e s2 w2 = (e1, w3)" by fastforce
      note da = delete_after_lookup_pub [OF look [unfolded hit] p s None cd]
      show ?thesis using run True None look hit st cd da(1) da(2) [OF _ _ rem] rem
        by (auto simp: tick_one_def Let_def state_distinct split: if_splits sum.splits)
    qed
  qed
qed

lemma tick_loop_pub:
  "pub e w \<Longrightarrow> tick_loop c now nm order e w = (as, errs, e', w') \<Longrightarrow> pub e' w'"
proof (induction order arbitrary: e w as errs e' w')
  case Nil
  then show ?case by simp
next
  case (Cons flow order)
  show ?case
  proof (cases "m_get (e_sessions e) flow")
    case None
    then show ?thesis using Cons by simp
  next
    case (Some s)
    obtain as1 er1 e1 w1 where one: "tick_one c now nm flow s e w = (as1, er1, e1, w1)" by (metis prod_cases4)
    obtain as2 er2 e2 w2 where rest: "tick_loop c now nm order e1 w1 = (as2, er2, e2, w2)" by (metis prod_cases4)
    have "pub e2 w2" using Cons.IH [OF tick_one_pub [OF Cons.prems(1) Some one] rest] .
    then show ?thesis using Cons.prems(2) Some one rest by simp
  qed
qed

lemma Tick_pub: "pub e w \<Longrightarrow> Tick c order e w = (as, r, e', w') \<Longrightarrow> pub e' w'"
proof -
  assume p: "pub e w" and run: "Tick c order e w = (as, r, e', w')"
  obtain now w1 where clock: "ext_call (cap_Now c) w = (now, w1)" by fastforce
  obtain q w2 where nanos: "ext_call (cap_NowNanos c) w1 = (q, w2)" by fastforce
  have "pub e w2" using pub_drifts [OF pub_drifts [OF p reads(1) [OF clock]] reads(2) [OF nanos]] .
  then show "pub e' w'" using run clock nanos
    by (auto simp: Tick_def split: sum.splits prod.splits dest: tick_loop_pub)
qed

lemma Snapshot_pub: "pub e w \<Longrightarrow> Snapshot c e flow w = (r, e', w') \<Longrightarrow> pub e' w'"
proof -
  assume p: "pub e w" and run: "Snapshot c e flow w = (r, e', w')"
  show "pub e' w'"
  proof (cases "m_get (e_sessions e) flow")
    case None
    then show ?thesis using run p by (simp add: Snapshot_def)
  next
    case (Some s)
    obtain q s1 w1 where look: "lookupEstablished c e flow s w = (q, s1, w1)" by (metis prod_cases3)
    have "pub (store_session flow s1 e) w1" if "s_pendingDelete s = None"
      using lookup_store_pub [OF look p Some that] by simp
    then show ?thesis using run Some look p
      by (auto simp: Snapshot_def Let_def split: if_splits option.splits sum.splits)
  qed
qed

lemma exec_call_pub:
  assumes "engine_ok e" "pub e w" "exec_call sha en c call e w = (as, r, e', w')"
  shows "pub e' w'"
proof -
  have handle: "pub e' w'" if "handleOwnedCapturedPacket c e event packet fp w = (as, r, e', w')" for event packet fp
    using that assms(1,2)
    by (auto simp: handleOwnedCapturedPacket_def Let_def split: if_splits option.splits dest: outbound_pub)
  show ?thesis
    using assms handle
    by (cases call)
      (auto simp: Outbound_def HandlePacketEvent_def InboundWithWGID_def Let_def
        split: if_splits prod.splits sum.splits
        dest: outbound_pub inbound_pub captured_control_pub Tick_pub Snapshot_pub)
qed

lemma run_calls_pub:
  "engine_ok e \<Longrightarrow> pub e w \<Longrightarrow> run_calls sha en c calls e w = (as, r, e', w') \<Longrightarrow> pub e' w'"
proof (induction calls arbitrary: e w as r e' w')
  case Nil
  then show ?case by simp
next
  case (Cons call calls)
  obtain as1 r1 e1 w1 where one: "exec_call sha en c call e w = (as1, r1, e1, w1)" by (metis prod_cases4)
  obtain as2 r2 e2 w2 where rest: "run_calls sha en c calls e1 w1 = (as2, r2, e2, w2)" by (metis prod_cases4)
  have "engine_ok e1" using exec_call_keeps [OF Cons.prems(1) one] by (simp add: keeps_def)
  from Cons.IH [OF this exec_call_pub [OF Cons.prems(1,2) one] rest] show ?case
    using Cons.prems(3) one rest by simp
qed

end

section \<open>The engine on the Linux session store\<close>

lemma on_kernel_eq: "on_kernel f x = (r, x') \<Longrightarrow> f (ew_kernel x) = (r, ew_kernel x')"
  by (auto simp: on_kernel_def split: prod.splits)

lemma linux_engine_env:
  assumes "linux_store kernel_backend (kernel_claims en) kw_sessions en store bound"
  shows "engine_env (linux_caps store) (\<lambda>x. kw_sessions (ew_kernel x))"
proof -
  have "established_store (InsertEstablished kernel_backend (Some store)) (LookupEstablished kernel_backend (Some store))
     (DeleteEstablishedIfUnchanged kernel_backend (Some store)) kw_sessions"
    using assms by (rule linux_store.st_contract)
  note l = established_store.store_insert [OF this] established_store.store_insert_fails [OF this]
    established_store.store_hit [OF this] established_store.store_miss [OF this]
    established_store.store_lookup_fails [OF this] established_store.store_removed [OF this]
    established_store.store_kept [OF this] established_store.store_absent [OF this]
    established_store.store_delete_descends [OF this]
  show ?thesis
    by (unfold_locales, unfold linux_caps_def capabilities.simps SessionStore.simps)
      (drule on_kernel_eq, (rule l; assumption) | force)+
qed

interpretation lx: engine_env "linux_caps sample_store" "\<lambda>x. kw_sessions (ew_kernel x)"
  using ls.linux_store_axioms by (rule linux_engine_env)

text \<open>
  C2. The kernel fast path serves no session that the engine does not own: whatever sequence of
  calls is made on a fresh engine over an empty session map, and whatever the packets do to the
  map meanwhile, every map entry belongs to a session that the engine holds in the established
  state, with the engine's session identifier, both initial sequence numbers and the engine's
  runtime incarnation. In particular an engine forgets an established session only after its map
  entry is gone. The session store and the clocks are those of any environment that fulfils the
  contract of the session store.
\<close>
theorem fast_path_serves_engine_sessions:
  assumes "newEngine sys_now token options (Some d) x = (Inr (c, e), x')"
    and "engine_env c view"
    and "length (rt_Incarnation (dom_identity d)) = 16" and "view (w_ext w) = []"
    and "run_calls sha en c calls e w = (as, r, e', w')"
    and "m_get (view (w_ext w')) flow = Some v"
  shows "\<exists>s. m_get (e_sessions e') flow = Some s \<and> s_state s = FakeTCPStateEstablished
     \<and> v_SessionID v = s_sessionID s \<and> v_LocalISN v = s_localISN s \<and> v_RemoteISN v = s_remoteISN s
     \<and> v_RuntimeIncarnation v = rt_Incarnation (dom_identity d)"
proof -
  have id: "e_identity e = dom_identity d" "e_sessions e = []"
    using assms(1) newEngine_fresh [OF assms(1)] newEngine_identity [OF assms(1)] by auto
  have "publishes view e w"
    using assms(3,4) id by (simp add: publishes_def published_def wf_map_def)
  then have "publishes view e' w'"
    using engine_env.run_calls_pub [OF assms(2) newEngine_ok [OF assms(1)] _ assms(5)] by blast
  moreover have "e_identity e' = dom_identity d"
    using run_calls_keeps [OF newEngine_ok [OF assms(1)] assms(5)] id by (simp add: keeps_def)
  ultimately have "published (rt_Incarnation (dom_identity d)) (e_sessions e') (view (w_ext w'))"
    by (simp add: publishes_def)
  from published_get [OF this assms(6)] show ?thesis unfolding entry_of_def by blast
qed

theorem fast_path_serves_engine_sessions_witness:
  "\<exists>as r e' w' v s. run_calls id LittleEndian sample_caps sample_calls sample_engine sample_after_new = (as, r, e', w')
     \<and> m_get (kw_sessions (ew_kernel (w_ext w'))) sample_key = Some v
     \<and> m_get (e_sessions e') sample_key = Some s \<and> s_state s = FakeTCPStateEstablished
     \<and> v_SessionID v = s_sessionID s"
proof -
  let ?run = "run_calls id LittleEndian sample_caps sample_calls sample_engine sample_after_new"
  obtain as r e' w' where run: "?run = (as, r, e', w')" by (metis prod_cases4)
  have "m_get (kw_sessions (ew_kernel (w_ext (snd (snd (snd ?run)))))) sample_key \<noteq> None" by code_simp
  then obtain v where v: "m_get (kw_sessions (ew_kernel (w_ext w'))) sample_key = Some v" using run by auto
  have start: "length (rt_Incarnation (dom_identity sample_domain)) = 16"
    "kw_sessions (ew_kernel (w_ext sample_after_new)) = []"
    by (simp_all add: sample_domain_def sample_incarnation_def sample_after_new_def sample_ework_def)
  from fast_path_serves_engine_sessions [OF sample_engine_new lx.engine_env_axioms start run v] run v
  show ?thesis by auto
qed

end
