(* ===== verification/Action_Recovery.thy ===== *)
theory Action_Recovery
  imports Engine_Props "HOL-Library.Sublist"
begin

text \<open>
  The write-ahead checkpoint around the externally visible effects of an engine,
  \<open>internal/faketcp/action_recovery.go\<close>: the split of actions into single steps, the
  one-slot compare-and-swap store, and the executor that marks a step in the store before it
  performs it. The store and the backend are records of functions on an outside world \<open>'x\<close>,
  as is \<open>ctx.Err\<close>. The two mutexes are held over whole methods.
\<close>

section \<open>Data\<close>

definition ActionCheckpointPrepared :: u8 where "ActionCheckpointPrepared = 1"
definition ActionCheckpointAttempting :: u8 where "ActionCheckpointAttempting = 2"
definition ActionStepSendControl :: u8 where "ActionStepSendControl = 1"
definition ActionStepReinject :: u8 where "ActionStepReinject = 2"

lemmas phase_defs = ActionCheckpointPrepared_def ActionCheckpointAttempting_def
lemmas step_kind_defs = ActionStepSendControl_def ActionStepReinject_def

record ActionStep =
  as_Kind :: u8
  as_Flow :: FakeTCPSessionKey
  as_WGID :: u32
  as_Control :: ControlPacket
  as_Packet :: PendingPacket
  as_Reason :: string

record ActionCheckpoint =
  ac_Revision :: u64
  ac_Operation :: u64
  ac_Identity :: RuntimeIdentity
  ac_Phase :: u8
  ac_NextStep :: int
  ac_Steps :: "ActionStep list"

type_synonym 'x go_context = "'x \<Rightarrow> err option \<times> 'x"

text \<open>
  The interface of a checkpoint store. \<open>cs_Load\<close> gives \<open>Inr None\<close> for \<open>found == false\<close>, and
  \<open>cs_Transition\<close> is set when the store also implements \<open>ActionCheckpointTransitionStore\<close>.
\<close>

record 'x ActionCheckpointStore =
  cs_Load :: "'x \<Rightarrow> (err + ActionCheckpoint option) \<times> 'x"
  cs_Create :: "ActionCheckpoint \<Rightarrow> 'x \<Rightarrow> (err + ActionCheckpoint) \<times> 'x"
  cs_Update :: "u64 \<Rightarrow> ActionCheckpoint \<Rightarrow> 'x \<Rightarrow> (err + ActionCheckpoint) \<times> 'x"
  cs_Delete :: "u64 \<Rightarrow> 'x \<Rightarrow> err option \<times> 'x"
  cs_Transition :: "(u64 \<Rightarrow> u8 \<Rightarrow> int \<Rightarrow> 'x \<Rightarrow> (err + u64) \<times> 'x) option"

record 'x ControllerBackend =
  bk_SendControl :: "'x go_context \<Rightarrow> FakeTCPSessionKey \<Rightarrow> u32 \<Rightarrow> ControlPacket \<Rightarrow> 'x \<Rightarrow> err option \<times> 'x"
  bk_Reinject :: "'x go_context \<Rightarrow> FakeTCPSessionKey \<Rightarrow> PendingPacket \<Rightarrow> 'x \<Rightarrow> err option \<times> 'x"
  bk_Close :: "'x \<Rightarrow> err option \<times> 'x"

record MemoryActionCheckpointStore =
  ms_checkpoint :: "ActionCheckpoint option"
  ms_nextRevision :: u64

record RecoveryReport =
  rr_ReplayedControls :: int
  rr_SkippedAmbiguousReinjections :: int
  rr_CompletedSteps :: int

record 'x ActionRecovery =
  ar_backend :: "'x ControllerBackend"
  ar_store :: "'x ActionCheckpointStore"
  ar_updateCheckpoint :: "ActionCheckpoint \<Rightarrow> 'x \<Rightarrow> (err + ActionCheckpoint) \<times> 'x"
  ar_identity :: RuntimeIdentity
  ar_nextOperation :: u64

definition zero_report :: RecoveryReport where
  "zero_report = \<lparr>rr_ReplayedControls = 0, rr_SkippedAmbiguousReinjections = 0, rr_CompletedSteps = 0\<rparr>"

section \<open>Validation\<close>

definition corrupt :: "string \<Rightarrow> err" where
  "corrupt message = ErrWrap message [ErrVar ErrActionCheckpointCorrupt]"

definition validateActionStep :: "ActionStep \<Rightarrow> err option" where
  "validateActionStep step =
     (case validatePacketFlow (as_Flow step) of
        Some e \<Rightarrow> Some (ErrWrap ''invalid faketcp action step flow'' [e])
      | None \<Rightarrow>
          if as_Kind step = ActionStepSendControl then
            (if as_WGID step \<noteq> k_WGID (as_Flow step)
             then Some (ErrNew ''faketcp control action step WGID does not match its flow'')
             else if pp_Data (as_Packet step) \<noteq> []
             then Some (ErrNew ''faketcp control action step contains packet data'')
             else if cp_Flags (as_Control step) \<in> {FlagSYN, FlagSYN OR FlagACK, FlagACK} then None
             else Some (ErrNew ''faketcp control action step has unsupported flags''))
          else if as_Kind step = ActionStepReinject then
            (if pp_WGID (as_Packet step) \<noteq> k_WGID (as_Flow step)
             then Some (ErrNew ''faketcp reinjection action step WGID does not match its flow'')
             else if pp_Data (as_Packet step) = []
             then Some (ErrNew ''faketcp reinjection action step has no packet or capture identity'')
             else case validateCaptureIdentity (pp_CaptureID (as_Packet step)) (k_Generation (as_Flow step)) of
               Some e \<Rightarrow> Some (ErrWrap ''faketcp reinjection action step identity'' [e])
             | None \<Rightarrow>
                 if pp_CaptureFingerprint (as_Packet step) = zero_array 32
                 then Some (ErrNew ''faketcp reinjection action step has no capture fingerprint'')
                 else None)
          else Some (ErrNew ''unknown faketcp action step kind''))"

definition validateActionCheckpointPosition :: "u8 \<Rightarrow> int \<Rightarrow> int \<Rightarrow> err option" where
  "validateActionCheckpointPosition phase nextStep stepCount =
     (if nextStep < 0 \<or> nextStep > stepCount then Some (corrupt ''next step out of range'')
      else if phase \<noteq> ActionCheckpointPrepared \<and> phase \<noteq> ActionCheckpointAttempting
      then Some (corrupt ''phase'')
      else if phase = ActionCheckpointAttempting \<and> nextStep = stepCount
      then Some (corrupt ''attempting after final step'')
      else None)"

fun validateCaptureBindings ::
  "(byte list \<Rightarrow> byte list) \<Rightarrow> capture_bindings \<Rightarrow> ActionStep list \<Rightarrow> err option" where
  "validateCaptureBindings sha256 bindings [] = None"
| "validateCaptureBindings sha256 bindings (step # steps) =
     (if as_Kind step \<noteq> ActionStepReinject then validateCaptureBindings sha256 bindings steps
      else case observeCapturedPacket sha256 bindings (as_Flow step) (as_Packet step) of
        (Inl e, _) \<Rightarrow> Some (ErrWrap ''capture binding'' [ErrVar ErrActionCheckpointCorrupt, e])
      | (Inr duplicate, bindings') \<Rightarrow>
          if duplicate then Some (corrupt ''duplicate capture identity'')
          else validateCaptureBindings sha256 bindings' steps)"

definition validateCheckpointCaptureBindings ::
  "(byte list \<Rightarrow> byte list) \<Rightarrow> ActionCheckpoint \<Rightarrow> err option" where
  "validateCheckpointCaptureBindings sha256 ckpt = validateCaptureBindings sha256 [] (ac_Steps ckpt)"

definition validate_checkpoint_step :: "RuntimeIdentity \<Rightarrow> ActionStep \<Rightarrow> err option" where
  "validate_checkpoint_step identity step =
     (case validateActionStep step of
        Some _ \<Rightarrow> Some (corrupt ''action step'')
      | None \<Rightarrow>
          if k_Generation (as_Flow step) \<noteq> rt_Generation identity
          then Some (corrupt ''action generation does not match identity generation'')
          else if as_Kind step = ActionStepReinject \<and> ci_Runtime (pp_CaptureID (as_Packet step)) \<noteq> identity
          then Some (corrupt ''captured packet identity does not match checkpoint Engine identity'')
          else None)"

fun validate_checkpoint_steps :: "RuntimeIdentity \<Rightarrow> ActionStep list \<Rightarrow> err option" where
  "validate_checkpoint_steps identity [] = None"
| "validate_checkpoint_steps identity (step # steps) =
     first_err (validate_checkpoint_step identity step) (validate_checkpoint_steps identity steps)"

definition validateActionCheckpoint :: "(byte list \<Rightarrow> byte list) \<Rightarrow> ActionCheckpoint \<Rightarrow> err option" where
  "validateActionCheckpoint sha256 ckpt =
     (if ac_Operation ckpt = 0 \<or> ac_Steps ckpt = []
      then Some (corrupt ''zero operation or empty steps'')
      else case validateActionCheckpointPosition (ac_Phase ckpt) (ac_NextStep ckpt)
             (int (length (ac_Steps ckpt))) of
        Some e \<Rightarrow> Some e
      | None \<Rightarrow>
          (case validateRuntimeIdentity (ac_Identity ckpt) of
             Some _ \<Rightarrow> Some (corrupt ''runtime identity'')
           | None \<Rightarrow>
               (case validate_checkpoint_steps (ac_Identity ckpt) (ac_Steps ckpt) of
                  Some e \<Rightarrow> Some e
                | None \<Rightarrow> validateCheckpointCaptureBindings sha256 ckpt)))"

definition validateStoredActionCheckpoint ::
  "(byte list \<Rightarrow> byte list) \<Rightarrow> ActionCheckpoint \<Rightarrow> err option" where
  "validateStoredActionCheckpoint sha256 ckpt =
     (if ac_Revision ckpt = 0 then Some (corrupt ''stored revision is zero'')
      else validateActionCheckpoint sha256 ckpt)"

definition cloneActionCheckpoint :: "ActionCheckpoint \<Rightarrow> ActionCheckpoint" where
  "cloneActionCheckpoint ckpt =
     ckpt\<lparr>ac_Steps := map (\<lambda>step. step\<lparr>as_Packet := (as_Packet step)\<lparr>pp_Data := [] @ pp_Data (as_Packet step)\<rparr>\<rparr>)
       (ac_Steps ckpt)\<rparr>"

section \<open>The in-memory store\<close>

text \<open>A method of a pointer receiver takes \<open>None\<close> for nil.\<close>

definition NewMemoryActionCheckpointStore :: MemoryActionCheckpointStore where
  "NewMemoryActionCheckpointStore = \<lparr>ms_checkpoint = None, ms_nextRevision = 1\<rparr>"

definition nil_store :: err where
  "nil_store = ErrNew ''faketcp action checkpoint store is nil''"

definition allocateRevisionLocked ::
  "MemoryActionCheckpointStore \<Rightarrow> (err + u64) \<times> MemoryActionCheckpointStore" where
  "allocateRevisionLocked store =
     (if ms_nextRevision store = 0 then (Inl (ErrVar ErrActionCheckpointRevisionExhausted), store)
      else (Inr (ms_nextRevision store), store\<lparr>ms_nextRevision := ms_nextRevision store + 1\<rparr>))"

definition LoadActionCheckpoint ::
  "MemoryActionCheckpointStore option
     \<Rightarrow> (err + ActionCheckpoint option) \<times> MemoryActionCheckpointStore option" where
  "LoadActionCheckpoint st =
     (case st of
        None \<Rightarrow> (Inl nil_store, st)
      | Some store \<Rightarrow> (Inr (map_option cloneActionCheckpoint (ms_checkpoint store)), st))"

definition CreateActionCheckpoint ::
  "(byte list \<Rightarrow> byte list) \<Rightarrow> ActionCheckpoint \<Rightarrow> MemoryActionCheckpointStore option
     \<Rightarrow> (err + ActionCheckpoint) \<times> MemoryActionCheckpointStore option" where
  "CreateActionCheckpoint sha256 ckpt st =
     (case st of
        None \<Rightarrow> (Inl nil_store, st)
      | Some store \<Rightarrow>
          if ac_Revision ckpt \<noteq> 0 then (Inl (corrupt ''create revision''), st)
          else (case validateActionCheckpoint sha256 ckpt of
            Some e \<Rightarrow> (Inl e, st)
          | None \<Rightarrow>
              if ms_checkpoint store \<noteq> None then (Inl (ErrVar ErrActionCheckpointConflict), st)
              else (case allocateRevisionLocked store of
                (Inl e, store') \<Rightarrow> (Inl e, Some store')
              | (Inr revision, store') \<Rightarrow>
                  let copyCheckpoint = cloneActionCheckpoint (ckpt\<lparr>ac_Revision := revision\<rparr>) in
                  (Inr (cloneActionCheckpoint copyCheckpoint),
                   Some (store'\<lparr>ms_checkpoint := Some copyCheckpoint\<rparr>)))))"

definition holds_revision :: "u64 \<Rightarrow> MemoryActionCheckpointStore \<Rightarrow> bool" where
  "holds_revision expected store =
     (case ms_checkpoint store of None \<Rightarrow> False | Some c \<Rightarrow> ac_Revision c = expected)"

definition UpdateActionCheckpoint ::
  "(byte list \<Rightarrow> byte list) \<Rightarrow> u64 \<Rightarrow> ActionCheckpoint \<Rightarrow> MemoryActionCheckpointStore option
     \<Rightarrow> (err + ActionCheckpoint) \<times> MemoryActionCheckpointStore option" where
  "UpdateActionCheckpoint sha256 expectedRevision ckpt st =
     (case st of
        None \<Rightarrow> (Inl nil_store, st)
      | Some store \<Rightarrow>
          if expectedRevision = 0 then (Inl (corrupt ''expected revision is zero''), st)
          else if ac_Revision ckpt \<noteq> expectedRevision
          then (Inl (corrupt ''update revision does not match expected''), st)
          else (case validateActionCheckpoint sha256 ckpt of
            Some e \<Rightarrow> (Inl e, st)
          | None \<Rightarrow>
              if \<not> holds_revision expectedRevision store
              then (Inl (ErrVar ErrActionCheckpointConflict), st)
              else (case allocateRevisionLocked store of
                (Inl e, store') \<Rightarrow> (Inl e, Some store')
              | (Inr revision, store') \<Rightarrow>
                  let copyCheckpoint = cloneActionCheckpoint (ckpt\<lparr>ac_Revision := revision\<rparr>) in
                  (Inr (cloneActionCheckpoint copyCheckpoint),
                   Some (store'\<lparr>ms_checkpoint := Some copyCheckpoint\<rparr>)))))"

definition TransitionActionCheckpoint ::
  "u64 \<Rightarrow> u8 \<Rightarrow> int \<Rightarrow> MemoryActionCheckpointStore option
     \<Rightarrow> (err + u64) \<times> MemoryActionCheckpointStore option" where
  "TransitionActionCheckpoint expectedRevision phase nextStep st =
     (case st of
        None \<Rightarrow> (Inl nil_store, st)
      | Some store \<Rightarrow>
          if expectedRevision = 0 then (Inl (corrupt ''expected revision is zero''), st)
          else (case ms_checkpoint store of
            None \<Rightarrow> (Inl (ErrVar ErrActionCheckpointConflict), st)
          | Some c \<Rightarrow>
              if ac_Revision c \<noteq> expectedRevision
              then (Inl (ErrVar ErrActionCheckpointConflict), st)
              else (case validateActionCheckpointPosition phase nextStep (int (length (ac_Steps c))) of
                Some e \<Rightarrow> (Inl e, st)
              | None \<Rightarrow>
                  (case allocateRevisionLocked store of
                    (Inl e, store') \<Rightarrow> (Inl e, Some store')
                  | (Inr revision, store') \<Rightarrow>
                      (Inr revision,
                       Some (store'\<lparr>ms_checkpoint :=
                         Some (c\<lparr>ac_Phase := phase, ac_NextStep := nextStep, ac_Revision := revision\<rparr>)\<rparr>))))))"

definition DeleteActionCheckpoint ::
  "u64 \<Rightarrow> MemoryActionCheckpointStore option \<Rightarrow> err option \<times> MemoryActionCheckpointStore option" where
  "DeleteActionCheckpoint expectedRevision st =
     (case st of
        None \<Rightarrow> (Some nil_store, st)
      | Some store \<Rightarrow>
          if expectedRevision = 0 then (Some (corrupt ''expected revision is zero''), st)
          else if \<not> holds_revision expectedRevision store
          then (Some (ErrVar ErrActionCheckpointConflict), st)
          else (None, Some (store\<lparr>ms_checkpoint := None\<rparr>)))"

section \<open>From actions to steps\<close>

definition control_step :: "Action \<Rightarrow> ActionStep" where
  "control_step action = \<lparr>as_Kind = ActionStepSendControl, as_Flow = a_Flow action, as_WGID = a_WGID action,
     as_Control = a_Control action, as_Packet = zero_packet, as_Reason = a_Reason action\<rparr>"

definition reinject_step :: "Action \<Rightarrow> PendingPacket \<Rightarrow> ActionStep" where
  "reinject_step action packet = \<lparr>as_Kind = ActionStepReinject, as_Flow = a_Flow action, as_WGID = 0,
     as_Control = zero_control, as_Packet = packet, as_Reason = a_Reason action\<rparr>"

fun packet_steps ::
  "(byte list \<Rightarrow> byte list) \<Rightarrow> Action \<Rightarrow> capture_bindings \<Rightarrow> PendingPacket list
     \<Rightarrow> err + ActionStep list \<times> capture_bindings" where
  "packet_steps sha256 action bindings [] = Inr ([], bindings)"
| "packet_steps sha256 action bindings (packet # packets) =
     (let step = reinject_step action packet in
      case validateActionStep step of
        Some e \<Rightarrow> Inl e
      | None \<Rightarrow>
          (case observeCapturedPacket sha256 bindings (a_Flow action) packet of
             (Inl e, _) \<Rightarrow> Inl (ErrWrap ''canonicalize faketcp captured packet'' [e])
           | (Inr duplicate, bindings') \<Rightarrow>
               (case packet_steps sha256 action bindings' packets of
                  Inl e \<Rightarrow> Inl e
                | Inr (steps, bindings'') \<Rightarrow>
                    Inr (if duplicate then steps else step # steps, bindings''))))"

fun action_steps_from ::
  "(byte list \<Rightarrow> byte list) \<Rightarrow> capture_bindings \<Rightarrow> Action list \<Rightarrow> err + ActionStep list" where
  "action_steps_from sha256 bindings [] = Inr []"
| "action_steps_from sha256 bindings (action # actions) =
     (case a_Kind action of
        ActionDrop \<Rightarrow> action_steps_from sha256 bindings actions
      | ActionForward \<Rightarrow> action_steps_from sha256 bindings actions
      | ActionClose \<Rightarrow> action_steps_from sha256 bindings actions
      | ActionSendControl \<Rightarrow>
          (case validateActionStep (control_step action) of
             Some e \<Rightarrow> Inl e
           | None \<Rightarrow>
               (case action_steps_from sha256 bindings actions of
                  Inl e \<Rightarrow> Inl e
                | Inr steps \<Rightarrow> Inr (control_step action # steps)))
      | ActionReleasePending \<Rightarrow>
          (case packet_steps sha256 action bindings (a_Packets action) of
             Inl e \<Rightarrow> Inl e
           | Inr (steps, bindings') \<Rightarrow>
               (case action_steps_from sha256 bindings' actions of
                  Inl e \<Rightarrow> Inl e
                | Inr steps' \<Rightarrow> Inr (steps @ steps'))))"

definition actionSteps :: "(byte list \<Rightarrow> byte list) \<Rightarrow> Action list \<Rightarrow> err + ActionStep list" where
  "actionSteps sha256 actions = action_steps_from sha256 [] actions"

section \<open>Execution and recovery\<close>

definition executeActionStep :: "'x go_context \<Rightarrow> 'x ControllerBackend \<Rightarrow> ActionStep \<Rightarrow> 'x \<Rightarrow> err option \<times> 'x" where
  "executeActionStep ctx backend step x =
     (if as_Kind step = ActionStepSendControl then
        (case bk_SendControl backend ctx (as_Flow step) (as_WGID step) (as_Control step) x of
           (Some e, x') \<Rightarrow> (Some (ErrWrap ''send faketcp control packet'' [e]), x')
         | (None, x') \<Rightarrow> (None, x'))
      else if as_Kind step = ActionStepReinject then
        (case bk_Reinject backend ctx (as_Flow step) (as_Packet step) x of
           (Some e, x') \<Rightarrow> (Some (ErrWrap ''reinject faketcp first packet'' [e]), x')
         | (None, x') \<Rightarrow> (None, x'))
      else (Some (ErrNew ''unknown faketcp action step kind''), x))"

definition bindActionCheckpointUpdate ::
  "'x ActionCheckpointStore \<Rightarrow> ActionCheckpoint \<Rightarrow> 'x \<Rightarrow> (err + ActionCheckpoint) \<times> 'x" where
  "bindActionCheckpointUpdate store =
     (case cs_Transition store of
        Some transition \<Rightarrow> (\<lambda>ckpt x.
          case transition (ac_Revision ckpt) (ac_Phase ckpt) (ac_NextStep ckpt) x of
            (Inl e, x') \<Rightarrow> (Inl e, x')
          | (Inr revision, x') \<Rightarrow> (Inr (ckpt\<lparr>ac_Revision := revision\<rparr>), x'))
      | None \<Rightarrow> (\<lambda>ckpt. cs_Update store (ac_Revision ckpt) ckpt))"

definition NewActionRecovery ::
  "(byte list \<Rightarrow> byte list) \<Rightarrow> RuntimeIdentity \<Rightarrow> 'x ControllerBackend option \<Rightarrow> 'x ActionCheckpointStore option
     \<Rightarrow> 'x \<Rightarrow> (err + 'x ActionRecovery) \<times> 'x" where
  "NewActionRecovery sha256 identity backend store x =
     (case validateRuntimeIdentity identity of
        Some e \<Rightarrow> (Inl e, x)
      | None \<Rightarrow>
     (case backend of
        None \<Rightarrow> (Inl (ErrNew ''faketcp action recovery backend is nil''), x)
      | Some bk \<Rightarrow>
     (case store of
        None \<Rightarrow> (Inl (ErrNew ''faketcp action checkpoint store is nil''), x)
      | Some st \<Rightarrow>
     (case cs_Load st x of
        (Inl e, x') \<Rightarrow> (Inl (ErrWrap ''load faketcp action checkpoint'' [e]), x')
      | (Inr found, x') \<Rightarrow>
          (case (case found of None \<Rightarrow> Inr 1
                 | Some ckpt \<Rightarrow>
                     (case validateStoredActionCheckpoint sha256 ckpt of
                        Some e \<Rightarrow> Inl e
                      | None \<Rightarrow> Inr (ac_Operation ckpt + 1))) of
             Inl e \<Rightarrow> (Inl e, x')
           | Inr nextOperation \<Rightarrow>
               (Inr \<lparr>ar_backend = bk, ar_store = st,
                     ar_updateCheckpoint = bindActionCheckpointUpdate st,
                     ar_identity = identity, ar_nextOperation = nextOperation\<rparr>, x'))))))"

definition required :: "string \<Rightarrow> err list \<Rightarrow> err" where
  "required message causes = ErrWrap message (ErrVar ErrActionRecoveryRequired # causes)"

text \<open>
  The loop of \<open>continueLocked\<close> follows what the store returns, so it ends only with a store that
  keeps its contract: \<open>None\<close> is an index out of range, which panics, or a loop that does not end.
\<close>

partial_function (option) continue_loop ::
  "'x go_context \<Rightarrow> 'x ActionRecovery \<Rightarrow> ActionCheckpoint \<Rightarrow> RecoveryReport \<Rightarrow> 'x
     \<Rightarrow> (RecoveryReport \<times> err option \<times> 'x) option" where
  "continue_loop ctx recovery ckpt report x =
     (if ac_NextStep ckpt < int (length (ac_Steps ckpt)) then
        (case ctx x of
           (Some e, x1) \<Rightarrow> Some (report, Some (required ''context'' [e]), x1)
         | (None, x1) \<Rightarrow>
        (case ar_updateCheckpoint recovery (ckpt\<lparr>ac_Phase := ActionCheckpointAttempting\<rparr>) x1 of
           (Inl e, x2) \<Rightarrow> Some (report, Some (required ''mark faketcp action step attempting'' [e]), x2)
         | (Inr marked, x2) \<Rightarrow>
        (if ac_NextStep marked < 0 \<or> ac_NextStep marked \<ge> int (length (ac_Steps marked)) then None
         else
        (case executeActionStep ctx (ar_backend recovery) (ac_Steps marked ! nat (ac_NextStep marked)) x2 of
           (Some e, x3) \<Rightarrow> Some (report, Some (required ''step'' [e]), x3)
         | (None, x3) \<Rightarrow>
        (case ar_updateCheckpoint recovery
                (marked\<lparr>ac_Phase := ActionCheckpointPrepared, ac_NextStep := ac_NextStep marked + 1\<rparr>) x3 of
           (Inl e, x4) \<Rightarrow> Some (report, Some (required ''checkpoint completed faketcp action step'' [e]), x4)
         | (Inr completed, x4) \<Rightarrow>
             continue_loop ctx recovery completed
               (report\<lparr>rr_CompletedSteps := rr_CompletedSteps report + 1\<rparr>) x4)))))
      else
        (case cs_Delete (ar_store recovery) (ac_Revision ckpt) x of
           (Some e, x1) \<Rightarrow>
             Some (report, Some (required ''delete completed faketcp action checkpoint'' [e]), x1)
         | (None, x1) \<Rightarrow> Some (report, None, x1)))"

declare continue_loop.simps [code]

definition continueLocked ::
  "'x go_context \<Rightarrow> 'x ActionRecovery \<Rightarrow> ActionCheckpoint \<Rightarrow> bool \<Rightarrow> 'x
     \<Rightarrow> (RecoveryReport \<times> err option \<times> 'x) option" where
  "continueLocked ctx recovery ckpt recovering x =
     (if ac_Phase ckpt = ActionCheckpointAttempting then
        (if ac_NextStep ckpt < 0 \<or> ac_NextStep ckpt \<ge> int (length (ac_Steps ckpt)) then None
         else if \<not> recovering then Some (zero_report, Some (ErrVar ErrActionRecoveryRequired), x)
         else if as_Kind (ac_Steps ckpt ! nat (ac_NextStep ckpt)) = ActionStepReinject then
           (case ar_updateCheckpoint recovery
                   (ckpt\<lparr>ac_Phase := ActionCheckpointPrepared, ac_NextStep := ac_NextStep ckpt + 1\<rparr>) x of
              (Inl e, x1) \<Rightarrow>
                Some (zero_report, Some (required ''checkpoint ambiguous faketcp reinjection as skipped'' [e]), x1)
            | (Inr updated, x1) \<Rightarrow>
                continue_loop ctx recovery updated
                  (zero_report\<lparr>rr_SkippedAmbiguousReinjections := 1\<rparr>) x1)
         else
           (case ar_updateCheckpoint recovery (ckpt\<lparr>ac_Phase := ActionCheckpointPrepared\<rparr>) x of
              (Inl e, x1) \<Rightarrow>
                Some (zero_report, Some (required ''checkpoint faketcp control replay'' [e]), x1)
            | (Inr updated, x1) \<Rightarrow>
                continue_loop ctx recovery updated (zero_report\<lparr>rr_ReplayedControls := 1\<rparr>) x1))
      else continue_loop ctx recovery ckpt zero_report x)"

definition Execute ::
  "(byte list \<Rightarrow> byte list) \<Rightarrow> 'x go_context option \<Rightarrow> Action list \<Rightarrow> 'x ActionRecovery option \<Rightarrow> 'x
     \<Rightarrow> (err option \<times> 'x ActionRecovery option \<times> 'x) option" where
  "Execute sha256 context actions recovery x =
     (case recovery of
        None \<Rightarrow> Some (Some (ErrNew ''faketcp action recovery is nil''), recovery, x)
      | Some r \<Rightarrow>
     (case context of
        None \<Rightarrow> Some (Some (ErrNew ''faketcp action execution context is nil''), recovery, x)
      | Some ctx \<Rightarrow>
     (case actionSteps sha256 actions of
        Inl e \<Rightarrow> Some (Some e, recovery, x)
      | Inr steps \<Rightarrow>
      if steps = [] then Some (None, recovery, x)
      else
     (case ctx x of
        (Some e, x1) \<Rightarrow> Some (Some e, recovery, x1)
      | (None, x1) \<Rightarrow>
     (case cs_Load (ar_store r) x1 of
        (Inl e, x2) \<Rightarrow>
          Some (Some (ErrWrap ''load faketcp action checkpoint before execute'' [e]), recovery, x2)
      | (Inr (Some _), x2) \<Rightarrow> Some (Some (ErrVar ErrActionRecoveryRequired), recovery, x2)
      | (Inr None, x2) \<Rightarrow>
      if ar_nextOperation r = 0
      then Some (Some (ErrNew ''faketcp action operation counter is exhausted''), recovery, x2)
      else
     (case cs_Create (ar_store r)
             \<lparr>ac_Revision = 0, ac_Operation = ar_nextOperation r, ac_Identity = ar_identity r,
              ac_Phase = ActionCheckpointPrepared, ac_NextStep = 0, ac_Steps = steps\<rparr> x2 of
        (Inl e, x3) \<Rightarrow>
          let checkpointErr = ErrWrap ''create faketcp action checkpoint'' [e] in
          if errors_is e ErrActionCheckpointConflict
          then Some (errors_join [Some (ErrVar ErrActionRecoveryRequired), Some checkpointErr], recovery, x3)
          else Some (Some checkpointErr, recovery, x3)
      | (Inr ckpt, x3) \<Rightarrow>
          (let r' = r\<lparr>ar_nextOperation := ar_nextOperation r + 1\<rparr> in
           case continueLocked ctx r' ckpt False x3 of
             None \<Rightarrow> None
           | Some (_, e, x4) \<Rightarrow> Some (e, Some r', x4))))))))"

definition Recover ::
  "(byte list \<Rightarrow> byte list) \<Rightarrow> 'x go_context option \<Rightarrow> 'x ActionRecovery option \<Rightarrow> 'x
     \<Rightarrow> (RecoveryReport \<times> err option \<times> 'x) option" where
  "Recover sha256 context recovery x =
     (case recovery of
        None \<Rightarrow> Some (zero_report, Some (ErrNew ''faketcp action recovery is nil''), x)
      | Some r \<Rightarrow>
     (case context of
        None \<Rightarrow> Some (zero_report, Some (ErrNew ''faketcp action recovery context is nil''), x)
      | Some ctx \<Rightarrow>
     (case ctx x of
        (Some e, x1) \<Rightarrow> Some (zero_report, Some e, x1)
      | (None, x1) \<Rightarrow>
     (case cs_Load (ar_store r) x1 of
        (Inl e, x2) \<Rightarrow>
          Some (zero_report, Some (ErrWrap ''load faketcp action checkpoint for recovery'' [e]), x2)
      | (Inr None, x2) \<Rightarrow> Some (zero_report, None, x2)
      | (Inr (Some ckpt), x2) \<Rightarrow>
     (case validateStoredActionCheckpoint sha256 ckpt of
        Some e \<Rightarrow> Some (zero_report, Some e, x2)
      | None \<Rightarrow>
          if ac_Identity ckpt \<noteq> ar_identity r
          then Some (zero_report,
                 Some (ErrWrap ''recover'' [ErrVar ErrActionCheckpointIdentityMismatch]), x2)
          else continueLocked ctx r ckpt True x2)))))"

definition Recovery_Pending ::
  "(byte list \<Rightarrow> byte list) \<Rightarrow> 'x ActionRecovery option \<Rightarrow> 'x \<Rightarrow> (err + bool) \<times> 'x" where
  "Recovery_Pending sha256 recovery x =
     (case recovery of
        None \<Rightarrow> (Inl (ErrNew ''faketcp action recovery is nil''), x)
      | Some r \<Rightarrow>
     (case cs_Load (ar_store r) x of
        (Inl e, x1) \<Rightarrow> (Inl (ErrWrap ''load faketcp action checkpoint status'' [e]), x1)
      | (Inr found, x1) \<Rightarrow>
          (case found of
             None \<Rightarrow> (Inr False, x1)
           | Some ckpt \<Rightarrow>
               (case validateStoredActionCheckpoint sha256 ckpt of
                  Some e \<Rightarrow> (Inl e, x1)
                | None \<Rightarrow> (Inr True, x1)))))"

section \<open>Lemmas on validation and steps\<close>

lemma clone_id [simp]: "cloneActionCheckpoint c = c"
  by (simp add: cloneActionCheckpoint_def)

lemma clone_stored [simp]: "map_option cloneActionCheckpoint c = c"
  by (cases c) simp_all

lemma phase_distinct [simp]:
  "ActionCheckpointPrepared \<noteq> ActionCheckpointAttempting"
  "ActionCheckpointAttempting \<noteq> ActionCheckpointPrepared"
  by (simp_all add: phase_defs)

lemma step_kind_distinct [simp]:
  "ActionStepSendControl \<noteq> ActionStepReinject" "ActionStepReinject \<noteq> ActionStepSendControl"
  by (simp_all add: step_kind_defs)

lemma position_None:
  "validateActionCheckpointPosition phase n k = None \<longleftrightarrow>
     0 \<le> n \<and> n \<le> k \<and> (phase = ActionCheckpointPrepared \<or> phase = ActionCheckpointAttempting \<and> n < k)"
  by (auto simp: validateActionCheckpointPosition_def)

definition step_key :: "ActionStep \<Rightarrow> CaptureIdentity" where
  "step_key step = pp_CaptureID (as_Packet step)"

definition is_reinject :: "ActionStep \<Rightarrow> bool" where
  "is_reinject step = (as_Kind step = ActionStepReinject)"

abbreviation reinjected :: "ActionStep list \<Rightarrow> CaptureIdentity list" where
  "reinjected steps \<equiv> map step_key (filter is_reinject steps)"

lemma observe_cases:
  assumes "observeCapturedPacket sha b flow p = (r, b')"
  shows "(\<exists>e. r = Inl e \<and> b' = b) \<or> (r = Inr True \<and> b' = b \<and> m_get b (pp_CaptureID p) \<noteq> None)
    \<or> (r = Inr False \<and> m_get b (pp_CaptureID p) = None
       \<and> b' = m_put (pp_CaptureID p) (bindCapturedPacket sha flow p) b)"
  using assms by (auto simp: observeCapturedPacket_def Let_def split: option.splits if_splits)

text \<open>The binding check accepts exactly the step lists without a repeated capture identity.\<close>

lemma capture_bindings_None:
  "validateCaptureBindings sha b steps = None \<longleftrightarrow>
     distinct (reinjected steps) \<and> (\<forall>k \<in> set (reinjected steps). m_get b k = None)"
proof (induction steps arbitrary: b)
  case (Cons s steps)
  show ?case
    by (auto simp: Cons.IH is_reinject_def step_key_def observeCapturedPacket_def Let_def image_iff
        split: option.split)
qed simp

lemma packet_steps_sound:
  assumes "packet_steps sha action b ps = Inr (steps, b')"
  shows "(\<forall>s \<in> set steps. validateActionStep s = None \<and> (\<exists>p \<in> set ps. s = reinject_step action p))
    \<and> distinct (reinjected steps) \<and> (\<forall>k \<in> set (reinjected steps). m_get b k = None \<and> m_get b' k \<noteq> None)
    \<and> (\<forall>k. m_get b k \<noteq> None \<longrightarrow> m_get b' k \<noteq> None)"
  using assms
proof (induction ps arbitrary: b steps)
  case (Cons p ps)
  let ?s = "reinject_step action p"
  from Cons.prems obtain d b1 steps1 where ok: "validateActionStep ?s = None"
    and obs: "observeCapturedPacket sha b (a_Flow action) p = (Inr d, b1)"
    and rec: "packet_steps sha action b1 ps = Inr (steps1, b')"
    and steps: "steps = (if d then steps1 else ?s # steps1)"
    by (auto simp: Let_def split: option.splits prod.splits sum.splits)
  have ih: "(\<forall>s \<in> set steps1. validateActionStep s = None \<and> (\<exists>p \<in> set ps. s = reinject_step action p))
    \<and> distinct (reinjected steps1) \<and> (\<forall>k \<in> set (reinjected steps1). m_get b1 k = None \<and> m_get b' k \<noteq> None)
    \<and> (\<forall>k. m_get b1 k \<noteq> None \<longrightarrow> m_get b' k \<noteq> None)"
    by (rule Cons.IH [OF rec])
  have key: "is_reinject ?s" "step_key ?s = pp_CaptureID p"
    by (simp_all add: is_reinject_def step_key_def reinject_step_def)
  from observe_cases [OF obs] consider
      "d" "b1 = b"
    | "\<not> d" "m_get b (pp_CaptureID p) = None" "b1 = m_put (pp_CaptureID p) (bindCapturedPacket sha (a_Flow action) p) b"
    by auto
  then show ?case
  proof cases
    case 1
    then show ?thesis using ih steps by auto
  next
    case 2
    have "m_get b k = None" if "m_get b1 k = None" for k using that 2 by (auto split: if_splits)
    moreover have "m_get b1 (pp_CaptureID p) \<noteq> None" using 2 by simp
    moreover have "m_get b1 k \<noteq> None" if "m_get b k \<noteq> None" for k using that 2 by simp
    ultimately show ?thesis using ih steps 2(1,2) ok key by auto
  qed
qed simp

text \<open>Every list of steps that \<open>actionSteps\<close> returns has valid steps and no repeated capture.\<close>

lemma action_steps_sound:
  assumes "action_steps_from sha b actions = Inr steps"
  shows "(\<forall>s \<in> set steps. validateActionStep s = None)
    \<and> distinct (reinjected steps) \<and> (\<forall>k \<in> set (reinjected steps). m_get b k = None)"
  using assms
proof (induction actions arbitrary: b steps)
  case (Cons a actions)
  show ?case
  proof (cases "a_Kind a")
    case ActionSendControl
    with Cons.prems obtain steps1 where "validateActionStep (control_step a) = None"
      "action_steps_from sha b actions = Inr steps1" "steps = control_step a # steps1"
      by (auto split: option.splits sum.splits)
    moreover have "\<not> is_reinject (control_step a)" by (simp add: is_reinject_def control_step_def)
    ultimately show ?thesis using Cons.IH by auto
  next
    case ActionReleasePending
    with Cons.prems obtain steps1 b1 steps2 where p: "packet_steps sha a b (a_Packets a) = Inr (steps1, b1)"
      and r: "action_steps_from sha b1 actions = Inr steps2" and steps: "steps = steps1 @ steps2"
      by (auto split: sum.splits)
    have two: "(\<forall>s \<in> set steps2. validateActionStep s = None) \<and> distinct (reinjected steps2)
      \<and> (\<forall>k \<in> set (reinjected steps2). m_get b1 k = None)"
      by (rule Cons.IH [OF r])
    have one: "(\<forall>s \<in> set steps1. validateActionStep s = None) \<and> distinct (reinjected steps1)
      \<and> (\<forall>k \<in> set (reinjected steps1). m_get b k = None \<and> m_get b1 k \<noteq> None)
      \<and> (\<forall>k. m_get b k \<noteq> None \<longrightarrow> m_get b1 k \<noteq> None)"
      using packet_steps_sound [OF p] by blast
    have "set (reinjected steps1) \<inter> set (reinjected steps2) = {}" using one two by blast
    moreover have "m_get b k = None" if "k \<in> set (reinjected steps2)" for k using one two that by blast
    ultimately show ?thesis using one two by (auto simp: steps)
  qed (use Cons in auto)
qed simp

section \<open>The backend calls of actions\<close>

text \<open>
  What a list of actions asks of the backend, in the order of the actions: the control packets to
  send and the captured packets to re-inject. A capture that is listed again is the same packet and
  is due once, at its first place.
\<close>

datatype backend_call = Sends FakeTCPSessionKey u32 ControlPacket | Reinjects FakeTCPSessionKey PendingPacket

fun action_calls :: "Action list \<Rightarrow> backend_call list" where
  "action_calls [] = []"
| "action_calls (action # actions) =
     (case a_Kind action of
        ActionSendControl \<Rightarrow> [Sends (a_Flow action) (a_WGID action) (a_Control action)]
      | ActionReleasePending \<Rightarrow> map (Reinjects (a_Flow action)) (a_Packets action)
      | _ \<Rightarrow> []) @ action_calls actions"

fun once_each :: "CaptureIdentity set \<Rightarrow> backend_call list \<Rightarrow> backend_call list" where
  "once_each seen [] = []"
| "once_each seen (Sends flow wgID p # calls) = Sends flow wgID p # once_each seen calls"
| "once_each seen (Reinjects flow p # calls) =
     (if pp_CaptureID p \<in> seen then once_each seen calls
      else Reinjects flow p # once_each (insert (pp_CaptureID p) seen) calls)"

fun reinjections :: "backend_call list \<Rightarrow> (FakeTCPSessionKey \<times> PendingPacket) list" where
  "reinjections [] = []"
| "reinjections (Sends flow wgID p # calls) = reinjections calls"
| "reinjections (Reinjects flow p # calls) = (flow, p) # reinjections calls"

lemma reinjections_append [simp]: "reinjections (xs @ ys) = reinjections xs @ reinjections ys"
  by (induction xs rule: reinjections.induct) auto

lemma once_each_captures:
  "distinct (map (\<lambda>d. pp_CaptureID (snd d)) (reinjections (once_each seen calls)))
   \<and> (\<lambda>d. pp_CaptureID (snd d)) ` set (reinjections (once_each seen calls))
       = (\<lambda>d. pp_CaptureID (snd d)) ` set (reinjections calls) - seen"
proof (induction seen calls rule: once_each.induct)
  case (3 seen flow p calls)
  then show ?case by (cases "pp_CaptureID p \<in> seen") auto
qed auto

text \<open>The steps of \<open>actionSteps\<close> are exactly these calls.\<close>

definition step_call :: "ActionStep \<Rightarrow> backend_call" where
  "step_call s = (if is_reinject s then Reinjects (as_Flow s) (as_Packet s)
                  else Sends (as_Flow s) (as_WGID s) (as_Control s))"

lemma step_call_simps [simp]:
  "step_call (control_step a) = Sends (a_Flow a) (a_WGID a) (a_Control a)"
  "step_call (reinject_step a p) = Reinjects (a_Flow a) p"
  by (simp_all add: step_call_def is_reinject_def control_step_def reinject_step_def)

lemma packet_steps_calls:
  assumes "packet_steps sha a b ps = Inr (steps, b')"
  shows "once_each {k. m_get b k \<noteq> None} (map (Reinjects (a_Flow a)) ps @ calls)
    = map step_call steps @ once_each {k. m_get b' k \<noteq> None} calls"
  using assms
proof (induction ps arbitrary: b steps)
  case (Cons p ps)
  from Cons.prems obtain d b1 steps1
    where obs: "observeCapturedPacket sha b (a_Flow a) p = (Inr d, b1)"
    and rest: "packet_steps sha a b1 ps = Inr (steps1, b')"
    and steps: "steps = (if d then steps1 else reinject_step a p # steps1)"
    by (auto simp: Let_def split: option.splits prod.splits sum.splits)
  have "insert (pp_CaptureID p) {k. m_get b k \<noteq> None} = {k. m_get b1 k \<noteq> None}" if "\<not> d"
    using observe_cases [OF obs] that by auto
  then show ?case using Cons.IH [OF rest] observe_cases [OF obs] steps by (cases d) auto
qed simp

lemma action_steps_calls:
  "action_steps_from sha b actions = Inr steps \<Longrightarrow>
     map step_call steps = once_each {k. m_get b k \<noteq> None} (action_calls actions)"
proof (induction actions arbitrary: b steps)
  case (Cons a actions)
  show ?case
  proof (cases "a_Kind a")
    case ActionSendControl
    then show ?thesis using Cons by (auto split: option.splits sum.splits)
  next
    case ActionReleasePending
    with Cons.prems obtain steps1 b1 steps2 where p: "packet_steps sha a b (a_Packets a) = Inr (steps1, b1)"
      and r: "action_steps_from sha b1 actions = Inr steps2" and steps: "steps = steps1 @ steps2"
      by (auto split: sum.splits)
    then show ?thesis
      using Cons.IH [OF r] packet_steps_calls [OF p, of "action_calls actions"] ActionReleasePending by simp
  qed (use Cons in auto)
qed simp

lemma actionSteps_calls:
  "actionSteps sha actions = Inr steps \<Longrightarrow> map step_call steps = once_each {} (action_calls actions)"
  using action_steps_calls [of sha "[]" actions steps] by (simp add: actionSteps_def m_get_def)

section \<open>The contract of a checkpoint store\<close>

text \<open>
  \<open>slot\<close> is the checkpoint that a crash leaves behind. A successful call has the documented
  effect; a failed write may or may not have taken place.
\<close>

locale checkpoint_store =
  fixes st :: "'x ActionCheckpointStore" and slot :: "'x \<Rightarrow> ActionCheckpoint option"
  assumes load: "cs_Load st x = (q, x') \<Longrightarrow> slot x' = slot x \<and> (\<forall>c. q = Inr c \<longrightarrow> c = slot x)"
    and create: "cs_Create st c x = (Inr c', x') \<Longrightarrow>
      slot x = None \<and> slot x' = Some c' \<and> (\<exists>r. c' = c\<lparr>ac_Revision := r\<rparr>)"
    and create_fails: "cs_Create st c x = (Inl e, x') \<Longrightarrow>
      slot x' = slot x \<or> slot x = None \<and> (\<exists>r. slot x' = Some (c\<lparr>ac_Revision := r\<rparr>))"
    and updates: "cs_Update st n c x = (Inr c', x') \<Longrightarrow>
      (\<exists>c0. slot x = Some c0 \<and> ac_Revision c0 = n) \<and> slot x' = Some c' \<and> (\<exists>r. c' = c\<lparr>ac_Revision := r\<rparr>)"
    and update_fails: "cs_Update st n c x = (Inl e, x') \<Longrightarrow>
      slot x' = slot x
      \<or> (\<exists>c0. slot x = Some c0 \<and> ac_Revision c0 = n) \<and> (\<exists>r. slot x' = Some (c\<lparr>ac_Revision := r\<rparr>))"
    and transition: "cs_Transition st = Some t \<Longrightarrow> t n ph k x = (Inr r, x') \<Longrightarrow>
      \<exists>c0. slot x = Some c0 \<and> ac_Revision c0 = n
        \<and> slot x' = Some (c0\<lparr>ac_Phase := ph, ac_NextStep := k, ac_Revision := r\<rparr>)"
    and transition_fails: "cs_Transition st = Some t \<Longrightarrow> t n ph k x = (Inl e, x') \<Longrightarrow>
      slot x' = slot x \<or> (\<exists>c0 r. slot x = Some c0 \<and> ac_Revision c0 = n
        \<and> slot x' = Some (c0\<lparr>ac_Phase := ph, ac_NextStep := k, ac_Revision := r\<rparr>))"
    and delete: "cs_Delete st n x = (None, x') \<Longrightarrow>
      (\<exists>c0. slot x = Some c0 \<and> ac_Revision c0 = n) \<and> slot x' = None"
    and delete_fails: "cs_Delete st n x = (Some e, x') \<Longrightarrow> slot x' = slot x \<or> slot x' = None"
begin

text \<open>One law for both ways to advance a checkpoint that the store holds.\<close>

lemma advance:
  assumes "slot x = Some c"
    and "bindActionCheckpointUpdate st (c\<lparr>ac_Phase := ph, ac_NextStep := k\<rparr>) x = (Inr c', x')"
  shows "slot x' = Some c' \<and> (\<exists>r. c' = c\<lparr>ac_Phase := ph, ac_NextStep := k, ac_Revision := r\<rparr>)"
proof (cases "cs_Transition st")
  case None
  with assms updates show ?thesis by (fastforce simp: bindActionCheckpointUpdate_def)
next
  case (Some t)
  with assms(2) obtain r where "t (ac_Revision c) ph k x = (Inr r, x')"
    and "c' = c\<lparr>ac_Phase := ph, ac_NextStep := k, ac_Revision := r\<rparr>"
    by (auto simp: bindActionCheckpointUpdate_def split: prod.splits sum.splits)
  with transition [OF Some] assms(1) show ?thesis by fastforce
qed

lemma advance_fails:
  assumes "slot x = Some c"
    and "bindActionCheckpointUpdate st (c\<lparr>ac_Phase := ph, ac_NextStep := k\<rparr>) x = (Inl e, x')"
  shows "slot x' = Some c \<or> (\<exists>r. slot x' = Some (c\<lparr>ac_Phase := ph, ac_NextStep := k, ac_Revision := r\<rparr>))"
proof (cases "cs_Transition st")
  case None
  with assms update_fails show ?thesis by (fastforce simp: bindActionCheckpointUpdate_def)
next
  case (Some t)
  with assms(2) have "t (ac_Revision c) ph k x = (Inl e, x')"
    by (auto simp: bindActionCheckpointUpdate_def split: prod.splits sum.splits)
  with transition_fails [OF Some] assms(1) show ?thesis by fastforce
qed

end

section \<open>Recovery over a store that keeps its contract\<close>

definition datagrams :: "ActionStep list \<Rightarrow> (FakeTCPSessionKey \<times> PendingPacket) list" where
  "datagrams steps = map (\<lambda>s. (as_Flow s, as_Packet s)) (filter is_reinject steps)"

text \<open>What a checkpoint still allows to be re-injected: the step under attempt no longer counts.\<close>

definition remaining :: "ActionCheckpoint \<Rightarrow> (FakeTCPSessionKey \<times> PendingPacket) list" where
  "remaining c = datagrams (drop (nat (ac_NextStep c) + (if ac_Phase c = ActionCheckpointAttempting then 1 else 0))
     (ac_Steps c))"

definition left_over :: "ActionCheckpoint option \<Rightarrow> (FakeTCPSessionKey \<times> PendingPacket) list" where
  "left_over c = (case c of None \<Rightarrow> [] | Some c' \<Rightarrow> remaining c')"

lemma left_over_simps [simp]: "left_over None = []" "left_over (Some c) = remaining c"
  by (simp_all add: left_over_def)

lemma datagrams_simps [simp]:
  "datagrams [] = []" "datagrams (xs @ ys) = datagrams xs @ datagrams ys"
  "datagrams (s # steps) = (if is_reinject s then (as_Flow s, as_Packet s) # datagrams steps else datagrams steps)"
  by (simp_all add: datagrams_def)

lemma datagrams_calls: "datagrams steps = reinjections (map step_call steps)"
  by (induction steps) (simp_all add: step_call_def)

lemma subseq_append_right: "subseq xs (xs @ ys)"
  using list_emb_append_mono [of "(=)" xs xs "[]" ys] by simp

lemma subseq_distinct: "subseq xs ys \<Longrightarrow> distinct ys \<Longrightarrow> distinct xs"
  by (auto simp: subseq_conv_nths)

definition at_position :: "ActionCheckpoint \<Rightarrow> bool" where
  "at_position c \<longleftrightarrow> 0 \<le> ac_NextStep c \<and> ac_NextStep c \<le> int (length (ac_Steps c))
     \<and> (ac_Phase c = ActionCheckpointAttempting \<longrightarrow> ac_NextStep c < int (length (ac_Steps c)))"

lemma stored_checkpointD:
  assumes "validateStoredActionCheckpoint sha c = None"
  shows "ac_Revision c \<noteq> 0" "at_position c"
    "ac_Phase c = ActionCheckpointPrepared \<or> ac_Phase c = ActionCheckpointAttempting"
    "\<forall>s \<in> set (ac_Steps c). as_Kind s = ActionStepSendControl \<or> as_Kind s = ActionStepReinject"
proof -
  have kind: "as_Kind s = ActionStepSendControl \<or> as_Kind s = ActionStepReinject"
    if "validate_checkpoint_steps i steps = None" "s \<in> set steps" for i s and steps :: "ActionStep list"
    using that
    by (induction steps) (auto simp: first_err_None_iff validate_checkpoint_step_def validateActionStep_def
        split: option.splits if_splits)
  show "ac_Revision c \<noteq> 0" "at_position c"
    "ac_Phase c = ActionCheckpointPrepared \<or> ac_Phase c = ActionCheckpointAttempting"
    "\<forall>s \<in> set (ac_Steps c). as_Kind s = ActionStepSendControl \<or> as_Kind s = ActionStepReinject"
    using assms kind [of "ac_Identity c" "ac_Steps c"]
    by (auto simp: validateStoredActionCheckpoint_def validateActionCheckpoint_def position_None at_position_def
        split: if_splits option.splits)
qed

definition bound_to :: "'x ActionCheckpointStore \<Rightarrow> 'x ControllerBackend \<Rightarrow> 'x ActionRecovery \<Rightarrow> bool" where
  "bound_to st bk r \<longleftrightarrow> ar_store r = st \<and> ar_backend r = bk
     \<and> ar_updateCheckpoint r = bindActionCheckpointUpdate st"

text \<open>
  The outcome of a run from \<open>x\<close> to \<open>x'\<close>: the datagrams handed over since, followed by those
  that the store still allows, are a subsequence of the \<open>allowed\<close> ones. Without an error all of
  them have been handed over and the slot is empty.
\<close>

definition outcome ::
  "('x \<Rightarrow> ActionCheckpoint option) \<Rightarrow> ('x \<Rightarrow> 'd list) \<Rightarrow> (ActionCheckpoint option \<Rightarrow> 'd list)
     \<Rightarrow> 'x \<Rightarrow> 'd list \<Rightarrow> 'x \<Rightarrow> err option \<Rightarrow> bool" where
  "outcome slot sent over x allowed x' e \<longleftrightarrow>
     (\<exists>handed. sent x' = sent x @ handed \<and> subseq (handed @ over (slot x')) allowed
       \<and> (e = None \<longrightarrow> handed = allowed \<and> slot x' = None))"

text \<open>
  \<open>sent\<close> is the history of the datagrams handed to the backend. Store calls and contexts leave
  it alone, and the backend and the contexts leave the stored checkpoint alone.
\<close>

locale recovery_env = checkpoint_store st slot
  for st :: "'x ActionCheckpointStore" and slot :: "'x \<Rightarrow> ActionCheckpoint option" +
  fixes bk :: "'x ControllerBackend" and good :: "'x go_context \<Rightarrow> bool"
    and sent :: "'x \<Rightarrow> (FakeTCPSessionKey \<times> PendingPacket) list"
  assumes ctx_frame: "good ctx \<Longrightarrow> slot (snd (ctx x)) = slot x \<and> sent (snd (ctx x)) = sent x"
    and control_frame: "good ctx \<Longrightarrow>
      slot (snd (bk_SendControl bk ctx flow wg p x)) = slot x \<and> sent (snd (bk_SendControl bk ctx flow wg p x)) = sent x"
    and reinject_logs: "good ctx \<Longrightarrow>
      slot (snd (bk_Reinject bk ctx flow d x)) = slot x
      \<and> sent (snd (bk_Reinject bk ctx flow d x)) = sent x @ [(flow, d)]"
    and load_frame: "sent (snd (cs_Load st x)) = sent x"
    and create_frame: "sent (snd (cs_Create st c x)) = sent x"
    and update_frame: "sent (snd (cs_Update st n c x)) = sent x"
    and transition_frame: "cs_Transition st = Some t \<Longrightarrow> sent (snd (t n ph k x)) = sent x"
    and delete_frame: "sent (snd (cs_Delete st n x)) = sent x"
begin

lemma advance_frame: "sent (snd (bindActionCheckpointUpdate st c x)) = sent x"
proof (cases "cs_Transition st")
  case None
  then show ?thesis by (simp add: bindActionCheckpointUpdate_def update_frame)
next
  case (Some t)
  with transition_frame [OF Some, of "ac_Revision c" "ac_Phase c" "ac_NextStep c" x] show ?thesis
    by (auto simp: bindActionCheckpointUpdate_def split: prod.split sum.split)
qed

lemma execute_step_frame:
  assumes "good ctx" "executeActionStep ctx bk s x = (r, x')"
  shows "slot x' = slot x \<and> (sent x' = sent x @ datagrams [s])"
  using assms control_frame [OF assms(1), of "as_Flow s" "as_WGID s" "as_Control s" x]
    reinject_logs [OF assms(1), of "as_Flow s" "as_Packet s" x]
  by (auto simp: executeActionStep_def is_reinject_def split: if_splits prod.splits option.splits)

text \<open>A step that the store has marked: it is handed over once, whatever happens next.\<close>

lemma marked_step:
  assumes r: "bound_to st bk r" and ctx: "good ctx" and m: "slot x = Some m"
    and att: "ac_Phase m = ActionCheckpointAttempting"
    and lt: "0 \<le> ac_NextStep m" "ac_NextStep m < int (length (ac_Steps m))"
    and q3: "executeActionStep ctx bk (ac_Steps m ! nat (ac_NextStep m)) x = (q3, x3)"
    and q4: "bindActionCheckpointUpdate st
      (m\<lparr>ac_Phase := ActionCheckpointPrepared, ac_NextStep := ac_NextStep m + 1\<rparr>) x3 = (q4, x4)"
  shows "slot x3 = Some m \<and> sent x3 = sent x @ datagrams [ac_Steps m ! nat (ac_NextStep m)] \<and> sent x4 = sent x3"
    and "q4 = Inl e \<Longrightarrow> left_over (slot x4) = remaining m"
    and "q4 = Inr c' \<Longrightarrow> slot x4 = Some c'
      \<and> (\<exists>v. c' = m\<lparr>ac_Phase := ActionCheckpointPrepared, ac_NextStep := ac_NextStep m + 1, ac_Revision := v\<rparr>)"
proof -
  let ?fin = "m\<lparr>ac_Phase := ActionCheckpointPrepared, ac_NextStep := ac_NextStep m + 1\<rparr>"
  have f3: "slot x3 = Some m" "sent x3 = sent x @ datagrams [ac_Steps m ! nat (ac_NextStep m)]"
    using execute_step_frame [OF ctx q3] m by auto
  then show "slot x3 = Some m \<and> sent x3 = sent x @ datagrams [ac_Steps m ! nat (ac_NextStep m)] \<and> sent x4 = sent x3"
    using advance_frame [of ?fin x3] q4 by simp
  show "left_over (slot x4) = remaining m" if "q4 = Inl e"
    using advance_fails [OF f3(1) q4 [unfolded that]] lt att by (auto simp: remaining_def nat_add_distrib)
  show "slot x4 = Some c' \<and> (\<exists>v. c' = m\<lparr>ac_Phase := ActionCheckpointPrepared, ac_NextStep := ac_NextStep m + 1, ac_Revision := v\<rparr>)"
    if "q4 = Inr c'"
    using advance [OF f3(1) q4 [unfolded that]] by blast
qed

text \<open>One round of the loop: it stops with an error, or hands over the next step and goes on.\<close>

lemma loop_round:
  assumes r: "bound_to st bk r" and ctx: "good ctx" and c: "slot x = Some c"
    and prep: "ac_Phase c = ActionCheckpointPrepared"
    and lt: "0 \<le> ac_NextStep c" "ac_NextStep c < int (length (ac_Steps c))"
  obtains (stops) e x' handed where "\<And>report. continue_loop ctx r c report x = Some (report, Some e, x')"
      "sent x' = sent x @ handed" "subseq (handed @ left_over (slot x')) (remaining c)"
    | (goes) c' v x' where "\<And>report. continue_loop ctx r c report x
           = continue_loop ctx r c' (report\<lparr>rr_CompletedSteps := rr_CompletedSteps report + 1\<rparr>) x'"
      "slot x' = Some c'" "c' = c\<lparr>ac_NextStep := ac_NextStep c + 1, ac_Revision := v\<rparr>"
      "sent x' = sent x @ datagrams [ac_Steps c ! nat (ac_NextStep c)]"
proof -
  let ?next = "ac_NextStep c" and ?s = "ac_Steps c ! nat (ac_NextStep c)"
  let ?mark = "c\<lparr>ac_Phase := ActionCheckpointAttempting, ac_NextStep := ?next\<rparr>"
  have rem: "remaining c = datagrams [?s] @ datagrams (drop (Suc (nat ?next)) (ac_Steps c))"
    using prep lt by (simp add: remaining_def flip: Cons_nth_drop_Suc)
  have bind: "ar_store r = st" "ar_backend r = bk" "ar_updateCheckpoint r = bindActionCheckpointUpdate st"
    using r by (simp_all add: bound_to_def)
  obtain q1 x1 where q1: "ctx x = (q1, x1)" by fastforce
  have f1: "slot x1 = Some c" "sent x1 = sent x" using ctx_frame [OF ctx, of x] q1 c by auto
  obtain q2 x2 where q2: "bindActionCheckpointUpdate st ?mark x1 = (q2, x2)" by fastforce
  have f2: "sent x2 = sent x" using advance_frame [of ?mark x1] q2 f1 by simp
  consider (ctx) e where "q1 = Some e" | (mark) e where "q1 = None" "q2 = Inl e" | (marked) m where "q1 = None" "q2 = Inr m"
    by (cases q1; cases q2) auto
  then show ?thesis
  proof cases
    case ctx
    then show ?thesis using f1 q1 lt(2)
      by (intro stops [where x' = x1 and handed = "[]"]) (subst continue_loop.simps, auto)
  next
    case mark
    have "subseq (left_over (slot x2)) (remaining c)"
      using advance_fails [OF f1(1) q2 [unfolded mark(2)]] rem by (auto simp: remaining_def)
    then show ?thesis using mark f2 q1 q2 lt(2) bind
      by (intro stops [where x' = x2 and handed = "[]"]) (subst continue_loop.simps, auto)
  next
    case (marked m)
    then obtain v where m: "slot x2 = Some m" "m = ?mark\<lparr>ac_Revision := v\<rparr>"
      using advance [OF f1(1)] q2 by blast
    have same: "ac_NextStep m = ?next" "ac_Steps m = ac_Steps c" "ac_Phase m = ActionCheckpointAttempting"
      by (simp_all add: m(2))
    then have over: "remaining m = datagrams (drop (Suc (nat ?next)) (ac_Steps c))" by (simp add: remaining_def)
    obtain q3 x3 where q3: "executeActionStep ctx bk ?s x2 = (q3, x3)" by fastforce
    obtain q4 x4 where q4: "bindActionCheckpointUpdate st
        (m\<lparr>ac_Phase := ActionCheckpointPrepared, ac_NextStep := ?next + 1\<rparr>) x3 = (q4, x4)" by fastforce
    note after = marked_step [OF r ctx m(1) same(3), unfolded same, OF lt q3 q4]
    have loop: "continue_loop ctx r c report x = (case q3 of
        Some e \<Rightarrow> Some (report, Some (required ''step'' [e]), x3)
      | None \<Rightarrow> (case q4 of
          Inl e \<Rightarrow> Some (report, Some (required ''checkpoint completed faketcp action step'' [e]), x4)
        | Inr c' \<Rightarrow> continue_loop ctx r c' (report\<lparr>rr_CompletedSteps := rr_CompletedSteps report + 1\<rparr>) x4))"
      for report
      using marked q1 q2 q3 q4 lt bind same
      by (subst continue_loop.simps) (simp split: option.split sum.split)
    consider e where "q3 = Some e" | e where "q3 = None" "q4 = Inl e" | c' where "q3 = None" "q4 = Inr c'"
      by (cases q3; cases q4) auto
    then show ?thesis
    proof cases
      case 1
      then show ?thesis using after(1) f2 over rem
        by (intro stops [where x' = x3 and handed = "datagrams [?s]"]) (simp_all add: loop)
    next
      case 2
      then show ?thesis using after(1,2) f2 over rem
        by (intro stops [where x' = x4 and handed = "datagrams [?s]"]) (simp_all add: loop)
    next
      case (3 c')
      with after(3) obtain v' where c': "slot x4 = Some c'"
        "c' = m\<lparr>ac_Phase := ActionCheckpointPrepared, ac_NextStep := ?next + 1, ac_Revision := v'\<rparr>" by blast
      then have "c' = c\<lparr>ac_NextStep := ?next + 1, ac_Revision := v'\<rparr>" using prep by (simp add: m(2))
      moreover have "sent x4 = sent x @ datagrams [?s]" using after(1) f2 by metis
      ultimately show ?thesis using 3 c'(1) by (intro goes [of c' x4 v']) (simp_all only: loop option.case sum.case)
    qed
  qed
qed

lemma loop_spec:
  assumes "bound_to st bk r" "good ctx" "slot x = Some c" "ac_Phase c = ActionCheckpointPrepared" "at_position c"
  shows "\<exists>report' e x'. continue_loop ctx r c report x = Some (report', e, x')
    \<and> outcome slot sent left_over x (remaining c) x' e
    \<and> (e = None \<longrightarrow> report' = report\<lparr>rr_CompletedSteps := rr_CompletedSteps report
        + (int (length (ac_Steps c)) - ac_NextStep c)\<rparr>)"
  using assms(3-5)
proof (induction "nat (int (length (ac_Steps c)) - ac_NextStep c)" arbitrary: c x report)
  case 0
  have "ac_NextStep c = int (length (ac_Steps c))" using 0 by (simp add: at_position_def)
  obtain q x1 where d: "cs_Delete st (ac_Revision c) x = (q, x1)" by fastforce
  have "sent x1 = sent x" using delete_frame [of "ac_Revision c" x] d by simp
  moreover have "q = None \<Longrightarrow> slot x1 = None" using d delete by blast
  moreover have "slot x1 = slot x \<or> slot x1 = None" 
    using d delete [of "ac_Revision c" x x1] delete_fails [of "ac_Revision c" x _ x1] by (cases q) auto
  moreover have "remaining c = []" using 0 by (simp add: remaining_def at_position_def)
  ultimately show ?case
    using assms(1) 0 d \<open>ac_NextStep c = _\<close>
    by (subst continue_loop.simps) (auto simp: bound_to_def outcome_def split: option.split)
next
  case (Suc n)
  have lt: "0 \<le> ac_NextStep c" "ac_NextStep c < int (length (ac_Steps c))"
    using Suc.hyps(2) Suc.prems(3) by (auto simp: at_position_def)
  from assms(1,2) Suc.prems(1,2) lt show ?case
  proof (cases rule: loop_round)
    case stops
    then show ?thesis by (auto simp: outcome_def)
  next
    case (goes c' v x')
    have "n = nat (int (length (ac_Steps c')) - ac_NextStep c')" "ac_Phase c' = ActionCheckpointPrepared"
      "at_position c'" and rem: "remaining c = datagrams [ac_Steps c ! nat (ac_NextStep c)] @ remaining c'"
      using Suc.hyps(2) Suc.prems(2) lt
      by (auto simp: goes(3) at_position_def remaining_def nat_add_distrib simp flip: Cons_nth_drop_Suc)
    from Suc.hyps(1) [OF this(1) goes(2) this(2,3),
        of "report\<lparr>rr_CompletedSteps := rr_CompletedSteps report + 1\<rparr>"]
    obtain report' e x'' where run: "continue_loop ctx r c report x = Some (report', e, x'')"
      and out: "outcome slot sent left_over x' (remaining c') x'' e"
      and rep: "e = None \<longrightarrow> report' = report\<lparr>rr_CompletedSteps := rr_CompletedSteps report
        + (int (length (ac_Steps c)) - ac_NextStep c)\<rparr>"
      unfolding goes(1) by (auto simp: goes(3))
    from out goes(4) rem have "outcome slot sent left_over x (remaining c) x'' e" by (auto simp: outcome_def)
    with run rep show ?thesis by blast
  qed
qed

lemma continue_spec:
  assumes r: "bound_to st bk r" and ctx: "good ctx" and c: "slot x = Some c" and pos: "at_position c"
    and phase: "ac_Phase c = ActionCheckpointPrepared \<or> ac_Phase c = ActionCheckpointAttempting"
  shows "\<exists>report e x'. continueLocked ctx r c recovering x = Some (report, e, x')
    \<and> outcome slot sent left_over x (remaining c) x' e"
proof (cases "ac_Phase c = ActionCheckpointAttempting")
  case False
  with phase loop_spec [OF r ctx c _ pos, of zero_report] show ?thesis by (auto simp: continueLocked_def)
next
  case att: True
  let ?skip = "as_Kind (ac_Steps c ! nat (ac_NextStep c)) = ActionStepReinject"
  let ?n = "if ?skip then ac_NextStep c + 1 else ac_NextStep c"
  let ?c = "c\<lparr>ac_Phase := ActionCheckpointPrepared, ac_NextStep := ?n\<rparr>"
  from pos att have lt: "0 \<le> ac_NextStep c" "ac_NextStep c < int (length (ac_Steps c))" by (auto simp: at_position_def)
  then have rem: "remaining (?c\<lparr>ac_Revision := v\<rparr>) = remaining c" for v
    using att by (auto simp: remaining_def nat_add_distrib is_reinject_def simp flip: Cons_nth_drop_Suc)
  obtain q x1 where q: "bindActionCheckpointUpdate st ?c x = (q, x1)" by fastforce
  have sent: "sent x1 = sent x" using advance_frame [of ?c x] q by simp
  show ?thesis
  proof (cases q)
    case (Inl e)
    with advance_fails [OF c] q have "left_over (slot x1) = remaining c" using rem c by fastforce
    with Inl q r c lt att sent show ?thesis
      by (auto simp: continueLocked_def bound_to_def outcome_def split: if_splits)
  next
    case (Inr c')
    with advance [OF c] q obtain v where c': "slot x1 = Some c'" "c' = ?c\<lparr>ac_Revision := v\<rparr>" by blast
    then have "ac_Phase c' = ActionCheckpointPrepared" "at_position c'" "remaining c' = remaining c"
      using pos lt rem by (auto simp: at_position_def)
    with loop_spec [OF r ctx c'(1)]
    have "\<exists>rep e x'. continue_loop ctx r c' report x1 = Some (rep, e, x') \<and> outcome slot sent left_over x (remaining c) x' e"
      for report by (fastforce simp: outcome_def sent)
    with Inr q r c lt att show ?thesis
      by (auto simp: continueLocked_def bound_to_def outcome_def split: if_splits)
  qed
qed

lemma execute_spec:
  assumes r: "bound_to st bk r" and ctx: "good ctx"
  shows "\<exists>e r' x'. Execute sha (Some ctx) actions (Some r) x = Some (e, Some r', x') \<and> bound_to st bk r'
    \<and> (\<exists>handed. sent x' = sent x @ handed
        \<and> subseq (handed @ left_over (slot x'))
             (left_over (slot x) @ (case actionSteps sha actions of Inl _ \<Rightarrow> [] | Inr steps \<Rightarrow> datagrams steps))
        \<and> (e = None \<longrightarrow> (\<exists>steps. actionSteps sha actions = Inr steps \<and> handed = datagrams steps) \<and> slot x' = slot x))"
    (is "\<exists>e r' x'. ?run e r' x' \<and> _ \<and> ?out e x'")
proof (cases "actionSteps sha actions")
  case (Inl e)
  then show ?thesis using r by (auto simp: Execute_def)
next
  case steps: (Inr steps)
  obtain q1 x1 where q1: "ctx x = (q1, x1)" by fastforce
  have f1: "slot x1 = slot x" "sent x1 = sent x" using ctx_frame [OF ctx, of x] q1 by auto
  obtain q2 x2 where q2: "cs_Load st x1 = (q2, x2)" by fastforce
  have f2: "slot x2 = slot x" "sent x2 = sent x" "\<And>c. q2 = Inr c \<Longrightarrow> c = slot x"
    using load [OF q2] load_frame [of x1] q2 f1 by auto
  let ?c = "\<lparr>ac_Revision = 0, ac_Operation = ar_nextOperation r, ac_Identity = ar_identity r,
              ac_Phase = ActionCheckpointPrepared, ac_NextStep = 0, ac_Steps = steps\<rparr>"
  obtain q3 x3 where q3: "cs_Create st ?c x2 = (q3, x3)" by fastforce
  have f3: "sent x3 = sent x" using create_frame [of ?c x2] q3 f2 by simp
  have rem: "remaining (?c\<lparr>ac_Revision := v\<rparr>) = datagrams steps" for v by (simp add: remaining_def)
  have bind: "ar_store r = st" using r by (simp add: bound_to_def)
  show ?thesis
  proof (cases "steps = [] \<or> q1 \<noteq> None \<or> q2 \<noteq> Inr None \<or> ar_nextOperation r = 0 \<or> (\<exists>e. q3 = Inl e)")
    case True
    have "subseq (left_over (slot x3)) (left_over (slot x) @ datagrams steps)" if "q3 = Inl e" for e
      using create_fails [OF q3 [unfolded that]] f2 rem by auto
    with True show ?thesis using r steps q1 q2 q3 f1 f2 f3 bind
      by (cases q1; cases q2) (auto simp: Execute_def Let_def errors_join_None_iff split: option.splits sum.splits)
  next
    case False
    then obtain c' where c': "q3 = Inr c'" by (cases q3) auto
    with create [OF q3 [unfolded c']] obtain v where slot: "slot x2 = None" "slot x3 = Some c'" "c' = ?c\<lparr>ac_Revision := v\<rparr>" by blast
    let ?r = "r\<lparr>ar_nextOperation := ar_nextOperation r + 1\<rparr>"
    have b: "bound_to st bk ?r" using r by (simp add: bound_to_def)
    have "at_position c'" "ac_Phase c' = ActionCheckpointPrepared" "remaining c' = datagrams steps"
      using slot(3) rem by (auto simp: at_position_def)
    with continue_spec [OF b ctx slot(2), of False] obtain report e x' where
      run: "continueLocked ctx ?r c' False x3 = Some (report, e, x')"
      and out: "outcome slot sent left_over x3 (datagrams steps) x' e" by auto
    have "Execute sha (Some ctx) actions (Some r) x = Some (e, Some ?r, x')"
      using False steps q1 q2 q3 c' run bind by (simp add: Execute_def Let_def split: option.splits)
    moreover have "?out e x'" using out f2 f3 slot steps by (auto simp: outcome_def)
    ultimately show ?thesis using b by blast
  qed
qed

lemma recover_spec:
  assumes r: "bound_to st bk r" and ctx: "good ctx"
  shows "\<exists>report e x'. Recover sha (Some ctx) (Some r) x = Some (report, e, x')
    \<and> outcome slot sent left_over x (left_over (slot x)) x' e"
proof -
  obtain q1 x1 where q1: "ctx x = (q1, x1)" by fastforce
  have f1: "slot x1 = slot x" "sent x1 = sent x" using ctx_frame [OF ctx, of x] q1 by auto
  obtain q2 x2 where q2: "cs_Load st x1 = (q2, x2)" by fastforce
  have f2: "slot x2 = slot x" "sent x2 = sent x" "\<And>c. q2 = Inr c \<Longrightarrow> c = slot x"
    using load [OF q2] load_frame [of x1] q2 f1 by auto
  have bind: "ar_store r = st" using r by (simp add: bound_to_def)
  show ?thesis
  proof (cases "\<exists>c. q1 = None \<and> q2 = Inr (Some c) \<and> validateStoredActionCheckpoint sha c = None
      \<and> ac_Identity c = ar_identity r")
    case False
    with f1 f2 q1 q2 bind show ?thesis
      by (cases q1; cases q2) (auto simp: Recover_def outcome_def split: option.splits)
  next
    case True
    then obtain c where c: "q1 = None" "q2 = Inr (Some c)" "validateStoredActionCheckpoint sha c = None"
      "ac_Identity c = ar_identity r" by blast
    then have "at_position c" "ac_Phase c = ActionCheckpointPrepared \<or> ac_Phase c = ActionCheckpointAttempting"
      using stored_checkpointD by auto
    moreover have "slot x = Some c" using f2(3) c(2) by metis
    ultimately have "\<exists>report e x'. continueLocked ctx r c True x2 = Some (report, e, x')
        \<and> outcome slot sent left_over x (left_over (slot x)) x' e"
      using continue_spec [OF r ctx, of x2 c True] f2 by (auto simp: outcome_def)
    then show ?thesis using q1 q2 c bind by (simp add: Recover_def)
  qed
qed

lemma restart_spec:
  assumes "NewActionRecovery sha identity (Some bk) (Some st) x = (q, x')"
  shows "slot x' = slot x \<and> sent x' = sent x \<and> (\<forall>r. q = Inr r \<longrightarrow> bound_to st bk r)"
  using assms load [of x] load_frame [of x]
  by (cases "cs_Load st x") (auto simp: NewActionRecovery_def bound_to_def split: option.splits sum.splits)

end

section \<open>Every call of an execution\<close>

text \<open>
  \<open>log\<close> is the history of all calls of the backend, sends and re-injections. It contains the history
  of the datagrams, so the contract above follows.
\<close>

locale recovery_log = checkpoint_store st slot
  for st :: "'x ActionCheckpointStore" and slot :: "'x \<Rightarrow> ActionCheckpoint option" +
  fixes bk :: "'x ControllerBackend" and good :: "'x go_context \<Rightarrow> bool" and log :: "'x \<Rightarrow> backend_call list"
  assumes ctx_log: "good ctx \<Longrightarrow> slot (snd (ctx x)) = slot x \<and> log (snd (ctx x)) = log x"
    and control_log: "good ctx \<Longrightarrow>
      slot (snd (bk_SendControl bk ctx flow wg p x)) = slot x
      \<and> log (snd (bk_SendControl bk ctx flow wg p x)) = log x @ [Sends flow wg p]"
    and reinject_log: "good ctx \<Longrightarrow>
      slot (snd (bk_Reinject bk ctx flow d x)) = slot x
      \<and> log (snd (bk_Reinject bk ctx flow d x)) = log x @ [Reinjects flow d]"
    and load_log: "log (snd (cs_Load st x)) = log x"
    and create_log: "log (snd (cs_Create st c x)) = log x"
    and update_log: "log (snd (cs_Update st n c x)) = log x"
    and transition_log: "cs_Transition st = Some t \<Longrightarrow> log (snd (t n ph k x)) = log x"
    and delete_log: "log (snd (cs_Delete st n x)) = log x"

sublocale recovery_log \<subseteq> datagram: recovery_env st slot bk good "\<lambda>x. reinjections (log x)"
  by unfold_locales
    (simp_all add: ctx_log control_log reinject_log load_log create_log update_log transition_log delete_log)

context recovery_log
begin

lemmas datagram_env = datagram.recovery_env_axioms

lemma advance_log: "bindActionCheckpointUpdate st c x = (q, x') \<Longrightarrow> log x' = log x"
proof (cases "cs_Transition st")
  case None
  then show "bindActionCheckpointUpdate st c x = (q, x') \<Longrightarrow> log x' = log x"
    using update_log [of "ac_Revision c" c x] by (simp add: bindActionCheckpointUpdate_def)
next
  case (Some t)
  then show "bindActionCheckpointUpdate st c x = (q, x') \<Longrightarrow> log x' = log x"
    using transition_log [OF Some, of "ac_Revision c" "ac_Phase c" "ac_NextStep c" x]
    by (auto simp: bindActionCheckpointUpdate_def split: prod.splits sum.splits)
qed

lemma step_log:
  assumes "good ctx" "executeActionStep ctx bk s x = (None, x')"
  shows "slot x' = slot x \<and> log x' = log x @ [step_call s]"
  using assms control_log [OF assms(1), of "as_Flow s" "as_WGID s" "as_Control s" x]
    reinject_log [OF assms(1), of "as_Flow s" "as_Packet s" x]
  by (auto simp: executeActionStep_def step_call_def is_reinject_def split: if_splits prod.splits option.splits)

text \<open>A loop that ends without an error has made the calls of all its steps.\<close>

lemma loop_log:
  assumes "bound_to st bk r" "good ctx"
    and "slot x = Some c" "ac_Phase c = ActionCheckpointPrepared" "0 \<le> ac_NextStep c"
    and "continue_loop ctx r c report x = Some (report', None, x')"
  shows "log x' = log x @ map step_call (drop (nat (ac_NextStep c)) (ac_Steps c))"
  using assms(3-)
proof (induction "nat (int (length (ac_Steps c)) - ac_NextStep c)" arbitrary: c x report)
  case 0
  then have "\<not> ac_NextStep c < int (length (ac_Steps c))" by simp
  then show ?case
    using 0 assms(1) delete_log [of "ac_Revision c" x]
    by (subst (asm) continue_loop.simps) (auto simp: bound_to_def split: prod.splits option.splits)
next
  case (Suc n)
  let ?next = "ac_NextStep c" and ?s = "ac_Steps c ! nat (ac_NextStep c)"
  have lt: "?next < int (length (ac_Steps c))" using Suc.hyps(2) by simp
  have bind: "ar_backend r = bk" "ar_updateCheckpoint r = bindActionCheckpointUpdate st"
    using assms(1) by (simp_all add: bound_to_def)
  obtain x1 m x2 where ctx: "ctx x = (None, x1)"
    and mark: "bindActionCheckpointUpdate st (c\<lparr>ac_Phase := ActionCheckpointAttempting\<rparr>) x1 = (Inr m, x2)"
    and more: "(case executeActionStep ctx bk (ac_Steps m ! nat (ac_NextStep m)) x2 of
        (Some e, x3) \<Rightarrow> Some (report, Some (required ''step'' [e]), x3)
      | (None, x3) \<Rightarrow>
         (case bindActionCheckpointUpdate st
             (m\<lparr>ac_Phase := ActionCheckpointPrepared, ac_NextStep := ac_NextStep m + 1\<rparr>) x3 of
           (Inl e, x4) \<Rightarrow> Some (report, Some (required ''checkpoint completed faketcp action step'' [e]), x4)
         | (Inr c', x4) \<Rightarrow> continue_loop ctx r c'
             (report\<lparr>rr_CompletedSteps := rr_CompletedSteps report + 1\<rparr>) x4)) = Some (report', None, x')"
    using Suc.prems(4) lt
    by (subst (asm) continue_loop.simps) (auto simp: bind split: prod.splits option.splits sum.splits if_splits)
  have f1: "slot x1 = Some c" "log x1 = log x" using ctx_log [OF assms(2), of x] ctx Suc.prems(1) by auto
  obtain v where m: "slot x2 = Some m" "m = c\<lparr>ac_Phase := ActionCheckpointAttempting, ac_NextStep := ?next, ac_Revision := v\<rparr>"
    using advance [OF f1(1), where ph = ActionCheckpointAttempting and k = ?next and c' = m and x' = x2] mark by auto
  have f2: "log x2 = log x" using advance_log [OF mark] f1(2) by simp
  from more obtain x3 c' x4 where ex: "executeActionStep ctx bk ?s x2 = (None, x3)"
    and fin: "bindActionCheckpointUpdate st (m\<lparr>ac_Phase := ActionCheckpointPrepared, ac_NextStep := ?next + 1\<rparr>) x3 = (Inr c', x4)"
    and loop: "continue_loop ctx r c' (report\<lparr>rr_CompletedSteps := rr_CompletedSteps report + 1\<rparr>) x4 = Some (report', None, x')"
    by (auto simp: m(2) split: prod.splits option.splits sum.splits)
  have f3: "slot x3 = Some m" "log x3 = log x @ [step_call ?s]" using step_log [OF assms(2) ex] m(1) f2 by auto
  obtain v' where c': "slot x4 = Some c'"
    "c' = m\<lparr>ac_Phase := ActionCheckpointPrepared, ac_NextStep := ?next + 1, ac_Revision := v'\<rparr>"
    using advance [OF f3(1) fin] by blast
  have "n = nat (int (length (ac_Steps c')) - ac_NextStep c')" using Suc.hyps(2) by (simp add: c'(2) m(2))
  from Suc.hyps(1) [OF this c'(1) _ _ loop]
  have "log x' = log x4 @ map step_call (drop (Suc (nat ?next)) (ac_Steps c))"
    using Suc.prems(3) by (simp add: c'(2) m(2) nat_add_distrib)
  moreover have "drop (nat ?next) (ac_Steps c) = ?s # drop (Suc (nat ?next)) (ac_Steps c)"
    using lt Suc.prems(3) by (simp add: Cons_nth_drop_Suc)
  ultimately show ?case using advance_log [OF fin] f3(2) by simp
qed

lemma execute_log:
  assumes r: "bound_to st bk r" and ctx: "good ctx"
    and run: "Execute sha (Some ctx) actions (Some r) x = Some (None, r', x')"
  shows "\<exists>steps. actionSteps sha actions = Inr steps \<and> log x' = log x @ map step_call steps"
proof (cases "actionSteps sha actions")
  case (Inl e)
  then show ?thesis using run by (simp add: Execute_def)
next
  case steps: (Inr steps)
  show ?thesis
  proof (cases "steps = []")
    case True
    then show ?thesis using run steps by (simp add: Execute_def)
  next
    case False
    let ?c = "\<lparr>ac_Revision = 0, ac_Operation = ar_nextOperation r, ac_Identity = ar_identity r,
              ac_Phase = ActionCheckpointPrepared, ac_NextStep = 0, ac_Steps = steps\<rparr>"
    let ?r = "r\<lparr>ar_nextOperation := ar_nextOperation r + 1\<rparr>"
    obtain x1 x2 c' x3 report where q: "ctx x = (None, x1)" "cs_Load st x1 = (Inr None, x2)"
      "cs_Create st ?c x2 = (Inr c', x3)" "continueLocked ctx ?r c' False x3 = Some (report, None, x')"
      using run steps False r
      by (auto simp: Execute_def bound_to_def Let_def errors_join_None_iff
          split: prod.splits option.splits sum.splits if_splits)
    obtain v where c': "slot x3 = Some c'" "c' = ?c\<lparr>ac_Revision := v\<rparr>" using create [OF q(3)] by blast
    have "log x3 = log x" using ctx_log [OF ctx, of x] load_log [of x1] create_log [of ?c x2] q(1-3) by simp
    moreover have "bound_to st bk ?r" using r by (simp add: bound_to_def)
    moreover have "continue_loop ctx ?r c' zero_report x3 = Some (report, None, x')"
      using q(4) by (simp add: continueLocked_def c'(2))
    ultimately show ?thesis using loop_log [OF _ ctx c'(1)] steps by (simp add: c'(2))
  qed
qed

end

section \<open>At most one hand-over per datagram\<close>

text \<open>
  A run of a recovery object: executions, recoveries, and restarts of the process, which build a
  new object over the same store. A process that dies inside a call is a call whose remaining
  effects fail, followed by a restart.
\<close>

datatype 'x recovery_call =
    DoExecute "'x go_context" "Action list"
  | DoRecover "'x go_context"
  | DoRestart RuntimeIdentity

fun run_recovery ::
  "(byte list \<Rightarrow> byte list) \<Rightarrow> 'x ActionCheckpointStore \<Rightarrow> 'x ControllerBackend \<Rightarrow> 'x recovery_call list
     \<Rightarrow> 'x ActionRecovery option \<Rightarrow> 'x \<Rightarrow> ('x ActionRecovery option \<times> 'x) option" where
  "run_recovery sha st bk [] r x = Some (r, x)"
| "run_recovery sha st bk (DoExecute ctx actions # calls) r x =
     (case Execute sha (Some ctx) actions r x of
        None \<Rightarrow> None | Some (e, r', x') \<Rightarrow> run_recovery sha st bk calls r' x')"
| "run_recovery sha st bk (DoRecover ctx # calls) r x =
     (case Recover sha (Some ctx) r x of
        None \<Rightarrow> None | Some (report, e, x') \<Rightarrow> run_recovery sha st bk calls r x')"
| "run_recovery sha st bk (DoRestart identity # calls) r x =
     (case NewActionRecovery sha identity (Some bk) (Some st) x of
        (Inl e, x') \<Rightarrow> run_recovery sha st bk calls None x'
      | (Inr r', x') \<Rightarrow> run_recovery sha st bk calls (Some r') x')"

text \<open>
  The datagrams that the executed actions release, in order, each capture once per execution; a
  list of actions that is refused releases none.
\<close>

fun submitted :: "(byte list \<Rightarrow> byte list) \<Rightarrow> 'x recovery_call list \<Rightarrow> (FakeTCPSessionKey \<times> PendingPacket) list" where
  "submitted sha [] = []"
| "submitted sha (DoExecute ctx actions # calls) =
     (case actionSteps sha actions of
        Inl _ \<Rightarrow> []
      | Inr _ \<Rightarrow> reinjections (once_each {} (action_calls actions))) @ submitted sha calls"
| "submitted sha (DoRecover ctx # calls) = submitted sha calls"
| "submitted sha (DoRestart identity # calls) = submitted sha calls"

fun contexts_ok :: "('x go_context \<Rightarrow> bool) \<Rightarrow> 'x recovery_call list \<Rightarrow> bool" where
  "contexts_ok good [] = True"
| "contexts_ok good (DoExecute ctx actions # calls) = (good ctx \<and> contexts_ok good calls)"
| "contexts_ok good (DoRecover ctx # calls) = (good ctx \<and> contexts_ok good calls)"
| "contexts_ok good (DoRestart identity # calls) = contexts_ok good calls"

lemma submitted_steps:
  "(case actionSteps sha actions of Inl _ \<Rightarrow> [] | Inr _ \<Rightarrow> reinjections (once_each {} (action_calls actions)))
     = (case actionSteps sha actions of Inl _ \<Rightarrow> [] | Inr steps \<Rightarrow> datagrams steps)"
  by (auto simp: datagrams_calls actionSteps_calls split: sum.split)

context recovery_env
begin

lemma call_spec:
  assumes "contexts_ok good [call]" "\<forall>r'. r = Some r' \<longrightarrow> bound_to st bk r'"
  shows "\<exists>r1 x1 handed. (\<forall>calls. run_recovery sha st bk (call # calls) r x = run_recovery sha st bk calls r1 x1)
    \<and> (\<forall>r'. r1 = Some r' \<longrightarrow> bound_to st bk r') \<and> sent x1 = sent x @ handed
    \<and> subseq (handed @ left_over (slot x1)) (left_over (slot x) @ submitted sha [call])"
proof (cases call)
  case (DoExecute ctx actions)
  then have ctx: "good ctx" using assms(1) by simp
  show ?thesis
  proof (cases r)
    case None
    then show ?thesis
      by (intro exI [of _ None] exI [of _ x] exI [of _ "[]"]) (simp add: DoExecute Execute_def subseq_append_right)
  next
    case (Some r')
    have "submitted sha [call] = (case actionSteps sha actions of Inl _ \<Rightarrow> [] | Inr steps \<Rightarrow> datagrams steps)"
      by (simp add: DoExecute submitted_steps)
    with Some execute_spec [OF _ ctx, of r' sha actions x] assms(2) show ?thesis
      unfolding DoExecute by (fastforce simp del: submitted.simps)
  qed
next
  case (DoRecover ctx)
  then have ctx: "good ctx" using assms(1) by simp
  show ?thesis
  proof (cases r)
    case None
    then show ?thesis
      by (intro exI [of _ None] exI [of _ x] exI [of _ "[]"]) (simp add: DoRecover Recover_def)
  next
    case (Some r')
    with recover_spec [OF _ ctx, of r' sha x] assms(2) show ?thesis by (fastforce simp: DoRecover outcome_def)
  qed
next
  case (DoRestart identity)
  obtain q x' where q: "NewActionRecovery sha identity (Some bk) (Some st) x = (q, x')" by fastforce
  with restart_spec [OF q] show ?thesis
    by (intro exI [of _ "case q of Inl _ \<Rightarrow> None | Inr r' \<Rightarrow> Some r'"] exI [of _ x'] exI [of _ "[]"])
      (auto simp: DoRestart split: sum.splits)
qed

lemma run_spec:
  assumes "contexts_ok good calls" "\<forall>r'. r = Some r' \<longrightarrow> bound_to st bk r'"
  shows "\<exists>r' x' handed. run_recovery sha st bk calls r x = Some (r', x') \<and> sent x' = sent x @ handed
    \<and> subseq (handed @ left_over (slot x')) (left_over (slot x) @ submitted sha calls)"
  using assms
proof (induction calls arbitrary: r x)
  case Nil
  then show ?case by simp
next
  case (Cons call calls)
  have "contexts_ok good [call]" "contexts_ok good calls" using Cons.prems(1) by (cases call; simp)+
  moreover have split: "submitted sha (call # calls) = submitted sha [call] @ submitted sha calls"
    by (cases call) auto
  ultimately obtain r1 x1 h1 r' x' h2 where
      "run_recovery sha st bk (call # calls) r x = Some (r', x')"
    and sent: "sent x1 = sent x @ h1" "sent x' = sent x1 @ h2"
    and one: "subseq (h1 @ left_over (slot x1)) (left_over (slot x) @ submitted sha [call])"
    and rest: "subseq (h2 @ left_over (slot x')) (left_over (slot x1) @ submitted sha calls)"
    using call_spec [of call r sha x] Cons.IH Cons.prems(2) by metis
  moreover have "subseq ((h1 @ h2) @ left_over (slot x')) (left_over (slot x) @ submitted sha (call # calls))"
    using subseq_order.trans [OF list_emb_append_mono [OF subseq_order.refl [of h1] rest], of "left_over (slot x) @ submitted sha (call # calls)"]
      list_emb_append_mono [OF one subseq_order.refl [of "submitted sha calls"]]
    by (simp add: split)
  ultimately show ?case by (intro exI [of _ r'] exI [of _ x'] exI [of _ "h1 @ h2"]) simp
qed

end

section \<open>The in-memory store keeps the contract\<close>

text \<open>
  A world with the in-memory store, a backend that records what it is handed and answers from a
  list of outcomes, and contexts that are never or always cancelled.
\<close>

record rwork =
  rw_store :: "MemoryActionCheckpointStore option"
  rw_calls :: "backend_call list"
  rw_faults :: "bool list"

definition rw_sent :: "rwork \<Rightarrow> (FakeTCPSessionKey \<times> PendingPacket) list" where
  "rw_sent x = reinjections (rw_calls x)"

definition on_store ::
  "(MemoryActionCheckpointStore option \<Rightarrow> 'r \<times> MemoryActionCheckpointStore option) \<Rightarrow> rwork \<Rightarrow> 'r \<times> rwork" where
  "on_store f x = (case f (rw_store x) of (r, st) \<Rightarrow> (r, x\<lparr>rw_store := st\<rparr>))"

definition memory_store :: "(byte list \<Rightarrow> byte list) \<Rightarrow> rwork ActionCheckpointStore" where
  "memory_store sha = \<lparr>cs_Load = on_store LoadActionCheckpoint,
     cs_Create = (\<lambda>c. on_store (CreateActionCheckpoint sha c)),
     cs_Update = (\<lambda>n c. on_store (UpdateActionCheckpoint sha n c)),
     cs_Delete = (\<lambda>n. on_store (DeleteActionCheckpoint n)),
     cs_Transition = Some (\<lambda>n ph k. on_store (TransitionActionCheckpoint n ph k))\<rparr>"

definition memory_slot :: "rwork \<Rightarrow> ActionCheckpoint option" where
  "memory_slot x = Option.bind (rw_store x) ms_checkpoint"

definition next_fault :: "rwork \<Rightarrow> err option \<times> rwork" where
  "next_fault x = (case rw_faults x of
     [] \<Rightarrow> (None, x) | f # fs \<Rightarrow> (if f then Some (ErrExt 1) else None, x\<lparr>rw_faults := fs\<rparr>))"

definition recording_backend :: "rwork ControllerBackend" where
  "recording_backend = \<lparr>
     bk_SendControl = (\<lambda>ctx flow wg p x. next_fault (x\<lparr>rw_calls := rw_calls x @ [Sends flow wg p]\<rparr>)),
     bk_Reinject = (\<lambda>ctx flow d x. next_fault (x\<lparr>rw_calls := rw_calls x @ [Reinjects flow d]\<rparr>)),
     bk_Close = next_fault\<rparr>"

definition live_context :: "rwork go_context" where
  "live_context x = (None, x)"

definition quiet_context :: "rwork go_context \<Rightarrow> bool" where
  "quiet_context ctx \<longleftrightarrow> (\<forall>x. snd (ctx x) = x)"

lemmas memory_defs = memory_store_def on_store_def memory_slot_def
lemmas memory_op_defs = LoadActionCheckpoint_def CreateActionCheckpoint_def UpdateActionCheckpoint_def
  TransitionActionCheckpoint_def DeleteActionCheckpoint_def allocateRevisionLocked_def holds_revision_def

interpretation mem_store: checkpoint_store "memory_store sha" memory_slot
  by unfold_locales
    (auto simp: memory_defs memory_op_defs Let_def split: option.splits if_splits prod.splits sum.splits)

lemma next_fault_frame [simp]:
  "rw_store (snd (next_fault x)) = rw_store x" "rw_calls (snd (next_fault x)) = rw_calls x"
  by (auto simp: next_fault_def split: list.splits)

interpretation mem_log: recovery_log "memory_store sha" memory_slot recording_backend quiet_context rw_calls
  by unfold_locales
    (auto simp: memory_store_def on_store_def memory_slot_def recording_backend_def quiet_context_def
      split: prod.splits)

interpretation mem_env: recovery_env "memory_store sha" memory_slot recording_backend quiet_context rw_sent
  using mem_log.datagram.recovery_env_axioms by (simp add: rw_sent_def [abs_def])

text \<open>
  C5. Whatever fails, and however often the process restarts over the checkpoint store, the
  datagrams that reach the backend are, in order, a subsequence of the datagrams that the executed
  actions released: each is handed over at most once, none that was already attempted is sent
  again, and every call returns. Hence no captured packet is handed over twice unless two
  executions released it. The store is any store that keeps its documented contract.
\<close>

theorem reinjection_at_most_once:
  assumes "recovery_env st slot bk good sent" "contexts_ok good calls" "slot x = None"
  shows "\<exists>r' x' handed. run_recovery sha st bk calls None x = Some (r', x') \<and> sent x' = sent x @ handed
    \<and> subseq handed (submitted sha calls)
    \<and> (distinct (map (\<lambda>d. pp_CaptureID (snd d)) (submitted sha calls))
        \<longrightarrow> distinct (map (\<lambda>d. pp_CaptureID (snd d)) handed))"
proof -
  from recovery_env.run_spec [OF assms(1,2), of None sha x] assms(3)
  obtain r' x' handed where run: "run_recovery sha st bk calls None x = Some (r', x')" "sent x' = sent x @ handed"
    and sub: "subseq (handed @ left_over (slot x')) (submitted sha calls)" by auto
  have "subseq handed (submitted sha calls)"
    using subseq_order.trans [OF subseq_append_right sub] .
  moreover from this have "subseq (map (\<lambda>d. pp_CaptureID (snd d)) handed) (map (\<lambda>d. pp_CaptureID (snd d)) (submitted sha calls))"
    by (rule subseq_map)
  ultimately show ?thesis using run subseq_distinct by blast
qed

definition sample_datagram :: "u64 \<Rightarrow> PendingPacket" where
  "sample_datagram n = \<lparr>pp_Data = [1, 2], pp_FWMark = 5, pp_WGID = k_WGID sample_key, pp_CaptureNanos = 0,
     pp_CaptureID = \<lparr>ci_Runtime = \<lparr>rt_Generation = 7, rt_Incarnation = sample_incarnation\<rparr>, ci_CPU = 0,
       ci_Sequence = n\<rparr>,
     pp_CaptureFingerprint = replicate 32 1, pp_dataOwned = True\<rparr>"

definition sample_release :: "Action list" where
  "sample_release = [(plain_action ActionReleasePending sample_key ''established'')
     \<lparr>a_Packets := [sample_datagram 1, sample_datagram 2, sample_datagram 1]\<rparr>]"

definition sample_rwork :: "bool list \<Rightarrow> rwork" where
  "sample_rwork faults = \<lparr>rw_store = Some NewMemoryActionCheckpointStore, rw_calls = [], rw_faults = faults\<rparr>"

definition sample_recovery_calls :: "rwork recovery_call list" where
  "sample_recovery_calls = [DoRestart (dom_identity sample_domain), DoExecute live_context sample_release,
     DoRestart (dom_identity sample_domain), DoRecover live_context]"

theorem reinjection_at_most_once_witness:
  "\<exists>r' x'. run_recovery (take 32) (memory_store (take 32)) recording_backend sample_recovery_calls None (sample_rwork [True])
       = Some (r', x')
     \<and> map (\<lambda>d. ci_Sequence (pp_CaptureID (snd d))) (rw_sent x') = [1, 2]
     \<and> distinct (map (\<lambda>d. pp_CaptureID (snd d)) (rw_sent x'))"
proof -
  let ?run = "run_recovery (take 32) (memory_store (take 32)) recording_backend sample_recovery_calls None (sample_rwork [True])"
  have "contexts_ok quiet_context sample_recovery_calls"
    by (simp add: sample_recovery_calls_def quiet_context_def live_context_def)
  moreover have "memory_slot (sample_rwork [True]) = None" by code_simp
  moreover have "distinct (map (\<lambda>d. pp_CaptureID (snd d)) (submitted (take 32) sample_recovery_calls))" by code_simp
  ultimately obtain r' x' where run: "?run = Some (r', x')"
    and "distinct (map (\<lambda>d. pp_CaptureID (snd d)) (rw_sent x'))"
    using reinjection_at_most_once [OF mem_env.recovery_env_axioms, of sample_recovery_calls "sample_rwork [True]" "take 32" "take 32"]
    by (auto simp: sample_rwork_def rw_sent_def)
  moreover have "map_option (\<lambda>(r, x). map (\<lambda>d. ci_Sequence (pp_CaptureID (snd d))) (rw_sent x)) ?run = Some [1, 2]"
    by code_simp
  ultimately show ?thesis by simp
qed

section \<open>Revisions of the in-memory store\<close>

datatype store_op =
    OpLoad
  | OpCreate ActionCheckpoint
  | OpUpdate u64 ActionCheckpoint
  | OpTransition u64 u8 int
  | OpDelete u64

text \<open>An operation on the store with the revision that it issued.\<close>

definition issued_by :: "err + ActionCheckpoint \<Rightarrow> u64 list" where
  "issued_by q = (case q of Inl _ \<Rightarrow> [] | Inr c \<Rightarrow> [ac_Revision c])"

fun apply_op ::
  "(byte list \<Rightarrow> byte list) \<Rightarrow> store_op \<Rightarrow> MemoryActionCheckpointStore option
     \<Rightarrow> u64 list \<times> MemoryActionCheckpointStore option" where
  "apply_op sha OpLoad st = ([], snd (LoadActionCheckpoint st))"
| "apply_op sha (OpCreate c) st = (case CreateActionCheckpoint sha c st of (q, st') \<Rightarrow> (issued_by q, st'))"
| "apply_op sha (OpUpdate n c) st = (case UpdateActionCheckpoint sha n c st of (q, st') \<Rightarrow> (issued_by q, st'))"
| "apply_op sha (OpTransition n ph k) st =
     (case TransitionActionCheckpoint n ph k st of (q, st') \<Rightarrow> (case q of Inl _ \<Rightarrow> [] | Inr v \<Rightarrow> [v], st'))"
| "apply_op sha (OpDelete n) st = ([], snd (DeleteActionCheckpoint n st))"

fun run_ops ::
  "(byte list \<Rightarrow> byte list) \<Rightarrow> store_op list \<Rightarrow> MemoryActionCheckpointStore option
     \<Rightarrow> u64 list \<times> MemoryActionCheckpointStore option" where
  "run_ops sha [] st = ([], st)"
| "run_ops sha (op # ops) st =
     (case apply_op sha op st of (vs, st') \<Rightarrow> case run_ops sha ops st' of (vs', st'') \<Rightarrow> (vs @ vs', st''))"

definition memory_ok :: "(byte list \<Rightarrow> byte list) \<Rightarrow> MemoryActionCheckpointStore \<Rightarrow> bool" where
  "memory_ok sha st \<longleftrightarrow> (\<forall>c. ms_checkpoint st = Some c \<longrightarrow> validateStoredActionCheckpoint sha c = None
     \<and> (ms_nextRevision st \<noteq> 0 \<longrightarrow> ac_Revision c < ms_nextRevision st))"

lemma word_less_plus_1: "(w :: u64) + 1 \<noteq> 0 \<Longrightarrow> w < w + 1"
  by (metis add.left_inverse inc_less_eq_self_iff_eq linorder_not_le)

lemma validate_moved:
  "validateActionCheckpoint sha (c\<lparr>ac_Phase := ph, ac_NextStep := k, ac_Revision := v\<rparr>) = None \<longleftrightarrow>
     validateActionCheckpoint sha (c\<lparr>ac_Phase := ph, ac_NextStep := k\<rparr>) = None"
  "validateActionCheckpoint sha c = None \<Longrightarrow>
     validateActionCheckpointPosition ph k (int (length (ac_Steps c))) = None \<Longrightarrow>
     validateActionCheckpoint sha (c\<lparr>ac_Phase := ph, ac_NextStep := k\<rparr>) = None"
  "validateActionCheckpoint sha (c\<lparr>ac_Revision := v\<rparr>) = validateActionCheckpoint sha c"
  by (auto simp: validateActionCheckpoint_def validateCheckpointCaptureBindings_def
      simp del: validateRuntimeIdentity_None split: option.splits if_splits)

lemma apply_op_spec:
  assumes "apply_op sha op (Some st) = (vs, st')" "memory_ok sha st"
  shows "\<exists>st1. st' = Some st1 \<and> memory_ok sha st1
    \<and> (vs = [] \<and> ms_nextRevision st1 = ms_nextRevision st
       \<or> ms_nextRevision st \<noteq> 0 \<and> vs = [ms_nextRevision st] \<and> ms_nextRevision st1 = ms_nextRevision st + 1)"
  using assms
  by (cases op) (auto simp: memory_op_defs memory_ok_def issued_by_def Let_def validateStoredActionCheckpoint_def
      validate_moved word_less_plus_1 split: option.splits if_splits prod.splits sum.splits)

lemma run_ops_spec:
  assumes "run_ops sha ops (Some st) = (vs, st')" "memory_ok sha st"
  shows "\<exists>st1. st' = Some st1 \<and> memory_ok sha st1 \<and> sorted_wrt (<) vs
    \<and> (\<forall>v \<in> set vs. ms_nextRevision st \<noteq> 0 \<and> ms_nextRevision st \<le> v)"
  using assms
proof (induction ops arbitrary: st vs)
  case (Cons op ops)
  obtain v1 s1 where one: "apply_op sha op (Some st) = (v1, s1)" by fastforce
  from apply_op_spec [OF one Cons.prems(2)] obtain st1 where st1: "s1 = Some st1" "memory_ok sha st1"
    and issued: "v1 = [] \<and> ms_nextRevision st1 = ms_nextRevision st
       \<or> ms_nextRevision st \<noteq> 0 \<and> v1 = [ms_nextRevision st] \<and> ms_nextRevision st1 = ms_nextRevision st + 1" by blast
  obtain v2 where two: "run_ops sha ops (Some st1) = (v2, st')" "vs = v1 @ v2"
    using Cons.prems(1) one st1(1) by (auto split: prod.splits)
  from Cons.IH [OF two(1) st1(2)] obtain st2 where ih: "st' = Some st2" "memory_ok sha st2" "sorted_wrt (<) v2"
    "\<forall>v \<in> set v2. ms_nextRevision st1 \<noteq> 0 \<and> ms_nextRevision st1 \<le> v" by blast
  have "ms_nextRevision st < v" if "v1 \<noteq> []" "v \<in> set v2" for v
    using ih(4) that issued word_less_plus_1 [of "ms_nextRevision st"] by force
  then show ?case using ih issued two(2) by (auto simp: less_imp_le)
qed auto

text \<open>
  C19. However the in-memory checkpoint store is used, what it holds is a valid stored checkpoint
  (a non-zero revision and operation, a position inside the step list, valid steps of the
  checkpoint's own runtime identity and no repeated capture), and the revisions that it issues
  strictly increase. A revision is therefore never issued twice, even when the 64-bit counter
  runs out, so that a compare-and-swap on a stale revision cannot succeed.
\<close>

theorem memory_store_typed:
  assumes "run_ops sha ops (Some NewMemoryActionCheckpointStore) = (vs, st)"
  shows "\<exists>s. st = Some s \<and> sorted_wrt (<) vs
    \<and> (\<forall>c. ms_checkpoint s = Some c \<longrightarrow> validateStoredActionCheckpoint sha c = None
        \<and> distinct (reinjected (ac_Steps c)))"
proof -
  have "memory_ok sha NewMemoryActionCheckpointStore" by (simp add: memory_ok_def NewMemoryActionCheckpointStore_def)
  from run_ops_spec [OF assms this] obtain s where s: "st = Some s" "memory_ok sha s" "sorted_wrt (<) vs" by blast
  moreover have "distinct (reinjected (ac_Steps c))" if "validateStoredActionCheckpoint sha c = None" for c
    using that
    by (auto simp: validateStoredActionCheckpoint_def validateActionCheckpoint_def
        validateCheckpointCaptureBindings_def capture_bindings_None split: if_splits option.splits)
  ultimately show ?thesis by (auto simp: memory_ok_def)
qed

definition sample_checkpoint :: ActionCheckpoint where
  "sample_checkpoint = \<lparr>ac_Revision = 0, ac_Operation = 1, ac_Identity = dom_identity sample_domain,
     ac_Phase = ActionCheckpointPrepared, ac_NextStep = 0,
     ac_Steps = [reinject_step (plain_action ActionReleasePending sample_key ''established'') (sample_datagram 1)]\<rparr>"

definition sample_ops :: "store_op list" where
  "sample_ops = [OpCreate sample_checkpoint, OpTransition 1 ActionCheckpointAttempting 0,
     OpTransition 1 ActionCheckpointPrepared 1, OpTransition 2 ActionCheckpointPrepared 1]"

theorem memory_store_typed_witness:
  "\<exists>s c. run_ops (take 32) sample_ops (Some NewMemoryActionCheckpointStore) = ([1, 2, 3], Some s)
     \<and> ms_checkpoint s = Some c \<and> validateStoredActionCheckpoint (take 32) c = None"
proof -
  let ?run = "run_ops (take 32) sample_ops (Some NewMemoryActionCheckpointStore)"
  have "fst ?run = [1, 2, 3]" by code_simp
  then obtain st where run: "?run = ([1, 2, 3], st)" by (cases ?run) simp
  from memory_store_typed [OF run] obtain s where s: "st = Some s"
    "\<forall>c. ms_checkpoint s = Some c \<longrightarrow> validateStoredActionCheckpoint (take 32) c = None" by blast
  moreover have "Option.bind (snd ?run) ms_checkpoint \<noteq> None" by code_simp
  ultimately show ?thesis using run by auto
qed

section \<open>Recovery finishes when the outside answers\<close>

text \<open>
  \<open>calm\<close> worlds are those in which contexts are live and the backend succeeds, and \<open>room\<close> is the
  number of writes that the store still accepts.
\<close>

locale recovery_live = recovery_env st slot bk good sent
  for st :: "'x ActionCheckpointStore" and slot bk good sent +
  fixes calm :: "'x \<Rightarrow> bool" and room :: "'x \<Rightarrow> nat" and live :: "'x go_context"
  assumes live_good: "good live"
    and live: "calm x \<Longrightarrow> live x = (None, x)"
    and load_answers: "calm x \<Longrightarrow> cs_Load st x = (Inr (slot x), x)"
    and control_answers: "calm x \<Longrightarrow>
      \<exists>x'. bk_SendControl bk live flow wg p x = (None, x') \<and> calm x' \<and> room x' = room x"
    and reinject_answers: "calm x \<Longrightarrow>
      \<exists>x'. bk_Reinject bk live flow d x = (None, x') \<and> calm x' \<and> room x' = room x"
    and advance_answers: "calm x \<Longrightarrow> slot x = Some c \<Longrightarrow> ac_Revision c \<noteq> 0 \<Longrightarrow> 0 < room x \<Longrightarrow>
      validateActionCheckpointPosition ph k (int (length (ac_Steps c))) = None \<Longrightarrow>
      \<exists>c' x'. bindActionCheckpointUpdate st (c\<lparr>ac_Phase := ph, ac_NextStep := k\<rparr>) x = (Inr c', x')
        \<and> ac_Revision c' \<noteq> 0 \<and> calm x' \<and> room x = Suc (room x')"
    and delete_answers: "calm x \<Longrightarrow> slot x = Some c \<Longrightarrow> ac_Revision c \<noteq> 0 \<Longrightarrow>
      \<exists>x'. cs_Delete st (ac_Revision c) x = (None, x') \<and> calm x'"
begin

lemma step_answers:
  assumes "calm x" "as_Kind s = ActionStepSendControl \<or> as_Kind s = ActionStepReinject"
  shows "\<exists>x'. executeActionStep live bk s x = (None, x') \<and> calm x' \<and> room x' = room x"
  using assms control_answers [OF assms(1), of "as_Flow s" "as_WGID s" "as_Control s"]
    reinject_answers [OF assms(1), of "as_Flow s" "as_Packet s"]
  by (auto simp: executeActionStep_def)

lemma loop_answers:
  assumes "bound_to st bk r"
    and "\<forall>s \<in> set (ac_Steps c). as_Kind s = ActionStepSendControl \<or> as_Kind s = ActionStepReinject"
    and "calm x" "slot x = Some c" "ac_Revision c \<noteq> 0" "ac_Phase c = ActionCheckpointPrepared" "at_position c"
    and "2 * nat (int (length (ac_Steps c)) - ac_NextStep c) \<le> room x"
  shows "\<exists>report' x'. continue_loop live r c report x = Some (report', None, x') \<and> calm x'"
  using assms(2-)
proof (induction "nat (int (length (ac_Steps c)) - ac_NextStep c)" arbitrary: c x report)
  case 0
  then have "\<not> ac_NextStep c < int (length (ac_Steps c))" by simp
  then show ?case using delete_answers [OF 0(3,4,5)] assms(1)
    by (subst continue_loop.simps) (auto simp: bound_to_def)
next
  case (Suc n)
  let ?next = "ac_NextStep c"
  have lt: "0 \<le> ?next" "?next < int (length (ac_Steps c))" using Suc by (auto simp: at_position_def)
  have bind: "ar_backend r = bk" "ar_updateCheckpoint r = bindActionCheckpointUpdate st"
    using assms(1) by (simp_all add: bound_to_def)
  have "0 < room x" using Suc by simp
  with advance_answers [OF Suc.prems(2,3,4), of ActionCheckpointAttempting ?next] lt
  obtain m x1 where m: "bindActionCheckpointUpdate st (c\<lparr>ac_Phase := ActionCheckpointAttempting, ac_NextStep := ?next\<rparr>) x = (Inr m, x1)"
    and m': "ac_Revision m \<noteq> 0" "calm x1" "room x = Suc (room x1)" by (auto simp: position_None)
  from advance [OF Suc.prems(3) m] obtain v where slot: "slot x1 = Some m"
    and meq: "m = c\<lparr>ac_Phase := ActionCheckpointAttempting, ac_NextStep := ?next, ac_Revision := v\<rparr>" by blast
  have "ac_Steps c ! nat ?next \<in> set (ac_Steps c)" using lt by simp
  with Suc.prems(1) step_answers [OF m'(2)] obtain x2 where
    ex: "executeActionStep live bk (ac_Steps c ! nat ?next) x1 = (None, x2)" "calm x2" "room x2 = room x1" by blast
  have slot2: "slot x2 = Some m" using execute_step_frame [OF live_good ex(1)] slot by simp
  have "0 < room x2" using Suc.hyps(2) Suc.prems(7) m'(3) ex(3) by simp
  with advance_answers [OF ex(2) slot2 m'(1), of ActionCheckpointPrepared "?next + 1"] lt
  obtain c' x3 where c': "bindActionCheckpointUpdate st (m\<lparr>ac_Phase := ActionCheckpointPrepared, ac_NextStep := ?next + 1\<rparr>) x2 = (Inr c', x3)"
    and c'': "ac_Revision c' \<noteq> 0" "calm x3" "room x2 = Suc (room x3)" by (auto simp: position_None meq)
  from advance [OF slot2 c'] obtain v' where slot3: "slot x3 = Some c'"
    and ceq: "c' = m\<lparr>ac_Phase := ActionCheckpointPrepared, ac_NextStep := ?next + 1, ac_Revision := v'\<rparr>" by blast
  have "continue_loop live r c report x = continue_loop live r c'
      (report\<lparr>rr_CompletedSteps := rr_CompletedSteps report + 1\<rparr>) x3"
    using live [OF Suc.prems(2)] m ex(1) c' lt by (subst continue_loop.simps) (simp add: bind meq)
  moreover have "\<exists>report' x'. continue_loop live r c' (report\<lparr>rr_CompletedSteps := rr_CompletedSteps report + 1\<rparr>) x3
      = Some (report', None, x') \<and> calm x'"
    using Suc.hyps(2) Suc.prems(1,6,7) lt m'(3) ex(3) c''(3)
    by (intro Suc.hyps(1) [OF _ _ c''(2) slot3 c''(1)]) (auto simp: ceq meq at_position_def nat_add_distrib)
  ultimately show ?case by simp
qed

lemma continue_answers:
  assumes r: "bound_to st bk r" and x: "calm x" "slot x = Some c"
    and c: "validateStoredActionCheckpoint sha c = None"
    and room: "2 * length (ac_Steps c) + 1 \<le> room x"
  shows "\<exists>report x'. continueLocked live r c True x = Some (report, None, x')"
proof -
  have rev: "ac_Revision c \<noteq> 0" and pos: "at_position c"
    and phase: "ac_Phase c = ActionCheckpointPrepared \<or> ac_Phase c = ActionCheckpointAttempting"
    and kinds: "\<forall>s \<in> set (ac_Steps c). as_Kind s = ActionStepSendControl \<or> as_Kind s = ActionStepReinject"
    using stored_checkpointD [OF c] by auto
  show ?thesis
  proof (cases "ac_Phase c = ActionCheckpointAttempting")
    case False
    have "2 * nat (int (length (ac_Steps c)) - ac_NextStep c) \<le> room x"
      using room pos unfolding at_position_def by linarith
    then show ?thesis
      using False phase loop_answers [OF r kinds x rev _ pos, of zero_report] by (auto simp: continueLocked_def)
  next
    case att: True
    let ?skip = "as_Kind (ac_Steps c ! nat (ac_NextStep c)) = ActionStepReinject"
    let ?n = "if ?skip then ac_NextStep c + 1 else ac_NextStep c"
    have lt: "0 \<le> ac_NextStep c" "ac_NextStep c < int (length (ac_Steps c))" using pos att by (auto simp: at_position_def)
    then have "validateActionCheckpointPosition ActionCheckpointPrepared ?n (int (length (ac_Steps c))) = None"
      by (simp add: position_None)
    moreover have "0 < room x" using room by simp
    ultimately obtain c' x1 where up: "bindActionCheckpointUpdate st (c\<lparr>ac_Phase := ActionCheckpointPrepared, ac_NextStep := ?n\<rparr>) x = (Inr c', x1)"
      and c': "ac_Revision c' \<noteq> 0" "calm x1" "room x = Suc (room x1)"
      using advance_answers [OF x rev] by blast
    from advance [OF x(2) up] obtain v where slot: "slot x1 = Some c'"
      and eq: "c' = c\<lparr>ac_Phase := ActionCheckpointPrepared, ac_NextStep := ?n, ac_Revision := v\<rparr>" by blast
    have "\<exists>report' x'. continue_loop live r c' report x1 = Some (report', None, x') \<and> calm x'" for report
      using room c'(3) kinds lt by (intro loop_answers [OF r _ c'(2) slot c'(1)]) (auto simp: eq at_position_def)
    then have "\<exists>report' x'. continue_loop live r c' report x1 = Some (report', None, x')" for report by blast
    then show ?thesis using att lt up r by (auto simp: continueLocked_def bound_to_def split: if_splits)
  qed
qed

lemma recover_answers:
  assumes r: "bound_to st bk r" and x: "calm x" "slot x = Some c"
    and c: "validateStoredActionCheckpoint sha c = None" "ac_Identity c = ar_identity r"
    and room: "2 * length (ac_Steps c) + 1 \<le> room x"
  shows "\<exists>report x'. Recover sha (Some live) (Some r) x = Some (report, None, x') \<and> slot x' = None
    \<and> sent x' = sent x @ remaining c"
proof -
  obtain report x' where "continueLocked live r c True x = Some (report, None, x')"
    using continue_answers [OF r x c(1) room] by blast
  then have "Recover sha (Some live) (Some r) x = Some (report, None, x')"
    using r x c by (simp add: Recover_def live load_answers bound_to_def)
  with recover_spec [OF r live_good, of sha x] x(2) show ?thesis by (auto simp: outcome_def)
qed

end

definition memory_calm :: "rwork \<Rightarrow> bool" where
  "memory_calm x \<longleftrightarrow> rw_faults x = [] \<and> rw_store x \<noteq> None"

definition memory_room :: "rwork \<Rightarrow> nat" where
  "memory_room x = (case rw_store x of None \<Rightarrow> 0
     | Some st \<Rightarrow> if ms_nextRevision st = 0 then 0 else 2 ^ 64 - unat (ms_nextRevision st))"

lemma room_plus_1: "(n :: u64) \<noteq> 0 \<Longrightarrow>
    2 ^ 64 - unat n = Suc (if n + 1 = 0 then 0 else 2 ^ 64 - unat (n + 1))"
proof (cases "n + 1 = 0")
  case True
  then have "n = -1" by (simp add: eq_neg_iff_add_eq_0)
  then show ?thesis by (simp add: unsigned_minus_1_eq_mask mask_eq_exp_minus_1)
next
  case False
  then have "unat (n + 1) = Suc (unat n)" by (metis add.commute unatSuc)
  with unat_bound [of "n + 1"] False show ?thesis by simp
qed

lemma memory_advance:
  assumes "rw_store x = Some st" "ms_checkpoint st = Some c" "ac_Revision c \<noteq> 0" "ms_nextRevision st \<noteq> 0"
    "validateActionCheckpointPosition ph k (int (length (ac_Steps c))) = None"
  shows "bindActionCheckpointUpdate (memory_store sha) (c\<lparr>ac_Phase := ph, ac_NextStep := k\<rparr>) x
    = (Inr (c\<lparr>ac_Phase := ph, ac_NextStep := k, ac_Revision := ms_nextRevision st\<rparr>),
       x\<lparr>rw_store := Some \<lparr>ms_checkpoint = Some (c\<lparr>ac_Phase := ph, ac_NextStep := k, ac_Revision := ms_nextRevision st\<rparr>),
          ms_nextRevision = ms_nextRevision st + 1\<rparr>\<rparr>)"
  using assms by (simp add: bindActionCheckpointUpdate_def memory_store_def on_store_def memory_op_defs)

interpretation mem_live: recovery_live "memory_store sha" memory_slot recording_backend quiet_context rw_sent
    memory_calm memory_room live_context
proof unfold_locales
  fix x c ph k
  assume x: "memory_calm x" "memory_slot x = Some c" "ac_Revision c \<noteq> 0" "0 < memory_room x"
    "validateActionCheckpointPosition ph k (int (length (ac_Steps c))) = None"
  then obtain st where st: "rw_store x = Some st" "ms_checkpoint st = Some c" "ms_nextRevision st \<noteq> 0"
    by (auto simp: memory_slot_def memory_room_def split: option.splits if_splits)
  show "\<exists>c' x'. bindActionCheckpointUpdate (memory_store sha) (c\<lparr>ac_Phase := ph, ac_NextStep := k\<rparr>) x = (Inr c', x')
    \<and> ac_Revision c' \<noteq> 0 \<and> memory_calm x' \<and> memory_room x = Suc (memory_room x')"
    using st x(1) room_plus_1 [OF st(3)] memory_advance [OF st(1,2) x(3) st(3) x(5), of sha]
    by (auto simp: memory_calm_def memory_room_def)
qed (auto simp: quiet_context_def live_context_def memory_calm_def memory_store_def on_store_def memory_slot_def
    memory_op_defs recording_backend_def next_fault_def memory_room_def split: option.splits)

text \<open>
  C7. Recovery of a valid checkpoint of the engine's own identity finishes: when the context stays
  live, the backend accepts what it is handed and the store accepts two writes per step and one
  more, \<open>Recover\<close> returns without an error, the checkpoint is gone, and the backend has received
  exactly the datagrams that had not been attempted before, in order.
\<close>

theorem recovery_finishes:
  assumes "recovery_live st slot bk good sent calm room live" "bound_to st bk r"
    and "calm x" "slot x = Some c" "validateStoredActionCheckpoint sha c = None" "ac_Identity c = ar_identity r"
    and "2 * length (ac_Steps c) + 1 \<le> room x"
  shows "\<exists>report x'. Recover sha (Some live) (Some r) x = Some (report, None, x') \<and> slot x' = None
    \<and> sent x' = sent x @ remaining c"
  using recovery_live.recover_answers [OF assms] .

definition sample_interrupted :: rwork where
  "sample_interrupted = (sample_rwork [])\<lparr>rw_store := Some \<lparr>ms_checkpoint = Some (sample_checkpoint
     \<lparr>ac_Revision := 2, ac_Phase := ActionCheckpointAttempting,
      ac_Steps := map (reinject_step (plain_action ActionReleasePending sample_key ''established''))
        [sample_datagram 1, sample_datagram 2]\<rparr>), ms_nextRevision = 3\<rparr>\<rparr>"

definition sample_recovery :: "rwork ActionRecovery" where
  "sample_recovery = \<lparr>ar_backend = recording_backend, ar_store = memory_store (take 32),
     ar_updateCheckpoint = bindActionCheckpointUpdate (memory_store (take 32)),
     ar_identity = dom_identity sample_domain, ar_nextOperation = 2\<rparr>"

theorem recovery_finishes_witness:
  "\<exists>report x'. Recover (take 32) (Some live_context) (Some sample_recovery) sample_interrupted = Some (report, None, x')
     \<and> memory_slot x' = None \<and> map (\<lambda>d. ci_Sequence (pp_CaptureID (snd d))) (rw_sent x') = [2]"
proof -
  obtain c where c: "memory_slot sample_interrupted = Some c"
    and ok: "validateStoredActionCheckpoint (take 32) c = None" "ac_Identity c = ar_identity sample_recovery"
    "length (ac_Steps c) = 2" "map (\<lambda>d. ci_Sequence (pp_CaptureID (snd d))) (remaining c) = [2]"
  proof -
    let ?c = "the (memory_slot sample_interrupted)"
    have "memory_slot sample_interrupted = Some ?c" by (simp add: memory_slot_def sample_interrupted_def)
    moreover have "validateStoredActionCheckpoint (take 32) ?c = None" by code_simp
    moreover have "ac_Identity ?c = ar_identity sample_recovery" by code_simp
    moreover have "length (ac_Steps ?c) = 2" by code_simp
    moreover have "map (\<lambda>d. ci_Sequence (pp_CaptureID (snd d))) (remaining ?c) = [2]" by code_simp
    ultimately show thesis by (rule that)
  qed
  have "bound_to (memory_store (take 32)) recording_backend sample_recovery"
    by (simp add: bound_to_def sample_recovery_def)
  moreover have "memory_calm sample_interrupted"
    by (simp add: memory_calm_def sample_interrupted_def sample_rwork_def)
  moreover have "2 * length (ac_Steps c) + 1 \<le> memory_room sample_interrupted"
    by (simp add: ok(3) memory_room_def sample_interrupted_def)
  moreover have "rw_sent sample_interrupted = []"
    by (simp add: sample_interrupted_def sample_rwork_def rw_sent_def)
  ultimately show ?thesis
    using recovery_finishes [OF mem_live.recovery_live_axioms _ _ c ok(1,2)] ok(4) by fastforce
qed

text \<open>
  C18. An execution over a checkpoint store that returns without an error has made exactly the
  backend calls that its actions ask for, in the order of the actions: every control packet, and
  every captured packet that an action releases, a capture that is listed again only at its first
  place, so that no capture is handed over twice and none is left out. The checkpoint slot is as it
  was.
\<close>

theorem execute_hands_over_all:
  assumes "recovery_log st slot bk good log" "bound_to st bk r" "good ctx"
    and "Execute sha (Some ctx) actions (Some r) x = Some (None, r', x')"
  shows "log x' = log x @ once_each {} (action_calls actions) \<and> slot x' = slot x
    \<and> distinct (map (\<lambda>d. pp_CaptureID (snd d)) (reinjections (once_each {} (action_calls actions))))
    \<and> (\<lambda>d. pp_CaptureID (snd d)) ` set (reinjections (once_each {} (action_calls actions)))
        = (\<lambda>d. pp_CaptureID (snd d)) ` set (reinjections (action_calls actions))"
proof -
  have "recovery_env st slot bk good (\<lambda>x. reinjections (log x))"
    using assms(1) by (rule recovery_log.datagram_env)
  from recovery_env.execute_spec [OF this assms(2,3), of sha actions x] assms(4) have "slot x' = slot x" by auto
  moreover have "log x' = log x @ once_each {} (action_calls actions)"
    using recovery_log.execute_log [OF assms] actionSteps_calls by auto
  ultimately show ?thesis using once_each_captures [of "{}" "action_calls actions"] by simp
qed

definition sample_handover :: "Action list" where
  "sample_handover = (plain_action ActionSendControl sample_key ''established'')
     \<lparr>a_WGID := k_WGID sample_key, a_Control := sample_syn\<rparr> # sample_release @ sample_release"

theorem execute_hands_over_all_witness:
  "\<exists>r' x'. Execute (take 32) (Some live_context) sample_handover (Some sample_recovery) (sample_rwork [])
       = Some (None, r', x')
     \<and> rw_calls x' = [Sends sample_key (k_WGID sample_key) sample_syn, Reinjects sample_key (sample_datagram 1),
          Reinjects sample_key (sample_datagram 2)]"
proof -
  let ?run = "Execute (take 32) (Some live_context) sample_handover (Some sample_recovery) (sample_rwork [])"
  have "map_option fst ?run = Some None" by code_simp
  then obtain r' x' where ex: "?run = Some (None, r', x')" by auto
  have "bound_to (memory_store (take 32)) recording_backend sample_recovery"
    by (simp add: bound_to_def sample_recovery_def)
  moreover have "quiet_context live_context" by (simp add: quiet_context_def live_context_def)
  ultimately have "rw_calls x' = rw_calls (sample_rwork []) @ once_each {} (action_calls sample_handover)"
    using execute_hands_over_all [OF mem_log.recovery_log_axioms _ _ ex] by blast
  moreover have "once_each {} (action_calls sample_handover) = [Sends sample_key (k_WGID sample_key) sample_syn,
      Reinjects sample_key (sample_datagram 1), Reinjects sample_key (sample_datagram 2)]"
    by (simp add: sample_handover_def sample_release_def plain_action_def sample_datagram_def)
  ultimately show ?thesis using ex by (simp add: sample_rwork_def)
qed

end
