(* ===== verification/Close_Fence.thy ===== *)
theory Close_Fence
  imports Prelude
begin

text \<open>
  The shutdown protocol that \<open>RawControllerBackend\<close> and \<open>Controller\<close> share: calls are admitted
  under a mutex and counted in a 64-bit counter, \<open>Close\<close> forbids further admissions, waits until
  the counter is zero, releases its resources outside the mutex and records the outcome. The steps
  are those of concurrent callers; the state \<open>'s\<close> and its operations are the component's own.
\<close>

text \<open>
  What \<open>Close\<close> finds under the mutex: \<open>CloseProceeds\<close> is the caller that has to wait for admitted
  calls and then releases the resources, \<open>CloseWaits\<close> waits for another closer.
\<close>

datatype 'b close_entry = CloseReturns "err option" | CloseWaits | CloseProceeds 'b

datatype close_phase = NoClose | Draining | Releasing

text \<open>
  A system state is the component, the number of callers between admission and return, and the
  phase of the closer. \<open>admit\<close> relates the component before and after an admission, of any of its
  operations; \<open>works\<close> is what an admitted call does to the component.
\<close>

inductive fence_step ::
  "('s \<Rightarrow> 's \<Rightarrow> bool) \<Rightarrow> ('s \<Rightarrow> 's) \<Rightarrow> ('s \<Rightarrow> 's option) \<Rightarrow> ('s \<Rightarrow> u64) \<Rightarrow> ('s \<Rightarrow> 's \<Rightarrow> bool) \<Rightarrow> ('s \<Rightarrow> 's \<Rightarrow> bool)
     \<Rightarrow> 's \<times> nat \<times> close_phase \<Rightarrow> 's \<times> nat \<times> close_phase \<Rightarrow> bool"
  for admit :: "'s \<Rightarrow> 's \<Rightarrow> bool" and leave :: "'s \<Rightarrow> 's" and start :: "'s \<Rightarrow> 's option"
    and inflight :: "'s \<Rightarrow> u64" and ending :: "'s \<Rightarrow> 's \<Rightarrow> bool" and works :: "'s \<Rightarrow> 's \<Rightarrow> bool" where
  begins: "admit s s' \<Longrightarrow> Suc n < 2 ^ 64 \<Longrightarrow>
    fence_step admit leave start inflight ending works (s, n, c) (s', Suc n, c)"
| working: "works s s' \<Longrightarrow> 0 < n \<Longrightarrow> fence_step admit leave start inflight ending works (s, n, c) (s', n, c)"
| leaves: "0 < n \<Longrightarrow> fence_step admit leave start inflight ending works (s, n, c) (leave s, n - 1, c)"
| closes: "start s = Some s' \<Longrightarrow> fence_step admit leave start inflight ending works (s, n, c) (s', n, Draining)"
| drained: "inflight s = 0 \<Longrightarrow>
    fence_step admit leave start inflight ending works (s, n, Draining) (s, n, Releasing)"
| released: "ending s s' \<Longrightarrow>
    fence_step admit leave start inflight ending works (s, n, Releasing) (s', n, NoClose)"

locale close_fence =
  fixes admit :: "'s \<Rightarrow> 's \<Rightarrow> bool" and leave :: "'s \<Rightarrow> 's" and start :: "'s \<Rightarrow> 's option"
    and inflight :: "'s \<Rightarrow> u64" and ending :: "'s \<Rightarrow> 's \<Rightarrow> bool" and works :: "'s \<Rightarrow> 's \<Rightarrow> bool"
    and shut :: "'s \<Rightarrow> bool" and closing :: "'s \<Rightarrow> bool"
  assumes admit_law: "admit s s' \<Longrightarrow>
      \<not> shut s \<and> inflight s' = inflight s + 1 \<and> shut s' = shut s \<and> closing s' = closing s"
    and leave_law: "0 < inflight s \<Longrightarrow> inflight (leave s) = inflight s - 1"
      "shut (leave s) = shut s" "closing (leave s) = closing s"
    and start_law: "start s = Some s' \<Longrightarrow> \<not> closing s \<and> inflight s' = inflight s \<and> shut s' \<and> closing s'"
    and ending_law: "ending s s' \<Longrightarrow> inflight s' = inflight s \<and> shut s' = shut s \<and> \<not> closing s'"
    and works_law: "works s s' \<Longrightarrow> inflight s' = inflight s \<and> shut s' = shut s \<and> closing s' = closing s"
begin

abbreviation fstep where "fstep \<equiv> fence_step admit leave start inflight ending works"

lemma fence_step_inv:
  assumes "fstep (s, n, c) (s', n', c')"
    and "unat (inflight s) = n" "closing s \<longleftrightarrow> c \<noteq> NoClose" "c \<noteq> NoClose \<longrightarrow> shut s" "c = Releasing \<longrightarrow> n = 0"
  shows "unat (inflight s') = n' \<and> (closing s' \<longleftrightarrow> c' \<noteq> NoClose) \<and> (c' \<noteq> NoClose \<longrightarrow> shut s')
    \<and> (c' = Releasing \<longrightarrow> n' = 0) \<and> (shut s \<longrightarrow> shut s' \<and> n' \<le> n)"
  using assms(1)
proof (cases rule: fence_step.cases)
  case begins
  have law: "\<not> shut s \<and> inflight s' = inflight s + 1 \<and> shut s' = shut s \<and> closing s' = closing s"
    using admit_law [of s s'] begins by simp
  have "unat (inflight s + 1) = Suc (unat (inflight s))"
    using begins assms(2) by (simp add: unat_word_ariths)
  then show ?thesis using law begins assms(2-5) by auto
next
  case working
  then show ?thesis using works_law [of s s'] working assms(2-5) by auto
next
  case leaves
  then have pos: "0 < inflight s" using assms(2) by (simp add: word_less_nat_alt)
  then have "unat (inflight s - 1) = unat (inflight s) - 1" by (simp add: unat_minus_one word_gt_0)
  then show ?thesis using leave_law [of s] pos leaves assms(2-5) by auto
next
  case closes
  then show ?thesis using start_law [of s s'] closes assms(2-5) by auto
next
  case drained
  then show ?thesis using assms(2-5) by auto
next
  case released
  then show ?thesis using ending_law [of s s'] released assms(2-5) by auto
qed

lemma fence_inv:
  assumes "fstep\<^sup>*\<^sup>* (s0, 0, NoClose) (s, n, c)" "inflight s0 = 0" "\<not> closing s0"
  shows "unat (inflight s) = n \<and> (closing s \<longleftrightarrow> c \<noteq> NoClose) \<and> (c \<noteq> NoClose \<longrightarrow> shut s) \<and> (c = Releasing \<longrightarrow> n = 0)"
  using assms(1)
proof (induction rule: rtranclp_induct [where r = fstep and a = "(s0, 0, NoClose)" and b = "(s, n, c)", split_format (complete)])
  case base
  then show ?case using assms(2,3) by simp
next
  case (step s1 n1 c1 s2 n2 c2)
  then show ?case using fence_step_inv [OF step(2)] by blast
qed

text \<open>Resources are released only while no call is under way, and no call is admitted after that.\<close>

lemma release_is_exclusive:
  assumes "fstep\<^sup>*\<^sup>* (s0, 0, NoClose) (s, n, Releasing)" "inflight s0 = 0" "\<not> closing s0"
  shows "n = 0 \<and> \<not> admit s s'"
  using fence_inv [OF assms] admit_law [of s] by auto

lemma shut_is_final:
  assumes "fstep\<^sup>*\<^sup>* (s0, 0, NoClose) (s, n, c)" "inflight s0 = 0" "\<not> closing s0"
    and "shut s" "fstep\<^sup>*\<^sup>* (s, n, c) (s', n', c')"
  shows "shut s' \<and> n' \<le> n \<and> \<not> admit s' t"
proof -
  have "shut s' \<and> n' \<le> n"
    using assms(5)
  proof (induction rule: rtranclp_induct [where r = fstep and a = "(s, n, c)" and b = "(s', n', c')", split_format (complete)])
    case base
    then show ?case using assms(4) by simp
  next
    case (step s1 n1 c1 s2 n2 c2)
    have "fstep\<^sup>*\<^sup>* (s0, 0, NoClose) (s1, n1, c1)" using assms(1) step(1) by simp
    from fence_step_inv [OF step(2)] fence_inv [OF this assms(2,3)] show ?case using step(3) by auto
  qed
  then show ?thesis using admit_law [of s'] by auto
qed

end

end
