(* ===== verification/Raw_Backend.thy ===== *)
theory Raw_Backend
  imports Action_Recovery Close_Fence
begin

text \<open>
  The raw controller backend, \<open>internal/faketcp/raw_backend.go\<close>: the admission check of a raw
  write, the once-only reinjector and the backend that composes them. The writer and the mark
  resolver are records of functions on an outside world. A \<open>*reinjectAttempt\<close> is its index in
  the list of all attempts ever installed, and its \<open>done\<close> channel a flag. Concurrent callers of
  the reinjector are a step relation, whose steps are the stretches between two points where the
  mutex is free.
\<close>

section \<open>Raw writes\<close>

record RawIPv4Write =
  iw_Data :: "byte list"
  iw_UnderlayIndex :: u32
  iw_FWMark :: u32

text \<open>\<open>wr_Ready\<close> is set when the writer also has the optional method \<open>rawIPv4WriterReady\<close>.\<close>

record 'x RawIPv4Writer =
  wr_WriteIPv4 :: "'x go_context \<Rightarrow> RawIPv4Write \<Rightarrow> 'x \<Rightarrow> err option \<times> 'x"
  wr_Close :: "'x \<Rightarrow> err option \<times> 'x"
  wr_Ready :: "('x \<Rightarrow> err option \<times> 'x) option"

definition validateRawIPv4Write :: "RawIPv4Write \<Rightarrow> err option option" where
  "validateRawIPv4Write w =
     (if iw_UnderlayIndex w = 0
      then Some (Some (ErrNew ''raw faketcp IPv4 write has zero underlay interface index''))
      else if iw_UnderlayIndex w > 0x7fffffff
      then Some (Some (ErrNew ''raw faketcp IPv4 write has out-of-range underlay interface index''))
      else let packet = iw_Data w in
      if length packet < 20
      then Some (Some (ErrNew ''raw faketcp IPv4 write is not a complete IPv4 packet''))
      else do {
        b0 \<leftarrow> rd packet 0;
        if drop_bit 4 b0 \<noteq> 4
        then Some (Some (ErrNew ''raw faketcp IPv4 write is not a complete IPv4 packet''))
        else let headerLength = unat (b0 AND 0x0f) * 4 in
        if headerLength \<noteq> 20 \<or> length packet < headerLength
        then Some (Some (ErrNew ''raw faketcp IPv4 write has unsupported header length''))
        else do {
          total \<leftarrow> be16_at packet 2;
          if unat total \<noteq> length packet \<or> length packet > 65535
          then Some (Some (ErrNew ''raw faketcp IPv4 write has inconsistent total length''))
          else do {
            frag \<leftarrow> be16_at packet 6;
            if frag AND 0xbfff \<noteq> 0
            then Some (Some (ErrNew ''raw faketcp IPv4 write has reserved flags or fragmentation''))
            else do {
              protocol \<leftarrow> rd packet 9;
              if protocol \<noteq> 6 \<and> protocol \<noteq> 17
              then Some (Some (ErrNew ''raw faketcp IPv4 write has unsupported protocol''))
              else do {
                source \<leftarrow> slice packet 12 16;
                if source = zero_array 4
                then Some (Some (ErrNew ''raw faketcp IPv4 write has zero source address''))
                else do {
                  destination \<leftarrow> slice packet 16 20;
                  if destination = zero_array 4
                  then Some (Some (ErrNew ''raw faketcp IPv4 write has zero destination address''))
                  else do {
                    header \<leftarrow> slice packet 0 headerLength;
                    if \<not> checksumValid header
                    then Some (Some (ErrNew ''raw faketcp IPv4 write has invalid IPv4 checksum''))
                    else do {
                      transport \<leftarrow> slice packet headerLength (length packet);
                      if length transport < 20 \<and> (protocol = 6 \<or> length transport < 8)
                      then Some (Some (ErrNew ''raw faketcp IPv4 write has a truncated transport header''))
                      else do {
                        addresses \<leftarrow> slice packet 12 20;
                        if \<not> transportChecksumValid addresses protocol transport
                        then Some (Some (ErrNew ''raw faketcp IPv4 write has invalid transport checksum''))
                        else if protocol = 17 then do {
                          checksum \<leftarrow> be16_at transport 6;
                          if checksum = 0
                          then Some (Some (ErrNew ''raw faketcp IPv4 write has an absent UDP checksum''))
                          else Some None
                        }
                        else Some None
                      }
                    }
                  }
                }
              }
            }
          }
        }
      })"

section \<open>The once-only reinjector\<close>

record reinjectAttempt =
  ra_identity :: CaptureIdentity
  ra_binding :: capturedPacketBinding
  ra_done :: bool
  ra_err :: "err option"

record 'x onceReinjector =
  or_writer :: "'x RawIPv4Writer"
  or_identity :: RuntimeIdentity
  or_maxStreams :: int
  or_attempts :: "reinjectAttempt list"
  or_lastByCPU :: "(u32, nat) gomap"
  or_closed :: bool

definition newOnceReinjector ::
  "'x RawIPv4Writer option \<Rightarrow> RuntimeIdentity \<Rightarrow> int \<Rightarrow> 'x \<Rightarrow> (err + 'x onceReinjector) \<times> 'x" where
  "newOnceReinjector writer identity maxStreams x =
     (case writer of
        None \<Rightarrow> (Inl (ErrNew ''faketcp once-only reinjector writer is nil''), x)
      | Some wr \<Rightarrow>
     (case validateRuntimeIdentity identity of
        Some e \<Rightarrow> (Inl (ErrWrap ''faketcp once-only reinjector runtime identity'' [e]), x)
      | None \<Rightarrow>
     (case (case wr_Ready wr of None \<Rightarrow> (None, x) | Some ready \<Rightarrow> ready x) of
        (Some e, x') \<Rightarrow> (Inl (ErrWrap ''faketcp once-only reinjector writer is not ready'' [e]), x')
      | (None, x') \<Rightarrow>
          if maxStreams \<le> 0
          then (Inl (ErrNew ''faketcp once-only reinjector stream capacity must be positive''), x')
          else (Inr \<lparr>or_writer = wr, or_identity = identity, or_maxStreams = maxStreams, or_attempts = [],
                     or_lastByCPU = [], or_closed = False\<rparr>, x'))))"

text \<open>The checks before the first lock; \<open>None\<close> is a panic of the packet validation.\<close>

definition reinject_checks ::
  "endian \<Rightarrow> RuntimeIdentity \<Rightarrow> FakeTCPSessionKey \<Rightarrow> PendingPacket \<Rightarrow> err option option" where
  "reinject_checks en identity flow packet =
     (case validateCaptureIdentity (pp_CaptureID packet) (k_Generation flow) of
        Some e \<Rightarrow> Some (Some (ErrWrap ''validate faketcp captured packet identity'' [e]))
      | None \<Rightarrow>
          if ci_Runtime (pp_CaptureID packet) \<noteq> identity
          then Some (Some (ErrNew ''faketcp captured packet runtime identity does not match reinjector''))
          else if pp_CaptureFingerprint packet = zero_array 32
          then Some (Some (ErrNew ''faketcp captured packet has zero capture fingerprint''))
          else if pp_WGID packet \<noteq> k_WGID flow
          then Some (Some (ErrNew ''faketcp captured packet WGID does not match flow WGID''))
          else ValidateMaterializedIPv4UDP en (pp_Data packet) flow)"

text \<open>
  One turn of the loop under the mutex: the call is refused, finds a previous attempt of the same
  sequence whose result it returns, has to wait for an earlier attempt of its CPU and tries
  again, or has installed a new attempt.
\<close>

datatype claim =
    ClaimRefused err
  | ClaimDuplicate nat
  | ClaimBehind nat
  | Claimed nat

definition claim_locked ::
  "(byte list \<Rightarrow> byte list) \<Rightarrow> FakeTCPSessionKey \<Rightarrow> PendingPacket \<Rightarrow> 'x onceReinjector \<Rightarrow> claim \<times> 'x onceReinjector" where
  "claim_locked sha256 flow packet rj =
     (let binding = bindCapturedPacket sha256 flow packet;
          identity = pp_CaptureID packet;
          attempt = \<lparr>ra_identity = identity, ra_binding = binding, ra_done = False, ra_err = None\<rparr>;
          install = (Claimed (length (or_attempts rj)),
            rj\<lparr>or_attempts := or_attempts rj @ [attempt],
               or_lastByCPU := m_put (ci_CPU identity) (length (or_attempts rj)) (or_lastByCPU rj)\<rparr>) in
      if or_closed rj then (ClaimRefused (ErrVar ErrReinjectorClosed), rj)
      else case m_get (or_lastByCPU rj) (ci_CPU identity) of
        None \<Rightarrow>
          if int (length (or_lastByCPU rj)) \<ge> or_maxStreams rj
          then (ClaimRefused (ErrWrap ''maximum'' [ErrVar ErrReinjectLedgerCapacity]), rj)
          else install
      | Some i \<Rightarrow>
          let previous = or_attempts rj ! i in
          if ci_Sequence identity < ci_Sequence (ra_identity previous)
          then (ClaimRefused (ErrWrap ''on CPU'' [ErrVar ErrReinjectOutOfOrder]), rj)
          else if ci_Sequence identity = ci_Sequence (ra_identity previous)
          then (if ra_binding previous \<noteq> binding
                then (ClaimRefused (ErrVar ErrCaptureIdentityConflict), rj)
                else (ClaimDuplicate i, rj))
          else if ra_done previous then install
          else (ClaimBehind i, rj))"

definition reinject_write :: "FakeTCPSessionKey \<Rightarrow> PendingPacket \<Rightarrow> RawIPv4Write" where
  "reinject_write flow packet =
     \<lparr>iw_Data = pp_Data packet, iw_UnderlayIndex = k_UnderlayIndex flow, iw_FWMark = pp_FWMark packet\<rparr>"

definition write_err :: "err option \<Rightarrow> err option" where
  "write_err e = map_option (\<lambda>e'. ErrWrap ''write captured faketcp packet once'' [e']) e"

definition finish_attempt :: "nat \<Rightarrow> err option \<Rightarrow> 'x onceReinjector \<Rightarrow> 'x onceReinjector" where
  "finish_attempt i e rj =
     rj\<lparr>or_attempts := (or_attempts rj)[i := (or_attempts rj ! i)\<lparr>ra_done := True, ra_err := e\<rparr>]\<rparr>"

text \<open>
  A call while no other call is under way. \<open>None\<close> is a panic, or a wait for another caller's
  attempt, which does not occur then.
\<close>

definition Reinject_once ::
  "(byte list \<Rightarrow> byte list) \<Rightarrow> endian \<Rightarrow> 'x go_context option \<Rightarrow> FakeTCPSessionKey \<Rightarrow> PendingPacket
     \<Rightarrow> 'x onceReinjector option \<Rightarrow> 'x \<Rightarrow> (err option \<times> 'x onceReinjector option \<times> 'x) option" where
  "Reinject_once sha256 en context flow packet reinjector x =
     (case reinjector of
        None \<Rightarrow> Some (Some (ErrVar ErrReinjectorClosed), reinjector, x)
      | Some rj \<Rightarrow>
     (case context of
        None \<Rightarrow> Some (Some (ErrNew ''faketcp once-only reinjection context is nil''), reinjector, x)
      | Some ctx \<Rightarrow>
     (case ctx x of
        (Some e, x1) \<Rightarrow> Some (Some e, reinjector, x1)
      | (None, x1) \<Rightarrow>
     (case reinject_checks en (or_identity rj) flow packet of
        None \<Rightarrow> None
      | Some (Some e) \<Rightarrow> Some (Some e, reinjector, x1)
      | Some None \<Rightarrow>
     (case claim_locked sha256 flow packet rj of
        (ClaimRefused e, _) \<Rightarrow> Some (Some e, reinjector, x1)
      | (ClaimDuplicate i, _) \<Rightarrow>
          if ra_done (or_attempts rj ! i) then Some (ra_err (or_attempts rj ! i), reinjector, x1) else None
      | (ClaimBehind i, _) \<Rightarrow> None
      | (Claimed i, rj') \<Rightarrow>
          (case wr_WriteIPv4 (or_writer rj) ctx (reinject_write flow packet) x1 of
             (e, x2) \<Rightarrow> Some (write_err e, Some (finish_attempt i (write_err e) rj'), x2)))))))"

definition pending_attempts :: "'x onceReinjector \<Rightarrow> nat list" where
  "pending_attempts rj = filter (\<lambda>i. \<not> ra_done (or_attempts rj ! i)) (map snd (or_lastByCPU rj))"

definition Reinjector_Close :: "'x onceReinjector option \<Rightarrow> (err option \<times> 'x onceReinjector option) option" where
  "Reinjector_Close reinjector =
     (case reinjector of
        None \<Rightarrow> Some (None, None)
      | Some rj \<Rightarrow> if pending_attempts rj = [] then Some (None, Some (rj\<lparr>or_closed := True\<rparr>)) else None)"

section \<open>The backend\<close>

type_synonym 'x ControlMarkResolver =
  "'x go_context \<Rightarrow> FakeTCPSessionKey \<Rightarrow> u32 \<Rightarrow> 'x \<Rightarrow> (err + u32) \<times> 'x"

record 'x RawControllerBackendOptions =
  ro_Writer :: "'x RawIPv4Writer option"
  ro_ControlMarks :: "'x ControlMarkResolver option"
  ro_RuntimeIdentity :: RuntimeIdentity
  ro_MaxReinjectStreams :: int

text \<open>\<open>rb_inflightDone\<close> and \<open>rb_closeDone\<close> say that the condition variable and the channel are set.\<close>

record 'x RawControllerBackend =
  rb_writer :: "'x RawIPv4Writer option"
  rb_controlMarks :: "'x ControlMarkResolver option"
  rb_reinjector :: "'x onceReinjector option"
  rb_inflightDone :: bool
  rb_closeDone :: bool
  rb_inflight :: u64
  rb_shutdown :: bool
  rb_closing :: bool
  rb_closed :: bool
  rb_closeErr :: "err option"

definition NewRawControllerBackend ::
  "'x RawControllerBackendOptions \<Rightarrow> 'x \<Rightarrow> (err + 'x RawControllerBackend) \<times> 'x" where
  "NewRawControllerBackend options x =
     (if ro_Writer options = None then (Inl (ErrNew ''faketcp raw IPv4 writer is nil''), x)
      else if ro_ControlMarks options = None then (Inl (ErrNew ''faketcp control mark resolver is nil''), x)
      else case validateRuntimeIdentity (ro_RuntimeIdentity options) of
        Some e \<Rightarrow> (Inl (ErrWrap ''faketcp raw controller runtime identity'' [e]), x)
      | None \<Rightarrow>
          (case newOnceReinjector (ro_Writer options) (ro_RuntimeIdentity options) (ro_MaxReinjectStreams options) x of
             (Inl e, x') \<Rightarrow> (Inl e, x')
           | (Inr reinjector, x') \<Rightarrow>
               (Inr \<lparr>rb_writer = ro_Writer options, rb_controlMarks = ro_ControlMarks options,
                  rb_reinjector = Some reinjector, rb_inflightDone = True, rb_closeDone = True, rb_inflight = 0,
                  rb_shutdown = False, rb_closing = False, rb_closed = False, rb_closeErr = None\<rparr>, x')))"

definition initializedLocked :: "'x RawControllerBackend \<Rightarrow> bool" where
  "initializedLocked backend \<longleftrightarrow> rb_writer backend \<noteq> None \<and> rb_controlMarks backend \<noteq> None
     \<and> rb_reinjector backend \<noteq> None \<and> rb_inflightDone backend \<and> rb_closeDone backend"

definition beginOperation :: "'x RawControllerBackend \<Rightarrow> 'x RawControllerBackend option" where
  "beginOperation backend =
     (if \<not> initializedLocked backend \<or> rb_shutdown backend \<or> rb_closing backend \<or> rb_closed backend then None
      else Some (backend\<lparr>rb_inflight := rb_inflight backend + 1\<rparr>))"

definition endOperation :: "'x RawControllerBackend \<Rightarrow> 'x RawControllerBackend" where
  "endOperation backend =
     (if rb_inflight backend > 0 then backend\<lparr>rb_inflight := rb_inflight backend - 1\<rparr> else backend)"

text \<open>
  A call while no other call is under way. \<open>the\<close> reads the writer, the resolver and the reinjector
  that \<open>beginOperation\<close> has just found to be set. \<open>None\<close> is a panic.
\<close>

definition SendControl ::
  "endian \<Rightarrow> 'x go_context option \<Rightarrow> FakeTCPSessionKey \<Rightarrow> u32 \<Rightarrow> ControlPacket
     \<Rightarrow> 'x RawControllerBackend option \<Rightarrow> 'x \<Rightarrow> (err option \<times> 'x RawControllerBackend option \<times> 'x) option" where
  "SendControl en context flow wgID packet_control backend x =
     (case backend of
        None \<Rightarrow> Some (Some (ErrVar ErrRawBackendClosed), backend, x)
      | Some b \<Rightarrow>
     (case context of
        None \<Rightarrow> Some (Some (ErrNew ''send faketcp control: context is nil''), backend, x)
      | Some ctx \<Rightarrow>
     (case ctx x of
        (Some e, x1) \<Rightarrow> Some (Some e, backend, x1)
      | (None, x1) \<Rightarrow>
     (case validatePacketFlow flow of
        Some e \<Rightarrow> Some (Some (ErrWrap ''send faketcp control'' [e]), backend, x1)
      | None \<Rightarrow>
      if wgID \<noteq> k_WGID flow
      then Some (Some (ErrNew ''send faketcp control: WireGuard ID does not match flow WGID''), backend, x1)
      else
     (case beginOperation b of
        None \<Rightarrow> Some (Some (ErrVar ErrRawBackendClosed), backend, x1)
      | Some b1 \<Rightarrow>
     (case the (rb_controlMarks b1) ctx flow wgID x1 of
        (Inl e, x2) \<Rightarrow>
          Some (Some (ErrWrap ''resolve faketcp control mark'' [e]), Some (endOperation b1), x2)
      | (Inr mark, x2) \<Rightarrow>
     (case MarshalIPv4TCPControl en flow packet_control of
        None \<Rightarrow> None
      | Some (Inl e) \<Rightarrow> Some (Some e, Some (endOperation b1), x2)
      | Some (Inr packet) \<Rightarrow>
     (case wr_WriteIPv4 (the (rb_writer b1)) ctx
             \<lparr>iw_Data = packet, iw_UnderlayIndex = k_UnderlayIndex flow, iw_FWMark = mark\<rparr> x2 of
        (Some e, x3) \<Rightarrow>
          Some (Some (ErrWrap ''write faketcp control packet'' [e]), Some (endOperation b1), x3)
      | (None, x3) \<Rightarrow> Some (None, Some (endOperation b1), x3)))))))))"

definition Reinject ::
  "(byte list \<Rightarrow> byte list) \<Rightarrow> endian \<Rightarrow> 'x go_context option \<Rightarrow> FakeTCPSessionKey \<Rightarrow> PendingPacket
     \<Rightarrow> 'x RawControllerBackend option \<Rightarrow> 'x \<Rightarrow> (err option \<times> 'x RawControllerBackend option \<times> 'x) option" where
  "Reinject sha256 en context flow packet backend x =
     (case backend of
        None \<Rightarrow> Some (Some (ErrVar ErrRawBackendClosed), backend, x)
      | Some b \<Rightarrow>
     (case context of
        None \<Rightarrow> Some (Some (ErrNew ''reinject faketcp packet: context is nil''), backend, x)
      | Some ctx \<Rightarrow>
     (case ctx x of
        (Some e, x1) \<Rightarrow> Some (Some e, backend, x1)
      | (None, x1) \<Rightarrow>
     (case beginOperation b of
        None \<Rightarrow> Some (Some (ErrVar ErrRawBackendClosed), backend, x1)
      | Some b1 \<Rightarrow>
     (case Reinject_once sha256 en (Some ctx) flow packet (rb_reinjector b1) x1 of
        None \<Rightarrow> None
      | Some (e, reinjector, x2) \<Rightarrow> Some (e, Some (endOperation (b1\<lparr>rb_reinjector := reinjector\<rparr>)), x2))))))"

text \<open>
  \<open>Close\<close> in three parts: the entry under the mutex, the two resource closes outside it, and the
  bookkeeping at the end.
\<close>

definition close_enter :: "'x RawControllerBackend \<Rightarrow> 'x RawControllerBackend close_entry" where
  "close_enter b =
     (if rb_closed b then CloseReturns None
      else if rb_closing b then CloseWaits
      else if \<not> rb_shutdown b \<and> \<not> initializedLocked b then CloseReturns (Some (ErrVar ErrRawBackendClosed))
      else CloseProceeds (b\<lparr>rb_shutdown := True, rb_closing := True, rb_closeDone := True\<rparr>))"

definition close_resources ::
  "'x RawControllerBackend \<Rightarrow> 'x \<Rightarrow> ((err option \<times> err option) \<times> 'x RawControllerBackend \<times> 'x) option" where
  "close_resources b x =
     (case Reinjector_Close (rb_reinjector b) of
        None \<Rightarrow> None
      | Some (reinjectorErr, reinjector) \<Rightarrow>
          (case (case rb_writer b of None \<Rightarrow> (None, x) | Some wr \<Rightarrow> wr_Close wr x) of
             (writerErr, x') \<Rightarrow> Some ((reinjectorErr, writerErr), b\<lparr>rb_reinjector := reinjector\<rparr>, x')))"

definition close_finish :: "err option \<times> err option \<Rightarrow> 'x RawControllerBackend \<Rightarrow> err option \<times> 'x RawControllerBackend" where
  "close_finish errs b =
     (let closeErr = errors_join [fst errs, snd errs];
          reinjector = (if fst errs = None then None else rb_reinjector b);
          writer = (if snd errs = None then None else rb_writer b) in
      (closeErr, b\<lparr>rb_reinjector := reinjector, rb_writer := writer, rb_closeErr := closeErr,
         rb_closed := (reinjector = None \<and> writer = None), rb_closing := False\<rparr>))"

text \<open>A call of \<open>Close\<close> while no other call is under way; \<open>None\<close> would wait for another caller.\<close>

definition Backend_Close ::
  "'x RawControllerBackend option \<Rightarrow> 'x \<Rightarrow> (err option \<times> 'x RawControllerBackend option \<times> 'x) option" where
  "Backend_Close backend x =
     (case backend of
        None \<Rightarrow> Some (None, backend, x)
      | Some b \<Rightarrow>
          (case close_enter b of
             CloseReturns e \<Rightarrow> Some (e, backend, x)
           | CloseWaits \<Rightarrow> None
           | CloseProceeds b1 \<Rightarrow>
               if rb_inflight b1 \<noteq> 0 then None
               else (case close_resources b1 x of
                 None \<Rightarrow> None
               | Some (errs, b2, x') \<Rightarrow> (case close_finish errs b2 of (e, b3) \<Rightarrow> Some (e, Some b3, x')))))"

section \<open>What the backend writes is admissible\<close>

lemma put_ne32_nonzero: "v \<noteq> 0 \<Longrightarrow> put_ne32 en v \<noteq> zero_array 4"
proof
  assume "v \<noteq> 0" "put_ne32 en v = zero_array 4"
  moreover have "zero_array 4 = put_ne32 en 0" by (cases en) (simp_all add: put_ne32_def put_be32_def put_le32_def put_be16_zero numeral_eq_Suc)
  ultimately have "ne32 en (put_ne32 en v) = ne32 en (put_ne32 en 0)" by simp
  then show False using \<open>v \<noteq> 0\<close> ne32c.dec_enc [of en v "[]"] ne32c.dec_enc [of en 0 "[]"] by simp
qed

lemma raw_write_accepted:
  assumes index: "idx \<noteq> 0" "idx \<le> 0x7fffffff" and p: "28 \<le> length p" "length p \<le> 65535"
    and header: "drop_bit 4 (p ! 0) = 4" "unat (p ! 0 AND 0x0f) * 4 = 20" "be16_at p 2 = Some t" "unat t = length p"
      "be16_at p 6 = Some f" "f AND 0xbfff = 0"
    and addresses: "take 4 (drop 12 p) \<noteq> zero_array 4" "take 4 (drop 16 p) \<noteq> zero_array 4"
    and sums: "checksumValid (take 20 p)" "transportChecksumValid (take 8 (drop 12 p)) (p ! 9) (drop 20 p)"
    and transport: "p ! 9 = 6 \<and> 40 \<le> length p \<or> p ! 9 = 17 \<and> be16_at (drop 20 p) 6 = Some d \<and> d \<noteq> 0"
  shows "validateRawIPv4Write \<lparr>iw_Data = p, iw_UnderlayIndex = idx, iw_FWMark = m\<rparr> = Some None"
proof -
  have h: "unat (p ! 0 AND 0x0f) = 5" "\<not> 0x7fffffff < idx" using header(2) index(2) by simp_all
  have r: "rd p 0 = Some (p ! 0)" "rd p 9 = Some (p ! 9)" "slice p 12 16 = Some (take 4 (drop 12 p))"
    "slice p 16 20 = Some (take 4 (drop 16 p))" "slice p 0 20 = Some (take 20 p)"
    "slice p 20 (length p) = Some (drop 20 p)" "slice p 12 20 = Some (take 8 (drop 12 p))"
    using p(1) by (auto simp: rd_def slice_Some)
  show ?thesis using transport index(1) h(2) p header addresses sums
    unfolding validateRawIPv4Write_def by (auto simp: r h(1))
qed

lemma control_write_accepted:
  assumes "MarshalIPv4TCPControl en flow c = Some (Inr p)" "k_UnderlayIndex flow \<le> 0x7fffffff"
  shows "validateRawIPv4Write \<lparr>iw_Data = p, iw_UnderlayIndex = k_UnderlayIndex flow, iw_FWMark = m\<rparr> = Some None"
proof -
  from assms(1) have p: "p = control_bytes en flow c" and flow: "validatePacketFlow flow = None"
    by (auto simp: marshal_Inr_iff)
  have idx: "k_UnderlayIndex flow \<noteq> 0" "k_LocalIPv4 flow \<noteq> 0" "k_RemoteIPv4 flow \<noteq> 0"
    using flow by (auto simp: validatePacketFlow_def split: if_splits)
  have len: "length p = 40" and addresses: "take 8 (drop 12 p) = control_addresses en flow"
    using control_bytes_fields [of en flow c] by (simp_all add: p)
  have "take 4 (drop 12 p) = take 4 (take 8 (drop 12 p))" "take 4 (drop 16 p) = drop 4 (take 8 (drop 12 p))"
    by (simp_all add: drop_take)
  then have "take 4 (drop 12 p) = put_ne32 en (k_LocalIPv4 flow)" "take 4 (drop 16 p) = put_ne32 en (k_RemoteIPv4 flow)"
    by (simp_all add: addresses control_addresses_def)
  then have a: "take 4 (drop 12 p) \<noteq> zero_array 4" "take 4 (drop 16 p) \<noteq> zero_array 4"
    using put_ne32_nonzero idx(2,3) by simp_all
  have b: "p ! 0 = 0x45" "p ! 9 = 6" "be16_at p 2 = Some 40" "be16_at p 6 = Some 0"
    by (simp_all add: p control_bytes_def Let_def nth_append control_header_def be16_at_drop)
  show ?thesis
    using control_checksums [of en flow c] idx(1) assms(2) len a b addresses
    by (intro raw_write_accepted [where t = 40 and f = 0]) (simp_all add: p)
qed

lemma reinject_write_accepted:
  assumes "reinject_checks en identity flow packet = Some None" "k_UnderlayIndex flow \<le> 0x7fffffff"
  shows "validateRawIPv4Write (reinject_write flow packet) = Some None"
proof -
  let ?p = "pp_Data packet"
  have v: "ValidateMaterializedIPv4UDP en ?p flow = Some None"
    using assms(1) by (auto simp: reinject_checks_def split: option.splits if_splits)
  obtain res where res: "fixedIPv4UDP ?p ''validate materialized faketcp packet'' = Some res"
    using fixed_returns by blast
  then obtain udp where fx: "fixedIPv4UDP ?p ''validate materialized faketcp packet'' = Some (Inr udp)"
    using v by (cases res) (simp_all add: ValidateMaterializedIPv4UDP_def)
  obtain h c a u d r where p: "?p = captured h c a u d r" and len: "length h = 10" "length a = 8" "length u = 6"
    "length r < 65508" and fx': "\<And>c' d' op'. fixedIPv4UDP (captured h c' a u d' r) op' = Some (Inr (u @ put_be16 d' @ r))"
    using fixed_Inr_captured [OF fx] by metis
  have ok: "drop_bit 4 (h ! 0) = 4" "unat (h ! 0 AND 0x0f) * 4 = 20" "unat (the (be16_at h 2)) = 28 + length r"
    "the (be16_at h 6) AND 0xbfff = 0" "h ! 9 = 17"
    using fx' [of c d "''''"] unfolding fixed_captured [OF len(1-3)] by (auto split: if_splits)
  obtain t f where tf: "be16_at h 2 = Some t" "be16_at h 6 = Some f"
    using be16_at_returns [of 2 h] be16_at_returns [of 6 h] len(1) by auto
  have udp: "udp = u @ put_be16 d @ r" using fx fx' [of c d] by (simp add: p)
  have d: "be16_at udp 6 = Some d" using len(3) by (simp add: udp be16_at_append be16_at_drop be16c.dec_enc)
  obtain sp dp where ports: "be16_at udp 0 = Some sp" "be16_at udp 2 = Some dp"
    using be16_at_returns [of 0 udp] be16_at_returns [of 2 udp] len(3) by (auto simp: udp)
  have "28 \<le> length ?p" using len by (simp add: p captured_def)
  then have checks: "validatePacketFlow flow = None" "take 4 (drop 12 ?p) = put_ne32 en (k_LocalIPv4 flow)"
    "take 4 (drop 16 ?p) = put_ne32 en (k_RemoteIPv4 flow)" "checksumValid (take 20 ?p)"
    "transportChecksumValid (take 8 (drop 12 ?p)) 17 udp" "d \<noteq> 0"
    using v by (auto simp: ValidateMaterializedIPv4UDP_def fx slice_Some ports d split: option.splits if_splits)
  have flow: "k_UnderlayIndex flow \<noteq> 0" "k_LocalIPv4 flow \<noteq> 0" "k_RemoteIPv4 flow \<noteq> 0"
    using checks(1) by (auto simp: validatePacketFlow_def split: if_splits)
  show ?thesis unfolding reinject_write_def
    using assms(2) flow checks(4-6) put_ne32_nonzero [OF flow(2), of en] put_ne32_nonzero [OF flow(3), of en] ok tf d len
    by (intro raw_write_accepted [where t = t and f = f and d = d])
      (simp_all add: checks(2,3), simp_all add: p captured_def nth_append be16_at_append udp)
qed

text \<open>
  C20. Everything the backend writes passes the writer's own admission check: the control packet of
  every flow and the datagram of every accepted reinjection is a complete, unfragmented IPv4
  packet with non-zero addresses, consistent lengths and valid IPv4 and transport checksums, as
  long as the interface index of the flow fits the kernel's signed index. The check itself
  returns on every byte string.
\<close>

theorem raw_writes_admissible:
  "validateRawIPv4Write w \<noteq> None
   \<and> (k_UnderlayIndex flow \<le> 0x7fffffff \<longrightarrow>
       (MarshalIPv4TCPControl en flow c = Some (Inr p) \<longrightarrow>
          validateRawIPv4Write \<lparr>iw_Data = p, iw_UnderlayIndex = k_UnderlayIndex flow, iw_FWMark = mark\<rparr> = Some None)
       \<and> (reinject_checks en identity flow packet = Some None \<longrightarrow>
          validateRawIPv4Write (reinject_write flow packet) = Some None))"
proof -
  have "validateRawIPv4Write w \<noteq> None"
  proof (cases "length (iw_Data w) < 20")
    case False
    let ?p = "iw_Data w"
    have r: "rd ?p 0 = Some (?p ! 0)" "rd ?p 9 = Some (?p ! 9)" using False by (auto simp: rd_def)
    obtain t f where tf: "be16_at ?p 2 = Some t" "be16_at ?p 6 = Some f"
      using be16_at_returns [of 2 ?p] be16_at_returns [of 6 ?p] False by auto
    have "\<exists>v. be16_at (drop 20 ?p) 6 = Some v" if "\<not> length (drop 20 ?p) < 8"
      using be16_at_returns [of 6 "drop 20 ?p"] that by simp
    then show ?thesis using False
      by (auto simp: validateRawIPv4Write_def Let_def r tf slice_Some)
  qed (auto simp: validateRawIPv4Write_def)
  then show ?thesis using control_write_accepted reinject_write_accepted by blast
qed

text \<open>A materialised capture of the sample flow.\<close>

definition sample_captured :: "u64 \<Rightarrow> PendingPacket" where
  "sample_captured n = (sample_datagram n)\<lparr>pp_Data := snd (the (MaterializeIPv4UDPChecksums sample_capture))\<rparr>"

lemma sample_checks: "reinject_checks LittleEndian (dom_identity sample_domain) sample_key (sample_captured 1) = Some None"
  "reinject_checks LittleEndian (dom_identity sample_domain) sample_key (sample_captured 2) = Some None"
  by code_simp+

theorem raw_writes_admissible_witness:
  "validateRawIPv4Write \<lparr>iw_Data = control_bytes LittleEndian sample_key sample_syn,
       iw_UnderlayIndex = k_UnderlayIndex sample_key, iw_FWMark = 9\<rparr> = Some None
     \<and> validateRawIPv4Write (reinject_write sample_key (sample_captured 1)) = Some None"
proof -
  have "validatePacketFlow sample_key = None" by code_simp
  then have "MarshalIPv4TCPControl LittleEndian sample_key sample_syn = Some (Inr (control_bytes LittleEndian sample_key sample_syn))"
    by (simp add: marshal_bytes sample_syn_def)
  moreover have "k_UnderlayIndex sample_key \<le> 0x7fffffff" by code_simp
  ultimately show ?thesis using raw_writes_admissible sample_checks(1) by blast
qed

section \<open>Shutdown of the backend\<close>

definition backend_start :: "'x RawControllerBackend \<Rightarrow> 'x RawControllerBackend option" where
  "backend_start b = (case close_enter b of CloseProceeds b' \<Rightarrow> Some b' | _ \<Rightarrow> None)"

definition backend_ending :: "'x RawControllerBackend \<Rightarrow> 'x RawControllerBackend \<Rightarrow> bool" where
  "backend_ending b b' \<longleftrightarrow> (\<exists>errs rj. b' = snd (close_finish errs (b\<lparr>rb_reinjector := rj\<rparr>)))"

definition backend_works :: "'x RawControllerBackend \<Rightarrow> 'x RawControllerBackend \<Rightarrow> bool" where
  "backend_works b b' \<longleftrightarrow> (\<exists>rj. b' = b\<lparr>rb_reinjector := Some rj\<rparr>)"

interpretation raw_fence: close_fence "\<lambda>b b'. beginOperation b = Some b'" endOperation backend_start rb_inflight backend_ending
    backend_works rb_shutdown rb_closing
  by unfold_locales
    (auto simp: beginOperation_def endOperation_def backend_start_def close_enter_def backend_ending_def
      close_finish_def backend_works_def Let_def word_gt_0 split: if_splits)

text \<open>
  C9. Shutdown of the backend is exclusive and final under concurrent callers: whenever \<open>Close\<close>
  releases the reinjector and the writer, no \<open>SendControl\<close> and no \<open>Reinject\<close> is between its
  admission and its return, and from the moment \<open>Close\<close> was first called every operation is
  refused with \<open>ErrRawBackendClosed\<close>, in every continuation and after a failed close too.
\<close>

theorem raw_backend_close_fences:
  assumes "NewRawControllerBackend options x = (Inr b0, x')"
    and "(fence_step (\<lambda>b b'. beginOperation b = Some b') endOperation backend_start rb_inflight backend_ending backend_works)\<^sup>*\<^sup>*
      (b0, 0, NoClose) (b, n, c)"
    and "(fence_step (\<lambda>b b'. beginOperation b = Some b') endOperation backend_start rb_inflight backend_ending backend_works)\<^sup>*\<^sup>*
      (b, n, c) (b', n', c')"
  shows "(c = Releasing \<longrightarrow> n = 0)
    \<and> (rb_shutdown b \<longrightarrow> n' \<le> n
        \<and> (validatePacketFlow flow = None \<longrightarrow> wgID = k_WGID flow \<longrightarrow> ctx y = (None, y) \<longrightarrow>
             SendControl en (Some ctx) flow wgID packet_control (Some b') y = Some (Some (ErrVar ErrRawBackendClosed), Some b', y)
             \<and> Reinject sha en (Some ctx) flow packet (Some b') y = Some (Some (ErrVar ErrRawBackendClosed), Some b', y)))"
proof -
  have b0: "rb_inflight b0 = 0" "\<not> rb_closing b0"
    using assms(1) by (auto simp: NewRawControllerBackend_def split: if_splits option.splits prod.splits sum.splits)
  have "c = Releasing \<longrightarrow> n = 0" using raw_fence.release_is_exclusive [OF _ b0] assms(2) by blast
  moreover have "n' \<le> n \<and> beginOperation b' = None" if "rb_shutdown b"
    using raw_fence.shut_is_final [OF assms(2) b0 that assms(3)] by (meson option.exhaust)
  ultimately show ?thesis by (simp add: SendControl_def Reinject_def)
qed

text \<open>A reinjector and a backend over a writer that accepts everything.\<close>

definition sample_writer :: "unit RawIPv4Writer" where
  "sample_writer = \<lparr>wr_WriteIPv4 = (\<lambda>_ _ x. (None, x)), wr_Close = (\<lambda>x. (None, x)), wr_Ready = None\<rparr>"

definition sample_reinjector :: "unit onceReinjector" where
  "sample_reinjector = \<lparr>or_writer = sample_writer, or_identity = dom_identity sample_domain, or_maxStreams = 2,
     or_attempts = [], or_lastByCPU = [], or_closed = False\<rparr>"

lemma sample_reinjector_new:
  "newOnceReinjector (Some sample_writer) (dom_identity sample_domain) 2 () = (Inr sample_reinjector, ())"
proof -
  have "validateRuntimeIdentity (dom_identity sample_domain) = None" by code_simp
  then show ?thesis by (simp add: newOnceReinjector_def sample_reinjector_def sample_writer_def del: validateRuntimeIdentity_None)
qed

definition sample_backend :: "unit RawControllerBackend" where
  "sample_backend = \<lparr>rb_writer = Some sample_writer, rb_controlMarks = Some (\<lambda>_ _ _ x. (Inr 3, x)),
     rb_reinjector = Some sample_reinjector, rb_inflightDone = True, rb_closeDone = True, rb_inflight = 0,
     rb_shutdown = False, rb_closing = False, rb_closed = False, rb_closeErr = None\<rparr>"

lemma sample_backend_new:
  "NewRawControllerBackend \<lparr>ro_Writer = Some sample_writer, ro_ControlMarks = Some (\<lambda>_ _ _ x. (Inr 3, x)),
     ro_RuntimeIdentity = dom_identity sample_domain, ro_MaxReinjectStreams = 2\<rparr> () = (Inr sample_backend, ())"
proof -
  have "validateRuntimeIdentity (dom_identity sample_domain) = None" by code_simp
  then show ?thesis
    by (simp add: NewRawControllerBackend_def sample_reinjector_new sample_backend_def del: validateRuntimeIdentity_None)
qed

definition sample_closing :: "unit RawControllerBackend" where
  "sample_closing = sample_backend\<lparr>rb_shutdown := True, rb_closing := True\<rparr>"

theorem raw_backend_close_fences_witness:
  "(fence_step (\<lambda>b b'. beginOperation b = Some b') endOperation backend_start rb_inflight backend_ending backend_works)\<^sup>*\<^sup>*
     (sample_backend, 0, NoClose) (sample_closing, 0, Releasing)
   \<and> SendControl LittleEndian (Some (\<lambda>y. (None, y))) sample_key 1 sample_syn (Some sample_closing) ()
       = Some (Some (ErrVar ErrRawBackendClosed), Some sample_closing, ())"
proof -
  let ?step = "fence_step (\<lambda>b b'. beginOperation b = Some b') endOperation backend_start rb_inflight backend_ending backend_works"
  have "?step (sample_backend, 0, NoClose) (sample_closing, 0, Draining)"
    by (rule fence_step.closes) (simp add: backend_start_def close_enter_def sample_backend_def sample_closing_def initializedLocked_def)
  moreover have "?step (sample_closing, 0, Draining) (sample_closing, 0, Releasing)"
    by (rule fence_step.drained) (simp add: sample_closing_def sample_backend_def)
  ultimately have run: "?step\<^sup>*\<^sup>* (sample_backend, 0, NoClose) (sample_closing, 0, Releasing)" by simp
  have "validatePacketFlow sample_key = None" by code_simp
  moreover have "k_WGID sample_key = 1" by code_simp
  moreover have "rb_shutdown sample_closing" by (simp add: sample_closing_def)
  ultimately show ?thesis
    using raw_backend_close_fences [OF sample_backend_new run rtranclp.rtrancl_refl,
        of sample_key 1 "\<lambda>y. (None, y)" "()" LittleEndian sample_syn] run by simp
qed

end
