(* ===== verification/Reinject_Once.thy ===== *)
theory Reinject_Once
  imports Raw_Backend
begin

text \<open>
  Concurrent callers of the once-only reinjector of \<open>raw_backend.go\<close>. A caller is in one of the
  places where \<open>onceReinjector.Reinject\<close> or \<open>Close\<close> can be between two critical sections, and a
  step lets one caller go on to its next place. Writes may succeed or fail and take any time, and
  a waiting caller may give up because its context ends.
\<close>

section \<open>The step relation\<close>

datatype place =
    Away
  | Entering FakeTCPSessionKey PendingPacket
  | AwaitingResult nat
  | AwaitingTurn nat FakeTCPSessionKey PendingPacket
  | Holding nat FakeTCPSessionKey PendingPacket
  | Writing nat FakeTCPSessionKey PendingPacket
  | Wrote nat "err option"
  | Returned "err option"
  | ClosingOn "nat list"
  | ClosedUp

text \<open>\<open>sy_writes\<close> is the history of the calls of \<open>WriteIPv4\<close>, as flow and packet.\<close>

record 'x rsys =
  sy_rj :: "'x onceReinjector"
  sy_at :: "nat \<Rightarrow> place"
  sy_writes :: "(FakeTCPSessionKey \<times> PendingPacket) list"

definition after_claim :: "FakeTCPSessionKey \<Rightarrow> PendingPacket \<Rightarrow> claim \<Rightarrow> place" where
  "after_claim flow packet c =
     (case c of
        ClaimRefused e \<Rightarrow> Returned (Some e)
      | ClaimDuplicate i \<Rightarrow> AwaitingResult i
      | ClaimBehind i \<Rightarrow> AwaitingTurn i flow packet
      | Claimed i \<Rightarrow> Holding i flow packet)"

inductive rstep :: "(byte list \<Rightarrow> byte list) \<Rightarrow> endian \<Rightarrow> 'x rsys \<Rightarrow> 'x rsys \<Rightarrow> bool"
  for sha :: "byte list \<Rightarrow> byte list" and en :: endian where
  enter: "sy_at s t = Away \<Longrightarrow> reinject_checks en (or_identity (sy_rj s)) flow packet = Some None \<Longrightarrow>
    rstep sha en s (s\<lparr>sy_at := (sy_at s)(t := Entering flow packet)\<rparr>)"
| refuse: "sy_at s t = Away \<Longrightarrow> reinject_checks en (or_identity (sy_rj s)) flow packet = Some (Some e) \<Longrightarrow>
    rstep sha en s (s\<lparr>sy_at := (sy_at s)(t := Returned (Some e))\<rparr>)"
| claim: "sy_at s t = Entering flow packet \<Longrightarrow> claim_locked sha flow packet (sy_rj s) = (c, rj') \<Longrightarrow>
    rstep sha en s (s\<lparr>sy_rj := rj', sy_at := (sy_at s)(t := after_claim flow packet c)\<rparr>)"
| result: "sy_at s t = AwaitingResult i \<Longrightarrow> ra_done (or_attempts (sy_rj s) ! i) \<Longrightarrow>
    rstep sha en s (s\<lparr>sy_at := (sy_at s)(t := Returned (ra_err (or_attempts (sy_rj s) ! i)))\<rparr>)"
| turn: "sy_at s t = AwaitingTurn i flow packet \<Longrightarrow> ra_done (or_attempts (sy_rj s) ! i) \<Longrightarrow>
    rstep sha en s (s\<lparr>sy_at := (sy_at s)(t := Entering flow packet)\<rparr>)"
| cancel: "sy_at s t = AwaitingResult i \<or> sy_at s t = AwaitingTurn i flow packet \<Longrightarrow>
    rstep sha en s (s\<lparr>sy_at := (sy_at s)(t := Returned (Some e))\<rparr>)"
| begin_write: "sy_at s t = Holding i flow packet \<Longrightarrow>
    rstep sha en s (s\<lparr>sy_at := (sy_at s)(t := Writing i flow packet), sy_writes := sy_writes s @ [(flow, packet)]\<rparr>)"
| end_write: "sy_at s t = Writing i flow packet \<Longrightarrow>
    rstep sha en s (s\<lparr>sy_at := (sy_at s)(t := Wrote i (write_err e))\<rparr>)"
| finish: "sy_at s t = Wrote i e \<Longrightarrow>
    rstep sha en s (s\<lparr>sy_rj := finish_attempt i e (sy_rj s), sy_at := (sy_at s)(t := Returned e)\<rparr>)"
| close: "sy_at s t = Away \<Longrightarrow>
    rstep sha en s (s\<lparr>sy_rj := (sy_rj s)\<lparr>or_closed := True\<rparr>, sy_at := (sy_at s)(t := ClosingOn (pending_attempts (sy_rj s)))\<rparr>)"
| closed: "sy_at s t = ClosingOn pending \<Longrightarrow> \<forall>i \<in> set pending. ra_done (or_attempts (sy_rj s) ! i) \<Longrightarrow>
    rstep sha en s (s\<lparr>sy_at := (sy_at s)(t := ClosedUp)\<rparr>)"
| leave: "sy_at s t = Returned e \<or> sy_at s t = ClosedUp \<Longrightarrow> rstep sha en s (s\<lparr>sy_at := (sy_at s)(t := Away)\<rparr>)"

inductive_cases rstepE: "rstep sha en s s'"

definition rstart :: "'x onceReinjector \<Rightarrow> 'x rsys" where
  "rstart rj = \<lparr>sy_rj = rj, sy_at = (\<lambda>_. Away), sy_writes = []\<rparr>"

inductive rreach :: "(byte list \<Rightarrow> byte list) \<Rightarrow> endian \<Rightarrow> 'x onceReinjector \<Rightarrow> 'x rsys \<Rightarrow> bool"
  for sha en rj where
  start: "rreach sha en rj (rstart rj)"
| step: "rreach sha en rj s \<Longrightarrow> rstep sha en s s' \<Longrightarrow> rreach sha en rj s'"

section \<open>The invariant\<close>

fun owns :: "place \<Rightarrow> nat option" where
  "owns (Holding i _ _) = Some i"
| "owns (Writing i _ _) = Some i"
| "owns (Wrote i _) = Some i"
| "owns _ = None"

definition stream :: "'x onceReinjector \<Rightarrow> nat \<Rightarrow> u32" where
  "stream rj i = ci_CPU (ra_identity (or_attempts rj ! i))"

definition position :: "'x onceReinjector \<Rightarrow> nat \<Rightarrow> u64" where
  "position rj i = ci_Sequence (ra_identity (or_attempts rj ! i))"

text \<open>The ledger: one entry per CPU, its newest attempt, and no two attempts with one identity.\<close>

definition ledger_inv :: "'x onceReinjector \<Rightarrow> bool" where
  "ledger_inv rj \<longleftrightarrow> m_wf (or_lastByCPU rj) \<and> int (length (or_lastByCPU rj)) \<le> or_maxStreams rj
     \<and> (\<forall>c i. m_get (or_lastByCPU rj) c = Some i \<longrightarrow> i < length (or_attempts rj) \<and> stream rj i = c)
     \<and> (\<forall>j < length (or_attempts rj). \<exists>i. m_get (or_lastByCPU rj) (stream rj j) = Some i
          \<and> (j = i \<or> position rj j < position rj i \<and> ra_done (or_attempts rj ! j)))"

text \<open>Every attempt under way has one owner, and only attempts that were written are in the history.\<close>

definition owner_inv :: "'x rsys \<Rightarrow> bool" where
  "owner_inv s \<longleftrightarrow>
     (\<forall>t i. owns (sy_at s t) = Some i \<longrightarrow> i < length (or_attempts (sy_rj s)) \<and> \<not> ra_done (or_attempts (sy_rj s) ! i))
     \<and> (\<forall>t t' i. owns (sy_at s t) = Some i \<longrightarrow> owns (sy_at s t') = Some i \<longrightarrow> t = t')
     \<and> (\<forall>i < length (or_attempts (sy_rj s)). \<not> ra_done (or_attempts (sy_rj s) ! i) \<longrightarrow> (\<exists>t. owns (sy_at s t) = Some i))
     \<and> (\<forall>t i flow packet. sy_at s t = Holding i flow packet \<longrightarrow>
          ra_identity (or_attempts (sy_rj s) ! i) = pp_CaptureID packet)"

definition history_inv :: "'x rsys \<Rightarrow> bool" where
  "history_inv s \<longleftrightarrow>
     (\<forall>d \<in> set (sy_writes s). \<exists>i < length (or_attempts (sy_rj s)).
        ra_identity (or_attempts (sy_rj s) ! i) = pp_CaptureID (snd d)
        \<and> (\<forall>t flow packet. sy_at s t \<noteq> Holding i flow packet))
     \<and> sorted_wrt (\<lambda>a b. ci_CPU (pp_CaptureID (snd a)) = ci_CPU (pp_CaptureID (snd b))
          \<longrightarrow> ci_Sequence (pp_CaptureID (snd a)) < ci_Sequence (pp_CaptureID (snd b))) (sy_writes s)"

definition close_inv :: "'x rsys \<Rightarrow> bool" where
  "close_inv s \<longleftrightarrow>
     (\<forall>t pending. sy_at s t = ClosingOn pending \<longrightarrow> or_closed (sy_rj s)
        \<and> (\<forall>i < length (or_attempts (sy_rj s)). \<not> ra_done (or_attempts (sy_rj s) ! i) \<longrightarrow> i \<in> set pending))
     \<and> (\<forall>t. sy_at s t = ClosedUp \<longrightarrow> or_closed (sy_rj s)
        \<and> (\<forall>i < length (or_attempts (sy_rj s)). ra_done (or_attempts (sy_rj s) ! i)))"

definition rinv :: "'x rsys \<Rightarrow> bool" where
  "rinv s \<longleftrightarrow> ledger_inv (sy_rj s) \<and> owner_inv s \<and> history_inv s \<and> close_inv s"

lemma ledger_invD:
  assumes "ledger_inv rj"
  shows "m_wf (or_lastByCPU rj)" "int (length (or_lastByCPU rj)) \<le> or_maxStreams rj"
    "m_get (or_lastByCPU rj) c = Some i \<Longrightarrow> i < length (or_attempts rj) \<and> stream rj i = c"
    "j < length (or_attempts rj) \<Longrightarrow> \<exists>i. m_get (or_lastByCPU rj) (stream rj j) = Some i
       \<and> (j = i \<or> position rj j < position rj i \<and> ra_done (or_attempts rj ! j))"
  using assms by (simp_all add: ledger_inv_def)

lemma owner_invD:
  assumes "owner_inv s"
  shows "owns (sy_at s t) = Some i \<Longrightarrow> i < length (or_attempts (sy_rj s)) \<and> \<not> ra_done (or_attempts (sy_rj s) ! i)"
    "owns (sy_at s t) = Some i \<Longrightarrow> owns (sy_at s t') = Some i \<Longrightarrow> t = t'"
    "i < length (or_attempts (sy_rj s)) \<Longrightarrow> \<not> ra_done (or_attempts (sy_rj s) ! i) \<Longrightarrow> \<exists>t. owns (sy_at s t) = Some i"
    "sy_at s t = Holding i flow packet \<Longrightarrow> ra_identity (or_attempts (sy_rj s) ! i) = pp_CaptureID packet"
  using assms unfolding owner_inv_def by blast+

lemma owner_invI:
  assumes "\<And>t i. owns (sy_at s t) = Some i \<Longrightarrow> i < length (or_attempts (sy_rj s)) \<and> \<not> ra_done (or_attempts (sy_rj s) ! i)"
    and "\<And>t t' i. owns (sy_at s t) = Some i \<Longrightarrow> owns (sy_at s t') = Some i \<Longrightarrow> t = t'"
    and "\<And>i. i < length (or_attempts (sy_rj s)) \<Longrightarrow> \<not> ra_done (or_attempts (sy_rj s) ! i) \<Longrightarrow> \<exists>t. owns (sy_at s t) = Some i"
    and "\<And>t i flow packet. sy_at s t = Holding i flow packet \<Longrightarrow> ra_identity (or_attempts (sy_rj s) ! i) = pp_CaptureID packet"
  shows "owner_inv s"
  using assms unfolding owner_inv_def by blast

lemma pending_attempts_complete:
  assumes "ledger_inv rj" "i < length (or_attempts rj)" "\<not> ra_done (or_attempts rj ! i)"
  shows "i \<in> set (pending_attempts rj)"
proof -
  from assms obtain j where j: "m_get (or_lastByCPU rj) (stream rj i) = Some j" "i = j"
    using ledger_invD(4) by blast
  then have "(stream rj i, i) \<in> set (or_lastByCPU rj)" by (simp add: m_get_Some_in)
  then show ?thesis using assms(3) by (force simp: pending_attempts_def)
qed

text \<open>What a turn under the mutex does to the ledger.\<close>

lemma claim_cases:
  assumes "claim_locked sha flow packet rj = (c, rj')"
  obtains (kept) "rj' = rj" "owns (after_claim flow packet c) = None"
      "\<And>ps. after_claim flow packet c \<noteq> ClosingOn ps" "after_claim flow packet c \<noteq> ClosedUp"
  | (installed) "c = Claimed (length (or_attempts rj))" "\<not> or_closed rj"
      "rj' = rj\<lparr>or_attempts := or_attempts rj @ [\<lparr>ra_identity = pp_CaptureID packet,
          ra_binding = bindCapturedPacket sha flow packet, ra_done = False, ra_err = None\<rparr>],
        or_lastByCPU := m_put (ci_CPU (pp_CaptureID packet)) (length (or_attempts rj)) (or_lastByCPU rj)\<rparr>"
      "case m_get (or_lastByCPU rj) (ci_CPU (pp_CaptureID packet)) of
         None \<Rightarrow> int (length (or_lastByCPU rj)) < or_maxStreams rj
       | Some i \<Rightarrow> position rj i < ci_Sequence (pp_CaptureID packet) \<and> ra_done (or_attempts rj ! i)"
proof (cases "\<exists>i. c = Claimed i")
  case True
  then show thesis using assms
    by (intro installed) (auto simp: claim_locked_def Let_def position_def split: if_splits option.splits)
next
  case False
  then have "rj' = rj" using assms by (auto simp: claim_locked_def Let_def split: if_splits option.splits)
  moreover have "owns (after_claim flow packet c) = None \<and> (\<forall>ps. after_claim flow packet c \<noteq> ClosingOn ps)
      \<and> after_claim flow packet c \<noteq> ClosedUp"
    using False by (cases c) (auto simp: after_claim_def)
  ultimately show thesis by (intro kept) auto
qed

lemma ledger_install:
  assumes inv: "ledger_inv rj" and eq: "rj' = rj\<lparr>or_attempts := or_attempts rj @ [a],
      or_lastByCPU := m_put (ci_CPU (ra_identity a)) (length (or_attempts rj)) (or_lastByCPU rj)\<rparr>"
    and room: "case m_get (or_lastByCPU rj) (ci_CPU (ra_identity a)) of
         None \<Rightarrow> int (length (or_lastByCPU rj)) < or_maxStreams rj
       | Some i \<Rightarrow> position rj i < ci_Sequence (ra_identity a) \<and> ra_done (or_attempts rj ! i)"
  shows "ledger_inv rj'"
proof -
  let ?n = "length (or_attempts rj)" and ?c = "ci_CPU (ra_identity a)"
  have old: "stream rj' j = stream rj j" "position rj' j = position rj j" "or_attempts rj' ! j = or_attempts rj ! j"
    if "j < ?n" for j using that by (simp_all add: eq stream_def position_def nth_append)
  have new: "stream rj' ?n = ?c" "position rj' ?n = ci_Sequence (ra_identity a)"
    by (simp_all add: eq stream_def position_def)
  have wf: "m_wf (or_lastByCPU rj')" "int (length (or_lastByCPU rj')) \<le> or_maxStreams rj'"
    using inv room by (auto simp: eq ledger_inv_def len_m_put split: option.splits)
  have last: "m_get (or_lastByCPU rj') c = (if c = ?c then Some ?n else m_get (or_lastByCPU rj) c)" for c
    by (simp add: eq)
  have "\<exists>i. m_get (or_lastByCPU rj') (stream rj' j) = Some i
      \<and> (j = i \<or> position rj' j < position rj' i \<and> ra_done (or_attempts rj' ! j))" if "j < length (or_attempts rj')" for j
  proof (cases "j = ?n")
    case False
    then have j: "j < ?n" using that by (simp add: eq)
    then obtain i where i: "m_get (or_lastByCPU rj) (stream rj j) = Some i"  "i < ?n"
      "j = i \<or> position rj j < position rj i \<and> ra_done (or_attempts rj ! j)"
      using ledger_invD(3,4) [OF inv] by blast
    show ?thesis
    proof (cases "stream rj j = ?c")
      case True
      with room i(1) have "position rj i < ci_Sequence (ra_identity a)" "ra_done (or_attempts rj ! i)" by simp_all
      with i(3) have "position rj j < ci_Sequence (ra_identity a)" "ra_done (or_attempts rj ! j)" by auto
      then show ?thesis using True by (intro exI [of _ ?n]) (simp add: last old [OF j] new)
    next
      case False
      then show ?thesis using i by (intro exI [of _ i]) (simp add: last old [OF j] old [OF i(2)])
    qed
  qed (simp add: last new)
  moreover have "i < length (or_attempts rj') \<and> stream rj' i = c" if "m_get (or_lastByCPU rj') c = Some i" for c i
  proof (cases "c = ?c")
    case False
    with that have "i < ?n \<and> stream rj i = c" using ledger_invD(3) [OF inv] by (simp add: last)
    then show ?thesis using old(1) by (simp add: eq)
  qed (use that new in \<open>simp add: last, simp add: eq\<close>)
  ultimately show ?thesis using wf unfolding ledger_inv_def by blast
qed

lemma finish_fields [simp]:
  "or_lastByCPU (finish_attempt i e rj) = or_lastByCPU rj" "or_maxStreams (finish_attempt i e rj) = or_maxStreams rj"
  "or_closed (finish_attempt i e rj) = or_closed rj" "or_identity (finish_attempt i e rj) = or_identity rj"
  "length (or_attempts (finish_attempt i e rj)) = length (or_attempts rj)"
  by (simp_all add: finish_attempt_def)

lemma finish_nth:
  "i < length (or_attempts rj) \<Longrightarrow> or_attempts (finish_attempt i e rj) ! j
     = (if j = i then (or_attempts rj ! i)\<lparr>ra_done := True, ra_err := e\<rparr> else or_attempts rj ! j)"
  by (simp add: finish_attempt_def nth_list_update)

lemma ledger_finish:
  assumes "ledger_inv rj" "i < length (or_attempts rj)"
  shows "ledger_inv (finish_attempt i e rj)"
proof -
  have "stream (finish_attempt i e rj) = stream rj" "position (finish_attempt i e rj) = position rj"
    using assms(2) by (auto simp: stream_def position_def finish_nth fun_eq_iff)
  moreover have "ra_done (or_attempts rj ! j) \<longrightarrow> ra_done (or_attempts (finish_attempt i e rj) ! j)" for j
    using assms(2) by (simp add: finish_nth)
  ultimately show ?thesis using assms(1) unfolding ledger_inv_def by (simp, blast)
qed

text \<open>
  The steps by what they do to the shared state: most only move the caller, and the others
  install an attempt, start a write, record a result or belong to a close.
\<close>

definition new_attempt :: "(byte list \<Rightarrow> byte list) \<Rightarrow> FakeTCPSessionKey \<Rightarrow> PendingPacket \<Rightarrow> reinjectAttempt" where
  "new_attempt sha flow packet = \<lparr>ra_identity = pp_CaptureID packet,
     ra_binding = bindCapturedPacket sha flow packet, ra_done = False, ra_err = None\<rparr>"

lemma new_attempt_simps [simp]:
  "ra_identity (new_attempt sha flow packet) = pp_CaptureID packet" "\<not> ra_done (new_attempt sha flow packet)"
  by (simp_all add: new_attempt_def)

lemma rstep_kinds:
  assumes "rstep sha en s s'"
  obtains (moved) t p where "s' = s\<lparr>sy_at := (sy_at s)(t := p)\<rparr>" "owns p = owns (sy_at s t)"
      "\<And>i flow packet. p \<noteq> Holding i flow packet" "\<And>pending. p \<noteq> ClosingOn pending" "p \<noteq> ClosedUp"
  | (installed) t flow packet rj' where "owns (sy_at s t) = None" "\<not> or_closed (sy_rj s)"
      "s' = s\<lparr>sy_rj := rj', sy_at := (sy_at s)(t := Holding (length (or_attempts (sy_rj s))) flow packet)\<rparr>"
      "rj' = (sy_rj s)\<lparr>or_attempts := or_attempts (sy_rj s) @ [new_attempt sha flow packet], or_lastByCPU :=
         m_put (ci_CPU (pp_CaptureID packet)) (length (or_attempts (sy_rj s))) (or_lastByCPU (sy_rj s))\<rparr>"
      "case m_get (or_lastByCPU (sy_rj s)) (ci_CPU (pp_CaptureID packet)) of
         None \<Rightarrow> int (length (or_lastByCPU (sy_rj s))) < or_maxStreams (sy_rj s)
       | Some i \<Rightarrow> position (sy_rj s) i < ci_Sequence (pp_CaptureID packet) \<and> ra_done (or_attempts (sy_rj s) ! i)"
  | (written) t i flow packet where "sy_at s t = Holding i flow packet"
      "s' = s\<lparr>sy_at := (sy_at s)(t := Writing i flow packet), sy_writes := sy_writes s @ [(flow, packet)]\<rparr>"
  | (finished) t i e where "sy_at s t = Wrote i e"
      "s' = s\<lparr>sy_rj := finish_attempt i e (sy_rj s), sy_at := (sy_at s)(t := Returned e)\<rparr>"
  | (closing) t where "sy_at s t = Away" "s' = s\<lparr>sy_rj := (sy_rj s)\<lparr>or_closed := True\<rparr>,
      sy_at := (sy_at s)(t := ClosingOn (pending_attempts (sy_rj s)))\<rparr>"
  | (closed) t pending where "sy_at s t = ClosingOn pending" "\<forall>i \<in> set pending. ra_done (or_attempts (sy_rj s) ! i)"
      "s' = s\<lparr>sy_at := (sy_at s)(t := ClosedUp)\<rparr>"
  using assms
proof (cases rule: rstep.cases)
  case (claim t flow packet c rj')
  from claim(3) show thesis
  proof (cases rule: claim_cases)
    case kept
    then show thesis using claim by (intro moved [of t "after_claim flow packet c"]) auto
  next
    case new: installed
    then show thesis using claim
      by (intro installed [of t flow packet rj']) (simp_all add: after_claim_def new_attempt_def)
  qed
next
  case (result t i)
  then show thesis by (intro moved [of t "Returned (ra_err (or_attempts (sy_rj s) ! i))"]) auto
next
  case (cancel t i flow packet e)
  then show thesis by (intro moved [of t "Returned (Some e)"]) auto
next
  case (leave t e)
  then show thesis by (intro moved [of t Away]) auto
qed (auto intro: moved written finished closing closed)

lemma ledger_step:
  assumes "rstep sha en s s'" "rinv s"
  shows "ledger_inv (sy_rj s')"
proof -
  have inv: "ledger_inv (sy_rj s)" "owner_inv s" using assms(2) by (simp_all add: rinv_def)
  from assms(1) show ?thesis
  proof (cases rule: rstep_kinds)
    case (installed t flow packet rj')
    then have "ledger_inv rj'"
      by (intro ledger_install [OF inv(1), of _ "new_attempt sha flow packet"]) (simp_all split: option.splits)
    then show ?thesis using installed(3) by simp
  next
    case (finished t i e)
    have "i < length (or_attempts (sy_rj s))" using owner_invD(1) [OF inv(2), of t i] finished(1) by simp
    then show ?thesis using finished(2) inv(1) by (simp add: ledger_finish)
  qed (use inv(1) in \<open>simp_all add: ledger_inv_def stream_def position_def\<close>)
qed

text \<open>A caller moves without touching the reinjector and owns afterwards what it owned before.\<close>

lemma owner_move:
  assumes inv: "owner_inv s" and s': "or_attempts (sy_rj s') = or_attempts (sy_rj s)" "sy_at s' = (sy_at s)(t := p)"
    and p: "owns p = owns (sy_at s t)" "\<And>i flow packet. p \<noteq> Holding i flow packet"
  shows "owner_inv s'"
proof -
  have own: "owns (sy_at s' u) = owns (sy_at s u)" for u by (simp add: s'(2) p(1))
  have "sy_at s u = Holding i flow packet" if "sy_at s' u = Holding i flow packet" for u i flow packet
    using that p(2) by (cases "u = t") (simp_all add: s'(2))
  then show ?thesis by (intro owner_invI) (use owner_invD [OF inv] own s'(1) in metis)+
qed

lemma owner_install:
  assumes inv: "owner_inv s" and t: "owns (sy_at s t) = None"
    and rj: "rj' = (sy_rj s)\<lparr>or_attempts := or_attempts (sy_rj s) @ [a], or_lastByCPU := m\<rparr>"
    and a: "\<not> ra_done a" "ra_identity a = pp_CaptureID packet"
  shows "owner_inv (s\<lparr>sy_rj := rj', sy_at := (sy_at s)(t := Holding (length (or_attempts (sy_rj s))) flow packet)\<rparr>)"
    (is "owner_inv ?s")
proof -
  let ?n = "length (or_attempts (sy_rj s))"
  note D = owner_invD [OF inv]
  have n: "length (or_attempts rj') = Suc ?n" "or_attempts rj' ! ?n = a"
    and old: "\<And>i. i < ?n \<Longrightarrow> or_attempts rj' ! i = or_attempts (sy_rj s) ! i" by (simp_all add: rj nth_append)
  have less: "i < ?n" if "owns (sy_at s u) = Some i" for u i using D(1) [OF that] by simp
  show ?thesis
  proof (rule owner_invI)
    fix u i assume "owns (sy_at ?s u) = Some i"
    then show "i < length (or_attempts (sy_rj ?s)) \<and> \<not> ra_done (or_attempts (sy_rj ?s) ! i)"
      using D(1) [of u i] a(1) n old [of i] by (cases "u = t") auto
  next
    fix u v i assume "owns (sy_at ?s u) = Some i" "owns (sy_at ?s v) = Some i"
    then show "u = v" using less [of u i] less [of v i] D(2) [of u i v] by (cases "u = t"; cases "v = t") auto
  next
    fix i assume i: "i < length (or_attempts (sy_rj ?s))" "\<not> ra_done (or_attempts (sy_rj ?s) ! i)"
    show "\<exists>u. owns (sy_at ?s u) = Some i"
    proof (cases "i = ?n")
      case False
      then obtain u where "owns (sy_at s u) = Some i" using i D(3) [of i] old [of i] n(1) by auto
      then show ?thesis using t by (intro exI [of _ u]) auto
    qed (simp add: exI [of _ t])
  next
    fix u i f d assume "sy_at ?s u = Holding i f d"
    then show "ra_identity (or_attempts (sy_rj ?s) ! i) = pp_CaptureID d"
      using D(4) [of u i f d] less [of u i] n a(2) old [of i] by (cases "u = t") auto
  qed
qed

lemma owner_finish:
  assumes inv: "owner_inv s" and t: "sy_at s t = Wrote i e"
  shows "owner_inv (s\<lparr>sy_rj := finish_attempt i e (sy_rj s), sy_at := (sy_at s)(t := Returned e)\<rparr>)"
    (is "owner_inv ?s")
proof -
  note D = owner_invD [OF inv]
  have i: "i < length (or_attempts (sy_rj s))" using D(1) [of t i] t by simp
  have other: "j \<noteq> i" if "owns (sy_at s u) = Some j" "u \<noteq> t" for u j using D(2) [of u j t] that t by auto
  show ?thesis
  proof (rule owner_invI)
    fix u j assume "owns (sy_at ?s u) = Some j"
    then show "j < length (or_attempts (sy_rj ?s)) \<and> \<not> ra_done (or_attempts (sy_rj ?s) ! j)"
      using D(1) [of u j] other [of u j] by (cases "u = t") (simp_all add: finish_nth [OF i])
  next
    fix u v j assume "owns (sy_at ?s u) = Some j" "owns (sy_at ?s v) = Some j"
    then show "u = v" using D(2) [of u j v] by (cases "u = t"; cases "v = t") auto
  next
    fix j assume j: "j < length (or_attempts (sy_rj ?s))" "\<not> ra_done (or_attempts (sy_rj ?s) ! j)"
    then have "j \<noteq> i" "\<not> ra_done (or_attempts (sy_rj s) ! j)" by (auto simp: finish_nth [OF i] split: if_splits)
    then obtain u where "owns (sy_at s u) = Some j" "u \<noteq> t" using D(3) [of j] j(1) t by fastforce
    then show "\<exists>u. owns (sy_at ?s u) = Some j" by (intro exI [of _ u]) auto
  next
    fix u j f d assume "sy_at ?s u = Holding j f d"
    then show "ra_identity (or_attempts (sy_rj ?s) ! j) = pp_CaptureID d"
      using D(4) [of u j f d] by (cases "u = t") (auto simp: finish_nth [OF i])
  qed
qed

lemma owner_step:
  assumes "rstep sha en s s'" "rinv s"
  shows "owner_inv s'"
proof -
  have inv: "owner_inv s" using assms(2) by (simp add: rinv_def)
  note move = owner_move [OF inv]
  from assms(1) show ?thesis
  proof (cases rule: rstep_kinds)
    case (moved t p)
    then show ?thesis by (intro move [where t = t and p = p]) simp_all
  next
    case (installed t flow packet rj')
    then show ?thesis by (simp add: owner_install [OF inv _ refl])
  next
    case (written t i flow packet)
    then show ?thesis by (intro move [where t = t and p = "Writing i flow packet"]) simp_all
  next
    case (finished t i e)
    then show ?thesis using owner_finish [OF inv] by simp
  next
    case (closing t)
    then show ?thesis by (intro move [where t = t and p = "ClosingOn (pending_attempts (sy_rj s))"]) simp_all
  next
    case (closed t pending)
    then show ?thesis by (intro move [where t = t and p = ClosedUp]) simp_all
  qed
qed

lemma history_invD:
  assumes "history_inv s" "d \<in> set (sy_writes s)"
  obtains i where "i < length (or_attempts (sy_rj s))" "ra_identity (or_attempts (sy_rj s) ! i) = pp_CaptureID (snd d)"
    "\<And>t flow packet. sy_at s t \<noteq> Holding i flow packet"
  using assms unfolding history_inv_def by blast

text \<open>A write that begins comes after every write of its CPU with a smaller sequence.\<close>

lemma write_is_newest:
  assumes inv: "rinv s" and t: "sy_at s t = Holding i flow packet" and d: "d \<in> set (sy_writes s)"
    and cpu: "ci_CPU (pp_CaptureID (snd d)) = ci_CPU (pp_CaptureID packet)"
  shows "ci_Sequence (pp_CaptureID (snd d)) < ci_Sequence (pp_CaptureID packet)"
proof -
  let ?rj = "sy_rj s"
  have L: "ledger_inv ?rj" and O: "owner_inv s" and H: "history_inv s" using inv by (simp_all add: rinv_def)
  have i: "i < length (or_attempts ?rj)" "\<not> ra_done (or_attempts ?rj ! i)" using owner_invD(1) [OF O, of t i] t by auto
  have id: "ra_identity (or_attempts ?rj ! i) = pp_CaptureID packet" using owner_invD(4) [OF O t] .
  have newest: "m_get (or_lastByCPU ?rj) (stream ?rj i) = Some i" using ledger_invD(4) [OF L i(1)] i(2) by blast
  obtain j where j: "j < length (or_attempts ?rj)" "ra_identity (or_attempts ?rj ! j) = pp_CaptureID (snd d)"
    "j \<noteq> i" using history_invD [OF H d] t by metis
  have "stream ?rj j = stream ?rj i" using j(2) id cpu by (simp add: stream_def)
  then have "position ?rj j < position ?rj i" using ledger_invD(4) [OF L j(1)] newest j(3) by auto
  then show ?thesis using j(2) id by (simp add: position_def)
qed

lemma history_invI:
  assumes "\<And>d. d \<in> set (sy_writes s) \<Longrightarrow> \<exists>i < length (or_attempts (sy_rj s)).
      ra_identity (or_attempts (sy_rj s) ! i) = pp_CaptureID (snd d) \<and> (\<forall>t flow packet. sy_at s t \<noteq> Holding i flow packet)"
    and "sorted_wrt (\<lambda>a b. ci_CPU (pp_CaptureID (snd a)) = ci_CPU (pp_CaptureID (snd b))
          \<longrightarrow> ci_Sequence (pp_CaptureID (snd a)) < ci_Sequence (pp_CaptureID (snd b))) (sy_writes s)"
  shows "history_inv s"
  using assms unfolding history_inv_def by blast

text \<open>Steps that write nothing keep the history when they keep identities and hold nothing new.\<close>

lemma history_kept:
  assumes inv: "history_inv s" and "sy_writes s' = sy_writes s"
    and "\<And>i. i < length (or_attempts (sy_rj s)) \<Longrightarrow> i < length (or_attempts (sy_rj s'))
      \<and> ra_identity (or_attempts (sy_rj s') ! i) = ra_identity (or_attempts (sy_rj s) ! i)"
    and "\<And>u i flow packet. sy_at s' u = Holding i flow packet \<Longrightarrow>
      sy_at s u = Holding i flow packet \<or> length (or_attempts (sy_rj s)) \<le> i"
  shows "history_inv s'"
proof (rule history_invI)
  fix d assume "d \<in> set (sy_writes s')"
  with assms(2) have d: "d \<in> set (sy_writes s)" by simp
  obtain i where i: "i < length (or_attempts (sy_rj s))" "ra_identity (or_attempts (sy_rj s) ! i) = pp_CaptureID (snd d)"
    "\<And>t flow packet. sy_at s t \<noteq> Holding i flow packet" using history_invD [OF inv d] by blast
  have "sy_at s' u \<noteq> Holding i flow packet" for u flow packet using assms(4) [of u i flow packet] i(1,3) by auto
  then show "\<exists>i < length (or_attempts (sy_rj s')). ra_identity (or_attempts (sy_rj s') ! i) = pp_CaptureID (snd d)
      \<and> (\<forall>t flow packet. sy_at s' t \<noteq> Holding i flow packet)"
    using i(2) assms(3) [OF i(1)] by (intro exI [of _ i]) simp
qed (use inv assms(2) in \<open>simp add: history_inv_def\<close>)

lemma history_step:
  assumes "rstep sha en s s'" "rinv s"
  shows "history_inv s'"
proof -
  have O: "owner_inv s" and H: "history_inv s" using assms(2) by (simp_all add: rinv_def)
  from assms(1) show ?thesis
  proof (cases rule: rstep_kinds)
    case (written t i flow packet)
    have i: "i < length (or_attempts (sy_rj s))" using owner_invD(1) [OF O, of t i] written(1) by simp
    have id: "ra_identity (or_attempts (sy_rj s) ! i) = pp_CaptureID packet" using owner_invD(4) [OF O written(1)] .
    have free: "sy_at s' u \<noteq> Holding i f d" for u f d
      using owner_invD(2) [OF O, of t i u] written by (cases "u = t") auto
    show ?thesis
    proof (rule history_invI)
      fix d assume "d \<in> set (sy_writes s')"
      then consider "d = (flow, packet)" | "d \<in> set (sy_writes s)" using written(2) by auto
      then show "\<exists>i < length (or_attempts (sy_rj s')). ra_identity (or_attempts (sy_rj s') ! i) = pp_CaptureID (snd d)
          \<and> (\<forall>t flow packet. sy_at s' t \<noteq> Holding i flow packet)"
      proof cases
        case 1
        then show ?thesis using i id free written(2) by (intro exI [of _ i]) simp
      next
        case 2
        obtain j where "j < length (or_attempts (sy_rj s))" "ra_identity (or_attempts (sy_rj s) ! j) = pp_CaptureID (snd d)"
          "\<And>t flow packet. sy_at s t \<noteq> Holding j flow packet" using history_invD [OF H 2] by blast
        then show ?thesis using written(2) by (intro exI [of _ j]) simp
      qed
    qed (use H written(2) write_is_newest [OF assms(2) written(1)] in \<open>auto simp: history_inv_def sorted_wrt_append\<close>)
  next
    case (moved t p)
    have "sy_at s u = Holding i f d" if "sy_at s' u = Holding i f d" for u i f d
      using that moved(1,3) by (cases "u = t") auto
    then show ?thesis using moved(1) by (intro history_kept [OF H]) simp_all
  next
    case (installed t flow packet rj')
    have "sy_at s u = Holding i f d \<or> length (or_attempts (sy_rj s)) \<le> i" if "sy_at s' u = Holding i f d" for u i f d
      using that installed(3) by (cases "u = t") auto
    then show ?thesis using installed(3,4) by (intro history_kept [OF H]) (simp_all add: nth_append)
  next
    case (finished t i e)
    have "i < length (or_attempts (sy_rj s))" using owner_invD(1) [OF O, of t i] finished(1) by simp
    moreover have "sy_at s u = Holding j f d" if "sy_at s' u = Holding j f d" for u j f d
      using that finished(2) by (cases "u = t") auto
    ultimately show ?thesis using finished(2) by (intro history_kept [OF H]) (simp_all add: finish_nth)
  next
    case (closing t)
    have "sy_at s u = Holding j f d" if "sy_at s' u = Holding j f d" for u j f d
      using that closing(2) by (cases "u = t") auto
    then show ?thesis using closing(2) by (intro history_kept [OF H]) simp_all
  next
    case (closed t pending)
    have "sy_at s u = Holding j f d" if "sy_at s' u = Holding j f d" for u j f d
      using that closed(3) by (cases "u = t") auto
    then show ?thesis using closed(3) by (intro history_kept [OF H]) simp_all
  qed
qed

lemma close_invD:
  assumes "close_inv s"
  shows "sy_at s t = ClosingOn pending \<Longrightarrow> or_closed (sy_rj s)"
    "sy_at s t = ClosingOn pending \<Longrightarrow> i < length (or_attempts (sy_rj s)) \<Longrightarrow>
       \<not> ra_done (or_attempts (sy_rj s) ! i) \<Longrightarrow> i \<in> set pending"
    "sy_at s t = ClosedUp \<Longrightarrow> or_closed (sy_rj s)"
    "sy_at s t = ClosedUp \<Longrightarrow> i < length (or_attempts (sy_rj s)) \<Longrightarrow> ra_done (or_attempts (sy_rj s) ! i)"
  using assms unfolding close_inv_def by blast+

text \<open>A step that leaves no closer in a new place and only completes attempts keeps the fence.\<close>

lemma close_kept:
  assumes inv: "close_inv s" and "or_closed (sy_rj s) \<Longrightarrow> or_closed (sy_rj s')"
    and "length (or_attempts (sy_rj s')) = length (or_attempts (sy_rj s))"
    and "\<And>i. ra_done (or_attempts (sy_rj s) ! i) \<Longrightarrow> ra_done (or_attempts (sy_rj s') ! i)"
    and "\<And>u pending. sy_at s' u = ClosingOn pending \<Longrightarrow> sy_at s u = ClosingOn pending \<or>
      or_closed (sy_rj s') \<and> (\<forall>i < length (or_attempts (sy_rj s)). \<not> ra_done (or_attempts (sy_rj s) ! i) \<longrightarrow> i \<in> set pending)"
    and "\<And>u. sy_at s' u = ClosedUp \<Longrightarrow> sy_at s u = ClosedUp \<or>
      or_closed (sy_rj s') \<and> (\<forall>i < length (or_attempts (sy_rj s)). ra_done (or_attempts (sy_rj s) ! i))"
  shows "close_inv s'"
  unfolding close_inv_def
proof (intro conjI allI impI)
  fix u pending assume at: "sy_at s' u = ClosingOn pending"
  show "or_closed (sy_rj s')" using assms(5) [OF at] close_invD(1) [OF inv] assms(2) by blast
  fix i assume i: "i < length (or_attempts (sy_rj s'))" "\<not> ra_done (or_attempts (sy_rj s') ! i)"
  then have "i < length (or_attempts (sy_rj s))" "\<not> ra_done (or_attempts (sy_rj s) ! i)" using assms(3,4) by auto
  then show "i \<in> set pending" using assms(5) [OF at] close_invD(2) [OF inv] by blast
next
  fix u assume at: "sy_at s' u = ClosedUp"
  show "or_closed (sy_rj s')" using assms(6) [OF at] close_invD(3) [OF inv] assms(2) by blast
  fix i assume "i < length (or_attempts (sy_rj s'))"
  then show "ra_done (or_attempts (sy_rj s') ! i)"
    using assms(3,4) assms(6) [OF at] close_invD(4) [OF inv] by metis
qed

lemma close_step:
  assumes "rstep sha en s s'" "rinv s"
  shows "close_inv s'"
proof -
  have L: "ledger_inv (sy_rj s)" and O: "owner_inv s" and C: "close_inv s" using assms(2) by (simp_all add: rinv_def)
  from assms(1) show ?thesis
  proof (cases rule: rstep_kinds)
    case (moved t p)
    then show ?thesis by (intro close_kept [OF C]) (auto split: if_splits)
  next
    case (installed t flow packet rj')
    have "sy_at s u \<noteq> ClosingOn pending" "sy_at s u \<noteq> ClosedUp" for u pending
      using close_invD(1,3) [OF C, of u] installed(2) by auto
    then show ?thesis using installed(3) by (auto simp: close_inv_def)
  next
    case (written t i flow packet)
    then show ?thesis by (intro close_kept [OF C]) (auto split: if_splits)
  next
    case (finished t i e)
    have "i < length (or_attempts (sy_rj s))" using owner_invD(1) [OF O, of t i] finished(1) by simp
    then show ?thesis using finished(2) by (intro close_kept [OF C]) (auto simp: finish_nth split: if_splits)
  next
    case (closing t)
    then show ?thesis using pending_attempts_complete [OF L] by (intro close_kept [OF C]) (auto split: if_splits)
  next
    case (closed t pending)
    have "or_closed (sy_rj s)" using close_invD(1) [OF C closed(1)] .
    moreover have "\<forall>i < length (or_attempts (sy_rj s)). ra_done (or_attempts (sy_rj s) ! i)"
      using close_invD(2) [OF C closed(1)] closed(2) by blast
    ultimately show ?thesis using closed(3) by (intro close_kept [OF C]) (auto split: if_splits)
  qed
qed

lemma rinv_start: "newOnceReinjector writer identity n x = (Inr rj, x') \<Longrightarrow> rinv (rstart rj)"
  by (auto simp: newOnceReinjector_def rinv_def rstart_def ledger_inv_def owner_inv_def history_inv_def close_inv_def
      split: option.splits prod.splits if_splits)

lemma rinv_step: "rstep sha en s s' \<Longrightarrow> rinv s \<Longrightarrow> rinv s'"
  using ledger_step owner_step history_step close_step unfolding rinv_def [of s'] by blast

lemma rreach_rinv: "rreach sha en rj s \<Longrightarrow> rinv (rstart rj) \<Longrightarrow> rinv s"
  by (induction rule: rreach.induct) (auto intro: rinv_step)

lemma closed_step_writes:
  assumes "rstep sha en s s'" "rinv s" "or_closed (sy_rj s)"
    and "\<forall>i < length (or_attempts (sy_rj s)). ra_done (or_attempts (sy_rj s) ! i)"
  shows "sy_writes s' = sy_writes s \<and> or_closed (sy_rj s')
    \<and> (\<forall>i < length (or_attempts (sy_rj s')). ra_done (or_attempts (sy_rj s') ! i))"
proof -
  have "owner_inv s" using assms(2) by (simp add: rinv_def)
  then have idle: "owns (sy_at s t) \<noteq> Some i" for t i using owner_invD(1) assms(4) by blast
  from assms(1) show ?thesis
  proof (cases rule: rstep_kinds)
    case (written t i flow packet)
    then show ?thesis using idle [of t i] by simp
  next
    case (finished t i e)
    then show ?thesis using idle [of t i] by simp
  qed (use assms(3,4) in auto)
qed

section \<open>Properties\<close>

text \<open>
  C6. Once only, and in order: in every run of the reinjector with any number of concurrent
  callers, however their packets repeat or overtake each other, however writes fail and callers
  give up, no captured packet is written twice, the writes of one capture CPU happen in strictly
  increasing sequence, and the ledger never grows beyond its configured number of streams.
\<close>

theorem reinject_once_in_order:
  assumes "newOnceReinjector writer identity n x = (Inr rj, x')" "rreach sha en rj s"
  shows "distinct (map (\<lambda>d. pp_CaptureID (snd d)) (sy_writes s))
    \<and> sorted_wrt (\<lambda>a b. ci_CPU (pp_CaptureID (snd a)) = ci_CPU (pp_CaptureID (snd b))
         \<longrightarrow> ci_Sequence (pp_CaptureID (snd a)) < ci_Sequence (pp_CaptureID (snd b))) (sy_writes s)
    \<and> int (length (or_lastByCPU (sy_rj s))) \<le> or_maxStreams (sy_rj s)"
proof -
  have inv: "rinv s" using rreach_rinv [OF assms(2) rinv_start [OF assms(1)]] .
  then have sorted: "sorted_wrt (\<lambda>a b. ci_CPU (pp_CaptureID (snd a)) = ci_CPU (pp_CaptureID (snd b))
      \<longrightarrow> ci_Sequence (pp_CaptureID (snd a)) < ci_Sequence (pp_CaptureID (snd b))) (sy_writes s)"
    by (simp add: rinv_def history_inv_def)
  then have "sorted_wrt (\<noteq>) (map (\<lambda>d. pp_CaptureID (snd d)) (sy_writes s))"
    unfolding sorted_wrt_map by (rule sorted_wrt_mono_rel [rotated]) auto
  then have "distinct (map (\<lambda>d. pp_CaptureID (snd d)) (sy_writes s))" by (simp add: distinct_conv_nth sorted_wrt_iff_nth_less, metis nat_neq_iff)
  moreover have "int (length (or_lastByCPU (sy_rj s))) \<le> or_maxStreams (sy_rj s)"
    using inv ledger_invD(2) by (auto simp: rinv_def)
  ultimately show ?thesis using sorted by simp
qed

text \<open>
  C8. Close is a fence: once a call of \<open>Close\<close> has returned, no write is under way and none ever
  begins, whatever the callers do, so that the writer may be released.
\<close>

theorem reinject_close_fences:
  assumes "newOnceReinjector writer identity n x = (Inr rj, x')" "rreach sha en rj s" "sy_at s t = ClosedUp"
    and "(rstep sha en)\<^sup>*\<^sup>* s s'"
  shows "sy_writes s' = sy_writes s \<and> (\<forall>u. owns (sy_at s' u) = None)"
proof -
  have inv: "rinv s" using rreach_rinv [OF assms(2) rinv_start [OF assms(1)]] .
  have "rinv s' \<and> or_closed (sy_rj s') \<and> (\<forall>i < length (or_attempts (sy_rj s')). ra_done (or_attempts (sy_rj s') ! i))
      \<and> sy_writes s' = sy_writes s"
    using assms(4)
  proof (induction rule: rtranclp_induct)
    case base
    have "close_inv s" using inv by (simp add: rinv_def)
    then show ?case using inv close_invD(3,4) [OF _ assms(3)] by blast
  next
    case (step s1 s2)
    then show ?case using closed_step_writes [OF step(2)] rinv_step [OF step(2)] by simp
  qed
  moreover from this have "owns (sy_at s' u) = None" for u
    using owner_invD(1) [of s' u] by (cases "owns (sy_at s' u)") (auto simp: rinv_def)
  ultimately show ?thesis by simp
qed

section \<open>A concrete run\<close>

text \<open>The next step of a caller that is inside the reinjector, with a successful write.\<close>

definition go_on :: "(byte list \<Rightarrow> byte list) \<Rightarrow> nat \<Rightarrow> 'x rsys \<Rightarrow> 'x rsys" where
  "go_on sha t s =
     (case sy_at s t of
        Entering flow packet \<Rightarrow>
          (case claim_locked sha flow packet (sy_rj s) of
             (c, rj') \<Rightarrow> s\<lparr>sy_rj := rj', sy_at := (sy_at s)(t := after_claim flow packet c)\<rparr>)
      | AwaitingResult i \<Rightarrow>
          if ra_done (or_attempts (sy_rj s) ! i)
          then s\<lparr>sy_at := (sy_at s)(t := Returned (ra_err (or_attempts (sy_rj s) ! i)))\<rparr> else s
      | AwaitingTurn i flow packet \<Rightarrow>
          if ra_done (or_attempts (sy_rj s) ! i) then s\<lparr>sy_at := (sy_at s)(t := Entering flow packet)\<rparr> else s
      | Holding i flow packet \<Rightarrow>
          s\<lparr>sy_at := (sy_at s)(t := Writing i flow packet), sy_writes := sy_writes s @ [(flow, packet)]\<rparr>
      | Writing i flow packet \<Rightarrow> s\<lparr>sy_at := (sy_at s)(t := Wrote i (write_err None))\<rparr>
      | Wrote i e \<Rightarrow> s\<lparr>sy_rj := finish_attempt i e (sy_rj s), sy_at := (sy_at s)(t := Returned e)\<rparr>
      | ClosingOn pending \<Rightarrow>
          if list_all (\<lambda>i. ra_done (or_attempts (sy_rj s) ! i)) pending
          then s\<lparr>sy_at := (sy_at s)(t := ClosedUp)\<rparr> else s
      | _ \<Rightarrow> s)"

lemma go_on_step: "go_on sha t s = s \<or> rstep sha en s (go_on sha t s)"
proof (cases "sy_at s t")
  case (Entering flow packet)
  then show ?thesis
    by (cases "claim_locked sha flow packet (sy_rj s)") (simp add: go_on_def rstep.claim [where t = t])
next
  case (AwaitingResult i)
  then show ?thesis by (simp add: go_on_def rstep.result)
next
  case (AwaitingTurn i flow packet)
  then show ?thesis by (simp add: go_on_def rstep.turn)
next
  case (Holding i flow packet)
  then show ?thesis by (simp add: go_on_def rstep.begin_write)
next
  case (Writing i flow packet)
  then show ?thesis by (simp add: go_on_def rstep.end_write)
next
  case (Wrote i e)
  then show ?thesis by (simp add: go_on_def rstep.finish)
next
  case (ClosingOn pending)
  then show ?thesis by (simp add: go_on_def list_all_iff rstep.closed)
qed (simp_all add: go_on_def)

lemma schedule_reach: "rreach sha en rj s \<Longrightarrow> rreach sha en rj (fold (go_on sha) ts s)"
proof (induction ts arbitrary: s)
  case (Cons t ts)
  then show ?case using go_on_step [of sha t s en] rreach.step by fastforce
qed simp

lemma schedule_steps: "(rstep sha en)\<^sup>*\<^sup>* s (fold (go_on sha) ts s)"
proof (induction ts arbitrary: s)
  case (Cons t ts)
  then show ?case using go_on_step [of sha t s en] by (fastforce intro: converse_rtranclp_into_rtranclp)
qed simp

definition put_at :: "nat \<Rightarrow> place \<Rightarrow> 'x rsys \<Rightarrow> 'x rsys" where
  "put_at t p s = s\<lparr>sy_at := (sy_at s)(t := p)\<rparr>"

text \<open>Two callers with the same capture and one with the next, all inside before any of them locks.\<close>

definition sample_callers :: "unit rsys" where
  "sample_callers = put_at 2 (Entering sample_key (sample_captured 2))
     (put_at 1 (Entering sample_key (sample_captured 1))
       (put_at 0 (Entering sample_key (sample_captured 1)) (rstart sample_reinjector)))"

lemma sample_callers_reach: "rreach sha LittleEndian sample_reinjector sample_callers"
proof -
  have enter: "rreach sha LittleEndian sample_reinjector (put_at t (Entering sample_key p) s)"
    if "rreach sha LittleEndian sample_reinjector s" "sy_at s t = Away" "sy_rj s = sample_reinjector"
      "reinject_checks LittleEndian (dom_identity sample_domain) sample_key p = Some None" for s t p
    using rreach.step [OF that(1) rstep.enter [OF that(2), of LittleEndian sample_key p sha]] that(3,4)
    by (simp add: put_at_def sample_reinjector_def)
  show ?thesis unfolding sample_callers_def
    by (intro enter rreach.start sample_checks) (simp_all add: put_at_def rstart_def)
qed

definition sample_done :: "unit rsys" where
  "sample_done = fold (go_on (take 32)) [0, 1, 2, 0, 0, 0, 1, 2, 2, 2, 2, 2] sample_callers"

lemma sample_done_writes: "map (\<lambda>d. ci_Sequence (pp_CaptureID (snd d))) (sy_writes sample_done) = [1, 2]"
  by code_simp

theorem reinject_once_in_order_witness:
  "map (\<lambda>d. ci_Sequence (pp_CaptureID (snd d))) (sy_writes sample_done) = [1, 2]
     \<and> distinct (map (\<lambda>d. pp_CaptureID (snd d)) (sy_writes sample_done))
     \<and> int (length (or_lastByCPU (sy_rj sample_done))) \<le> or_maxStreams (sy_rj sample_done)"
proof -
  have "rreach (take 32) LittleEndian sample_reinjector sample_done"
    unfolding sample_done_def by (rule schedule_reach [OF sample_callers_reach])
  from reinject_once_in_order [OF sample_reinjector_new this] sample_done_writes show ?thesis by simp
qed

definition sample_shut :: "unit rsys" where
  "sample_shut = put_at 3 ClosedUp (sample_callers\<lparr>sy_rj := (sy_rj sample_callers)\<lparr>or_closed := True\<rparr>\<rparr>)"

theorem reinject_close_fences_witness:
  "sy_writes (fold (go_on (take 32)) [0, 1, 2, 0, 1, 2] sample_shut) = []
     \<and> (\<forall>u. owns (sy_at (fold (go_on (take 32)) [0, 1, 2, 0, 1, 2] sample_shut) u) = None)
     \<and> sy_at (fold (go_on (take 32)) [0, 1, 2, 0, 1, 2] sample_shut) 0 = Returned (Some (ErrVar ErrReinjectorClosed))"
proof -
  have away: "sy_at sample_callers 3 = Away" by (simp add: sample_callers_def put_at_def rstart_def)
  have "pending_attempts (sy_rj sample_callers) = []" by code_simp
  from rreach.step [OF sample_callers_reach rstep.close [OF away, of "take 32" LittleEndian]] this
  have "rreach (take 32) LittleEndian sample_reinjector
      (put_at 3 (ClosingOn []) (sample_callers\<lparr>sy_rj := (sy_rj sample_callers)\<lparr>or_closed := True\<rparr>\<rparr>))"
    by (simp add: put_at_def)
  from schedule_reach [OF this, of "[3]"] have shut: "rreach (take 32) LittleEndian sample_reinjector sample_shut"
    by (simp add: go_on_def put_at_def sample_shut_def)
  have "sy_at sample_shut 3 = ClosedUp" by (simp add: sample_shut_def put_at_def)
  from reinject_close_fences [OF sample_reinjector_new shut this schedule_steps [of _ _ _ "[0, 1, 2, 0, 1, 2]"]]
  have "sy_writes (fold (go_on (take 32)) [0, 1, 2, 0, 1, 2] sample_shut) = sy_writes sample_shut
     \<and> (\<forall>u. owns (sy_at (fold (go_on (take 32)) [0, 1, 2, 0, 1, 2] sample_shut) u) = None)" .
  moreover have "sy_writes sample_shut = []" by code_simp
  moreover have "sy_at (fold (go_on (take 32)) [0, 1, 2, 0, 1, 2] sample_shut) 0 = Returned (Some (ErrVar ErrReinjectorClosed))"
    by code_simp
  ultimately show ?thesis by simp
qed

end
