(* ===== verification/Engine_Router.thy ===== *)
theory Engine_Router
  imports Engine_Props
begin

text \<open>
  The exact dispatcher over the engines of one runtime domain,
  \<open>internal/faketcp/engine_router.go\<close>, and the dispatcher of a single engine. The router owns
  its engines, so it holds them as values; all of them work on one outside world and share the
  session identifiers of their domain.
\<close>

section \<open>Data\<close>

definition ActionRewrite :: u8 where "ActionRewrite = 3"

text \<open>An engine with the capabilities that it was built with; \<open>None\<close> is a nil pointer.\<close>

type_synonym 'x owned_engine = "'x capabilities \<times> Engine"

record 'x WGEngineBinding =
  wb_WGID :: u32
  wb_Engine :: "'x owned_engine option"

record EngineRoute =
  rt_RouteGeneration :: u64
  rt_UnderlayIndex :: u32
  rt_LocalPort :: u16
  rt_WGID :: u32
  rt_FWMark :: u32
  rt_Action :: u8

record 'x WGEnginePlan =
  wp_WGID :: u32
  wp_Options :: "'x Options"
  wp_Routes :: "EngineRoute list"

record engineRouteKey =
  rk_generation :: u64
  rk_underlayIndex :: u32
  rk_localPort :: u16
  rk_wgID :: u32

record engineRouteTarget =
  tg_wgID :: u32
  tg_fwmark :: u32

record 'x EngineRouter =
  er_identity :: RuntimeIdentity
  er_engines :: "(u32, 'x owned_engine) gomap"
  er_routes :: "(engineRouteKey, engineRouteTarget) gomap"
  er_wgIDs :: "u32 list"

definition route_invalid :: "string \<Rightarrow> err" where
  "route_invalid message = ErrWrap message [ErrVar ErrEngineRouteInvalid]"

definition route_conflict :: "string \<Rightarrow> err" where
  "route_conflict message = ErrWrap message [ErrVar ErrEngineRouteConflict]"

definition route_rejected :: "string \<Rightarrow> err" where
  "route_rejected message = ErrWrap message [ErrVar ErrEngineRouteRejected]"

section \<open>Construction\<close>

text \<open>The loop over the bindings; \<open>owners\<close> maps an instance token to the WGID that has it.\<close>

fun bind_engines ::
  "RuntimeDomain \<Rightarrow> 'x WGEngineBinding list \<Rightarrow> (u32, 'x owned_engine) gomap \<Rightarrow> (nat, u32) gomap
     \<Rightarrow> err + (u32, 'x owned_engine) gomap" where
  "bind_engines domain [] engines owners = Inr engines"
| "bind_engines domain (binding # bindings) engines owners =
     (case wb_Engine binding of
        None \<Rightarrow> Inl (route_invalid ''binding has zero WGID or nil Engine'')
      | Some (c, e) \<Rightarrow>
          if wb_WGID binding = 0 then Inl (route_invalid ''binding has zero WGID or nil Engine'')
          else if m_get engines (wb_WGID binding) \<noteq> None then Inl (route_conflict ''duplicate binding for WGID'')
          else (case e_instance e of
            None \<Rightarrow> Inl (route_invalid ''Engine does not belong to the router RuntimeDomain'')
          | Some token \<Rightarrow>
              if e_domain e \<noteq> Some (dom_state domain) \<or> e_identity e \<noteq> dom_identity domain
              then Inl (route_invalid ''Engine does not belong to the router RuntimeDomain'')
              else if m_get owners token \<noteq> None
              then Inl (route_conflict ''one Engine instance is assigned to two WGIDs'')
              else bind_engines domain bindings (m_put (wb_WGID binding) (c, e) engines)
                     (m_put token (wb_WGID binding) owners)))"

definition route_key :: "EngineRoute \<Rightarrow> engineRouteKey" where
  "route_key route = \<lparr>rk_generation = rt_RouteGeneration route, rk_underlayIndex = rt_UnderlayIndex route,
     rk_localPort = rt_LocalPort route, rk_wgID = rt_WGID route\<rparr>"

text \<open>The loop over the routes; the keys of \<open>marks\<close> are also the \<open>referenced\<close> WGIDs.\<close>

fun freeze_routes ::
  "RuntimeIdentity \<Rightarrow> (u32, 'x owned_engine) gomap \<Rightarrow> EngineRoute list
     \<Rightarrow> (engineRouteKey, engineRouteTarget) gomap \<Rightarrow> (u32, u32) gomap
     \<Rightarrow> err + (engineRouteKey, engineRouteTarget) gomap \<times> (u32, u32) gomap" where
  "freeze_routes identity engines [] frozen marks = Inr (frozen, marks)"
| "freeze_routes identity engines (route # routes) frozen marks =
     (if rt_RouteGeneration route \<noteq> rt_Generation identity \<or> rt_UnderlayIndex route = 0
         \<or> rt_LocalPort route = 0 \<or> rt_WGID route = 0 \<or> rt_FWMark route = 0
      then Inl (route_invalid ''route has incomplete identity'')
      else if rt_Action route \<noteq> ActionRewrite then Inl (route_invalid ''route action is not rewrite'')
      else if m_get engines (rt_WGID route) = None then Inl (route_invalid ''route references unknown WGID'')
      else if m_get marks (rt_WGID route) \<noteq> None \<and> m_get marks (rt_WGID route) \<noteq> Some (rt_FWMark route)
      then Inl (route_conflict ''WGID has two marks'')
      else if m_get frozen (route_key route) \<noteq> None then Inl (route_conflict ''duplicate route'')
      else freeze_routes identity engines routes
             (m_put (route_key route) \<lparr>tg_wgID = rt_WGID route, tg_fwmark = rt_FWMark route\<rparr> frozen)
             (m_put (rt_WGID route) (rt_FWMark route) marks))"

definition NewEngineRouter ::
  "RuntimeDomain option \<Rightarrow> 'x WGEngineBinding list \<Rightarrow> EngineRoute list \<Rightarrow> err + 'x EngineRouter" where
  "NewEngineRouter domain bindings routes =
     (case domain of
        None \<Rightarrow> Inl (route_invalid ''runtime domain is nil'')
      | Some d \<Rightarrow>
      if bindings = [] \<or> routes = [] then Inl (route_invalid ''bindings and routes must be non-empty'')
      else (case bind_engines d bindings [] [] of
        Inl e \<Rightarrow> Inl e
      | Inr engines \<Rightarrow>
          (case freeze_routes (dom_identity d) engines routes [] [] of
             Inl e \<Rightarrow> Inl e
           | Inr (frozen, marks) \<Rightarrow>
               if list_ex (\<lambda>wgID. m_get marks wgID = None) (m_keys engines)
               then Inl (route_invalid ''WGID has no route'')
               else Inr \<lparr>er_identity = dom_identity d, er_engines = engines, er_routes = frozen,
                         er_wgIDs = sort (m_keys engines)\<rparr>)))"

text \<open>
  \<open>token\<close> is the address of the next instance token: every engine that is built gets a new one.
\<close>

fun plan_engines ::
  "('x \<Rightarrow> time \<times> 'x) \<Rightarrow> RuntimeDomain \<Rightarrow> nat \<Rightarrow> 'x WGEnginePlan list \<Rightarrow> 'x
     \<Rightarrow> (err + 'x WGEngineBinding list \<times> EngineRoute list) \<times> 'x" where
  "plan_engines sys_now d token [] x = (Inr ([], []), x)"
| "plan_engines sys_now d token (plan # plans) x =
     (if wp_WGID plan = 0 \<or> o_Generation (opt_limits (wp_Options plan)) \<noteq> rt_Generation (dom_identity d)
         \<or> wp_Routes plan = []
      then (Inl (route_invalid ''engine plan has incomplete identity or routes''), x)
      else (case NewEngine sys_now token (Some d) (wp_Options plan) x of
        (Inl e, x1) \<Rightarrow> (Inl (ErrWrap ''construct faketcp Engine'' [e]), x1)
      | (Inr engine, x1) \<Rightarrow>
          if list_ex (\<lambda>route. rt_WGID route \<noteq> wp_WGID plan
               \<or> rt_RouteGeneration route \<noteq> rt_Generation (dom_identity d)) (wp_Routes plan)
          then (Inl (route_invalid ''engine plan route does not match its WGID/generation''), x1)
          else (case plan_engines sys_now d (Suc token) plans x1 of
            (Inl e, x2) \<Rightarrow> (Inl e, x2)
          | (Inr (bindings, routes), x2) \<Rightarrow>
              (Inr (\<lparr>wb_WGID = wp_WGID plan, wb_Engine = Some engine\<rparr> # bindings, wp_Routes plan @ routes), x2))))"

definition NewEngineRouterFromPlans ::
  "('x \<Rightarrow> time \<times> 'x) \<Rightarrow> nat \<Rightarrow> RuntimeDomain option \<Rightarrow> 'x WGEnginePlan list \<Rightarrow> 'x
     \<Rightarrow> (err + 'x EngineRouter) \<times> 'x" where
  "NewEngineRouterFromPlans sys_now token domain plans x =
     (case domain of
        None \<Rightarrow> (Inl (route_invalid ''runtime domain is nil''), x)
      | Some d \<Rightarrow>
          if plans = [] then (Inl (route_invalid ''engine plans must be non-empty''), x)
          else (case plan_engines sys_now d token plans x of
            (Inl e, x1) \<Rightarrow> (Inl e, x1)
          | (Inr (bindings, routes), x1) \<Rightarrow> (NewEngineRouter domain bindings routes, x1)))"

definition Router_Engine :: "'x EngineRouter option \<Rightarrow> u32 \<Rightarrow> 'x owned_engine option" where
  "Router_Engine router wgID = (case router of None \<Rightarrow> None | Some r \<Rightarrow> m_get (er_engines r) wgID)"

definition WGIDs :: "'x EngineRouter option \<Rightarrow> u32 list" where
  "WGIDs router = (case router of None \<Rightarrow> [] | Some r \<Rightarrow> er_wgIDs r)"

definition Router_Identity :: "'x EngineRouter option \<Rightarrow> RuntimeIdentity" where
  "Router_Identity router = (case router of None \<Rightarrow> zero_identity | Some r \<Rightarrow> er_identity r)"

section \<open>Dispatch\<close>

definition flow_route :: "FakeTCPSessionKey \<Rightarrow> engineRouteKey" where
  "flow_route flow = \<lparr>rk_generation = k_Generation flow, rk_underlayIndex = k_UnderlayIndex flow,
     rk_localPort = k_LocalPort flow, rk_wgID = k_WGID flow\<rparr>"

definition selectEngine :: "FakeTCPEvent \<Rightarrow> 'x EngineRouter option \<Rightarrow> err + 'x owned_engine option \<times> u32" where
  "selectEngine event router =
     (case router of
        None \<Rightarrow> Inl (route_rejected ''router is unavailable'')
      | Some r \<Rightarrow>
      if er_engines r = [] \<or> er_routes r = [] then Inl (route_rejected ''router is unavailable'')
      else (case m_get (er_routes r) (flow_route (ev_Key event)) of
        None \<Rightarrow> Inl (route_rejected ''unknown'')
      | Some target \<Rightarrow>
          if ev_WGID event \<noteq> tg_wgID target then Inl (route_rejected ''event WGID does not match route WGID'')
          else if ev_Type event = FakeTCPEventNeedHandshake then
            (if ev_FWMark event \<noteq> tg_fwmark target then Inl (route_rejected ''event mark does not match route mark'')
             else Inr (m_get (er_engines r) (tg_wgID target), tg_wgID target))
          else if ev_FWMark event \<noteq> 0 then Inl (route_rejected ''inbound control event has mark'')
          else Inr (m_get (er_engines r) (tg_wgID target), tg_wgID target)))"

definition validate_action :: "(engineRouteKey, engineRouteTarget) gomap \<Rightarrow> u32 \<Rightarrow> Action \<Rightarrow> err option" where
  "validate_action routes ownerWGID action =
     (case m_get routes (flow_route (a_Flow action)) of
        None \<Rightarrow> Some (route_rejected ''action flow is unknown'')
      | Some target \<Rightarrow>
          if tg_wgID target \<noteq> ownerWGID
          then Some (route_rejected ''action route WGID does not match owner WGID'')
          else (case a_Kind action of
            ActionSendControl \<Rightarrow>
              if a_WGID action \<noteq> tg_wgID target
              then Some (route_rejected ''action WGID does not match route WGID'') else None
          | ActionReleasePending \<Rightarrow>
              if a_WGID action \<noteq> tg_wgID target \<or> a_Packets action = []
              then Some (route_rejected ''action has no canonical pending WGID'')
              else if list_ex (\<lambda>packet. pp_WGID packet \<noteq> tg_wgID target \<or> pp_FWMark packet \<noteq> tg_fwmark target) (a_Packets action)
              then Some (route_rejected ''action packet does not match WGID/mark route'')
              else None
          | _ \<Rightarrow> None))"

fun validate_action_list ::
  "(engineRouteKey, engineRouteTarget) gomap \<Rightarrow> u32 \<Rightarrow> Action list \<Rightarrow> err option" where
  "validate_action_list routes ownerWGID [] = None"
| "validate_action_list routes ownerWGID (action # actions) =
     first_err (validate_action routes ownerWGID action) (validate_action_list routes ownerWGID actions)"

definition validateActions :: "'x EngineRouter \<Rightarrow> u32 \<Rightarrow> Action list \<Rightarrow> err option" where
  "validateActions router ownerWGID actions = validate_action_list (er_routes router) ownerWGID actions"

text \<open>
  The loop of \<open>Tick\<close> over the engines; \<open>orders\<close> are the iteration orders of their session maps. A
  WGID without an engine would be a nil dereference and is \<open>None\<close>.
\<close>

fun router_ticks ::
  "(u32 \<Rightarrow> FakeTCPSessionKey list) \<Rightarrow> u32 list \<Rightarrow> 'x EngineRouter \<Rightarrow> 'x world
     \<Rightarrow> (Action list \<times> err list \<times> err list \<times> 'x EngineRouter \<times> 'x world) option" where
  "router_ticks orders [] router w = Some ([], [], [], router, w)"
| "router_ticks orders (wgID # wgIDs) router w =
     (case m_get (er_engines router) wgID of
        None \<Rightarrow> None
      | Some (c, e) \<Rightarrow>
          (case Tick c (orders wgID) e w of
             (engineActions, err, e', w') \<Rightarrow>
               let router' = router\<lparr>er_engines := m_put wgID (c, e') (er_engines router)\<rparr>;
                   routeErr = validateActions router' wgID engineActions in
               (case router_ticks orders wgIDs router' w' of
                  None \<Rightarrow> None
                | Some (actions, engineErrs, routeErrs, router'', w'') \<Rightarrow>
                    Some (if routeErr = None then engineActions @ actions else actions,
                      (case err of None \<Rightarrow> engineErrs | Some x \<Rightarrow> ErrWrap ''tick faketcp WGID'' [x] # engineErrs),
                      (case routeErr of None \<Rightarrow> routeErrs
                         | Some x \<Rightarrow> ErrWrap ''validate faketcp WGID tick actions'' [x] # routeErrs),
                      router'', w''))))"

definition Router_Tick ::
  "(u32 \<Rightarrow> FakeTCPSessionKey list) \<Rightarrow> 'x EngineRouter option \<Rightarrow> 'x world
     \<Rightarrow> (Action list \<times> err option \<times> 'x EngineRouter option \<times> 'x world) option" where
  "Router_Tick orders router w =
     (case router of
        None \<Rightarrow> Some ([], Some (route_rejected ''router is unavailable''), None, w)
      | Some r \<Rightarrow>
      if er_wgIDs r = [] then Some ([], Some (route_rejected ''router is unavailable''), Some r, w)
      else (case router_ticks orders (er_wgIDs r) r w of
        None \<Rightarrow> None
      | Some (actions, engineErrs, routeErrs, r', w') \<Rightarrow>
          (case errors_join (map Some routeErrs) of
             Some routeErr \<Rightarrow>
               Some ([], errors_join [errors_join (map Some engineErrs), Some routeErr], Some r', w')
           | None \<Rightarrow> Some (actions, errors_join (map Some engineErrs), Some r', w'))))"

section \<open>The dispatcher interface of the controller\<close>

text \<open>
  A dispatcher is a single engine or a router. The pointer that \<open>selectEngine\<close> returns is the WGID
  under which \<open>put_engine\<close> stores the engine's next state.
\<close>

datatype 'x dispatcher = SingleEngine "'x owned_engine option" | Routed "'x EngineRouter option"

definition dispatcher_Identity :: "'x dispatcher \<Rightarrow> RuntimeIdentity" where
  "dispatcher_Identity d =
     (case d of SingleEngine e \<Rightarrow> Engine_Identity (map_option snd e) | Routed r \<Rightarrow> Router_Identity r)"

definition dispatcher_selectEngine :: "FakeTCPEvent \<Rightarrow> 'x dispatcher \<Rightarrow> err + 'x owned_engine option \<times> u32" where
  "dispatcher_selectEngine event d =
     (case d of
        SingleEngine e \<Rightarrow>
          (case e of
             None \<Rightarrow> Inl (ErrNew ''faketcp single-engine dispatcher is unavailable'')
           | Some engine \<Rightarrow>
               if ev_WGID event = 0 \<or> ev_WGID event \<noteq> k_WGID (ev_Key event)
               then Inl (ErrNew ''faketcp event WGID does not match session key WGID'')
               else Inr (Some engine, k_WGID (ev_Key event)))
      | Routed r \<Rightarrow> selectEngine event r)"

definition put_engine :: "u32 \<Rightarrow> 'x owned_engine \<Rightarrow> 'x dispatcher \<Rightarrow> 'x dispatcher" where
  "put_engine wgID engine d =
     (case d of
        SingleEngine _ \<Rightarrow> SingleEngine (Some engine)
      | Routed r \<Rightarrow> Routed (map_option (\<lambda>r'. r'\<lparr>er_engines := m_put wgID engine (er_engines r')\<rparr>) r))"

definition dispatcher_Tick ::
  "(u32 \<Rightarrow> FakeTCPSessionKey list) \<Rightarrow> 'x dispatcher \<Rightarrow> 'x world
     \<Rightarrow> (Action list \<times> err option \<times> 'x dispatcher \<times> 'x world) option" where
  "dispatcher_Tick orders d w =
     (case d of
        SingleEngine None \<Rightarrow> None
      | SingleEngine (Some (c, e)) \<Rightarrow>
          (case Tick c (orders 0) e w of (actions, err, e', w') \<Rightarrow> Some (actions, err, SingleEngine (Some (c, e')), w'))
      | Routed r \<Rightarrow>
          (case Router_Tick orders r w of
             None \<Rightarrow> None | Some (actions, err, r', w') \<Rightarrow> Some (actions, err, Routed r', w')))"

definition dispatcher_validateActions :: "'x dispatcher \<Rightarrow> u32 \<Rightarrow> Action list \<Rightarrow> err option option" where
  "dispatcher_validateActions d ownerWGID actions =
     (case d of
        SingleEngine _ \<Rightarrow> Some None
      | Routed None \<Rightarrow> if actions = [] then Some None else None
      | Routed (Some r) \<Rightarrow> Some (validateActions r ownerWGID actions))"

end
