(* ===== verification/Event_Sample.thy ===== *)
theory Event_Sample
  imports Control_Packet
begin

text \<open>
  The ring-buffer samples that the BPF programs send to the controller:
  \<open>DecodeEventSample\<close> and its checks, \<open>internal/faketcp/controller.go\<close>. A decoder result is
  \<open>None\<close> only where the code would panic.
\<close>

section \<open>The decoder\<close>

record DecodedEvent =
  de_Event :: FakeTCPEvent
  de_Packet :: "byte list"

record ownedDecodedEvent =
  od_Event :: FakeTCPEvent
  od_Packet :: "byte list"
  od_Fingerprint :: "byte list"

definition fakeTCPEventCarriesPacket :: "u8 \<Rightarrow> bool" where
  "fakeTCPEventCarriesPacket eventType =
     (eventType = FakeTCPEventNeedHandshake \<or> eventType = FakeTCPEventRST \<or> eventType = FakeTCPEventFIN)"

definition ne16_at :: "endian \<Rightarrow> byte list \<Rightarrow> nat \<Rightarrow> u16 option" where
  "ne16_at en bs i = slice bs i (i + 2) \<bind> ne16 en"

definition ne32_at :: "endian \<Rightarrow> byte list \<Rightarrow> nat \<Rightarrow> u32 option" where
  "ne32_at en bs i = slice bs i (i + 4) \<bind> ne32 en"

definition ne64_at :: "endian \<Rightarrow> byte list \<Rightarrow> nat \<Rightarrow> u64 option" where
  "ne64_at en bs i = slice bs i (i + 8) \<bind> ne64 en"

definition decodeEventHeader :: "endian \<Rightarrow> byte list \<Rightarrow> FakeTCPEvent option" where
  "decodeEventHeader en header = do {
     generation \<leftarrow> ne64_at en header 0;
     localIPv4 \<leftarrow> ne32_at en header 8;
     remoteIPv4 \<leftarrow> ne32_at en header 12;
     underlayIndex \<leftarrow> ne32_at en header 16;
     localPort \<leftarrow> ne16_at en header 20;
     remotePort \<leftarrow> ne16_at en header 22;
     keyWGID \<leftarrow> ne32_at en header 24;
     keyReserved \<leftarrow> slice header 28 32;
     timestampNanos \<leftarrow> ne64_at en header 32;
     runtimeIncarnation \<leftarrow> slice header 40 56;
     captureSequence \<leftarrow> ne64_at en header 56;
     sessionRevision \<leftarrow> ne64_at en header 64;
     sessionID \<leftarrow> ne64_at en header 72;
     captureCPU \<leftarrow> ne32_at en header 80;
     sequence \<leftarrow> ne32_at en header 84;
     acknowledgement \<leftarrow> ne32_at en header 88;
     payloadLength \<leftarrow> ne32_at en header 92;
     fwMark \<leftarrow> ne32_at en header 96;
     wgID \<leftarrow> ne32_at en header 100;
     packetLength \<leftarrow> ne16_at en header 104;
     eventABIVersion \<leftarrow> ne16_at en header 106;
     eventType \<leftarrow> rd header 108;
     tcpFlags \<leftarrow> rd header 109;
     Some \<lparr>ev_Key = \<lparr>k_Generation = generation, k_LocalIPv4 = localIPv4, k_RemoteIPv4 = remoteIPv4,
             k_UnderlayIndex = underlayIndex, k_LocalPort = localPort, k_RemotePort = remotePort,
             k_WGID = keyWGID, k_Reserved = keyReserved\<rparr>,
           ev_TimestampNanos = timestampNanos, ev_RuntimeIncarnation = runtimeIncarnation,
           ev_CaptureSequence = captureSequence, ev_SessionRevision = sessionRevision,
           ev_SessionID = sessionID, ev_CaptureCPU = captureCPU, ev_Sequence = sequence,
           ev_Acknowledgement = acknowledgement, ev_PayloadLength = payloadLength, ev_FWMark = fwMark,
           ev_WGID = wgID, ev_PacketLength = packetLength, ev_EventABIVersion = eventABIVersion,
           ev_Type = eventType, ev_TCPFlags = tcpFlags\<rparr>
   }"

text \<open>The \<open>switch\<close> of \<open>validateEventType\<close>.\<close>

definition event_flags_err :: "FakeTCPEvent \<Rightarrow> err option" where
  "event_flags_err event =
     (let flags = ev_TCPFlags event; bad = (\<lambda>wrong message. if wrong then Some (ErrNew message) else None) in
      if ev_Type event = FakeTCPEventNeedHandshake then
        (if flags \<noteq> 0 then Some (ErrNew ''faketcp NEED_HANDSHAKE event has TCP flags'')
         else case validateCaptureIdentity (captureIdentityFromEvent event) (k_Generation (ev_Key event)) of
           Some e \<Rightarrow> Some (ErrWrap ''invalid faketcp event capture identity'' [e])
         | None \<Rightarrow> None)
      else if ev_Type event = FakeTCPEventSYN then
        bad (flags AND FlagSYN = 0 \<or> flags AND (FlagACK OR FlagRST OR FlagFIN) \<noteq> 0)
          ''faketcp SYN event has inconsistent flags''
      else if ev_Type event = FakeTCPEventSYNACK then
        bad (flags AND (FlagSYN OR FlagACK) \<noteq> FlagSYN OR FlagACK \<or> flags AND (FlagRST OR FlagFIN) \<noteq> 0)
          ''faketcp SYNACK event has inconsistent flags''
      else if ev_Type event = FakeTCPEventACK then
        bad (flags AND FlagACK = 0 \<or> flags AND (FlagSYN OR FlagRST OR FlagFIN) \<noteq> 0)
          ''faketcp ACK event has inconsistent flags''
      else if ev_Type event = FakeTCPEventRST then
        bad (flags \<noteq> FlagRST OR FlagACK) ''faketcp RST event has inconsistent flags''
      else if ev_Type event = FakeTCPEventFIN then
        bad (flags \<noteq> FlagFIN OR FlagACK) ''faketcp FIN event has inconsistent flags''
      else Some (ErrNew ''unknown faketcp event type''))"

definition validateEventType :: "FakeTCPEvent \<Rightarrow> err option" where
  "validateEventType event =
     (case validatePacketFlow (ev_Key event) of
        Some e \<Rightarrow> Some (ErrWrap ''faketcp event session key is invalid'' [e])
      | None \<Rightarrow>
      if ev_WGID event \<noteq> k_WGID (ev_Key event)
      then Some (ErrNew ''faketcp event WGID does not match session key WGID'')
      else if ev_EventABIVersion event \<noteq> FakeTCPEventABIVersion
      then Some (ErrNew ''faketcp event ABI version does not match'')
      else (case validateRuntimeIdentity (runtimeIdentityFromEvent event) of
        Some e \<Rightarrow> Some (ErrWrap ''invalid faketcp event runtime identity'' [e])
      | None \<Rightarrow>
      (case event_flags_err event of
        Some e \<Rightarrow> Some e
      | None \<Rightarrow>
          let closeEvent = (ev_Type event = FakeTCPEventRST \<or> ev_Type event = FakeTCPEventFIN) in
          if closeEvent \<and> (ev_SessionRevision event = 0 \<or> ev_SessionID event = 0)
          then Some (ErrNew ''faketcp close event has no session identity'')
          else if \<not> closeEvent \<and> (ev_SessionRevision event \<noteq> 0 \<or> ev_SessionID event \<noteq> 0)
          then Some (ErrNew ''faketcp non-close event contains a session identity'')
          else if ev_Type event \<noteq> FakeTCPEventNeedHandshake
                  \<and> (ev_CaptureSequence event \<noteq> 0 \<or> ev_CaptureCPU event \<noteq> 0)
          then Some (ErrNew ''faketcp control event contains a capture sequence'')
          else None)))"

definition validateCapturedIPv4UDP :: "endian \<Rightarrow> FakeTCPEvent \<Rightarrow> byte list \<Rightarrow> err option option" where
  "validateCapturedIPv4UDP en event packet =
     (if length packet < 20 then Some (Some (ErrNew ''faketcp captured packet is not IPv4''))
      else do {
        b0 \<leftarrow> rd packet 0;
        if drop_bit 4 b0 \<noteq> 4 then Some (Some (ErrNew ''faketcp captured packet is not IPv4''))
        else let headerLength = unat (b0 AND 0x0f) * 4 in
        if headerLength \<noteq> 20 \<or> headerLength + 8 > length packet
        then Some (Some (ErrNew ''faketcp captured IPv4 header length is invalid''))
        else do {
          total \<leftarrow> be16_at packet 2;
          if unat total \<noteq> length packet
          then Some (Some (ErrNew ''faketcp captured IPv4 total length does not match record''))
          else do {
            frag \<leftarrow> be16_at packet 6;
            if frag AND 0x3fff \<noteq> 0
            then Some (Some (ErrNew ''faketcp captured packet must not be an IPv4 fragment''))
            else do {
              protocol \<leftarrow> rd packet 9;
              if protocol \<noteq> 17 then Some (Some (ErrNew ''faketcp captured IPv4 protocol is not UDP''))
              else do {
                source \<leftarrow> slice packet 12 16;
                destination \<leftarrow> slice packet 16 20;
                if source \<noteq> put_ne32 en (k_LocalIPv4 (ev_Key event))
                   \<or> destination \<noteq> put_ne32 en (k_RemoteIPv4 (ev_Key event))
                then Some (Some (ErrNew ''faketcp captured IPv4 endpoints do not match event key''))
                else do {
                  udp \<leftarrow> slice packet headerLength (headerLength + 8);
                  sourcePort \<leftarrow> be16_at udp 0;
                  destinationPort \<leftarrow> be16_at udp 2;
                  udpLength \<leftarrow> be16_at udp 4;
                  if sourcePort \<noteq> k_LocalPort (ev_Key event) \<or> destinationPort \<noteq> k_RemotePort (ev_Key event)
                  then Some (Some (ErrNew ''faketcp captured UDP ports do not match event key''))
                  else if unat udpLength \<noteq> length packet - headerLength
                  then Some (Some (ErrNew ''faketcp captured UDP length does not match IPv4 payload''))
                  else if ev_PayloadLength event \<noteq> of_nat (length packet - headerLength - 8)
                  then Some (Some (ErrNew ''faketcp captured payload length does not match event metadata''))
                  else Some None
                }
              }
            }
          }
        }
      })"

text \<open>The part of \<open>decodeBorrowedEventSample\<close> after the header checks.\<close>

definition decode_payload :: "endian \<Rightarrow> FakeTCPEvent \<Rightarrow> byte list \<Rightarrow> (err + DecodedEvent) option" where
  "decode_payload en event sample =
     (let packetLength = unat (ev_PacketLength event); compactSize = FakeTCPEventSize + packetLength in
      if \<not> fakeTCPEventCarriesPacket (ev_Type event) then
        (if ev_PacketLength event \<noteq> 0 \<or> length sample \<noteq> FakeTCPEventSize
         then Some (Inl (ErrNew ''faketcp control event has packet length or sample size''))
         else Some (Inr \<lparr>de_Event = event, de_Packet = []\<rparr>))
      else if packetLength = 0 \<or> packetLength > FakeTCPMaxCapturedPacket
      then Some (Inl (ErrNew ''faketcp captured packet length is invalid''))
      else if length sample \<noteq> compactSize \<and> length sample \<noteq> FakeTCPPacketEventSize
      then Some (Inl (ErrNew ''faketcp packet event sample is neither compact nor fixed''))
      else (case slice sample FakeTCPEventSize compactSize of
        None \<Rightarrow> None
      | Some packet \<Rightarrow>
          if ev_Type event = FakeTCPEventNeedHandshake then
            (case validateCapturedIPv4UDP en event packet of
               None \<Rightarrow> None
             | Some (Some e) \<Rightarrow> Some (Inl e)
             | Some None \<Rightarrow> Some (Inr \<lparr>de_Event = event, de_Packet = packet\<rparr>))
          else Some (Inr \<lparr>de_Event = event, de_Packet = packet\<rparr>)))"

definition decodeBorrowedEventSample :: "endian \<Rightarrow> byte list \<Rightarrow> (err + DecodedEvent) option" where
  "decodeBorrowedEventSample en sample =
     (if length sample < FakeTCPEventSize then Some (Inl (ErrNew ''faketcp event sample is too short''))
      else (case Option.bind (slice sample 0 FakeTCPEventSize) (decodeEventHeader en) of
        None \<Rightarrow> None
      | Some event \<Rightarrow>
          (case validateEventType event of
             Some e \<Rightarrow> Some (Inl e)
           | None \<Rightarrow> decode_payload en event sample)))"

text \<open>The copy has the same bytes, and HOL values are never shared.\<close>

definition DecodeEventSample :: "endian \<Rightarrow> byte list \<Rightarrow> (err + DecodedEvent) option" where
  "DecodeEventSample en sample =
     (case decodeBorrowedEventSample en sample of
        None \<Rightarrow> None
      | Some (Inl e) \<Rightarrow> Some (Inl e)
      | Some (Inr decoded) \<Rightarrow> Some (Inr \<lparr>de_Event = de_Event decoded, de_Packet = [] @ de_Packet decoded\<rparr>))"

section \<open>The layout of a sample\<close>

text \<open>
  The memory image of \<open>struct faketcp_event\<close> in \<open>bpf/wg_mix_faketcp.h\<close>, whose last two bytes are
  padding.
\<close>

definition key_bytes :: "endian \<Rightarrow> FakeTCPSessionKey \<Rightarrow> byte list" where
  "key_bytes en k = put_ne64 en (k_Generation k) @ put_ne32 en (k_LocalIPv4 k) @ put_ne32 en (k_RemoteIPv4 k)
     @ put_ne32 en (k_UnderlayIndex k) @ put_ne16 en (k_LocalPort k) @ put_ne16 en (k_RemotePort k)
     @ put_ne32 en (k_WGID k) @ k_Reserved k"

definition event_bytes :: "endian \<Rightarrow> FakeTCPEvent \<Rightarrow> byte list \<Rightarrow> byte list" where
  "event_bytes en ev pad = key_bytes en (ev_Key ev) @ put_ne64 en (ev_TimestampNanos ev)
     @ ev_RuntimeIncarnation ev @ put_ne64 en (ev_CaptureSequence ev) @ put_ne64 en (ev_SessionRevision ev)
     @ put_ne64 en (ev_SessionID ev) @ put_ne32 en (ev_CaptureCPU ev) @ put_ne32 en (ev_Sequence ev)
     @ put_ne32 en (ev_Acknowledgement ev) @ put_ne32 en (ev_PayloadLength ev) @ put_ne32 en (ev_FWMark ev)
     @ put_ne32 en (ev_WGID ev) @ put_ne16 en (ev_PacketLength ev) @ put_ne16 en (ev_EventABIVersion ev)
     @ [ev_Type ev] @ [ev_TCPFlags ev] @ pad"

definition event_arrays :: "FakeTCPEvent \<Rightarrow> bool" where
  "event_arrays ev \<longleftrightarrow> length (k_Reserved (ev_Key ev)) = 4 \<and> length (ev_RuntimeIncarnation ev) = 16"

lemma event_bytes_length:
  "event_arrays ev \<Longrightarrow> length pad = 2 \<Longrightarrow> length (event_bytes en ev pad) = 112"
  by (simp add: event_bytes_def key_bytes_def event_arrays_def ne16c.enc_length ne32c.enc_length ne64c.enc_length)

text \<open>Inside the bounds a field is decoded from the bytes at its offset.\<close>

lemma ne_at_drop:
  "i + 2 \<le> length bs \<Longrightarrow> ne16_at en bs i = ne16 en (drop i bs)"
  "i + 4 \<le> length bs \<Longrightarrow> ne32_at en bs i = ne32 en (drop i bs)"
  "i + 8 \<le> length bs \<Longrightarrow> ne64_at en bs i = ne64 en (drop i bs)"
  by (simp_all add: ne16_at_def ne32_at_def ne64_at_def slice_Some ne16c.dec_take ne32c.dec_take ne64c.dec_take
      del: drop_take take_drop)

lemma decode_event_bytes:
  assumes "event_arrays ev" "length pad = 2"
  shows "decodeEventHeader en (event_bytes en ev pad) = Some ev"
proof -
  note [simp] = ne16c.enc_length ne32c.enc_length ne64c.enc_length ne16c.dec_enc ne32c.dec_enc ne64c.dec_enc
  have len: "length (event_bytes en ev pad) = 112" using assms by (rule event_bytes_length)
  have arr: "length (k_Reserved (ev_Key ev)) = 4" "length (ev_RuntimeIncarnation ev) = 16"
    using assms by (simp_all add: event_arrays_def)
  show ?thesis
    by (simp add: decodeEventHeader_def ne_at_drop len slice_def rd_def)
      (simp add: event_bytes_def key_bytes_def arr nth_append)
qed

lemma field_at:
  "i + 2 \<le> length bs \<Longrightarrow> \<exists>v. put_ne16 en v @ drop (i + 2) bs = drop i bs"
  "i + 4 \<le> length bs \<Longrightarrow> \<exists>v. put_ne32 en v @ drop (i + 4) bs = drop i bs"
  "i + 8 \<le> length bs \<Longrightarrow> \<exists>v. put_ne64 en v @ drop (i + 8) bs = drop i bs"
  using ne16c.dec_Some [of "drop i bs" en] ne32c.dec_Some [of "drop i bs" en] ne64c.dec_Some [of "drop i bs" en]
  by (metis add.commute add_le_imp_le_diff append_take_drop_id drop_drop length_drop)+

lemma event_onto:
  assumes "length h = 112"
  obtains ev where "event_arrays ev" "event_bytes en ev (drop 110 h) = h"
proof -
  note f = field_at [where en = en and bs = h]
  have r: "take 4 (drop 28 h) @ drop 32 h = drop 28 h" "take 16 (drop 40 h) @ drop 56 h = drop 40 h"
    using append_take_drop_id [of 4 "drop 28 h"] append_take_drop_id [of 16 "drop 40 h"] by simp_all
  have t: "[h ! 108] @ drop 109 h = drop 108 h" "[h ! 109] @ drop 110 h = drop 109 h"
    using Cons_nth_drop_Suc [of 108 h] Cons_nth_drop_Suc [of 109 h] assms by simp_all
  obtain a0 a8 a12 a16 a20 a22 a24 where a: "put_ne64 en a0 @ drop 8 h = h" "put_ne32 en a8 @ drop 12 h = drop 8 h"
    "put_ne32 en a12 @ drop 16 h = drop 12 h" "put_ne32 en a16 @ drop 20 h = drop 16 h"
    "put_ne16 en a20 @ drop 22 h = drop 20 h" "put_ne16 en a22 @ drop 24 h = drop 22 h"
    "put_ne32 en a24 @ drop 28 h = drop 24 h"
    using f(3) [of 0] f(2) [of 8] f(2) [of 12] f(2) [of 16] f(1) [of 20] f(1) [of 22] f(2) [of 24] assms by auto
  obtain b32 b56 b64 b72 b80 b84 where b: "put_ne64 en b32 @ drop 40 h = drop 32 h"
    "put_ne64 en b56 @ drop 64 h = drop 56 h" "put_ne64 en b64 @ drop 72 h = drop 64 h"
    "put_ne64 en b72 @ drop 80 h = drop 72 h" "put_ne32 en b80 @ drop 84 h = drop 80 h"
    "put_ne32 en b84 @ drop 88 h = drop 84 h"
    using f(3) [of 32] f(3) [of 56] f(3) [of 64] f(3) [of 72] f(2) [of 80] f(2) [of 84] assms by auto
  obtain c88 c92 c96 c100 c104 c106 where c: "put_ne32 en c88 @ drop 92 h = drop 88 h"
    "put_ne32 en c92 @ drop 96 h = drop 92 h" "put_ne32 en c96 @ drop 100 h = drop 96 h"
    "put_ne32 en c100 @ drop 104 h = drop 100 h" "put_ne16 en c104 @ drop 106 h = drop 104 h"
    "put_ne16 en c106 @ drop 108 h = drop 106 h"
    using f(2) [of 88] f(2) [of 92] f(2) [of 96] f(2) [of 100] f(1) [of 104] f(1) [of 106] assms by auto
  let ?ev = "\<lparr>ev_Key = \<lparr>k_Generation = a0, k_LocalIPv4 = a8, k_RemoteIPv4 = a12, k_UnderlayIndex = a16,
      k_LocalPort = a20, k_RemotePort = a22, k_WGID = a24, k_Reserved = take 4 (drop 28 h)\<rparr>,
    ev_TimestampNanos = b32, ev_RuntimeIncarnation = take 16 (drop 40 h), ev_CaptureSequence = b56,
    ev_SessionRevision = b64, ev_SessionID = b72, ev_CaptureCPU = b80, ev_Sequence = b84,
    ev_Acknowledgement = c88, ev_PayloadLength = c92, ev_FWMark = c96, ev_WGID = c100,
    ev_PacketLength = c104, ev_EventABIVersion = c106, ev_Type = h ! 108, ev_TCPFlags = h ! 109\<rparr>"
  have "event_bytes en ?ev (drop 110 h) = h"
    unfolding event_bytes_def key_bytes_def by (simp only: append_assoc FakeTCPEvent.simps FakeTCPSessionKey.simps a b c r t)
  moreover have "event_arrays ?ev" using assms by (simp add: event_arrays_def)
  ultimately show thesis using that by blast
qed

lemma decode_header_iff:
  assumes "length h = 112"
  shows "decodeEventHeader en h = Some ev \<longleftrightarrow> event_arrays ev \<and> event_bytes en ev (drop 110 h) = h"
proof -
  obtain e where e: "event_arrays e" "event_bytes en e (drop 110 h) = h" using event_onto [OF assms] .
  have "decodeEventHeader en h = Some e" using decode_event_bytes [OF e(1), of "drop 110 h" en] e(2) assms by simp
  moreover have "decodeEventHeader en h = Some ev" if "event_arrays ev" "event_bytes en ev (drop 110 h) = h"
    using decode_event_bytes [OF that(1), of "drop 110 h" en] that(2) assms by simp
  ultimately show ?thesis using e by auto
qed

section \<open>What the decoder accepts\<close>

text \<open>The flags that may come with an event type: the bits are FIN, SYN, RST and ACK.\<close>

definition type_flags :: "u8 \<Rightarrow> u8 \<Rightarrow> bool" where
  "type_flags t f \<longleftrightarrow>
     t = 1 \<and> f = 0
     \<or> t = 2 \<and> bit f 1 \<and> \<not> bit f 0 \<and> \<not> bit f 2 \<and> \<not> bit f 4
     \<or> t = 3 \<and> bit f 1 \<and> bit f 4 \<and> \<not> bit f 0 \<and> \<not> bit f 2
     \<or> t = 4 \<and> bit f 4 \<and> \<not> bit f 0 \<and> \<not> bit f 1 \<and> \<not> bit f 2
     \<or> t = 5 \<and> f = 0x14
     \<or> t = 6 \<and> f = 0x11"

text \<open>
  An event that may act: a complete flow of its own WGID and a runtime identity; a session
  identity with the closes only and a capture identity with the captures only.
\<close>

definition event_wf :: "FakeTCPEvent \<Rightarrow> bool" where
  "event_wf ev \<longleftrightarrow> validatePacketFlow (ev_Key ev) = None \<and> ev_WGID ev = k_WGID (ev_Key ev)
     \<and> ev_EventABIVersion ev = 3 \<and> ev_RuntimeIncarnation ev \<noteq> zero_array 16
     \<and> type_flags (ev_Type ev) (ev_TCPFlags ev)
     \<and> (if ev_Type ev \<in> {5, 6} then ev_SessionRevision ev \<noteq> 0 \<and> ev_SessionID ev \<noteq> 0
        else ev_SessionRevision ev = 0 \<and> ev_SessionID ev = 0)
     \<and> (if ev_Type ev = 1 then ev_CaptureSequence ev \<noteq> 0
        else ev_CaptureSequence ev = 0 \<and> ev_CaptureCPU ev = 0)"

text \<open>The captured bytes are one whole IPv4/UDP datagram of the flow, with its length in every header.\<close>

definition captured_wf :: "endian \<Rightarrow> FakeTCPEvent \<Rightarrow> byte list \<Rightarrow> bool" where
  "captured_wf en ev p \<longleftrightarrow> 28 \<le> length p \<and> p ! 0 = 0x45 \<and> p ! 9 = 17
     \<and> be16_at p 2 = Some (of_nat (length p)) \<and> length p < 2 ^ 16
     \<and> (\<exists>frag. be16_at p 6 = Some frag \<and> frag AND 0x3fff = 0)
     \<and> take 4 (drop 12 p) = put_ne32 en (k_LocalIPv4 (ev_Key ev))
     \<and> take 4 (drop 16 p) = put_ne32 en (k_RemoteIPv4 (ev_Key ev))
     \<and> be16_at p 20 = Some (k_LocalPort (ev_Key ev)) \<and> be16_at p 22 = Some (k_RemotePort (ev_Key ev))
     \<and> be16_at p 24 = Some (of_nat (length p - 20)) \<and> ev_PayloadLength ev = of_nat (length p - 28)"

lemma first_byte: "drop_bit 4 (b :: byte) = 4 \<and> unat (b AND 0x0f) * 4 = 20 \<longleftrightarrow> b = 0x45"
proof
  assume a: "drop_bit 4 b = 4 \<and> unat (b AND 0x0f) * 4 = 20"
  then have "unat (b AND 0x0f) = unat (5 :: byte)" by simp
  then have low: "take_bit 4 b = 5" by (simp add: take_bit_eq_mask mask_numeral word_unat_eq_iff)
  have "b = push_bit 4 (drop_bit 4 b) + take_bit 4 b" by (simp add: bits_ident)
  with a low show "b = 0x45" by simp
qed simp

lemma and_full: "(f AND m = m) = (NOT f AND m = 0)" for f m :: "'a :: len word"
  by (auto simp: bit_eq_iff bit_simps)

lemma FlagBits:
  "(f AND FlagSYN = 0) = (\<not> bit f 1)" "(f AND FlagACK = 0) = (\<not> bit f 4)"
  "(f AND (FlagACK OR FlagRST OR FlagFIN) = 0) = (\<not> bit f 4 \<and> \<not> bit f 2 \<and> \<not> bit f 0)"
  "(f AND (FlagSYN OR FlagACK) = FlagSYN OR FlagACK) = (bit f 1 \<and> bit f 4)"
  "(f AND (FlagRST OR FlagFIN) = 0) = (\<not> bit f 2 \<and> \<not> bit f 0)"
  "(f AND (FlagSYN OR FlagRST OR FlagFIN) = 0) = (\<not> bit f 1 \<and> \<not> bit f 2 \<and> \<not> bit f 0)"
  for f :: u8
proof -
  have p: "FlagFIN = 2 ^ 0" "FlagSYN = 2 ^ 1" "FlagRST = 2 ^ 2" "FlagACK = 2 ^ 4" by (simp_all add: flag_defs)
  have z: "(f AND FlagFIN = 0) = (\<not> bit f 0)" "(f AND FlagSYN = 0) = (\<not> bit f 1)"
    "(f AND FlagRST = 0) = (\<not> bit f 2)" "(f AND FlagACK = 0) = (\<not> bit f 4)" for f :: u8
    unfolding p by (rule and_exp_eq_0_iff_not_bit)+
  have o: "(f AND (a OR b) = 0) = (f AND a = 0 \<and> f AND b = 0)" for a b f :: u8
    by (simp only: bit.conj_disj_distrib or_eq_0_iff)
  show "(f AND FlagSYN = 0) = (\<not> bit f 1)" "(f AND FlagACK = 0) = (\<not> bit f 4)" by (rule z)+
  show "(f AND (FlagACK OR FlagRST OR FlagFIN) = 0) = (\<not> bit f 4 \<and> \<not> bit f 2 \<and> \<not> bit f 0)"
    "(f AND (FlagRST OR FlagFIN) = 0) = (\<not> bit f 2 \<and> \<not> bit f 0)"
    "(f AND (FlagSYN OR FlagRST OR FlagFIN) = 0) = (\<not> bit f 1 \<and> \<not> bit f 2 \<and> \<not> bit f 0)"
    by (simp_all only: o z)
  show "(f AND (FlagSYN OR FlagACK) = FlagSYN OR FlagACK) = (bit f 1 \<and> bit f 4)"
    unfolding and_full [of f "FlagSYN OR FlagACK"] o z by (simp add: bit_not_iff)
qed

lemma event_flags_iff:
  assumes "k_Generation (ev_Key ev) \<noteq> 0" "ev_RuntimeIncarnation ev \<noteq> zero_array 16"
  shows "event_flags_err ev = None \<longleftrightarrow>
    type_flags (ev_Type ev) (ev_TCPFlags ev) \<and> (ev_Type ev = 1 \<longrightarrow> ev_CaptureSequence ev \<noteq> 0)"
proof -
  have c: "validateCaptureIdentity (captureIdentityFromEvent ev) (k_Generation (ev_Key ev)) = None
      \<longleftrightarrow> ev_CaptureSequence ev \<noteq> 0"
    using assms validateCaptureIdentity_None [of "captureIdentityFromEvent ev" "k_Generation (ev_Key ev)"]
    by (simp add: captureIdentityFromEvent_def runtimeIdentityFromEvent_def zero_incarnation_def)
  have f: "FlagRST OR FlagACK = 0x14" "FlagFIN OR FlagACK = 0x11" by (simp_all add: flag_defs)
  have w: "(case w of None \<Rightarrow> None | Some e \<Rightarrow> Some (g e)) = None \<longleftrightarrow> w = None" for w :: "err option" and g :: "err \<Rightarrow> err"
    by (cases w) simp_all
  consider "ev_Type ev = 1" | "ev_Type ev = 2" | "ev_Type ev = 3" | "ev_Type ev = 4" | "ev_Type ev = 5"
    | "ev_Type ev = 6" | "ev_Type ev \<notin> {1, 2, 3, 4, 5, 6}" by blast
  then show ?thesis
    by cases (simp_all add: event_flags_err_def Let_def event_type_defs type_flags_def FlagBits f c w, blast+)
qed

lemma validateEventType_iff: "validateEventType ev = None \<longleftrightarrow> event_wf ev"
proof (cases "validatePacketFlow (ev_Key ev) = None \<and> ev_RuntimeIncarnation ev \<noteq> zero_array 16")
  case True
  then have g: "k_Generation (ev_Key ev) \<noteq> 0" by (auto simp: validatePacketFlow_def split: if_splits)
  then have "validateRuntimeIdentity (runtimeIdentityFromEvent ev) = None"
    using True by (simp add: runtimeIdentityFromEvent_def zero_incarnation_def)
  then show ?thesis
    using True event_flags_iff [OF g]
    by (cases "event_flags_err ev")
      (auto simp: validateEventType_def event_wf_def Let_def FakeTCPEventABIVersion_def event_type_defs
        simp del: validateRuntimeIdentity_None)
next
  case False
  then show ?thesis
    by (auto simp: validateEventType_def event_wf_def runtimeIdentityFromEvent_def zero_incarnation_def
        validateRuntimeIdentity_def split: option.splits if_splits)
qed

lemma be16_at_slice: "i + 2 \<le> n \<Longrightarrow> 20 + n \<le> length p \<Longrightarrow> be16_at (take n (drop 20 p)) i = be16_at p (20 + i)"
  by (simp add: be16_at_drop drop_take be16c.dec_take add.commute del: take_drop)

lemma captured_iff:
  "validateCapturedIPv4UDP en ev p \<noteq> None
     \<and> (validateCapturedIPv4UDP en ev p = Some None \<longleftrightarrow> captured_wf en ev p)"
proof (cases "28 \<le> length p \<and> p ! 0 = 0x45")
  case False
  then show ?thesis
    using first_byte [of "p ! 0"]
    by (auto simp: validateCapturedIPv4UDP_def captured_wf_def rd_def Let_def)
next
  case True
  obtain t f where tf: "be16_at p 2 = Some t" "be16_at p 6 = Some f"
    using be16_at_returns [of 2 p] be16_at_returns [of 6 p] True by auto
  obtain s d u where sdu: "be16_at p 20 = Some s" "be16_at p 22 = Some d" "be16_at p 24 = Some u"
    using be16_at_returns [of 20 p] be16_at_returns [of 22 p] be16_at_returns [of 24 p] True by auto
  have udp: "be16_at (take 8 (drop 20 p)) 0 = Some s" "be16_at (take 8 (drop 20 p)) 2 = Some d"
    "be16_at (take 8 (drop 20 p)) 4 = Some u"
    using be16_at_slice [of 0 8 p] be16_at_slice [of 2 8 p] be16_at_slice [of 4 8 p] True sdu by simp_all
  have l: "unat t = length p \<longleftrightarrow> t = of_nat (length p) \<and> length p < 2 ^ 16"
    using unat_bound [of t] by (auto simp: unat_of_nat_small word_unat_eq_iff)
  have m: "unat u = length p - 20 \<longleftrightarrow> u = of_nat (length p - 20)" if "length p < 2 ^ 16"
    using that unat_of_nat_small [of "length p - 20", where 'a = 16] by (auto simp: word_unat_eq_iff)
  have ev: "ev_PayloadLength ev = of_nat (length p - 20 - 8) \<longleftrightarrow> ev_PayloadLength ev = of_nat (length p - 28)"
    by simp
  show ?thesis
    using True by (auto simp: validateCapturedIPv4UDP_def captured_wf_def Let_def rd_def slice_def tf udp sdu l m ev)
qed

text \<open>
  \<open>d\<close> is carried by \<open>sample\<close>: an event record, the packet of its declared length and, in the fixed
  format, the unused tail of the packet array.
\<close>

definition carries :: "endian \<Rightarrow> byte list \<Rightarrow> DecodedEvent \<Rightarrow> bool" where
  "carries en sample d \<longleftrightarrow> (let ev = de_Event d; p = de_Packet d in
     event_arrays ev \<and> event_wf ev \<and> length p = unat (ev_PacketLength ev)
     \<and> (\<exists>pad tail. length pad = 2 \<and> sample = event_bytes en ev pad @ p @ tail
          \<and> (if ev_Type ev \<in> {1, 5, 6} then p \<noteq> [] \<and> length p \<le> 2304 \<and> (tail = [] \<or> length sample = 2416)
             else p = [] \<and> tail = []))
     \<and> (ev_Type ev = 1 \<longrightarrow> captured_wf en ev p))"

lemma decode_samples:
  assumes "112 \<le> length sample"
  obtains ev where "decodeEventHeader en (take 112 sample) = Some ev" "event_arrays ev"
    "event_bytes en ev (take 2 (drop 110 sample)) @ drop 112 sample = sample"
proof -
  obtain ev where ev: "event_arrays ev" "event_bytes en ev (drop 110 (take 112 sample)) = take 112 sample"
    using event_onto [of "take 112 sample" en] assms by auto
  then have "decodeEventHeader en (take 112 sample) = Some ev"
    using decode_header_iff [of "take 112 sample" en ev] assms by simp
  moreover have "event_bytes en ev (take 2 (drop 110 sample)) @ drop 112 sample = sample"
    using ev(2) append_take_drop_id [of 112 sample] by (simp add: drop_take)
  ultimately show thesis using that ev(1) by blast
qed

text \<open>The event and the packet of a sample are determined by its bytes.\<close>

lemma carries_event:
  assumes "carries en sample d"
  shows "112 \<le> length sample" "decodeEventHeader en (take 112 sample) = Some (de_Event d)"
    "de_Packet d = take (unat (ev_PacketLength (de_Event d))) (drop 112 sample)"
proof -
  obtain pad tail where p: "length pad = 2" "sample = event_bytes en (de_Event d) pad @ de_Packet d @ tail"
    "event_arrays (de_Event d)" "length (de_Packet d) = unat (ev_PacketLength (de_Event d))"
    using assms by (auto simp: carries_def Let_def)
  have l: "length (event_bytes en (de_Event d) pad) = 112" using event_bytes_length p(1,3) by blast
  then show "112 \<le> length sample" "de_Packet d = take (unat (ev_PacketLength (de_Event d))) (drop 112 sample)"
    using p(2,4) by simp_all
  show "decodeEventHeader en (take 112 sample) = Some (de_Event d)"
    using decode_event_bytes [OF p(3,1)] l p(2) by simp
qed

lemma carries_iff:
  assumes "112 \<le> length sample" "decodeEventHeader en (take 112 sample) = Some ev" "event_arrays ev"
    "event_bytes en ev (take 2 (drop 110 sample)) @ drop 112 sample = sample"
  defines "n \<equiv> unat (ev_PacketLength ev)"
  shows "carries en sample d \<longleftrightarrow> de_Event d = ev \<and> event_wf ev \<and> de_Packet d = take n (drop 112 sample)
    \<and> (if ev_Type ev \<in> {1, 5, 6} then 0 < n \<and> n \<le> 2304 \<and> (length sample = 112 + n \<or> length sample = 2416)
       else n = 0 \<and> length sample = 112)
    \<and> (ev_Type ev = 1 \<longrightarrow> captured_wf en ev (take n (drop 112 sample)))"
    (is "_ \<longleftrightarrow> ?rhs")
proof
  assume c: "carries en sample d"
  note e = carries_event [OF c]
  have ev: "de_Event d = ev" using e(2) assms(2) by simp
  then have p: "de_Packet d = take n (drop 112 sample)" using e(3) by (simp add: n_def)
  obtain pad tail where t: "length pad = 2" "sample = event_bytes en ev pad @ de_Packet d @ tail"
    "if ev_Type ev \<in> {1, 5, 6} then de_Packet d \<noteq> [] \<and> length (de_Packet d) \<le> 2304 \<and> (tail = [] \<or> length sample = 2416)
     else de_Packet d = [] \<and> tail = []"
    using c ev by (auto simp: carries_def Let_def)
  have l: "length (event_bytes en ev pad) = 112" using event_bytes_length [OF assms(3) t(1)] .
  have n: "length (de_Packet d) = n" using c ev by (simp add: carries_def Let_def n_def)
  have ls: "length sample = 112 + n + length tail" using t(2) l n by simp
  have q: "if ev_Type ev \<in> {1, 5, 6} then 0 < n \<and> n \<le> 2304 \<and> (length sample = 112 + n \<or> length sample = 2416)
      else n = 0 \<and> length sample = 112"
  proof (cases "ev_Type ev \<in> {1, 5, 6}")
    case True
    then have "de_Packet d \<noteq> []" "length (de_Packet d) \<le> 2304" "tail = [] \<or> length sample = 2416" using t(3) by simp_all
    then show ?thesis using True n ls by auto
  next
    case False
    then have "de_Packet d = []" "tail = []" using t(3) by simp_all
    then show ?thesis using False n ls by simp
  qed
  have w: "event_wf ev" "ev_Type ev = 1 \<longrightarrow> captured_wf en ev (take n (drop 112 sample))"
    using c unfolding carries_def Let_def ev p by blast+
  show ?rhs using ev p q w by blast
next
  assume r: ?rhs
  have l: "length (event_bytes en ev (take 2 (drop 110 sample))) = 112"
    using event_bytes_length [OF assms(3)] assms(1) by simp
  have s: "event_bytes en ev (take 2 (drop 110 sample)) @ take n (drop 112 sample) @ drop n (drop 112 sample) = sample"
    using assms(4) by (simp only: append_take_drop_id)
  have de: "de_Event d = ev" "de_Packet d = take n (drop 112 sample)" using r by blast+
  have size: "if ev_Type ev \<in> {1, 5, 6} then 0 < n \<and> n \<le> 2304 \<and> (length sample = 112 + n \<or> length sample = 2416)
      else n = 0 \<and> length sample = 112" using r by blast
  then have fit: "112 + n \<le> length sample" by (simp split: if_splits) linarith+
  have "if ev_Type ev \<in> {1, 5, 6}
      then take n (drop 112 sample) \<noteq> [] \<and> length (take n (drop 112 sample)) \<le> 2304
        \<and> (drop n (drop 112 sample) = [] \<or> length sample = 2416)
      else take n (drop 112 sample) = [] \<and> drop n (drop 112 sample) = []"
    using size fit by (cases "ev_Type ev \<in> {1, 5, 6}") auto
  moreover have "length (take 2 (drop 110 sample)) = 2" "length (take n (drop 112 sample)) = n"
    using assms(1) fit by simp_all
  ultimately show "carries en sample d"
    unfolding carries_def Let_def de n_def [symmetric] using assms(3) r s [symmetric] by blast
qed

lemma decode_payload_exact:
  fixes ev :: FakeTCPEvent
  assumes "112 \<le> length sample"
  defines "n \<equiv> unat (ev_PacketLength ev)"
  shows "\<exists>r. decode_payload en ev sample = Some r
    \<and> (\<forall>d. r = Inr d \<longleftrightarrow> de_Event d = ev \<and> de_Packet d = take n (drop 112 sample)
      \<and> (if ev_Type ev \<in> {1, 5, 6} then 0 < n \<and> n \<le> 2304 \<and> (length sample = 112 + n \<or> length sample = 2416)
         else n = 0 \<and> length sample = 112)
      \<and> (ev_Type ev = 1 \<longrightarrow> captured_wf en ev (take n (drop 112 sample))))"
proof -
  note defs = decode_payload_def Let_def FakeTCPEventSize_def FakeTCPMaxCapturedPacket_def FakeTCPPacketEventSize_def
    n_def [symmetric]
  have carry: "fakeTCPEventCarriesPacket (ev_Type ev) \<longleftrightarrow> ev_Type ev \<in> {1, 5, 6}"
    by (simp add: fakeTCPEventCarriesPacket_def event_type_defs)
  have d: "d = \<lparr>de_Event = ev, de_Packet = p\<rparr> \<longleftrightarrow> de_Event d = ev \<and> de_Packet d = p" for d p
    by (cases d) auto
  have zero: "ev_PacketLength ev = 0 \<longleftrightarrow> n = 0" by (simp add: n_def unat_eq_0)
  consider (plain) "ev_Type ev \<notin> {1, 5, 6}"
    | (size) "ev_Type ev \<in> {1, 5, 6}" "\<not> (0 < n \<and> n \<le> 2304 \<and> (length sample = 112 + n \<or> length sample = 2416))"
    | (fits) "ev_Type ev \<in> {1, 5, 6}" "0 < n" "n \<le> 2304" "length sample = 112 + n \<or> length sample = 2416"
    by blast
  then show ?thesis
  proof cases
    case plain
    then show ?thesis unfolding defs carry zero by (auto simp: d)
  next
    case size
    then show ?thesis unfolding defs carry by auto
  next
    case fits
    have body: "slice sample 112 (112 + n) = Some (take n (drop 112 sample))"
      using fits(3,4) by (auto simp: slice_def)
    obtain q where q: "validateCapturedIPv4UDP en ev (take n (drop 112 sample)) = Some q"
      "q = None \<longleftrightarrow> captured_wf en ev (take n (drop 112 sample))"
      using captured_iff [of en ev "take n (drop 112 sample)"] by auto
    have "decode_payload en ev sample = (if ev_Type ev = 1 \<and> q \<noteq> None then Some (Inl (the q))
        else Some (Inr \<lparr>de_Event = ev, de_Packet = take n (drop 112 sample)\<rparr>))"
      unfolding defs carry using fits body q(1) by (cases q) (auto simp: event_type_defs)
    then show ?thesis using fits q(2) d by auto
  qed
qed

lemma decode_borrowed_exact:
  "\<exists>r. decodeBorrowedEventSample en sample = Some r \<and> (\<forall>d. r = Inr d \<longleftrightarrow> carries en sample d)"
proof (cases "112 \<le> length sample")
  case False
  then show ?thesis using carries_event(1) [of en sample]
    by (auto simp: decodeBorrowedEventSample_def FakeTCPEventSize_def)
next
  case True
  obtain ev where ev: "decodeEventHeader en (take 112 sample) = Some ev" "event_arrays ev"
    "event_bytes en ev (take 2 (drop 110 sample)) @ drop 112 sample = sample"
    using decode_samples [OF True] .
  have "slice sample 0 112 = Some (take 112 sample)" using True by (simp add: slice_def)
  then have run: "decodeBorrowedEventSample en sample =
      (case validateEventType ev of Some e \<Rightarrow> Some (Inl e) | None \<Rightarrow> decode_payload en ev sample)"
    using True ev(1) unfolding decodeBorrowedEventSample_def FakeTCPEventSize_def by (simp del: take_0 drop_0)
  show ?thesis
  proof (cases "validateEventType ev")
    case None
    then have "event_wf ev" by (simp add: validateEventType_iff)
    then show ?thesis
      using run None decode_payload_exact [OF True, of en ev] unfolding carries_iff [OF True ev] by auto
  next
    case (Some e)
    then have "\<not> event_wf ev" using validateEventType_iff [of ev] by simp
    then show ?thesis using run Some unfolding carries_iff [OF True ev] by simp
  qed
qed

lemma decode_copies: "DecodeEventSample en sample = decodeBorrowedEventSample en sample"
  by (cases "decodeBorrowedEventSample en sample") (auto simp: DecodeEventSample_def split: sum.splits)

text \<open>
  C23. The decoder of ring-buffer samples never panics and is exact: on every byte string it
  returns, and it returns an event and a packet if and only if the sample is the record of that
  event, with a complete flow, an identity and flags that fit its type, followed by exactly the
  declared packet bytes, compact or in the fixed-size format, and, for a captured datagram, only
  if those bytes are one whole IPv4/UDP datagram of the event's own flow.
\<close>

theorem decode_is_exact:
  "\<exists>r. DecodeEventSample en sample = Some r \<and> (\<forall>d. r = Inr d \<longleftrightarrow> carries en sample d)"
  unfolding decode_copies by (rule decode_borrowed_exact)

text \<open>An event with a capture of the sample flow.\<close>

definition sample_need_event :: FakeTCPEvent where
  "sample_need_event = \<lparr>ev_Key = sample_key, ev_TimestampNanos = 9, ev_RuntimeIncarnation = sample_incarnation,
     ev_CaptureSequence = 1, ev_SessionRevision = 0, ev_SessionID = 0, ev_CaptureCPU = 0, ev_Sequence = 0,
     ev_Acknowledgement = 0, ev_PayloadLength = 1, ev_FWMark = 5, ev_WGID = k_WGID sample_key,
     ev_PacketLength = 29, ev_EventABIVersion = 3, ev_Type = FakeTCPEventNeedHandshake, ev_TCPFlags = 0\<rparr>"

end
