(* ===== verification/Controller.thy ===== *)
theory Controller
  imports Action_Recovery Engine_Router Event_Sample Close_Fence
begin

text \<open>
  The controller, \<open>internal/faketcp/controller.go\<close>: it admits one operation at a time, decodes a
  sample, lets the engine of its route handle it and performs the actions through the backend,
  directly or behind the write-ahead checkpoint of \<open>Action_Recovery\<close>. \<open>None\<close> is a panic or, in
  \<open>Close\<close>, a wait for another caller.
\<close>

section \<open>State\<close>

record 'x Controller =
  ct_dispatcher :: "'x dispatcher option"
  ct_backend :: "'x ControllerBackend option"
  ct_recovery :: "'x ActionRecovery option"
  ct_inflightDone :: bool
  ct_closeDone :: bool
  ct_inflight :: u64
  ct_shutdown :: bool
  ct_closing :: bool
  ct_closed :: bool
  ct_failureErr :: "err option"
  ct_recoveryErr :: "err option"
  ct_closeErr :: "err option"

text \<open>\<open>interfaceValueIsNil\<close>: a nil interface, or an interface that holds a nil router pointer.\<close>

definition dispatcher_nil :: "'x dispatcher option \<Rightarrow> bool" where
  "dispatcher_nil d = (case d of None \<Rightarrow> True | Some (Routed None) \<Rightarrow> True | _ \<Rightarrow> False)"

definition newController ::
  "'x dispatcher option \<Rightarrow> 'x ControllerBackend option \<Rightarrow> err + 'x Controller" where
  "newController d backend =
     (if dispatcher_nil d then Inl (ErrNew ''faketcp controller engine dispatcher is nil'')
      else if backend = None then Inl (ErrNew ''faketcp controller backend is nil'')
      else Inr \<lparr>ct_dispatcher = d, ct_backend = backend, ct_recovery = None, ct_inflightDone = True,
             ct_closeDone = True, ct_inflight = 0, ct_shutdown = False, ct_closing = False,
             ct_closed = False, ct_failureErr = None, ct_recoveryErr = None, ct_closeErr = None\<rparr>)"

definition NewController ::
  "'x owned_engine option \<Rightarrow> 'x ControllerBackend option \<Rightarrow> err + 'x Controller" where
  "NewController engine backend =
     (if engine = None then Inl (ErrNew ''faketcp controller requires an engine'')
      else newController (Some (SingleEngine engine)) backend)"

definition NewRoutedController ::
  "'x EngineRouter option \<Rightarrow> 'x ControllerBackend option \<Rightarrow> err + 'x Controller" where
  "NewRoutedController router backend =
     (if router = None \<or> validateRuntimeIdentity (Router_Identity router) \<noteq> None
      then Inl (ErrNew ''faketcp routed controller requires an engine router'')
      else newController (Some (Routed router)) backend)"

definition NewRecoverableController ::
  "(byte list \<Rightarrow> byte list) \<Rightarrow> 'x owned_engine option \<Rightarrow> 'x ControllerBackend option
     \<Rightarrow> 'x ActionCheckpointStore option \<Rightarrow> 'x \<Rightarrow> (err + 'x Controller) \<times> 'x" where
  "NewRecoverableController sha256 engine backend store x =
     (if engine = None then (Inl (ErrNew ''faketcp controller requires an engine''), x)
      else (case newController (Some (SingleEngine engine)) backend of
        Inl e \<Rightarrow> (Inl e, x)
      | Inr c \<Rightarrow>
          (case NewActionRecovery sha256 (dispatcher_Identity (SingleEngine engine)) backend store x of
             (Inl e, x1) \<Rightarrow> (Inl e, x1)
           | (Inr recovery, x1) \<Rightarrow>
               (case Recovery_Pending sha256 (Some recovery) x1 of
                  (Inl e, x2) \<Rightarrow> (Inl e, x2)
                | (Inr waiting, x2) \<Rightarrow>
                    (Inr (c\<lparr>ct_recovery := Some recovery,
                            ct_recoveryErr := (if waiting then Some (ErrVar ErrActionRecoveryRequired) else None)\<rparr>),
                     x2)))))"

section \<open>Admission\<close>

definition Controller_initialized :: "'x Controller \<Rightarrow> bool" where
  "Controller_initialized c \<longleftrightarrow> \<not> dispatcher_nil (ct_dispatcher c) \<and> ct_backend c \<noteq> None
     \<and> ct_inflightDone c \<and> ct_closeDone c"

text \<open>
  \<open>beginSerializedOperation\<close> in its two parts: the admission under \<open>stateMu\<close>, and the second look
  once \<open>opMu\<close> is held, which an earlier operation may have failed in the meantime.
\<close>

definition admit_operation :: "'x Controller \<Rightarrow> err + 'x Controller" where
  "admit_operation c =
     (if \<not> Controller_initialized c \<or> ct_shutdown c \<or> ct_closing c \<or> ct_closed c
      then Inl (ErrVar ErrControllerClosed)
      else case ct_failureErr c of
        Some e \<Rightarrow> Inl e
      | None \<Rightarrow> (case ct_recoveryErr c of
          Some e \<Rightarrow> Inl e
        | None \<Rightarrow> Inr (c\<lparr>ct_inflight := ct_inflight c + 1\<rparr>)))"

definition recheck_operation :: "'x Controller \<Rightarrow> err option" where
  "recheck_operation c =
     (case ct_failureErr c of
        Some e \<Rightarrow> Some e
      | None \<Rightarrow> (case ct_recoveryErr c of
          Some e \<Rightarrow> Some e
        | None \<Rightarrow> if Controller_initialized c then None else Some (ErrVar ErrControllerClosed)))"

definition finishOperation :: "'x Controller \<Rightarrow> 'x Controller" where
  "finishOperation c = (if ct_inflight c > 0 then c\<lparr>ct_inflight := ct_inflight c - 1\<rparr> else c)"

definition beginSerializedOperation :: "'x Controller \<Rightarrow> err option \<times> 'x Controller" where
  "beginSerializedOperation c =
     (case admit_operation c of
        Inl e \<Rightarrow> (Some e, c)
      | Inr c1 \<Rightarrow>
          (case recheck_operation c1 of
             Some e \<Rightarrow> (Some e, finishOperation c1)
           | None \<Rightarrow> (None, c1)))"

definition admit_recovery :: "'x Controller \<Rightarrow> err + 'x Controller" where
  "admit_recovery c =
     (if \<not> Controller_initialized c \<or> ct_shutdown c \<or> ct_closing c \<or> ct_closed c
      then Inl (ErrVar ErrControllerClosed)
      else case ct_failureErr c of
        Some e \<Rightarrow> Inl e
      | None \<Rightarrow>
          if ct_recovery c = None then Inl (ErrVar ErrControllerRecoveryUnavailable)
          else Inr (c\<lparr>ct_inflight := ct_inflight c + 1\<rparr>))"

definition recheck_recovery :: "'x Controller \<Rightarrow> err option" where
  "recheck_recovery c =
     (case ct_failureErr c of
        Some e \<Rightarrow> Some e
      | None \<Rightarrow>
          if \<not> Controller_initialized c then Some (ErrVar ErrControllerClosed)
          else if ct_recovery c = None then Some (ErrVar ErrControllerRecoveryUnavailable)
          else None)"

definition beginRecoveryOperation :: "'x Controller \<Rightarrow> err option \<times> 'x Controller" where
  "beginRecoveryOperation c =
     (case admit_recovery c of
        Inl e \<Rightarrow> (Some e, c)
      | Inr c1 \<Rightarrow>
          (case recheck_recovery c1 of
             Some e \<Rightarrow> (Some e, finishOperation c1)
           | None \<Rightarrow> (None, c1)))"

text \<open>The unlock of \<open>opMu\<close> is the end of the operation's step.\<close>

definition endSerializedOperation :: "'x Controller \<Rightarrow> 'x Controller" where
  "endSerializedOperation c = finishOperation c"

section \<open>Failure and recovery marks\<close>

definition markFailed :: "err \<Rightarrow> 'x Controller \<Rightarrow> err \<times> 'x Controller" where
  "markFailed cause c =
     (case ct_failureErr c of
        Some e \<Rightarrow> (e, c)
      | None \<Rightarrow>
          let e = ErrWrap ''faketcp controller action execution failed'' [ErrVar ErrControllerFailed, cause] in
          (e, c\<lparr>ct_failureErr := Some e\<rparr>))"

text \<open>The returned error is \<open>c.recoveryErr\<close>, which both branches have set.\<close>

definition markRecoveryRequired :: "err option \<Rightarrow> 'x Controller \<Rightarrow> err option \<times> 'x Controller" where
  "markRecoveryRequired cause c =
     (let e = (case cause of
                 None \<Rightarrow> (if ct_recoveryErr c = None then Some (ErrVar ErrActionRecoveryRequired) else ct_recoveryErr c)
               | Some _ \<Rightarrow> errors_join [Some (ErrVar ErrActionRecoveryRequired), cause]) in
      (e, c\<lparr>ct_recoveryErr := e\<rparr>))"

definition clearRecoveryRequired :: "'x Controller \<Rightarrow> 'x Controller" where
  "clearRecoveryRequired c = c\<lparr>ct_recoveryErr := None\<rparr>"

definition handleActionExecutionError :: "err \<Rightarrow> 'x Controller \<Rightarrow> err option \<times> 'x Controller" where
  "handleActionExecutionError cause c =
     (if ct_recovery c \<noteq> None \<and> errors_is cause ErrActionRecoveryRequired
      then markRecoveryRequired (Some cause) c
      else (case markFailed cause c of (e, c') \<Rightarrow> (Some e, c')))"

section \<open>Execution of actions\<close>

text \<open>The loop over the packets of one release: the errors it collects; a cancelled context ends it.\<close>

fun reinject_all ::
  "'x go_context \<Rightarrow> 'x ControllerBackend \<Rightarrow> FakeTCPSessionKey \<Rightarrow> PendingPacket list \<Rightarrow> 'x \<Rightarrow> err list \<times> 'x" where
  "reinject_all ctx backend flow [] x = ([], x)"
| "reinject_all ctx backend flow (packet # packets) x =
     (case ctx x of
        (Some e, x1) \<Rightarrow> ([ErrWrap ''reinject faketcp first packet'' [e]], x1)
      | (None, x1) \<Rightarrow>
          (case bk_Reinject backend ctx flow packet x1 of
             (r, x2) \<Rightarrow>
               (case reinject_all ctx backend flow packets x2 of
                  (errs, x3) \<Rightarrow>
                    ((case r of None \<Rightarrow> errs | Some e \<Rightarrow> ErrWrap ''reinject faketcp first packet'' [e] # errs), x3))))"

fun perform_actions ::
  "'x go_context \<Rightarrow> 'x ControllerBackend \<Rightarrow> Action list \<Rightarrow> 'x \<Rightarrow> err option \<times> 'x" where
  "perform_actions ctx backend [] x = (None, x)"
| "perform_actions ctx backend (action # actions) x =
     (case ctx x of
        (Some e, x1) \<Rightarrow> (Some e, x1)
      | (None, x1) \<Rightarrow>
          (case a_Kind action of
             ActionSendControl \<Rightarrow>
               (case bk_SendControl backend ctx (a_Flow action) (a_WGID action) (a_Control action) x1 of
                  (Some e, x2) \<Rightarrow> (Some (ErrWrap ''send faketcp control packet'' [e]), x2)
                | (None, x2) \<Rightarrow> perform_actions ctx backend actions x2)
           | ActionReleasePending \<Rightarrow>
               (case reinject_all ctx backend (a_Flow action) (a_Packets action) x1 of
                  (errs, x2) \<Rightarrow>
                    (case errors_join (map Some errs) of
                       Some e \<Rightarrow> (Some e, x2)
                     | None \<Rightarrow> perform_actions ctx backend actions x2))
           | _ \<Rightarrow> perform_actions ctx backend actions x1))"

text \<open>The admission of the operation has found the backend to be set; a nil backend is \<open>None\<close>.\<close>

definition executeActions ::
  "(byte list \<Rightarrow> byte list) \<Rightarrow> 'x go_context \<Rightarrow> Action list \<Rightarrow> 'x Controller \<Rightarrow> 'x world
     \<Rightarrow> (err option \<times> 'x Controller \<times> 'x world) option" where
  "executeActions sha256 ctx actions c w =
     (case ct_recovery c of
        Some recovery \<Rightarrow>
          (case Execute sha256 (Some ctx) actions (Some recovery) (w_ext w) of
             None \<Rightarrow> None
           | Some (e, recovery', x) \<Rightarrow> Some (e, c\<lparr>ct_recovery := recovery'\<rparr>, w\<lparr>w_ext := x\<rparr>))
      | None \<Rightarrow>
          (case ct_backend c of
             None \<Rightarrow> None
           | Some backend \<Rightarrow>
               (case ext_call (perform_actions ctx backend actions) w of (e, w') \<Rightarrow> Some (e, c, w'))))"

section \<open>Operations\<close>

type_synonym 'x op_result = "(Action list \<times> err option \<times> 'x Controller \<times> 'x world) option"

text \<open>
  The call of the selected engine: the \<open>switch\<close> of \<open>handleOwnedDecodedEvent\<close>. The first component is
  the error of \<open>MaterializeIPv4UDPChecksums\<close>, which comes before the engine is called.
\<close>

definition dispatch_event ::
  "endian \<Rightarrow> ownedDecodedEvent \<Rightarrow> 'x owned_engine option \<Rightarrow> 'x world
     \<Rightarrow> (err option \<times> Action list \<times> err option \<times> 'x owned_engine option \<times> 'x world) option" where
  "dispatch_event en decoded engine w =
     (let event = od_Event decoded;
          run = (\<lambda>call. case engine of
                   None \<Rightarrow> None
                 | Some (c, e) \<Rightarrow>
                     (case call c e w of (actions, err, e', w') \<Rightarrow> Some (None, actions, err, Some (c, e'), w'))) in
      if ev_Type event = FakeTCPEventNeedHandshake then
        (case MaterializeIPv4UDPChecksums (od_Packet decoded) of
           None \<Rightarrow> None
         | Some (Some err, _) \<Rightarrow> Some (Some err, [], None, engine, w)
         | Some (None, packet) \<Rightarrow>
             run (\<lambda>c e. handleOwnedCapturedPacket c e event packet (od_Fingerprint decoded)))
      else if ev_Type event = FakeTCPEventRST \<or> ev_Type event = FakeTCPEventFIN then
        run (\<lambda>c e. InboundCapturedControl en c e event (od_Packet decoded))
      else
        run (\<lambda>c e. InboundWithWGID c e (ev_Key event)
          \<lparr>sg_Flags = ev_TCPFlags event, sg_Sequence = ev_Sequence event,
           sg_Acknowledgement = ev_Acknowledgement event, sg_PayloadLength = ev_PayloadLength event\<rparr>
          (ev_WGID event)))"

definition handleOwnedDecodedEvent ::
  "(byte list \<Rightarrow> byte list) \<Rightarrow> endian \<Rightarrow> 'x go_context \<Rightarrow> ownedDecodedEvent \<Rightarrow> 'x Controller \<Rightarrow> 'x world
     \<Rightarrow> 'x op_result" where
  "handleOwnedDecodedEvent sha256 en ctx decoded c w =
     (case ct_dispatcher c of
        None \<Rightarrow> None
      | Some d \<Rightarrow>
      if runtimeIdentityFromEvent (od_Event decoded) \<noteq> dispatcher_Identity d
      then Some ([], Some (ErrNew ''faketcp event runtime identity does not match controller dispatcher''), c, w)
      else
     (case dispatcher_selectEngine (od_Event decoded) d of
        Inl e \<Rightarrow> Some ([], Some e, c, w)
      | Inr (engine, wgID) \<Rightarrow>
     (case dispatch_event en decoded engine w of
        None \<Rightarrow> None
      | Some (Some err, _, _, _, w1) \<Rightarrow> Some ([], Some err, c, w1)
      | Some (None, actions, engineErr, engine', w1) \<Rightarrow>
          let d' = (case engine' of None \<Rightarrow> d | Some e \<Rightarrow> put_engine wgID e d); c1 = c\<lparr>ct_dispatcher := Some d'\<rparr> in
          if engineErr \<noteq> None then Some (actions, engineErr, c1, w1)
          else
     (case dispatcher_validateActions d' wgID actions of
        None \<Rightarrow> None
      | Some (Some err) \<Rightarrow> (case markFailed err c1 of (e, c2) \<Rightarrow> Some (actions, Some e, c2, w1))
      | Some None \<Rightarrow>
     (case executeActions sha256 ctx actions c1 w1 of
        None \<Rightarrow> None
      | Some (Some err, c2, w2) \<Rightarrow> (case handleActionExecutionError err c2 of (e, c3) \<Rightarrow> Some (actions, e, c3, w2))
      | Some (None, c2, w2) \<Rightarrow> Some (actions, None, c2, w2))))))"

text \<open>The frame that the operations share: admission, the context, the body, the end.\<close>

definition serialized ::
  "'x go_context option \<Rightarrow> ('x go_context \<Rightarrow> 'x Controller \<Rightarrow> 'x world \<Rightarrow> 'x op_result)
     \<Rightarrow> 'x Controller option \<Rightarrow> 'x world
     \<Rightarrow> (Action list \<times> err option \<times> 'x Controller option \<times> 'x world) option" where
  "serialized context body controller w =
     (case controller of
        None \<Rightarrow> Some ([], Some (ErrVar ErrControllerClosed), controller, w)
      | Some c \<Rightarrow>
     (case beginSerializedOperation c of
        (Some e, c1) \<Rightarrow> Some ([], Some e, Some c1, w)
      | (None, c1) \<Rightarrow>
     (case context of
        None \<Rightarrow> Some ([], Some (ErrNew ''faketcp controller context is nil''), Some (endSerializedOperation c1), w)
      | Some ctx \<Rightarrow>
     (case ext_call ctx w of
        (Some e, w1) \<Rightarrow> Some ([], Some e, Some (endSerializedOperation c1), w1)
      | (None, w1) \<Rightarrow>
     (case body ctx c1 w1 of
        None \<Rightarrow> None
      | Some (actions, e, c2, w2) \<Rightarrow> Some (actions, e, Some (endSerializedOperation c2), w2))))))"

definition handle_sample ::
  "(byte list \<Rightarrow> byte list) \<Rightarrow> endian \<Rightarrow> byte list \<Rightarrow> 'x go_context \<Rightarrow> 'x Controller \<Rightarrow> 'x world \<Rightarrow> 'x op_result" where
  "handle_sample sha256 en sample ctx c w =
     (case DecodeEventSample en sample of
        None \<Rightarrow> None
      | Some (Inl e) \<Rightarrow> Some ([], Some e, c, w)
      | Some (Inr decoded) \<Rightarrow>
          handleOwnedDecodedEvent sha256 en ctx
            \<lparr>od_Event = de_Event decoded, od_Packet = de_Packet decoded,
             od_Fingerprint = (if ev_Type (de_Event decoded) = FakeTCPEventNeedHandshake
                               then sha256 sample else zero_array 32)\<rparr> c w)"

definition HandleSample ::
  "(byte list \<Rightarrow> byte list) \<Rightarrow> endian \<Rightarrow> 'x go_context option \<Rightarrow> byte list \<Rightarrow> 'x Controller option \<Rightarrow> 'x world
     \<Rightarrow> (Action list \<times> err option \<times> 'x Controller option \<times> 'x world) option" where
  "HandleSample sha256 en context sample = serialized context (handle_sample sha256 en sample)"

definition handleOwnedEvent ::
  "(byte list \<Rightarrow> byte list) \<Rightarrow> endian \<Rightarrow> 'x go_context option \<Rightarrow> ownedDecodedEvent \<Rightarrow> 'x Controller option \<Rightarrow> 'x world
     \<Rightarrow> (Action list \<times> err option \<times> 'x Controller option \<times> 'x world) option" where
  "handleOwnedEvent sha256 en context decoded =
     serialized context (\<lambda>ctx. handleOwnedDecodedEvent sha256 en ctx decoded)"

text \<open>\<open>errors.Is\<close> of an error that may be nil.\<close>

definition option_is :: "err option \<Rightarrow> sentinel \<Rightarrow> bool" where
  "option_is e target = (case e of None \<Rightarrow> False | Some x \<Rightarrow> errors_is x target)"

definition tick_body ::
  "(byte list \<Rightarrow> byte list) \<Rightarrow> (u32 \<Rightarrow> FakeTCPSessionKey list) \<Rightarrow> 'x go_context \<Rightarrow> 'x Controller \<Rightarrow> 'x world
     \<Rightarrow> 'x op_result" where
  "tick_body sha256 orders ctx c w =
     (case Option.bind (ct_dispatcher c) (\<lambda>d. dispatcher_Tick orders d w) of
        None \<Rightarrow> None
      | Some (actions, engineErr, d, w1) \<Rightarrow>
          let c1 = c\<lparr>ct_dispatcher := Some d\<rparr> in
          if option_is engineErr ErrEngineRouteRejected
          then (case markFailed (the engineErr) c1 of (e, c2) \<Rightarrow> Some (actions, Some e, c2, w1))
          else
     (case executeActions sha256 ctx actions c1 w1 of
        None \<Rightarrow> None
      | Some (Some err, c2, w2) \<Rightarrow>
          (case handleActionExecutionError err c2 of (e, c3) \<Rightarrow> Some (actions, errors_join [engineErr, e], c3, w2))
      | Some (None, c2, w2) \<Rightarrow> Some (actions, engineErr, c2, w2)))"

definition Controller_Tick ::
  "(byte list \<Rightarrow> byte list) \<Rightarrow> (u32 \<Rightarrow> FakeTCPSessionKey list) \<Rightarrow> 'x go_context option \<Rightarrow> 'x Controller option \<Rightarrow> 'x world
     \<Rightarrow> (Action list \<times> err option \<times> 'x Controller option \<times> 'x world) option" where
  "Controller_Tick sha256 orders context = serialized context (tick_body sha256 orders)"

definition recover_body ::
  "(byte list \<Rightarrow> byte list) \<Rightarrow> 'x go_context \<Rightarrow> 'x Controller \<Rightarrow> 'x world
     \<Rightarrow> (RecoveryReport \<times> err option \<times> 'x Controller \<times> 'x world) option" where
  "recover_body sha256 ctx c w =
     (case Recover sha256 (Some ctx) (ct_recovery c) (w_ext w) of
        None \<Rightarrow> None
      | Some (report, recoveryErr, x1) \<Rightarrow>
     (case Recovery_Pending sha256 (ct_recovery c) x1 of
        (Inl pendingErr, x2) \<Rightarrow>
          (case markRecoveryRequired (errors_join [recoveryErr, Some pendingErr]) c of
             (e, c1) \<Rightarrow> Some (report, e, c1, w\<lparr>w_ext := x2\<rparr>))
      | (Inr True, x2) \<Rightarrow>
          (case markRecoveryRequired recoveryErr c of (e, c1) \<Rightarrow> Some (report, e, c1, w\<lparr>w_ext := x2\<rparr>))
      | (Inr False, x2) \<Rightarrow> Some (report, recoveryErr, clearRecoveryRequired c, w\<lparr>w_ext := x2\<rparr>)))"

definition Controller_Recover ::
  "(byte list \<Rightarrow> byte list) \<Rightarrow> 'x go_context option \<Rightarrow> 'x Controller option \<Rightarrow> 'x world
     \<Rightarrow> (RecoveryReport \<times> err option \<times> 'x Controller option \<times> 'x world) option" where
  "Controller_Recover sha256 context controller w =
     (case controller of
        None \<Rightarrow> Some (zero_report, Some (ErrVar ErrControllerClosed), controller, w)
      | Some c \<Rightarrow>
     (case beginRecoveryOperation c of
        (Some e, c1) \<Rightarrow> Some (zero_report, Some e, Some c1, w)
      | (None, c1) \<Rightarrow>
     (case context of
        None \<Rightarrow> Some (zero_report, Some (ErrNew ''faketcp controller context is nil''), Some (endSerializedOperation c1), w)
      | Some ctx \<Rightarrow>
     (case recover_body sha256 ctx c1 w of
        None \<Rightarrow> None
      | Some (report, e, c2, w1) \<Rightarrow> Some (report, e, Some (endSerializedOperation c2), w1)))))"

section \<open>Shutdown\<close>

definition controller_close_enter :: "'x Controller \<Rightarrow> 'x Controller close_entry" where
  "controller_close_enter c =
     (if ct_closed c then CloseReturns None
      else if ct_closing c then CloseWaits
      else if \<not> Controller_initialized c then CloseReturns (Some (ErrVar ErrControllerClosed))
      else CloseProceeds (c\<lparr>ct_shutdown := True, ct_closing := True, ct_closeDone := True\<rparr>))"

definition controller_close_finish :: "err option \<Rightarrow> 'x Controller \<Rightarrow> err option \<times> 'x Controller" where
  "controller_close_finish backendErr c =
     (let closeErr = map_option (\<lambda>e. ErrWrap ''close faketcp controller backend'' [e]) backendErr;
          backend = (if closeErr = None then None else ct_backend c) in
      (closeErr, c\<lparr>ct_backend := backend, ct_closeErr := closeErr, ct_closed := (backend = None), ct_closing := False\<rparr>))"

definition Controller_Close ::
  "'x Controller option \<Rightarrow> 'x \<Rightarrow> (err option \<times> 'x Controller option \<times> 'x) option" where
  "Controller_Close controller x =
     (case controller of
        None \<Rightarrow> Some (Some (ErrVar ErrControllerClosed), controller, x)
      | Some c \<Rightarrow>
     (case controller_close_enter c of
        CloseReturns e \<Rightarrow> Some (e, controller, x)
      | CloseWaits \<Rightarrow> None
      | CloseProceeds c1 \<Rightarrow>
          if ct_inflight c1 \<noteq> 0 then None
          else (case ct_backend c1 of
            None \<Rightarrow> None
          | Some backend \<Rightarrow>
              (case bk_Close backend x of
                 (backendErr, x') \<Rightarrow>
                   (case controller_close_finish backendErr c1 of (e, c2) \<Rightarrow> Some (e, Some c2, x'))))))"

section \<open>What an operation leaves alone\<close>

text \<open>The bodies change only the dispatcher, the recovery and the two error marks.\<close>

definition body_frame :: "'x Controller \<Rightarrow> 'x Controller \<Rightarrow> bool" where
  "body_frame c c' \<longleftrightarrow> (\<exists>d r f e. c' = c\<lparr>ct_dispatcher := d, ct_recovery := r, ct_failureErr := f, ct_recoveryErr := e\<rparr>
     \<and> (\<forall>x. f = Some x \<longrightarrow> ct_failureErr c = Some x \<or> errors_is x ErrControllerFailed))"

lemma body_frameD:
  assumes "body_frame c c'"
  shows "ct_backend c' = ct_backend c" "ct_inflightDone c' = ct_inflightDone c" "ct_closeDone c' = ct_closeDone c"
    "ct_inflight c' = ct_inflight c" "ct_shutdown c' = ct_shutdown c" "ct_closing c' = ct_closing c"
    "ct_closed c' = ct_closed c"
    "ct_failureErr c' = Some x \<Longrightarrow> ct_failureErr c = Some x \<or> errors_is x ErrControllerFailed"
  using assms by (auto simp: body_frame_def)

lemma body_frame_I:
  assumes "ct_backend c' = ct_backend c" "ct_inflightDone c' = ct_inflightDone c" "ct_closeDone c' = ct_closeDone c"
    "ct_inflight c' = ct_inflight c" "ct_shutdown c' = ct_shutdown c" "ct_closing c' = ct_closing c"
    "ct_closed c' = ct_closed c" "ct_closeErr c' = ct_closeErr c"
    "\<And>x. ct_failureErr c' = Some x \<Longrightarrow> ct_failureErr c = Some x \<or> errors_is x ErrControllerFailed"
  shows "body_frame c c'"
  unfolding body_frame_def
  by (rule exI [of _ "ct_dispatcher c'"], rule exI [of _ "ct_recovery c'"], rule exI [of _ "ct_failureErr c'"],
      rule exI [of _ "ct_recoveryErr c'"]) (use assms in \<open>cases c; cases c'; auto\<close>)

lemma body_frame_refl [simp]: "body_frame c c"
  by (rule body_frame_I) simp_all

lemma body_frame_trans: "body_frame a b \<Longrightarrow> body_frame b c \<Longrightarrow> body_frame a c"
  by (rule body_frame_I) (auto simp: body_frame_def)

lemma body_frame_sets [simp]:
  "body_frame c (c\<lparr>ct_dispatcher := d\<rparr>)" "body_frame c (c\<lparr>ct_recovery := r\<rparr>)" "body_frame c (c\<lparr>ct_recoveryErr := e\<rparr>)"
  by (rule body_frame_I, simp_all)+

lemma markFailed_frame: "markFailed cause c = (e, c') \<Longrightarrow> body_frame c c' \<and> ct_failureErr c' = Some e"
  by (auto simp: markFailed_def Let_def split: option.splits intro!: body_frame_I)

lemma mark_frames:
  "markRecoveryRequired cause c = (r, c') \<Longrightarrow> body_frame c c'" "body_frame c (clearRecoveryRequired c)"
  by (auto simp: markRecoveryRequired_def clearRecoveryRequired_def Let_def)

lemma execution_error_frame: "handleActionExecutionError cause c = (r, c') \<Longrightarrow> body_frame c c'"
  by (auto simp: handleActionExecutionError_def split: if_splits prod.splits dest: markFailed_frame mark_frames(1))

lemma executeActions_frame: "executeActions sha ctx as c w = Some (r, c', w') \<Longrightarrow> body_frame c c'"
  by (auto simp: executeActions_def split: option.splits prod.splits)

lemma handle_frame:
  assumes "handleOwnedDecodedEvent sha en ctx decoded c w = Some (as, r, c', w')"
  shows "body_frame c c'"
proof -
  note set = body_frame_sets(1)
  show ?thesis
    using assms unfolding handleOwnedDecodedEvent_def Let_def
    by (auto split: option.splits sum.splits prod.splits if_splits
        dest!: markFailed_frame executeActions_frame execution_error_frame
        intro: body_frame_trans [OF set] body_frame_trans [OF body_frame_trans [OF set]])
qed

lemma tick_frame:
  assumes "tick_body sha orders ctx c w = Some (as, r, c', w')"
  shows "body_frame c c'"
proof -
  note set = body_frame_sets(1)
  show ?thesis
    using assms unfolding tick_body_def Let_def
    by (auto split: option.splits prod.splits if_splits
        dest!: markFailed_frame executeActions_frame execution_error_frame
        intro: body_frame_trans [OF set] body_frame_trans [OF body_frame_trans [OF set]])
qed

lemma recover_frame: "recover_body sha ctx c w = Some (report, r, c', w') \<Longrightarrow> body_frame c c'"
  by (auto simp: recover_body_def split: option.splits sum.splits prod.splits bool.splits dest: mark_frames(1)
      intro: mark_frames(2))

section \<open>Concurrent callers\<close>

text \<open>
  An admitted call that holds \<open>opMu\<close>: it looks again at the marks and runs its body. \<open>opMu\<close> makes the
  bodies exclusive, and nothing else writes what a body reads.
\<close>

definition controller_works :: "'x Controller \<Rightarrow> 'x Controller \<Rightarrow> bool" where
  "controller_works c c' \<longleftrightarrow>
     recheck_operation c = None
       \<and> ((\<exists>sha en ctx decoded w as r w'. handleOwnedDecodedEvent sha en ctx decoded c w = Some (as, r, c', w'))
         \<or> (\<exists>sha orders ctx w as r w'. tick_body sha orders ctx c w = Some (as, r, c', w')))
     \<or> recheck_recovery c = None
       \<and> (\<exists>sha ctx w report r w'. recover_body sha ctx c w = Some (report, r, c', w'))"

definition controller_admits :: "'x Controller \<Rightarrow> 'x Controller \<Rightarrow> bool" where
  "controller_admits c c' \<longleftrightarrow> admit_operation c = Inr c' \<or> admit_recovery c = Inr c'"

definition controller_start :: "'x Controller \<Rightarrow> 'x Controller option" where
  "controller_start c = (case controller_close_enter c of CloseProceeds c' \<Rightarrow> Some c' | _ \<Rightarrow> None)"

definition controller_ending :: "'x Controller \<Rightarrow> 'x Controller \<Rightarrow> bool" where
  "controller_ending c c' \<longleftrightarrow> (\<exists>r. c' = snd (controller_close_finish r c))"

abbreviation controller_step ::
  "'x Controller \<times> nat \<times> close_phase \<Rightarrow> 'x Controller \<times> nat \<times> close_phase \<Rightarrow> bool" where
  "controller_step \<equiv> fence_step controller_admits finishOperation controller_start ct_inflight controller_ending controller_works"

lemma works_frame: "controller_works c c' \<Longrightarrow> body_frame c c'"
  unfolding controller_works_def by (blast dest: handle_frame tick_frame recover_frame)

lemma admit_shape:
  "controller_admits c c' \<Longrightarrow> c' = c\<lparr>ct_inflight := ct_inflight c + 1\<rparr> \<and> \<not> ct_shutdown c \<and> ct_failureErr c = None"
  by (auto simp: controller_admits_def admit_operation_def admit_recovery_def split: if_splits option.splits)

interpretation ct_fence: close_fence controller_admits finishOperation controller_start ct_inflight
    controller_ending controller_works ct_shutdown ct_closing
proof unfold_locales
  show "\<not> ct_shutdown s \<and> ct_inflight s' = ct_inflight s + 1 \<and> ct_shutdown s' = ct_shutdown s \<and> ct_closing s' = ct_closing s"
    if "controller_admits s s'" for s s' :: "'x Controller"
    using admit_shape [OF that] by simp
  show "ct_inflight s' = ct_inflight s \<and> ct_shutdown s' = ct_shutdown s \<and> ct_closing s' = ct_closing s"
    if "controller_works s s'" for s s' :: "'x Controller"
    using body_frameD [OF works_frame [OF that]] by simp
qed (auto simp: finishOperation_def controller_start_def controller_close_enter_def controller_ending_def
    controller_close_finish_def Let_def word_gt_0 split: if_splits)

lemma newController_fresh:
  assumes "newController d backend = Inr c"
  shows "ct_inflight c = 0" "\<not> ct_closing c" "ct_failureErr c = None" "ct_dispatcher c = d" "ct_backend c = backend"
    "ct_recovery c = None" "ct_recoveryErr c = None" "\<not> ct_shutdown c" "Controller_initialized c"
  using assms by (auto simp: newController_def Controller_initialized_def split: if_splits)

text \<open>
  A controller as a constructor returns it; \<open>NewController\<close> and \<open>NewRoutedController\<close> return what
  \<open>newController\<close> returns. Only \<open>NewRecoverableController\<close> attaches a checkpoint recovery.
\<close>

definition constructed_controller :: "'x Controller \<Rightarrow> bool" where
  "constructed_controller c \<longleftrightarrow>
     (\<exists>d backend. newController d backend = Inr c)
     \<or> (\<exists>sha engine backend store x x'. NewRecoverableController sha engine backend store x = (Inr c, x'))"

lemma constructed_fresh:
  assumes "constructed_controller c"
  shows "ct_inflight c = 0" "\<not> ct_closing c" "ct_failureErr c = None"
  using assms
  by (auto simp: constructed_controller_def NewRecoverableController_def dest: newController_fresh
      split: if_splits option.splits sum.splits prod.splits)

lemma failed_step:
  assumes "controller_step (c, n, p) (c', n', p')" "ct_failureErr c = Some e"
  shows "ct_failureErr c' = Some e \<and> ct_dispatcher c' = ct_dispatcher c \<and> ct_recovery c' = ct_recovery c"
  using assms(1)
proof (cases rule: fence_step.cases)
  case begins
  then show ?thesis using admit_shape [of c c'] assms(2) by simp
next
  case working
  then show ?thesis using assms(2) by (simp add: controller_works_def recheck_operation_def recheck_recovery_def)
next
  case leaves
  then show ?thesis using assms(2) by (simp add: finishOperation_def)
next
  case closes
  then show ?thesis using assms(2) by (auto simp: controller_start_def controller_close_enter_def split: if_splits)
next
  case released
  then show ?thesis using assms(2) by (auto simp: controller_ending_def controller_close_finish_def Let_def)
qed (use assms(2) in simp)

lemma failed_steps:
  assumes "controller_step\<^sup>*\<^sup>* (c, n, p) (c', n', p')" "ct_failureErr c = Some e"
  shows "ct_failureErr c' = Some e \<and> ct_dispatcher c' = ct_dispatcher c \<and> ct_recovery c' = ct_recovery c"
  using assms(1)
proof (induction rule: rtranclp_induct [where r = controller_step and a = "(c, n, p)" and b = "(c', n', p')", split_format (complete)])
  case (step c1 n1 p1 c2 n2 p2)
  then show ?case using failed_step [OF step(2)] by simp
qed (use assms(2) in simp)

lemma failure_is_marked_step:
  assumes "controller_step (c, n, p) (c', n', p')" "ct_failureErr c' = Some x"
  shows "ct_failureErr c = Some x \<or> errors_is x ErrControllerFailed"
  using assms(1)
proof (cases rule: fence_step.cases)
  case begins
  then show ?thesis using admit_shape [of c c'] assms(2) by simp
next
  case working
  then show ?thesis using body_frameD(8) [OF works_frame] assms(2) by blast
next
  case leaves
  then show ?thesis using assms(2) by (simp add: finishOperation_def split: if_splits)
next
  case closes
  then show ?thesis using assms(2) by (auto simp: controller_start_def controller_close_enter_def split: if_splits)
next
  case released
  then show ?thesis using assms(2) by (auto simp: controller_ending_def controller_close_finish_def Let_def)
qed (use assms(2) in simp)

lemma failure_is_marked:
  assumes "controller_step\<^sup>*\<^sup>* (c0, 0, NoClose) (c, n, p)" "ct_failureErr c0 = None" "ct_failureErr c = Some x"
  shows "errors_is x ErrControllerFailed"
proof -
  have "ct_failureErr c = Some x \<longrightarrow> errors_is x ErrControllerFailed"
    using assms(1)
  proof (induction rule: rtranclp_induct [where r = controller_step and a = "(c0, 0, NoClose)" and b = "(c, n, p)", split_format (complete)])
    case base
    then show ?case using assms(2) by simp
  next
    case (step c1 n1 p1 c2 n2 p2)
    then show ?case using failure_is_marked_step [OF step(2)] by blast
  qed
  then show ?thesis using assms(3) by blast
qed

text \<open>A refused call returns the refusal and touches nothing.\<close>

lemma refused:
  assumes "admit_operation c = Inl e"
  shows "HandleSample sha en context sample (Some c) w = Some ([], Some e, Some c, w)"
    "handleOwnedEvent sha en context decoded (Some c) w = Some ([], Some e, Some c, w)"
    "Controller_Tick sha orders context (Some c) w = Some ([], Some e, Some c, w)"
  using assms
  by (simp_all add: HandleSample_def handleOwnedEvent_def Controller_Tick_def serialized_def beginSerializedOperation_def)

lemma recover_refused:
  "admit_recovery c = Inl e \<Longrightarrow> Controller_Recover sha context (Some c) w = Some (zero_report, Some e, Some c, w)"
  by (simp add: Controller_Recover_def beginRecoveryOperation_def)

text \<open>
  C10. A controller that failed stays failed: once an execution or routing error is recorded, it is
  an \<open>ErrControllerFailed\<close>, and whatever concurrent callers and closers do afterwards, the engines
  and the checkpoint recovery keep their state, and every further sample, event, tick and recovery
  returns that first error, or \<open>ErrControllerClosed\<close> after a shutdown, without a call of the engine,
  the backend or the context. This includes calls that were admitted before the failure.
\<close>

theorem controller_failure_is_final:
  assumes "constructed_controller c0"
    and "controller_step\<^sup>*\<^sup>* (c0, 0, NoClose) (c, n, p)" and "ct_failureErr c = Some e"
    and "controller_step\<^sup>*\<^sup>* (c, n, p) (c', n', p')"
  shows "errors_is e ErrControllerFailed \<and> ct_dispatcher c' = ct_dispatcher c \<and> ct_recovery c' = ct_recovery c
    \<and> (\<exists>r \<in> {e, ErrVar ErrControllerClosed}.
        HandleSample sha en context sample (Some c') w = Some ([], Some r, Some c', w)
        \<and> handleOwnedEvent sha en context decoded (Some c') w = Some ([], Some r, Some c', w)
        \<and> Controller_Tick sha orders context (Some c') w = Some ([], Some r, Some c', w)
        \<and> Controller_Recover sha context (Some c') w = Some (zero_report, Some r, Some c', w))
    \<and> recheck_operation c' = Some e \<and> recheck_recovery c' = Some e"
proof -
  have marked: "errors_is e ErrControllerFailed"
    using failure_is_marked [OF assms(2) constructed_fresh(3) [OF assms(1)] assms(3)] .
  have f: "ct_failureErr c' = Some e" "ct_dispatcher c' = ct_dispatcher c" "ct_recovery c' = ct_recovery c"
    using failed_steps [OF assms(4,3)] by simp_all
  define r where "r = (if \<not> Controller_initialized c' \<or> ct_shutdown c' \<or> ct_closing c' \<or> ct_closed c'
    then ErrVar ErrControllerClosed else e)"
  have "admit_operation c' = Inl r" "admit_recovery c' = Inl r"
    using f(1) by (simp_all add: admit_operation_def admit_recovery_def r_def)
  then have ops: "HandleSample sha en context sample (Some c') w = Some ([], Some r, Some c', w)"
    "handleOwnedEvent sha en context decoded (Some c') w = Some ([], Some r, Some c', w)"
    "Controller_Tick sha orders context (Some c') w = Some ([], Some r, Some c', w)"
    "Controller_Recover sha context (Some c') w = Some (zero_report, Some r, Some c', w)"
    by (simp_all add: refused recover_refused)
  have r: "r \<in> {e, ErrVar ErrControllerClosed}" by (simp add: r_def)
  have "recheck_operation c' = Some e" "recheck_recovery c' = Some e"
    using f(1) by (simp_all add: recheck_operation_def recheck_recovery_def)
  then show ?thesis by (intro conjI bexI [OF _ r]) (rule marked f(2,3) ops | assumption)+
qed

text \<open>A capture of the sample flow, and a backend whose sends fail.\<close>

definition sample_decoded :: ownedDecodedEvent where
  "sample_decoded = \<lparr>od_Event = sample_need_event, od_Packet = sample_capture, od_Fingerprint = replicate 32 1\<rparr>"

definition steady_context :: "'x go_context" where
  "steady_context x = (None, x)"

definition failing_backend :: "ework ControllerBackend" where
  "failing_backend = \<lparr>bk_SendControl = (\<lambda>ctx flow wg p x. (Some (ErrExt 3), x)),
     bk_Reinject = (\<lambda>ctx flow d x. (None, x)), bk_Close = (\<lambda>x. (None, x))\<rparr>"

definition sample_controller :: "ework Controller" where
  "sample_controller = \<lparr>ct_dispatcher = Some (SingleEngine (Some (sample_caps, sample_engine))),
     ct_backend = Some failing_backend, ct_recovery = None, ct_inflightDone = True,
     ct_closeDone = True, ct_inflight = 0, ct_shutdown = False, ct_closing = False,
     ct_closed = False, ct_failureErr = None, ct_recoveryErr = None, ct_closeErr = None\<rparr>"

lemma sample_controller_new:
  "newController (Some (SingleEngine (Some (sample_caps, sample_engine)))) (Some failing_backend) = Inr sample_controller"
  by (simp add: newController_def dispatcher_nil_def sample_controller_def)

lemma sample_controller_constructed: "constructed_controller sample_controller"
  using sample_controller_new by (auto simp: constructed_controller_def)

abbreviation admitted_controller :: "ework Controller" where
  "admitted_controller \<equiv> sample_controller\<lparr>ct_inflight := 1\<rparr>"

definition sample_failing :: "ework op_result" where
  "sample_failing = handleOwnedDecodedEvent (\<lambda>_. replicate 32 1) LittleEndian steady_context sample_decoded
     admitted_controller sample_after_new"

abbreviation failed_controller :: "ework Controller" where
  "failed_controller \<equiv> fst (snd (snd (the sample_failing)))"

lemma sample_failing_runs:
  "sample_failing \<noteq> None" "ct_failureErr failed_controller \<noteq> None" "ct_shutdown failed_controller = False"
  by code_simp+

lemma sample_admits: "controller_admits sample_controller admitted_controller"
  by (simp add: controller_admits_def admit_operation_def Controller_initialized_def dispatcher_nil_def sample_controller_def)

lemma sample_fails: "controller_step\<^sup>*\<^sup>* (sample_controller, 0, NoClose) (failed_controller, 1, NoClose)"
proof -
  have "recheck_operation admitted_controller = None"
    by (simp add: recheck_operation_def Controller_initialized_def dispatcher_nil_def sample_controller_def)
  moreover obtain as r c w where "sample_failing = Some (as, r, c, w)"
    using sample_failing_runs(1) by (metis option.exhaust prod_cases4)
  ultimately have "controller_works admitted_controller failed_controller"
    unfolding controller_works_def sample_failing_def by auto
  then have "controller_step (admitted_controller, 1, NoClose) (failed_controller, 1, NoClose)"
    by (intro fence_step.working) simp_all
  moreover have "controller_step (sample_controller, 0, NoClose) (admitted_controller, 1, NoClose)"
    using fence_step.begins [where admit = controller_admits and n = 0, OF sample_admits] by simp
  ultimately show ?thesis by simp
qed

theorem controller_failure_is_final_witness:
  "\<exists>e. ct_failureErr failed_controller = Some e \<and> errors_is e ErrControllerFailed
     \<and> (\<exists>r \<in> {e, ErrVar ErrControllerClosed}.
       HandleSample id LittleEndian None [] (Some failed_controller) sample_after_new
         = Some ([], Some r, Some failed_controller, sample_after_new))"
proof -
  obtain e where e: "ct_failureErr failed_controller = Some e" using sample_failing_runs(2) by blast
  from controller_failure_is_final [OF sample_controller_constructed sample_fails e rtranclp.rtrancl_refl]
  show ?thesis using e by blast
qed

text \<open>
  C11. Shutdown of the controller is exclusive and final under concurrent callers, for a controller
  of any constructor, with or without a checkpoint recovery: whenever \<open>Close\<close> closes the backend, no
  event, tick or recovery is between its admission and its return, and from the first \<open>Close\<close> on
  none is admitted and every operation, \<open>Recover\<close> included, returns \<open>ErrControllerClosed\<close> and touches
  neither engine nor backend, also after a close that failed and may be tried again.
\<close>

theorem controller_close_fences:
  assumes "constructed_controller c0"
    and "controller_step\<^sup>*\<^sup>* (c0, 0, NoClose) (c, n, p)" and "controller_step\<^sup>*\<^sup>* (c, n, p) (c', n', p')"
  shows "(p = Releasing \<longrightarrow> n = 0 \<and> ct_inflight c = 0)
    \<and> (ct_shutdown c \<longrightarrow> n' \<le> n
        \<and> admit_operation c' = Inl (ErrVar ErrControllerClosed) \<and> admit_recovery c' = Inl (ErrVar ErrControllerClosed)
        \<and> HandleSample sha en context sample (Some c') w = Some ([], Some (ErrVar ErrControllerClosed), Some c', w)
        \<and> handleOwnedEvent sha en context decoded (Some c') w = Some ([], Some (ErrVar ErrControllerClosed), Some c', w)
        \<and> Controller_Tick sha orders context (Some c') w = Some ([], Some (ErrVar ErrControllerClosed), Some c', w)
        \<and> Controller_Recover sha context (Some c') w = Some (zero_report, Some (ErrVar ErrControllerClosed), Some c', w))"
proof -
  note c0 = constructed_fresh(1,2) [OF assms(1)]
  have "p = Releasing \<longrightarrow> n = 0 \<and> ct_inflight c = 0"
    using ct_fence.fence_inv [OF assms(2) c0] by (auto simp: unat_eq_0)
  moreover have "n' \<le> n \<and> ct_shutdown c'" if "ct_shutdown c"
    using ct_fence.shut_is_final [OF assms(2) c0 that assms(3)] by simp
  moreover have "admit_operation c' = Inl (ErrVar ErrControllerClosed)" "admit_recovery c' = Inl (ErrVar ErrControllerClosed)"
    if "ct_shutdown c'" using that by (simp_all add: admit_operation_def admit_recovery_def)
  ultimately show ?thesis by (simp add: refused recover_refused)
qed

text \<open>
  A recoverable controller over a store that is empty and accepts nothing. \<open>Close\<close> is called while
  its \<open>Recover\<close> is under way and closes the backend when that call has returned.
\<close>

definition empty_store :: "'x ActionCheckpointStore" where
  "empty_store = \<lparr>cs_Load = (\<lambda>x. (Inr None, x)), cs_Create = (\<lambda>c x. (Inl (ErrExt 1), x)),
     cs_Update = (\<lambda>n c x. (Inl (ErrExt 1), x)), cs_Delete = (\<lambda>n x. (Some (ErrExt 1), x)), cs_Transition = None\<rparr>"

definition recoverable_controller :: "ework Controller" where
  "recoverable_controller = sample_controller\<lparr>ct_recovery := Some
     \<lparr>ar_backend = failing_backend, ar_store = empty_store, ar_updateCheckpoint = bindActionCheckpointUpdate empty_store,
      ar_identity = Engine_Identity (Some sample_engine), ar_nextOperation = 1\<rparr>\<rparr>"

lemma recoverable_controller_constructed: "constructed_controller recoverable_controller"
proof -
  have "validateRuntimeIdentity (dispatcher_Identity (SingleEngine (Some (sample_caps, sample_engine)))) = None"
    by code_simp
  then have "NewRecoverableController id (Some (sample_caps, sample_engine)) (Some failing_backend) (Some empty_store) x
      = (Inr recoverable_controller, x)" for x
    by (simp add: NewRecoverableController_def sample_controller_new NewActionRecovery_def Recovery_Pending_def
        empty_store_def recoverable_controller_def sample_controller_def dispatcher_Identity_def
        del: validateRuntimeIdentity_None)
  then show ?thesis unfolding constructed_controller_def by blast
qed

definition recovering_controller :: "ework Controller" where
  "recovering_controller = recoverable_controller\<lparr>ct_inflight := 1, ct_shutdown := True, ct_closing := True\<rparr>"

definition drained_controller :: "ework Controller" where
  "drained_controller = recoverable_controller\<lparr>ct_shutdown := True, ct_closing := True\<rparr>"

lemma recovering_steps:
  "controller_step\<^sup>*\<^sup>* (recoverable_controller, 0, NoClose) (recovering_controller, 1, Draining)"
  "controller_step\<^sup>*\<^sup>* (recovering_controller, 1, Draining) (drained_controller, 0, Releasing)"
proof -
  let ?c = "recoverable_controller\<lparr>ct_inflight := 1\<rparr>"
  note defs = Controller_initialized_def dispatcher_nil_def recoverable_controller_def sample_controller_def
  have "controller_admits recoverable_controller ?c" by (simp add: controller_admits_def admit_recovery_def defs)
  then have "controller_step (recoverable_controller, 0, NoClose) (?c, 1, NoClose)"
    using fence_step.begins [where admit = controller_admits and n = 0] by fastforce
  moreover have "controller_start ?c = Some recovering_controller"
    by (simp add: controller_start_def controller_close_enter_def recovering_controller_def defs)
  then have "controller_step (?c, 1, NoClose) (recovering_controller, 1, Draining)" by (rule fence_step.closes)
  ultimately show "controller_step\<^sup>*\<^sup>* (recoverable_controller, 0, NoClose) (recovering_controller, 1, Draining)" by simp
  have "recheck_recovery recovering_controller = None"
    by (simp add: recheck_recovery_def recovering_controller_def defs)
  moreover have "recover_body id steady_context recovering_controller sample_after_new
      = Some (zero_report, None, recovering_controller, sample_after_new)"
    by (simp add: recover_body_def Recover_def Recovery_Pending_def steady_context_def empty_store_def
        clearRecoveryRequired_def recovering_controller_def defs)
  ultimately have "controller_works recovering_controller recovering_controller"
    unfolding controller_works_def by blast
  then have "controller_step (recovering_controller, 1, Draining) (recovering_controller, 1, Draining)"
    by (rule fence_step.working) simp
  moreover have "finishOperation recovering_controller = drained_controller"
    by (simp add: finishOperation_def recovering_controller_def drained_controller_def defs)
  then have "controller_step (recovering_controller, 1, Draining) (drained_controller, 0, Draining)"
    using fence_step.leaves [where leave = finishOperation and n = 1 and s = recovering_controller] by simp
  moreover have "ct_inflight drained_controller = 0" by (simp add: drained_controller_def defs)
  then have "controller_step (drained_controller, 0, Draining) (drained_controller, 0, Releasing)"
    by (rule fence_step.drained)
  ultimately show "controller_step\<^sup>*\<^sup>* (recovering_controller, 1, Draining) (drained_controller, 0, Releasing)"
    by (meson converse_rtranclp_into_rtranclp r_into_rtranclp)
qed

theorem controller_close_fences_witness:
  "controller_step\<^sup>*\<^sup>* (recoverable_controller, 0, NoClose) (recovering_controller, 1, Draining)
   \<and> controller_step\<^sup>*\<^sup>* (recovering_controller, 1, Draining) (drained_controller, 0, Releasing)
   \<and> ct_inflight drained_controller = 0
   \<and> Controller_Recover id None (Some recovering_controller) sample_after_new
       = Some (zero_report, Some (ErrVar ErrControllerClosed), Some recovering_controller, sample_after_new)
   \<and> Controller_Tick id (\<lambda>_. []) None (Some drained_controller) sample_after_new
       = Some ([], Some (ErrVar ErrControllerClosed), Some drained_controller, sample_after_new)"
proof -
  note fences = controller_close_fences [OF recoverable_controller_constructed]
  have shut: "ct_shutdown recovering_controller" by (simp add: recovering_controller_def)
  have all: "controller_step\<^sup>*\<^sup>* (recoverable_controller, 0, NoClose) (drained_controller, 0, Releasing)"
    using recovering_steps by simp
  have "ct_inflight drained_controller = 0" using fences [OF all rtranclp.rtrancl_refl] by blast
  moreover have "Controller_Recover id None (Some recovering_controller) sample_after_new
       = Some (zero_report, Some (ErrVar ErrControllerClosed), Some recovering_controller, sample_after_new)"
    using fences [OF recovering_steps(1) rtranclp.rtrancl_refl] shut by blast
  moreover have "Controller_Tick id (\<lambda>_. []) None (Some drained_controller) sample_after_new
       = Some ([], Some (ErrVar ErrControllerClosed), Some drained_controller, sample_after_new)"
    using fences [OF recovering_steps] shut by blast
  ultimately show ?thesis using recovering_steps by blast
qed

section \<open>Actions are performed in order\<close>

text \<open>The same backend and context, with every call of the backend noted in the order it is made.\<close>

definition noting_ctx :: "'x go_context \<Rightarrow> ('x \<times> backend_call list) go_context" where
  "noting_ctx ctx y = (case ctx (fst y) of (e, x) \<Rightarrow> (e, x, snd y))"

definition plain_ctx :: "backend_call list \<Rightarrow> ('x \<times> backend_call list) go_context \<Rightarrow> 'x go_context" where
  "plain_ctx calls ctx x = (case ctx (x, calls) of (e, y) \<Rightarrow> (e, fst y))"

definition noting :: "'x ControllerBackend \<Rightarrow> ('x \<times> backend_call list) ControllerBackend" where
  "noting b = \<lparr>
     bk_SendControl = (\<lambda>ctx flow wgID p y.
       case bk_SendControl b (plain_ctx (snd y) ctx) flow wgID p (fst y) of (e, x) \<Rightarrow> (e, x, snd y @ [Sends flow wgID p])),
     bk_Reinject = (\<lambda>ctx flow p y.
       case bk_Reinject b (plain_ctx (snd y) ctx) flow p (fst y) of (e, x) \<Rightarrow> (e, x, snd y @ [Reinjects flow p])),
     bk_Close = (\<lambda>y. case bk_Close b (fst y) of (e, x) \<Rightarrow> (e, x, snd y))\<rparr>"

lemma noting_simps [simp]:
  "noting_ctx ctx (x, l) = (case ctx x of (e, x') \<Rightarrow> (e, x', l))" "plain_ctx l (noting_ctx ctx) = ctx"
  by (auto simp: noting_ctx_def plain_ctx_def fun_eq_iff split: prod.splits)

lemma reinject_all_noted:
  assumes "reinject_all ctx b flow ps x = (errs, x')"
  shows "\<exists>calls. reinject_all (noting_ctx ctx) (noting b) flow ps (x, l) = (errs, x', l @ calls)
    \<and> prefix calls (map (Reinjects flow) ps) \<and> (errs = [] \<longrightarrow> calls = map (Reinjects flow) ps)"
  using assms
proof (induction ps arbitrary: x x' errs l)
  case (Cons p ps)
  obtain q x1 where c: "ctx x = (q, x1)" by fastforce
  show ?case
  proof (cases q)
    case (Some e)
    then show ?thesis using Cons.prems c by auto
  next
    case None
    obtain r x2 where rj: "bk_Reinject b ctx flow p x1 = (r, x2)" by fastforce
    obtain es x3 where rest: "reinject_all ctx b flow ps x2 = (es, x3)" by fastforce
    obtain calls where i: "reinject_all (noting_ctx ctx) (noting b) flow ps (x2, l @ [Reinjects flow p])
        = (es, x3, (l @ [Reinjects flow p]) @ calls)" "prefix calls (map (Reinjects flow) ps)"
      "es = [] \<longrightarrow> calls = map (Reinjects flow) ps"
      using Cons.IH [OF rest, of "l @ [Reinjects flow p]"] by blast
    have now: "bk_Reinject (noting b) (noting_ctx ctx) flow p (x1, l) = (r, x2, l @ [Reinjects flow p])"
      using rj by (simp add: noting_def)
    show ?thesis
      using Cons.prems c None rj rest i now
      by (intro exI [of _ "Reinjects flow p # calls"]) (auto split: option.splits)
  qed
qed simp

text \<open>\<open>noted\<close>: the observed run ends alike and has handed over a prefix, or without error all, of the calls.\<close>

definition noted :: "'x go_context \<Rightarrow> 'x ControllerBackend \<Rightarrow> Action list \<Rightarrow> 'x \<Rightarrow> backend_call list \<Rightarrow> err option \<Rightarrow> 'x \<Rightarrow> bool" where
  "noted ctx b actions x sent0 e x' \<longleftrightarrow>
     (\<exists>calls. perform_actions (noting_ctx ctx) (noting b) actions (x, sent0) = (e, x', sent0 @ calls)
       \<and> prefix calls (action_calls actions) \<and> (e = None \<longrightarrow> calls = action_calls actions))"

lemma noted_send:
  assumes rest: "\<And>x2 l. perform_actions ctx b actions x2 = (e, x') \<Longrightarrow> noted ctx b actions x2 l e x'"
    and run: "perform_actions ctx b (a # actions) x = (e, x')"
    and step: "ctx x = (None, x1)" "a_Kind a = ActionSendControl"
  shows "noted ctx b (a # actions) x sent0 e x'"
proof -
  let ?s = "Sends (a_Flow a) (a_WGID a) (a_Control a)"
  obtain r x2 where sc: "bk_SendControl b ctx (a_Flow a) (a_WGID a) (a_Control a) x1 = (r, x2)" by fastforce
  have now: "bk_SendControl (noting b) (noting_ctx ctx) (a_Flow a) (a_WGID a) (a_Control a) (x1, sent0) = (r, x2, sent0 @ [?s])"
    using sc by (simp add: noting_def)
  show ?thesis
  proof (cases r)
    case (Some err)
    then show ?thesis using run step sc now unfolding noted_def by (intro exI [of _ "[?s]"]) auto
  next
    case None
    then have "perform_actions ctx b actions x2 = (e, x')" using run step sc by simp
    from rest [OF this, of "sent0 @ [?s]", unfolded noted_def] obtain calls where
      "perform_actions (noting_ctx ctx) (noting b) actions (x2, sent0 @ [?s]) = (e, x', (sent0 @ [?s]) @ calls)"
      "prefix calls (action_calls actions)" "e = None \<longrightarrow> calls = action_calls actions" by blast
    then show ?thesis using step None now unfolding noted_def by (intro exI [of _ "?s # calls"]) simp
  qed
qed

lemma noted_release:
  assumes rest: "\<And>x2 l. perform_actions ctx b actions x2 = (e, x') \<Longrightarrow> noted ctx b actions x2 l e x'"
    and run: "perform_actions ctx b (a # actions) x = (e, x')"
    and step: "ctx x = (None, x1)" "a_Kind a = ActionReleasePending"
  shows "noted ctx b (a # actions) x sent0 e x'"
proof -
  let ?ps = "map (Reinjects (a_Flow a)) (a_Packets a)"
  obtain errs x2 where rj: "reinject_all ctx b (a_Flow a) (a_Packets a) x1 = (errs, x2)" by fastforce
  obtain sent where n: "reinject_all (noting_ctx ctx) (noting b) (a_Flow a) (a_Packets a) (x1, sent0) = (errs, x2, sent0 @ sent)"
    "prefix sent ?ps" "errs = [] \<longrightarrow> sent = ?ps" using reinject_all_noted [OF rj] by blast
  show ?thesis
  proof (cases "errs = []")
    case False
    then obtain j where j: "errors_join (map Some errs) = Some j" by (cases errs) (auto simp: errors_join_def)
    then have "e = Some j" "x' = x2" using run step rj by simp_all
    then show ?thesis using step n(1,2) j unfolding noted_def
      by (intro exI [of _ sent]) (auto intro: prefix_prefix)
  next
    case True
    then have "perform_actions ctx b actions x2 = (e, x')" using run step rj by simp
    from rest [OF this, of "sent0 @ ?ps", unfolded noted_def] obtain calls where
      "perform_actions (noting_ctx ctx) (noting b) actions (x2, sent0 @ ?ps) = (e, x', (sent0 @ ?ps) @ calls)"
      "prefix calls (action_calls actions)" "e = None \<longrightarrow> calls = action_calls actions" by blast
    then show ?thesis using step n True unfolding noted_def by (intro exI [of _ "?ps @ calls"]) simp
  qed
qed

lemma actions_noted: "perform_actions ctx b actions x = (e, x') \<Longrightarrow> noted ctx b actions x sent0 e x'"
proof (induction actions arbitrary: x e sent0)
  case (Cons a actions)
  obtain q x1 where c: "ctx x = (q, x1)" by fastforce
  show ?case
  proof (cases q)
    case None
    with c have c: "ctx x = (None, x1)" by simp
    show ?thesis
      using noted_send [OF Cons.IH Cons.prems c] noted_release [OF Cons.IH Cons.prems c]
        Cons.IH [of x1 e sent0] Cons.prems c
      by (cases "a_Kind a") (simp_all add: noted_def)
  qed (use Cons.prems c in \<open>auto simp: noted_def\<close>)
qed (simp add: noted_def)

text \<open>
  C16. Side effects happen in order and at most once: without a checkpoint store the controller hands
  the sends and the captured packets of its actions to the backend as a prefix of the sequence in
  which the actions list them, and as the whole sequence exactly if it reports no error; what the
  backend and the context do and return does not depend on being observed.
\<close>

theorem actions_performed_in_order:
  assumes "perform_actions ctx b actions x = (e, x')"
  shows "\<exists>calls. perform_actions (noting_ctx ctx) (noting b) actions (x, sent0) = (e, x', sent0 @ calls)
    \<and> prefix calls (action_calls actions) \<and> (e = None \<longrightarrow> calls = action_calls actions)"
  using actions_noted [OF assms] unfolding noted_def .

definition sample_actions :: "Action list" where
  "sample_actions = [(plain_action ActionSendControl sample_key ''established'')\<lparr>a_WGID := k_WGID sample_key, a_Control := sample_syn\<rparr>,
     (plain_action ActionReleasePending sample_key ''established'')\<lparr>a_Packets := [sample_datagram 1, sample_datagram 2]\<rparr>]"

theorem actions_performed_in_order_witness:
  "perform_actions (noting_ctx live_context) (noting recording_backend) sample_actions (sample_rwork [False, True], [])
     = (fst (perform_actions live_context recording_backend sample_actions (sample_rwork [False, True])),
        snd (perform_actions live_context recording_backend sample_actions (sample_rwork [False, True])),
        action_calls sample_actions)"
proof -
  have "perform_actions live_context recording_backend sample_actions (sample_rwork [False, True])
    = (fst (perform_actions live_context recording_backend sample_actions (sample_rwork [False, True])),
       snd (perform_actions live_context recording_backend sample_actions (sample_rwork [False, True])))" by simp
  from actions_performed_in_order [OF this, of "[]"] obtain calls where
    c: "perform_actions (noting_ctx live_context) (noting recording_backend) sample_actions (sample_rwork [False, True], [])
     = (fst (perform_actions live_context recording_backend sample_actions (sample_rwork [False, True])),
        snd (perform_actions live_context recording_backend sample_actions (sample_rwork [False, True])), calls)" by auto
  moreover have "snd (snd (perform_actions (noting_ctx live_context) (noting recording_backend) sample_actions
      (sample_rwork [False, True], []))) = action_calls sample_actions"
    by (simp add: sample_actions_def plain_action_def live_context_def recording_backend_def noting_def next_fault_def
        sample_rwork_def plain_ctx_def noting_ctx_def errors_join_def split: prod.splits)
  ultimately show ?thesis by simp
qed

end
