(* ===== verification/Engine_Routed.thy ===== *)
theory Engine_Routed
  imports Engine_Router
begin

text \<open>
  What an engine does stays on the routes it was called for: its sessions, queued packets and
  actions belong to admitted flows and carry the WGID and the mark of their flow. From this the
  router's fence on actions, \<open>validateActions\<close>, never rejects an engine that is driven through the
  router.
\<close>

section \<open>Routed sessions and actions\<close>

text \<open>\<open>fok\<close> are the admitted flows and \<open>mark\<close> is the firewall mark of a flow.\<close>

definition session_routed ::
  "(FakeTCPSessionKey \<Rightarrow> bool) \<Rightarrow> (FakeTCPSessionKey \<Rightarrow> u32) \<Rightarrow> FakeTCPSessionKey \<Rightarrow> session \<Rightarrow> bool" where
  "session_routed fok mark flow s \<longleftrightarrow> fok flow \<and> s_wgID s = k_WGID flow
     \<and> list_all (\<lambda>p. pp_WGID p = k_WGID flow \<and> pp_FWMark p = mark flow) (s_pending s)"

definition engine_routed :: "(FakeTCPSessionKey \<Rightarrow> bool) \<Rightarrow> (FakeTCPSessionKey \<Rightarrow> u32) \<Rightarrow> Engine \<Rightarrow> bool" where
  "engine_routed fok mark e \<longleftrightarrow> (\<forall>flow s. m_get (e_sessions e) flow = Some s \<longrightarrow> session_routed fok mark flow s)"

definition action_routed :: "(FakeTCPSessionKey \<Rightarrow> bool) \<Rightarrow> (FakeTCPSessionKey \<Rightarrow> u32) \<Rightarrow> Action \<Rightarrow> bool" where
  "action_routed fok mark a \<longleftrightarrow> fok (a_Flow a)
     \<and> (a_Kind a \<in> {ActionSendControl, ActionReleasePending} \<longrightarrow> a_WGID a = k_WGID (a_Flow a))
     \<and> (a_Kind a = ActionReleasePending \<longrightarrow> a_Packets a \<noteq> []
          \<and> list_all (\<lambda>p. pp_WGID p = k_WGID (a_Flow a) \<and> pp_FWMark p = mark (a_Flow a)) (a_Packets a))"

definition routed :: "(FakeTCPSessionKey \<Rightarrow> bool) \<Rightarrow> (FakeTCPSessionKey \<Rightarrow> u32) \<Rightarrow> 'x step_result \<Rightarrow> bool" where
  "routed fok mark r \<longleftrightarrow> (case r of (as, err, e, w) \<Rightarrow> list_all (action_routed fok mark) as \<and> engine_routed fok mark e)"

lemma routed_simps [simp]:
  "routed fok mark (as, err, e, w) \<longleftrightarrow> list_all (action_routed fok mark) as \<and> engine_routed fok mark e"
  "routed fok mark (as, err, p) \<longleftrightarrow> list_all (action_routed fok mark) as \<and> engine_routed fok mark (fst p)"
  by (simp_all add: routed_def split_beta)

lemma engine_routedD: "engine_routed fok mark e \<Longrightarrow> m_get (e_sessions e) flow = Some s \<Longrightarrow> session_routed fok mark flow s"
  by (auto simp: engine_routed_def)

lemma engine_routed_cong: "e_sessions e' = e_sessions e \<Longrightarrow> engine_routed fok mark e' = engine_routed fok mark e"
  by (simp add: engine_routed_def)

lemma engine_routed_store [intro]:
  "engine_routed fok mark e \<Longrightarrow> session_routed fok mark flow s \<Longrightarrow> engine_routed fok mark (store_session flow s e)"
  by (auto simp: engine_routed_def store_session_def split: if_splits)

lemma engine_routed_del: "engine_routed fok mark e \<Longrightarrow> engine_routed fok mark (e\<lparr>e_sessions := m_del flow (e_sessions e)\<rparr>)"
  by (auto simp: engine_routed_def split: if_splits)

lemma action_routed_simps [simp]:
  "fok flow \<Longrightarrow> action_routed fok mark (drop_action flow reason)"
  "fok flow \<Longrightarrow> action_routed fok mark (close_action flow reason)"
  "fok flow \<Longrightarrow> action_routed fok mark (plain_action ActionForward flow reason)"
  "session_routed fok mark flow s \<Longrightarrow> action_routed fok mark (control flow e s flags sq ack reason)"
  "session_routed fok mark flow s \<Longrightarrow> action_routed fok mark (controlEstablished flow e s v flags sq ack reason)"
  by (auto simp: action_routed_def plain_action_def control_def controlEstablished_def session_routed_def Let_def)

lemma session_routed_flow: "session_routed fok mark flow s \<Longrightarrow> fok flow"
  by (simp add: session_routed_def)

lemma session_routed_sets:
  "session_routed fok mark flow s \<Longrightarrow> s_wgID s' = s_wgID s \<Longrightarrow> s_pending s' = s_pending s \<Longrightarrow> session_routed fok mark flow s'"
  by (simp add: session_routed_def)

section \<open>The helpers of the engine\<close>

lemma release_half_routed:
  assumes "releaseHalfOpen c e s w = (e', s', w')"
  shows "e_sessions e' = e_sessions e" "s_wgID s' = s_wgID s" "s_pending s' = s_pending s"
  using assms by (auto simp: releaseHalfOpen_def Let_def touchSYNSource_def update_source_def
      split: if_splits option.splits prod.splits)

lemma remove_routed: "remove c flow e s w = (e', w') \<Longrightarrow> engine_routed fok mark e \<Longrightarrow> engine_routed fok mark e'"
proof -
  assume run: "remove c flow e s w = (e', w')" and ok: "engine_routed fok mark e"
  obtain e1 s1 w1 where rel: "releaseHalfOpen c e s w = (e1, s1, w1)" by (metis prod_cases3)
  have "e_sessions e' = m_del flow (e_sessions e)"
    using run rel release_half_routed(1) [OF rel] by (auto simp: remove_def Let_def)
  then show ?thesis using engine_routed_del [OF ok, of flow] by (simp add: engine_routed_def)
qed

lemma remove_routed_fst [simp]: "engine_routed fok mark e \<Longrightarrow> engine_routed fok mark (fst (remove c flow e s w))"
  using remove_routed by (metis prod.collapse)

lemma lookup_routed:
  assumes "lookupEstablished c e flow s w = (r, s', w')" "session_routed fok mark flow s"
  shows "session_routed fok mark flow s'"
proof -
  obtain tx rx where "s' = s\<lparr>s_txSequence := tx, s_rxSequence := rx\<rparr>"
    using lookupEstablished_frame(1) [OF assms(1)] by blast
  then show ?thesis using assms(2) by (simp add: session_routed_def)
qed

lemma compareDelete_routed:
  "compareDeleteEstablished c flow s request w = (r, s', w') \<Longrightarrow> session_routed fok mark flow s
     \<Longrightarrow> session_routed fok mark flow s'"
  by (auto simp: compareDeleteEstablished_def session_routed_def split: sum.splits if_splits prod.splits)

lemma retry_routed:
  assumes "retryPendingDelete c flow e s request w = (a, r, e', w')" "engine_routed fok mark e"
    "session_routed fok mark flow s"
  shows "action_routed fok mark a \<and> engine_routed fok mark e'"
  using assms session_routed_flow [OF assms(3)]
  by (auto simp: retryPendingDelete_def split: sum.splits if_splits prod.splits
      dest: compareDelete_routed remove_routed)

lemma enqueue_routed:
  assumes "enqueue e s packet = (q, e', s')" "session_routed fok mark flow s"
    "pp_WGID packet = k_WGID flow" "pp_FWMark packet = mark flow"
  shows "session_routed fok mark flow s'" "e_sessions e' = e_sessions e"
  using assms by (auto simp: enqueue_def session_routed_def ownPendingPacket_def Let_def split: if_splits)

lemma release_routed:
  assumes "release flow e s = (as, e', s')" "session_routed fok mark flow s"
  shows "list_all (action_routed fok mark) as" "session_routed fok mark flow s'" "e_sessions e' = e_sessions e"
  using assms by (auto simp: release_def session_routed_def action_routed_def plain_action_def split: if_splits)

lemma establish_routed:
  assumes run: "establish c e flow saved s as w = (as', r, e', w')" and e: "engine_routed fok mark e"
    and s: "session_routed fok mark flow s" "list_all (action_routed fok mark) as"
    and saved: "\<And>s0. ck_session saved = Some s0 \<Longrightarrow> session_routed fok mark flow s0"
  shows "list_all (action_routed fok mark) as' \<and> engine_routed fok mark e'"
proof -
  note fok = session_routed_flow [OF s(1)]
  obtain q s1 w1 where ins: "insertEstablished c e flow s w = (q, s1, w1)" by (metis prod_cases3)
  obtain i where s1: "s1 = s\<lparr>s_sessionID := i\<rparr>" using insertEstablished_keeps(1) [OF ins] by blast
  obtain e1 s2 w2 where rel: "releaseHalfOpen c e s1 w1 = (e1, s2, w2)" by (metis prod_cases3)
  note rr = release_half_routed [OF rel]
  have "session_routed fok mark flow s2" using s(1) rr s1 by (simp add: session_routed_def)
  moreover have "engine_routed fok mark e1" using e rr(1) engine_routed_cong by blast
  moreover have "engine_routed fok mark (restore flow saved e)"
    using e saved by (cases "ck_session saved")
      (auto simp: restore_def Let_def engine_routed_def store_session_def split: if_splits)
  ultimately show ?thesis using run ins rel s fok
    by (cases q) (auto simp: establish_def)
qed

section \<open>Every operation stays on its route\<close>

lemma outbound_routed:
  assumes e: "engine_routed fok mark e" and flow: "fok flow" "pp_FWMark packet = mark flow"
  shows "routed fok mark (outbound c e flow packet dropped w)"
proof (cases "validateFlow e flow \<noteq> None \<or> pp_WGID packet \<noteq> k_WGID flow")
  case True
  then show ?thesis using e flow by (auto simp: outbound_def split: option.splits)
next
  case False
  then have v: "validateFlow e flow = None" "pp_WGID packet = k_WGID flow" by auto
  obtain now w1 where clock: "ext_call (cap_Now c) w = (now, w1)" by fastforce
  note unf = outbound_def v clock Let_def
  show ?thesis
  proof (cases "m_get (e_sessions e) flow")
    case None
    obtain isn w2 where isn: "ext_call (cap_InitialSequence c) w1 = (isn, w2)" by fastforce
    let ?s = "zero_session\<lparr>s_state := FakeTCPStateSynSent, s_wgID := k_WGID flow, s_localISN := isn,
      s_txSequence := isn + 1, s_lastActivity := now, s_nextRetry := now + o_HandshakeTimeout (e_opts e),
      s_retries := 1, s_halfOpenHeld := True\<rparr>"
    obtain q e2 s1 where enq: "enqueue (e\<lparr>e_halfOpen := e_halfOpen e + 1\<rparr>) ?s packet = (q, e2, s1)"
      by (metis prod_cases3)
    have "session_routed fok mark flow ?s" using flow by (simp add: session_routed_def zero_session_def)
    note s1 = enqueue_routed [OF enq this v(2) flow(2)]
    have "engine_routed fok mark e2" using e s1(2) by (simp add: engine_routed_def)
    then show ?thesis using None isn enq s1 flow e by (auto simp: unf)
  next
    case (Some s)
    note s = engine_routedD [OF e Some]
    then have wg: "s_wgID s = k_WGID flow" by (simp add: session_routed_def)
    have nz: "s_wgID s \<noteq> 0" using wg v(1) by (auto simp: validateFlow_def split: if_splits)
    show ?thesis
    proof (cases "s_state s = FakeTCPStateEstablished")
      case False
      obtain q e1 s1 where enq: "enqueue e s packet = (q, e1, s1)" by (metis prod_cases3)
      note s1 = enqueue_routed [OF enq s v(2) flow(2)]
      have "engine_routed fok mark e1" using e s1(2) by (simp add: engine_routed_def)
      then show ?thesis using Some False enq s1 flow e nz wg by (auto simp: unf)
    next
      case est: True
      show ?thesis
      proof (cases "s_pendingDelete s")
        case (Some request)
        then show ?thesis using \<open>m_get (e_sessions e) flow = Some s\<close> est e s
          by (auto simp: unf split: prod.splits dest: retry_routed)
      next
        case None
        obtain r s2 w2 where look: "lookupEstablished c e flow s w1 = (r, s2, w2)" by (metis prod_cases3)
        note s2 = lookup_routed [OF look s]
        have rel: "action_routed fok mark ((plain_action ActionReleasePending flow [])
            \<lparr>a_WGID := s_wgID s2, a_Packets := [ownPendingPacket packet]\<rparr>)"
          using s2 flow v(2) by (simp add: action_routed_def plain_action_def session_routed_def ownPendingPacket_def)
        have s3: "session_routed fok mark flow (s2\<lparr>s_nextKeepalive := k\<rparr>)" for k
          using s2 by (simp add: session_routed_def)
        show ?thesis using Some est None look nz wg s2 s3 rel flow e
          by (auto simp: unf split: sum.splits option.splits prod.splits dest: remove_routed)
      qed
    qed
  qed
qed

lemma observe_sessions:
  assumes "observeSYN flow now e = (r, e')"
  shows "e_sessions e' = e_sessions e"
proof -
  have prune: "e_sessions (pruneExpiredSYNSources now n e) = e_sessions e" for n e
    by (induction now n e rule: pruneExpiredSYNSources.induct)
      (auto simp: Let_def touchSYNSource_def update_source_def split: option.splits)
  have "e_sessions e2 = e_sessions e1" if "lookupOrCreateSYNSource k now e1 = (q, e2)" for k e1 e2 q
    using that prune [of synSourcePruneBudget e1]
    by (auto simp: lookupOrCreateSYNSource_def Let_def touchSYNSource_def update_source_def split: option.splits if_splits)
  then show ?thesis using assms
    by (fastforce simp: observeSYN_def Let_def update_source_def split: if_splits prod.splits sum.splits option.splits)
qed

lemma reserve_sessions: "reserveInboundHalfOpen k e = (r, e') \<Longrightarrow> e_sessions e' = e_sessions e"
  by (auto simp: reserveInboundHalfOpen_def update_source_def split: if_splits option.splits)

lemma inbound_new_routed:
  assumes e: "engine_routed fok mark e" and flow: "fok flow" "wgID = k_WGID flow"
  shows "routed fok mark (inbound_new c e flow seg wgID now src w)"
proof -
  obtain rej e1 where res: "reserveInboundHalfOpen src e = (rej, e1)" by fastforce
  have e1: "engine_routed fok mark e1" using e reserve_sessions [OF res] by (simp add: engine_routed_def)
  obtain isn w1 where isn: "ext_call (cap_InitialSequence c) w = (isn, w1)" by fastforce
  have "session_routed fok mark flow (zero_session\<lparr>s_state := FakeTCPStateSynReceived, s_wgID := wgID, s_localISN := isn,
      s_remoteISN := sg_Sequence seg, s_txSequence := isn + 1, s_rxSequence := sg_Sequence seg + 1, s_lastActivity := now,
      s_nextRetry := now + o_HandshakeTimeout (e_opts e1), s_retries := 1, s_halfOpenHeld := True, s_synSource := src\<rparr>)"
    using flow by (simp add: session_routed_def zero_session_def)
  then show ?thesis using e e1 res isn flow by (auto simp: inbound_new_def Let_def)
qed

lemma inbound_known_routed:
  assumes e: "engine_routed fok mark e" and s0: "session_routed fok mark flow s0" and wgID: "wgID = k_WGID flow" "wgID \<noteq> 0"
    and saved: "ck_session saved = Some s0"
  shows "routed fok mark (inbound_known c e flow seg wgID now saved s0 w)"
proof -
  let ?s = "s0\<lparr>s_lastActivity := now, s_nextKeepalive := now + o_KeepaliveInterval (e_opts e)\<rparr>"
  note flow = session_routed_flow [OF s0]
  have set0: "(if s_wgID s0 = 0 then s0\<lparr>s_wgID := wgID\<rparr> else s0) = s0" using s0 wgID by (simp add: session_routed_def)
  have upd: "session_routed fok mark flow (s0\<lparr>s_lastActivity := a, s_nextKeepalive := b\<rparr>)"
    "session_routed fok mark flow (s0\<lparr>s_lastActivity := a, s_nextKeepalive := b, s_state := st\<rparr>)"
    "session_routed fok mark flow (s0\<lparr>s_lastActivity := a, s_nextKeepalive := b, s_remoteISN := ri, s_rxSequence := rx, s_state := st\<rparr>)"
    for a b st ri rx
    using s0 by (simp_all add: session_routed_def)
  have est: "routed fok mark (establish c e1 flow saved s3 acts w)"
    if "release flow e s2 = (released, e1, s3)" "session_routed fok mark flow s2"
      "list_all (action_routed fok mark) ack" "acts = ack @ released" for e1 s2 s3 released ack acts
  proof -
    note r = release_routed [OF that(1,2)]
    have "engine_routed fok mark e1" using e r(3) by (simp add: engine_routed_def)
    then show ?thesis
      using establish_routed [of c e1 flow saved s3 acts w _ _ _ _ fok mark] r that(3,4) saved s0
      by (cases "establish c e1 flow saved s3 acts w") auto
  qed
  obtain r s2 w1 where look: "lookupEstablished c e flow ?s w = (r, s2, w1)" by (metis prod_cases3)
  note s2 = lookup_routed [OF look upd(1)]
  have undone: "engine_routed fok mark (restore flow saved (store_session flow s2 e))"
    using e s0 saved by (auto simp: restore_def Let_def engine_routed_def store_session_def split: if_splits)
  note unf = inbound_known_def Let_def set0
  consider "s_state s0 = FakeTCPStateSynSent" | "s_state s0 = FakeTCPStateSynReceived"
    | "s_state s0 = FakeTCPStateEstablished" | "s_state s0 \<notin> {FakeTCPStateSynSent, FakeTCPStateSynReceived, FakeTCPStateEstablished}"
    by blast
  then show ?thesis
  proof cases
    case 1
    then show ?thesis using e upd flow
      by (auto simp: unf state_defs split: prod.splits intro!: est simp del: routed_simps) (auto simp: state_defs)
  next
    case 2
    then show ?thesis using e upd flow by (auto simp: unf state_defs split: prod.splits intro!: est)
  next
    case 3
    then show ?thesis using e upd flow look s2 undone
      by (auto simp: unf state_defs split: prod.splits sum.splits option.splits dest: remove_routed)
  next
    case 4
    then show ?thesis using e upd flow by (auto simp: unf)
  qed
qed

lemma inbound_routed:
  assumes e: "engine_routed fok mark e" and flow: "fok flow"
  shows "routed fok mark (inbound c e flow seg wgID w)"
proof (cases "validateFlow e flow \<noteq> None \<or> wgID \<noteq> k_WGID flow")
  case True
  then show ?thesis using e flow by (auto simp: inbound_def split: option.splits)
next
  case False
  then have v: "validateFlow e flow = None" "wgID = k_WGID flow" by auto
  then have nz: "wgID \<noteq> 0" by (auto simp: validateFlow_def split: if_splits)
  obtain now w1 where clock: "ext_call (cap_Now c) w = (now, w1)" by fastforce
  obtain obs e1 where syn: "(if sg_Flags seg = FlagSYN then observeSYN flow now e else (Inr zero_source, e)) = (obs, e1)"
    by fastforce
  have same: "e_sessions e1 = e_sessions e" using syn observe_sessions by (auto split: if_splits)
  then have e1: "engine_routed fok mark e1" using e by (simp add: engine_routed_def)
  note unf = inbound_def v(1) clock Let_def syn
  show ?thesis
  proof (cases "m_get (e_sessions e) flow")
    case None
    then show ?thesis using e1 flow inbound_new_routed [OF e1 flow v(2)] False
      by (auto simp: unf split: sum.splits)
  next
    case (Some s)
    note s = engine_routedD [OF e Some]
    have known: "routed fok mark (inbound_known c e1 flow seg wgID now (checkpoint e (Some s)) s w1)"
      by (rule inbound_known_routed [OF e1 s v(2) nz]) (simp add: checkpoint_def)
    show ?thesis
    proof (cases "s_pendingDelete s")
      case (Some request)
      then show ?thesis using \<open>m_get (e_sessions e) flow = Some s\<close> e s False
        by (auto simp: unf split: prod.splits dest: retry_routed)
    next
      case None
      then show ?thesis using Some e1 flow known False s by (auto simp: unf split: sum.splits)
    qed
  qed
qed

lemma captured_packet_routed:
  assumes "engine_routed fok mark e" "fok (ev_Key event)" "ev_FWMark event = mark (ev_Key event)"
  shows "routed fok mark (handleOwnedCapturedPacket c e event packet fingerprint w)"
  using assms by (auto simp: handleOwnedCapturedPacket_def Let_def split: option.splits intro!: outbound_routed)

lemma captured_control_routed:
  assumes e: "engine_routed fok mark e" and flow: "fok (ev_Key event)"
  shows "routed fok mark (InboundCapturedControl en c e event packet w)"
proof (cases "m_get (e_sessions e) (ev_Key event)")
  case None
  then show ?thesis using e flow by (auto simp: InboundCapturedControl_def Let_def split: option.splits)
next
  case (Some s)
  note s = engine_routedD [OF e Some]
  show ?thesis
  proof (cases "s_pendingDelete s")
    case (Some request)
    then show ?thesis using \<open>m_get (e_sessions e) (ev_Key event) = Some s\<close> e s flow
      by (auto simp: InboundCapturedControl_def Let_def split: option.splits prod.splits dest: retry_routed)
  next
    case None
    obtain r s1 w1 where look: "lookupEstablished c e (ev_Key event) s w = (r, s1, w1)" by (metis prod_cases3)
    note s1 = lookup_routed [OF look s]
    then show ?thesis using Some None e s flow look
      by (auto simp: InboundCapturedControl_def Let_def split: option.splits prod.splits sum.splits
          dest: compareDelete_routed)
  qed
qed

lemma tick_one_routed:
  assumes e: "engine_routed fok mark e" and s: "session_routed fok mark flow s"
    and run: "tick_one c now nowMonotonic flow s e w = (as, errs, e', w')"
  shows "list_all (action_routed fok mark) as \<and> engine_routed fok mark e'"
proof -
  note flow = session_routed_flow [OF s]
  consider (half) "s_state s = FakeTCPStateSynSent \<or> s_state s = FakeTCPStateSynReceived"
    | (est) "s_state s = FakeTCPStateEstablished"
    | (other) "s_state s \<notin> {FakeTCPStateSynSent, FakeTCPStateSynReceived, FakeTCPStateEstablished}" by blast
  then show ?thesis
  proof cases
    case half
    have "session_routed fok mark flow (s\<lparr>s_retries := a, s_nextRetry := b\<rparr>)" for a b
      using s by (simp add: session_routed_def)
    then show ?thesis using half run e flow
      by (auto simp: tick_one_def Let_def split: if_splits prod.splits dest: remove_routed)
  next
    case est
    then have st: "s_state s \<noteq> FakeTCPStateSynSent" "s_state s \<noteq> FakeTCPStateSynReceived" by (simp_all add: state_defs)
    show ?thesis
    proof (cases "s_pendingDelete s")
      case (Some request)
      then show ?thesis using run est st e s by (auto simp: tick_one_def split: prod.splits option.splits dest: retry_routed)
    next
      case None
      obtain r s1 w1 where look: "lookupEstablished c e flow s w = (r, s1, w1)" by (metis prod_cases3)
      note s1 = lookup_routed [OF look s]
      have "session_routed fok mark flow (s1\<lparr>s_nextKeepalive := a\<rparr>)" for a using s1 by (simp add: session_routed_def)
      then show ?thesis using run est st None e s1 flow look
        by (auto simp: tick_one_def Let_def split: if_splits prod.splits sum.splits option.splits
            dest: remove_routed compareDelete_routed)
    qed
  next
    case other
    then show ?thesis using run e by (auto simp: tick_one_def)
  qed
qed

lemma tick_loop_routed:
  "engine_routed fok mark e \<Longrightarrow> tick_loop c now nowMonotonic order e w = (as, errs, e', w') \<Longrightarrow>
     list_all (action_routed fok mark) as \<and> engine_routed fok mark e'"
proof (induction c now nowMonotonic order e w arbitrary: as errs e' w' rule: tick_loop.induct)
  case (2 c now nowMonotonic flow flows e w)
  show ?case
  proof (cases "m_get (e_sessions e) flow")
    case None
    then show ?thesis using 2 by auto
  next
    case (Some s)
    obtain as1 errs1 e1 w1 where one: "tick_one c now nowMonotonic flow s e w = (as1, errs1, e1, w1)" by (metis prod_cases4)
    obtain as2 errs2 e2 w2 where rest: "tick_loop c now nowMonotonic flows e1 w1 = (as2, errs2, e2, w2)" by (metis prod_cases4)
    note o = tick_one_routed [OF "2.prems"(1) engine_routedD [OF "2.prems"(1) Some] one]
    have "list_all (action_routed fok mark) as2 \<and> engine_routed fok mark e2"
      using "2.IH"(2) [OF Some one [symmetric] refl refl] o rest by blast
    then show ?thesis using o "2.prems"(2) Some one rest by auto
  qed
qed simp

lemma Tick_routed:
  assumes "engine_routed fok mark e"
  shows "routed fok mark (Tick c order e w)"
proof -
  obtain now w1 where clock: "ext_call (cap_Now c) w = (now, w1)" by fastforce
  obtain q w2 where nanos: "ext_call (cap_NowNanos c) w1 = (q, w2)" by fastforce
  show ?thesis
  proof (cases q)
    case (Inl err)
    then show ?thesis using assms clock nanos by (simp add: Tick_def)
  next
    case (Inr nm)
    obtain as errs e1 w3 where "tick_loop c now nm order e w2 = (as, errs, e1, w3)" by (metis prod_cases4)
    then show ?thesis using assms clock nanos Inr tick_loop_routed by (fastforce simp: Tick_def)
  qed
qed

lemma fresh_routed: "e_sessions e = [] \<Longrightarrow> engine_routed fok mark e"
  by (simp add: engine_routed_def)

section \<open>The dispatch table\<close>

definition router_flows :: "'x EngineRouter \<Rightarrow> u32 \<Rightarrow> FakeTCPSessionKey \<Rightarrow> bool" where
  "router_flows r wgID flow \<longleftrightarrow> (\<exists>t. m_get (er_routes r) (flow_route flow) = Some t \<and> tg_wgID t = wgID)"

definition router_mark :: "'x EngineRouter \<Rightarrow> FakeTCPSessionKey \<Rightarrow> u32" where
  "router_mark r flow = (case m_get (er_routes r) (flow_route flow) of None \<Rightarrow> 0 | Some t \<Rightarrow> tg_fwmark t)"

text \<open>
  The table of a router: every route leads to the engine of its own WGID, in the generation of the
  domain, with a mark that is the same for all routes of the WGID, and the tick order is exactly
  the engines in ascending order.
\<close>

definition table_ok :: "RuntimeIdentity \<Rightarrow> u32 set \<Rightarrow> (engineRouteKey, engineRouteTarget) gomap \<Rightarrow> bool" where
  "table_ok identity owners routes \<longleftrightarrow> m_wf routes \<and> routes \<noteq> []
     \<and> (\<forall>k t. m_get routes k = Some t \<longrightarrow>
          tg_wgID t = rk_wgID k \<and> rk_generation k = rt_Generation identity
          \<and> rk_wgID k \<noteq> 0 \<and> rk_underlayIndex k \<noteq> 0 \<and> rk_localPort k \<noteq> 0 \<and> tg_fwmark t \<noteq> 0 \<and> tg_wgID t \<in> owners)
     \<and> (\<forall>k t k' t'. m_get routes k = Some t \<longrightarrow> m_get routes k' = Some t' \<longrightarrow>
          tg_wgID t = tg_wgID t' \<longrightarrow> tg_fwmark t = tg_fwmark t')
     \<and> (\<forall>wgID \<in> owners. \<exists>k t. m_get routes k = Some t \<and> tg_wgID t = wgID)"

definition router_ok :: "'x EngineRouter \<Rightarrow> bool" where
  "router_ok r \<longleftrightarrow> m_wf (er_engines r) \<and> er_engines r \<noteq> []
     \<and> sorted (er_wgIDs r) \<and> distinct (er_wgIDs r) \<and> set (er_wgIDs r) = set (m_keys (er_engines r))
     \<and> table_ok (er_identity r) (set (m_keys (er_engines r))) (er_routes r)"

definition engines_routed :: "'x EngineRouter \<Rightarrow> bool" where
  "engines_routed r \<longleftrightarrow> (\<forall>wgID c e. m_get (er_engines r) wgID = Some (c, e) \<longrightarrow>
     engine_routed (router_flows r wgID) (router_mark r) e)"

lemma router_okD:
  assumes "router_ok r"
  shows "m_get (er_routes r) k = Some t \<Longrightarrow> tg_wgID t = rk_wgID k"
    "m_get (er_routes r) k = Some t \<Longrightarrow> m_get (er_engines r) (tg_wgID t) \<noteq> None"
    "wgID \<in> set (er_wgIDs r) \<Longrightarrow> m_get (er_engines r) wgID \<noteq> None"
    "er_engines r \<noteq> []" "er_routes r \<noteq> []" "er_wgIDs r \<noteq> []"
proof -
  have table: "table_ok (er_identity r) (set (m_keys (er_engines r))) (er_routes r)"
    and ids: "set (er_wgIDs r) = set (m_keys (er_engines r))" and ne: "er_engines r \<noteq> []"
    using assms by (simp_all add: router_ok_def)
  show "m_get (er_routes r) k = Some t \<Longrightarrow> tg_wgID t = rk_wgID k" "er_routes r \<noteq> []"
    "m_get (er_routes r) k = Some t \<Longrightarrow> m_get (er_engines r) (tg_wgID t) \<noteq> None"
    using table m_get_in_keys unfolding table_ok_def by metis+
  show "wgID \<in> set (er_wgIDs r) \<Longrightarrow> m_get (er_engines r) wgID \<noteq> None" using ids m_get_in_keys by metis
  show "er_engines r \<noteq> []" by (rule ne)
  have "set (m_keys (er_engines r)) \<noteq> {}" using ne by (auto simp: m_keys_def)
  then show "er_wgIDs r \<noteq> []" using ids by auto
qed

text \<open>Actions that stay on the routes of their engine pass the fence.\<close>

lemma routed_actions_accepted:
  assumes "router_ok r" "list_all (action_routed (router_flows r wgID) (router_mark r)) as"
  shows "validateActions r wgID as = None"
proof -
  have "validate_action (er_routes r) wgID a = None" if a: "action_routed (router_flows r wgID) (router_mark r) a" for a
  proof -
    obtain t where t: "m_get (er_routes r) (flow_route (a_Flow a)) = Some t" "tg_wgID t = wgID"
      using a by (auto simp: action_routed_def router_flows_def)
    have "tg_wgID t = k_WGID (a_Flow a)" using router_okD(1) [OF assms(1) t(1)] by (simp add: flow_route_def)
    moreover have "router_mark r (a_Flow a) = tg_fwmark t" using t by (simp add: router_mark_def)
    ultimately show ?thesis using a t
      by (auto simp: validate_action_def action_routed_def list_all_iff list_ex_iff split: ActionKind.splits)
  qed
  with assms(2) show ?thesis
    unfolding validateActions_def by (induction as) (auto simp: first_err_None_iff)
qed

text \<open>An engine's next state leaves the table as it is.\<close>

lemma put_engine_ok:
  assumes ok: "router_ok r" and old: "m_get (er_engines r) wgID \<noteq> None"
  shows "router_ok (r\<lparr>er_engines := m_put wgID e (er_engines r)\<rparr>)"
proof -
  have "set (m_keys (m_put wgID e (er_engines r))) = set (m_keys (er_engines r))"
    using old m_get_in_keys [of "er_engines r" wgID] by (auto simp: m_keys_put)
  moreover have "m_put wgID e (er_engines r) \<noteq> []" by (metis m_get_Nil m_get_put option.distinct(1))
  ultimately show ?thesis using ok by (simp add: router_ok_def)
qed

lemma put_engine_routed:
  assumes "engines_routed r" "engine_routed (router_flows r wgID) (router_mark r) e"
  shows "engines_routed (r\<lparr>er_engines := m_put wgID (c, e) (er_engines r)\<rparr>)"
  using assms unfolding engines_routed_def router_flows_def router_mark_def by auto

text \<open>An event is dispatched on an exact route, and the engine of that route exists.\<close>

lemma select_routed:
  assumes "router_ok r" "selectEngine event (Some r) = Inr (engine, wgID)"
  shows "router_flows r wgID (ev_Key event)" "\<exists>c e. engine = Some (c, e) \<and> m_get (er_engines r) wgID = Some (c, e)"
    "ev_Type event = FakeTCPEventNeedHandshake \<Longrightarrow> ev_FWMark event = router_mark r (ev_Key event)"
    "ev_WGID event = wgID" "k_WGID (ev_Key event) = wgID"
proof -
  obtain t where t: "m_get (er_routes r) (flow_route (ev_Key event)) = Some t" "wgID = tg_wgID t"
    "engine = m_get (er_engines r) wgID" "ev_WGID event = tg_wgID t"
    "ev_Type event = FakeTCPEventNeedHandshake \<Longrightarrow> ev_FWMark event = tg_fwmark t"
    using assms(2) by (auto simp: selectEngine_def split: if_splits option.splits)
  show "router_flows r wgID (ev_Key event)" using t by (auto simp: router_flows_def)
  show "\<exists>c e. engine = Some (c, e) \<and> m_get (er_engines r) wgID = Some (c, e)"
    using router_okD(2) [OF assms(1) t(1)] t(2,3) by auto
  show "ev_FWMark event = router_mark r (ev_Key event)" if "ev_Type event = FakeTCPEventNeedHandshake"
    using t(1) t(5) [OF that] by (simp add: router_mark_def)
  show "ev_WGID event = wgID" using t by simp
  show "k_WGID (ev_Key event) = wgID" using router_okD(1) [OF assms(1) t(1)] t(2) by (simp add: flow_route_def)
qed

lemma router_ticks_routed:
  "router_ok r \<Longrightarrow> engines_routed r \<Longrightarrow> set wgIDs \<subseteq> set (er_wgIDs r) \<Longrightarrow>
     \<exists>as errs r' w'. router_ticks orders wgIDs r w = Some (as, errs, [], r', w')
       \<and> router_ok r' \<and> engines_routed r' \<and> er_routes r' = er_routes r \<and> er_identity r' = er_identity r"
proof (induction wgIDs arbitrary: r w)
  case (Cons wgID wgIDs)
  obtain c e where ce: "m_get (er_engines r) wgID = Some (c, e)"
    using router_okD(3) [OF Cons.prems(1), of wgID] Cons.prems(3) by auto
  obtain as err e' w' where tick: "Tick c (orders wgID) e w = (as, err, e', w')" by (metis prod_cases4)
  let ?r = "r\<lparr>er_engines := m_put wgID (c, e') (er_engines r)\<rparr>"
  have tr: "list_all (action_routed (router_flows r wgID) (router_mark r)) as"
    "engine_routed (router_flows r wgID) (router_mark r) e'"
    using Tick_routed [of "router_flows r wgID" "router_mark r" e c "orders wgID" w] Cons.prems(2) ce tick
    by (auto simp: engines_routed_def)
  have ok: "router_ok ?r" "engines_routed ?r"
    using put_engine_ok [OF Cons.prems(1)] put_engine_routed [OF Cons.prems(2) tr(2)] ce by auto
  have "validateActions ?r wgID as = None"
    using routed_actions_accepted [OF Cons.prems(1) tr(1)] by (simp add: validateActions_def)
  moreover obtain as2 errs r' w2 where "router_ticks orders wgIDs ?r w' = Some (as2, errs, [], r', w2)" "router_ok r'"
    "engines_routed r'" "er_routes r' = er_routes r" "er_identity r' = er_identity r"
    using Cons.IH [OF ok, of w'] Cons.prems(3) by auto
  ultimately show ?case using ce tick by (simp add: Let_def)
qed simp

section \<open>Which configurations make a router\<close>

text \<open>A map filled from a list of items with different keys.\<close>

lemma m_get_fold:
  assumes "distinct (map key xs)"
  shows "m_get (fold (\<lambda>x. m_put (key x) (val x)) xs m) k =
    (case map_of (map (\<lambda>x. (key x, val x)) xs) k of Some v \<Rightarrow> Some v | None \<Rightarrow> m_get m k)"
  using assms
proof (induction xs arbitrary: m)
  case (Cons x xs)
  have "map_of (map (\<lambda>x. (key x, val x)) xs) (key x) = None"
    using Cons.prems by (auto simp: map_of_eq_None_iff image_iff)
  then show ?case using Cons by (auto split: option.splits)
qed simp

lemma m_wf_fold: "m_wf m \<Longrightarrow> m_wf (fold (\<lambda>x. m_put (key x) (val x)) xs m)"
  by (induction xs arbitrary: m) auto

definition binding_ok :: "RuntimeDomain \<Rightarrow> 'x WGEngineBinding \<Rightarrow> bool" where
  "binding_ok d b \<longleftrightarrow> wb_WGID b \<noteq> 0 \<and> (\<exists>c e t. wb_Engine b = Some (c, e) \<and> e_instance e = Some t
     \<and> e_domain e = Some (dom_state d) \<and> e_identity e = dom_identity d)"

definition instance_of :: "'x WGEngineBinding \<Rightarrow> nat" where
  "instance_of b = (case wb_Engine b of None \<Rightarrow> 0 | Some (c, e) \<Rightarrow> the (e_instance e))"

definition route_ok :: "RuntimeIdentity \<Rightarrow> u32 set \<Rightarrow> EngineRoute \<Rightarrow> bool" where
  "route_ok identity owners r \<longleftrightarrow> rt_RouteGeneration r = rt_Generation identity \<and> rt_UnderlayIndex r \<noteq> 0
     \<and> rt_LocalPort r \<noteq> 0 \<and> rt_WGID r \<noteq> 0 \<and> rt_FWMark r \<noteq> 0 \<and> rt_Action r = 3 \<and> rt_WGID r \<in> owners"

text \<open>One mark per WGID.\<close>

definition one_mark :: "EngineRoute list \<Rightarrow> bool" where
  "one_mark rs \<longleftrightarrow> (\<forall>r \<in> set rs. \<forall>r' \<in> set rs. rt_WGID r = rt_WGID r' \<longrightarrow> rt_FWMark r = rt_FWMark r')"

lemma one_markD: "one_mark rs \<Longrightarrow> r \<in> set rs \<Longrightarrow> r' \<in> set rs \<Longrightarrow> rt_WGID r = rt_WGID r' \<Longrightarrow> rt_FWMark r = rt_FWMark r'"
  unfolding one_mark_def by blast

text \<open>
  One engine of the domain per WGID and no engine under two WGIDs; complete rewrite routes with
  pairwise different keys, at least one for every engine, and one mark per WGID.
\<close>

definition config_ok :: "RuntimeDomain \<Rightarrow> 'x WGEngineBinding list \<Rightarrow> EngineRoute list \<Rightarrow> bool" where
  "config_ok d bs rs \<longleftrightarrow> bs \<noteq> [] \<and> rs \<noteq> []
     \<and> list_all (binding_ok d) bs \<and> distinct (map wb_WGID bs) \<and> distinct (map instance_of bs)
     \<and> list_all (route_ok (dom_identity d) (wb_WGID ` set bs)) rs \<and> distinct (map route_key rs)
     \<and> one_mark rs \<and> wb_WGID ` set bs \<subseteq> rt_WGID ` set rs"

lemma bind_engines_iff:
  "bind_engines d bs engines owners = Inr m \<longleftrightarrow>
     list_all (binding_ok d) bs \<and> distinct (map wb_WGID bs) \<and> distinct (map instance_of bs)
     \<and> (\<forall>b \<in> set bs. m_get engines (wb_WGID b) = None \<and> m_get owners (instance_of b) = None)
     \<and> m = fold (\<lambda>b. m_put (wb_WGID b) (the (wb_Engine b))) bs engines"
proof (induction d bs engines owners rule: bind_engines.induct)
  case (2 d b bs engines owners)
  show ?case
  proof (cases "binding_ok d b \<and> m_get engines (wb_WGID b) = None \<and> m_get owners (instance_of b) = None")
    case True
    then obtain c e t where e: "wb_Engine b = Some (c, e)" "e_instance e = Some t"
      "e_domain e = Some (dom_state d)" "e_identity e = dom_identity d" "wb_WGID b \<noteq> 0" "instance_of b = t"
      by (auto simp: binding_ok_def instance_of_def)
    then have "bind_engines d (b # bs) engines owners = Inr m \<longleftrightarrow>
      bind_engines d bs (m_put (wb_WGID b) (c, e) engines) (m_put t (wb_WGID b) owners) = Inr m"
      using True by simp
    also have "\<dots> \<longleftrightarrow> list_all (binding_ok d) bs \<and> distinct (map wb_WGID bs) \<and> distinct (map instance_of bs)
      \<and> (\<forall>x \<in> set bs. m_get (m_put (wb_WGID b) (c, e) engines) (wb_WGID x) = None
          \<and> m_get (m_put t (wb_WGID b) owners) (instance_of x) = None)
      \<and> m = fold (\<lambda>b. m_put (wb_WGID b) (the (wb_Engine b))) bs (m_put (wb_WGID b) (c, e) engines)"
      using 2 e True by auto
    also have "(\<forall>x \<in> set bs. m_get (m_put (wb_WGID b) (c, e) engines) (wb_WGID x) = None
          \<and> m_get (m_put t (wb_WGID b) owners) (instance_of x) = None)
      \<longleftrightarrow> wb_WGID b \<notin> wb_WGID ` set bs \<and> t \<notin> instance_of ` set bs
        \<and> (\<forall>x \<in> set bs. m_get engines (wb_WGID x) = None \<and> m_get owners (instance_of x) = None)"
      by (auto simp: image_iff)
    finally show ?thesis using e True by auto
  next
    case False
    then show ?thesis
      by (auto simp: binding_ok_def instance_of_def split: option.splits prod.splits if_splits)
  qed
qed auto

text \<open>The routes agree with the marks recorded so far.\<close>

definition marks_agree :: "(u32, u32) gomap \<Rightarrow> EngineRoute list \<Rightarrow> bool" where
  "marks_agree marks rs \<longleftrightarrow> (\<forall>r \<in> set rs. m_get marks (rt_WGID r) \<in> {None, Some (rt_FWMark r)})"

lemma marks_agree_Cons:
  "marks_agree marks (r # rs) \<longleftrightarrow> m_get marks (rt_WGID r) \<in> {None, Some (rt_FWMark r)} \<and> marks_agree marks rs"
  by (simp add: marks_agree_def)

lemma marks_agree_put:
  assumes "m_get marks (rt_WGID r) \<in> {None, Some (rt_FWMark r)}"
  shows "marks_agree (m_put (rt_WGID r) (rt_FWMark r) marks) rs \<and> one_mark rs
    \<longleftrightarrow> marks_agree marks rs \<and> one_mark (r # rs)"
proof -
  have "m_get (m_put (rt_WGID r) (rt_FWMark r) marks) (rt_WGID x) \<in> {None, Some (rt_FWMark x)} \<longleftrightarrow>
      (rt_WGID x = rt_WGID r \<longrightarrow> rt_FWMark x = rt_FWMark r) \<and> m_get marks (rt_WGID x) \<in> {None, Some (rt_FWMark x)}" for x
    using assms by (cases "rt_WGID x = rt_WGID r") auto
  then have "marks_agree (m_put (rt_WGID r) (rt_FWMark r) marks) rs \<longleftrightarrow>
      (\<forall>x \<in> set rs. rt_WGID x = rt_WGID r \<longrightarrow> rt_FWMark x = rt_FWMark r) \<and> marks_agree marks rs"
    unfolding marks_agree_def by blast
  moreover have "one_mark (r # rs) \<longleftrightarrow>
      (\<forall>x \<in> set rs. rt_WGID x = rt_WGID r \<longrightarrow> rt_FWMark x = rt_FWMark r) \<and> one_mark rs"
  proof -
    have pair: "(\<forall>x \<in> insert a A. \<forall>y \<in> insert a A. P x y) \<longleftrightarrow>
        P a a \<and> (\<forall>x \<in> A. P x a) \<and> (\<forall>x \<in> A. P a x) \<and> (\<forall>x \<in> A. \<forall>y \<in> A. P x y)"
      for a :: EngineRoute and A P by blast
    have "(\<forall>x \<in> set rs. rt_WGID r = rt_WGID x \<longrightarrow> rt_FWMark r = rt_FWMark x) \<longleftrightarrow>
        (\<forall>x \<in> set rs. rt_WGID x = rt_WGID r \<longrightarrow> rt_FWMark x = rt_FWMark r)"
      by (simp only: eq_commute [of "rt_WGID r"] eq_commute [of "rt_FWMark r"])
    then show ?thesis unfolding one_mark_def list.set pair by blast
  qed
  ultimately show ?thesis by blast
qed

lemma freeze_routes_iff:
  "freeze_routes identity engines rs frozen marks = Inr (f, mk) \<longleftrightarrow>
     list_all (route_ok identity {i. m_get engines i \<noteq> None}) rs \<and> distinct (map route_key rs)
     \<and> (\<forall>r \<in> set rs. m_get frozen (route_key r) = None) \<and> marks_agree marks rs \<and> one_mark rs
     \<and> f = fold (\<lambda>r. m_put (route_key r) \<lparr>tg_wgID = rt_WGID r, tg_fwmark = rt_FWMark r\<rparr>) rs frozen
     \<and> mk = fold (\<lambda>r. m_put (rt_WGID r) (rt_FWMark r)) rs marks"
proof (induction rs arbitrary: frozen marks)
  case (Cons r rs)
  let ?m = "m_get marks (rt_WGID r) \<in> {None, Some (rt_FWMark r)}"
  let ?frozen = "m_put (route_key r) \<lparr>tg_wgID = rt_WGID r, tg_fwmark = rt_FWMark r\<rparr> frozen"
  have step: "freeze_routes identity engines (r # rs) frozen marks = Inr (f, mk) \<longleftrightarrow>
      route_ok identity {i. m_get engines i \<noteq> None} r \<and> ?m \<and> m_get frozen (route_key r) = None
      \<and> freeze_routes identity engines rs ?frozen (m_put (rt_WGID r) (rt_FWMark r) marks) = Inr (f, mk)"
    by (auto simp: route_ok_def ActionRewrite_def)
  have fr: "(\<forall>x \<in> set rs. m_get ?frozen (route_key x) = None) \<longleftrightarrow>
      route_key r \<notin> route_key ` set rs \<and> (\<forall>x \<in> set rs. m_get frozen (route_key x) = None)"
    by (auto simp: image_iff)
  show ?case
  proof (cases ?m)
    case True
    from marks_agree_put [OF this, of rs] show ?thesis
      unfolding step Cons.IH fr using True by (auto simp: marks_agree_Cons)
  next
    case False
    then show ?thesis by (simp only: step marks_agree_Cons simp_thms)
  qed
qed (auto simp: marks_agree_def one_mark_def)

lemma m_keys_fold: "set (m_keys (fold (\<lambda>x. m_put (key x) (val x)) xs m)) = key ` set xs \<union> set (m_keys m)"
  by (induction xs arbitrary: m) (auto simp: m_keys_put)

lemma binding_keys: "distinct (map wb_WGID bs) \<Longrightarrow> list_all (binding_ok d) bs \<Longrightarrow> b \<in> set bs \<Longrightarrow>
    m_get (fold (\<lambda>b. m_put (wb_WGID b) (the (wb_Engine b))) bs []) (wb_WGID b) = wb_Engine b"
proof -
  assume d: "distinct (map wb_WGID bs)" and ok: "list_all (binding_ok d) bs" and b: "b \<in> set bs"
  have "map_of (map (\<lambda>b. (wb_WGID b, the (wb_Engine b))) bs) (wb_WGID b) = Some (the (wb_Engine b))"
    using d b by (intro map_of_is_SomeI) (auto simp: comp_def)
  moreover have "wb_Engine b \<noteq> None" using ok b by (auto simp: list_all_iff binding_ok_def)
  ultimately show ?thesis unfolding m_get_fold [OF d] by auto
qed

lemma route_table:
  assumes "distinct (map route_key rs)"
  shows "m_get (fold (\<lambda>r. m_put (route_key r) \<lparr>tg_wgID = rt_WGID r, tg_fwmark = rt_FWMark r\<rparr>) rs []) k = Some t \<longleftrightarrow>
    (\<exists>r \<in> set rs. route_key r = k \<and> t = \<lparr>tg_wgID = rt_WGID r, tg_fwmark = rt_FWMark r\<rparr>)"
proof -
  have "distinct (map fst (map (\<lambda>r. (route_key r, \<lparr>tg_wgID = rt_WGID r, tg_fwmark = rt_FWMark r\<rparr>)) rs))"
    using assms by (simp add: comp_def)
  note entry = map_of_eq_Some_iff [OF this, of k t]
  have alone: "(case q of Some v \<Rightarrow> Some v | None \<Rightarrow> m_get [] k) = q" for q :: "engineRouteTarget option" by (cases q) simp_all
  show ?thesis unfolding m_get_fold [OF assms] alone entry by auto
qed

lemma frozen_table:
  assumes "config_ok d bs rs"
  shows "table_ok (dom_identity d) (wb_WGID ` set bs)
    (fold (\<lambda>r. m_put (route_key r) \<lparr>tg_wgID = rt_WGID r, tg_fwmark = rt_FWMark r\<rparr>) rs [])" (is "table_ok _ _ ?t")
proof -
  have r: "list_all (route_ok (dom_identity d) (wb_WGID ` set bs)) rs" "distinct (map route_key rs)" "one_mark rs"
    "wb_WGID ` set bs \<subseteq> rt_WGID ` set rs" "rs \<noteq> []"
    using assms unfolding config_ok_def by blast+
  define tab where "tab = ?t"
  have get: "m_get tab k = Some t \<longleftrightarrow>
      (\<exists>x \<in> set rs. route_key x = k \<and> t = \<lparr>tg_wgID = rt_WGID x, tg_fwmark = rt_FWMark x\<rparr>)" for k t
    unfolding tab_def by (rule route_table [OF r(2)])
  have "m_get tab (route_key (hd rs)) \<noteq> None" using get [of "route_key (hd rs)"] r(5) by (metis list.set_sel(1) option.distinct(1))
  then have ne: "tab \<noteq> []" by (metis m_get_Nil)
  have wf: "m_wf tab" unfolding tab_def by (rule m_wf_fold) simp
  have entries: "tg_wgID t = rk_wgID k \<and> rk_generation k = rt_Generation (dom_identity d) \<and> rk_wgID k \<noteq> 0
      \<and> rk_underlayIndex k \<noteq> 0 \<and> rk_localPort k \<noteq> 0 \<and> tg_fwmark t \<noteq> 0 \<and> tg_wgID t \<in> wb_WGID ` set bs"
    if "m_get tab k = Some t" for k t
    using that r(1) unfolding get by (auto simp: list_all_iff route_ok_def route_key_def)
  have one: "tg_fwmark t = tg_fwmark t'" if "m_get tab k = Some t" "m_get tab k' = Some t'" "tg_wgID t = tg_wgID t'" for k t k' t'
  proof -
    note hyps = that
    obtain x x' where "x \<in> set rs" "x' \<in> set rs" "t = \<lparr>tg_wgID = rt_WGID x, tg_fwmark = rt_FWMark x\<rparr>"
      "t' = \<lparr>tg_wgID = rt_WGID x', tg_fwmark = rt_FWMark x'\<rparr>"
      using hyps(1,2) unfolding get by blast
    then show ?thesis using hyps(3) one_markD [OF r(3), of x x'] by simp
  qed
  have all: "\<exists>k t. m_get tab k = Some t \<and> tg_wgID t = i" if "i \<in> wb_WGID ` set bs" for i
  proof -
    have "i \<in> rt_WGID ` set rs" using that r(4) by blast
    then obtain x where "x \<in> set rs" "rt_WGID x = i" by blast
    then have "m_get tab (route_key x) = Some \<lparr>tg_wgID = i, tg_fwmark = rt_FWMark x\<rparr>" unfolding get by blast
    then show ?thesis by (intro exI conjI) (assumption, simp)
  qed
  show ?thesis unfolding table_ok_def tab_def [symmetric] using wf ne entries one all by blast
qed

lemma bind_engines_err:
  "bind_engines d bs engines owners = Inl e \<Longrightarrow> errors_is e ErrEngineRouteInvalid \<or> errors_is e ErrEngineRouteConflict"
  by (induction d bs engines owners rule: bind_engines.induct)
    (auto simp: route_invalid_def route_conflict_def split: option.splits prod.splits if_splits)

lemma freeze_routes_err:
  "freeze_routes identity engines rs frozen marks = Inl e \<Longrightarrow>
     errors_is e ErrEngineRouteInvalid \<or> errors_is e ErrEngineRouteConflict"
  by (induction identity engines rs frozen marks rule: freeze_routes.induct)
    (auto simp: route_invalid_def route_conflict_def split: if_splits)

lemma new_router_exact:
  "case NewEngineRouter (Some d) bs rs of
     Inl e \<Rightarrow> \<not> config_ok d bs rs \<and> (errors_is e ErrEngineRouteInvalid \<or> errors_is e ErrEngineRouteConflict)
   | Inr r \<Rightarrow> config_ok d bs rs \<and> router_ok r \<and> er_identity r = dom_identity d
       \<and> set (er_wgIDs r) = wb_WGID ` set bs
       \<and> list_all (\<lambda>b. m_get (er_engines r) (wb_WGID b) = wb_Engine b) bs
       \<and> (\<forall>k t. m_get (er_routes r) k = Some t \<longleftrightarrow>
           (\<exists>x \<in> set rs. route_key x = k \<and> t = \<lparr>tg_wgID = rt_WGID x, tg_fwmark = rt_FWMark x\<rparr>))"
proof -
  let ?engines = "fold (\<lambda>b. m_put (wb_WGID b) (the (wb_Engine b))) bs []"
  let ?frozen = "fold (\<lambda>r. m_put (route_key r) \<lparr>tg_wgID = rt_WGID r, tg_fwmark = rt_FWMark r\<rparr>) rs []"
  let ?marks = "fold (\<lambda>r. m_put (rt_WGID r) (rt_FWMark r)) rs []"
  have keys: "set (m_keys ?engines) = wb_WGID ` set bs" by (simp add: m_keys_fold) (simp add: m_keys_def)
  have owners: "{i. m_get ?engines i \<noteq> None} = wb_WGID ` set bs" unfolding m_get_in_keys keys by simp
  have "set (m_keys ?marks) = rt_WGID ` set rs" by (simp add: m_keys_fold) (simp add: m_keys_def)
  then have marked: "m_get ?marks i = None \<longleftrightarrow> i \<notin> rt_WGID ` set rs" for i
    using m_get_in_keys [of ?marks i] by auto
  have unused: "list_ex (\<lambda>i. m_get ?marks i = None) (m_keys ?engines) \<longleftrightarrow> \<not> wb_WGID ` set bs \<subseteq> rt_WGID ` set rs"
    using keys marked by (auto simp: list_ex_iff)
  let ?B = "list_all (binding_ok d) bs \<and> distinct (map wb_WGID bs) \<and> distinct (map instance_of bs)"
  let ?R = "list_all (route_ok (dom_identity d) (wb_WGID ` set bs)) rs \<and> distinct (map route_key rs) \<and> one_mark rs"
  have bind: "bind_engines d bs [] [] = Inr m \<longleftrightarrow> ?B \<and> m = ?engines" for m
    by (simp add: bind_engines_iff)
  have freeze: "freeze_routes (dom_identity d) ?engines rs [] [] = Inr (f, mk) \<longleftrightarrow> ?R \<and> f = ?frozen \<and> mk = ?marks" for f mk
    unfolding freeze_routes_iff owners by (simp add: marks_agree_def)
  consider (empty) "bs = [] \<or> rs = []" | (engines) "bs \<noteq> []" "rs \<noteq> []" "\<not> ?B" | (routes) "bs \<noteq> []" "rs \<noteq> []" ?B "\<not> ?R"
    | (unrouted) "bs \<noteq> []" "rs \<noteq> []" ?B ?R "\<not> wb_WGID ` set bs \<subseteq> rt_WGID ` set rs" | (fits) "config_ok d bs rs"
    unfolding config_ok_def by blast
  then show ?thesis
  proof cases
    case empty
    then show ?thesis by (auto simp: NewEngineRouter_def config_ok_def route_invalid_def)
  next
    case engines
    then obtain e where e: "bind_engines d bs [] [] = Inl e" using bind by (cases "bind_engines d bs [] []") auto
    have "\<not> config_ok d bs rs" using engines(3) unfolding config_ok_def by blast
    then show ?thesis using engines(1,2) e bind_engines_err [OF e] by (simp add: NewEngineRouter_def)
  next
    case routes
    then have b: "bind_engines d bs [] [] = Inr ?engines" using bind by blast
    obtain e where e: "freeze_routes (dom_identity d) ?engines rs [] [] = Inl e"
      using routes(4) freeze by (cases "freeze_routes (dom_identity d) ?engines rs [] []") auto
    have "\<not> config_ok d bs rs" using routes(4) unfolding config_ok_def by blast
    then show ?thesis using routes(1,2) b e freeze_routes_err [OF e] by (simp add: NewEngineRouter_def)
  next
    case unrouted
    then have b: "bind_engines d bs [] [] = Inr ?engines" "freeze_routes (dom_identity d) ?engines rs [] [] = Inr (?frozen, ?marks)"
      using bind freeze by blast+
    have "\<not> config_ok d bs rs" using unrouted(5) unfolding config_ok_def by blast
    then show ?thesis using unrouted(1,2,5) b unused by (simp add: NewEngineRouter_def route_invalid_def)
  next
    case fits
    then have c: "bs \<noteq> []" "rs \<noteq> []" ?B ?R "wb_WGID ` set bs \<subseteq> rt_WGID ` set rs" unfolding config_ok_def by blast+
    then have b: "bind_engines d bs [] [] = Inr ?engines" "freeze_routes (dom_identity d) ?engines rs [] [] = Inr (?frozen, ?marks)"
      using bind freeze by blast+
    have new: "NewEngineRouter (Some d) bs rs = Inr \<lparr>er_identity = dom_identity d, er_engines = ?engines,
        er_routes = ?frozen, er_wgIDs = sort (m_keys ?engines)\<rparr>"
      using c(1,2,5) b unused by (simp add: NewEngineRouter_def)
    have "m_wf ?engines" "?engines \<noteq> []" using keys c(1) m_wf_fold [of "[]"] by (auto simp: m_keys_def)
    then have "router_ok \<lparr>er_identity = dom_identity d, er_engines = ?engines, er_routes = ?frozen,
        er_wgIDs = sort (m_keys ?engines)\<rparr>"
      using frozen_table [OF fits] keys by (simp add: router_ok_def) (simp add: m_wf_def m_keys_def)
    moreover have "list_all (\<lambda>b. m_get ?engines (wb_WGID b) = wb_Engine b) bs"
      using c(3) binding_keys by (simp add: list_all_iff) blast
    ultimately show ?thesis using new fits keys route_table c(4) by simp
  qed
qed

text \<open>
  C17. The router accepts exactly the unambiguous configurations: \<open>NewEngineRouter\<close> succeeds if and
  only if every binding is an own engine of the domain under its own non-zero WGID and the routes
  are complete, pairwise different, of one mark per WGID and reach every engine; otherwise the
  error is a route conflict or an invalid route. The router then holds exactly the given engines
  and routes, and ticks its engines in ascending order of their WGID.
\<close>

theorem router_configuration_exact:
  "case NewEngineRouter (Some d) bs rs of
     Inl e \<Rightarrow> \<not> config_ok d bs rs \<and> (errors_is e ErrEngineRouteInvalid \<or> errors_is e ErrEngineRouteConflict)
   | Inr r \<Rightarrow> config_ok d bs rs \<and> router_ok r \<and> er_identity r = dom_identity d
       \<and> set (er_wgIDs r) = wb_WGID ` set bs
       \<and> list_all (\<lambda>b. m_get (er_engines r) (wb_WGID b) = wb_Engine b) bs
       \<and> (\<forall>k t. m_get (er_routes r) k = Some t \<longleftrightarrow>
           (\<exists>x \<in> set rs. route_key x = k \<and> t = \<lparr>tg_wgID = rt_WGID x, tg_fwmark = rt_FWMark x\<rparr>))"
  by (rule new_router_exact)

end
