(* ===== verification/Controller_Routed.thy ===== *)
theory Controller_Routed
  imports Controller Engine_Routed
begin

text \<open>
  The routed controller as a whole: samples, events, ticks, recovery and shutdown over a router that
  was built from fresh engines. Every call returns, and the fence on actions never fires.
\<close>

section \<open>Sequences of calls\<close>

datatype 'x controller_call =
    CallSample "'x go_context option" "byte list"
  | CallEvent "'x go_context option" ownedDecodedEvent
  | CallTick "'x go_context option" "u32 \<Rightarrow> FakeTCPSessionKey list"
  | CallRecover "'x go_context option"
  | CallClose

text \<open>One call after the other; \<open>None\<close> if a call panics or would wait.\<close>

fun run_controller ::
  "(byte list \<Rightarrow> byte list) \<Rightarrow> endian \<Rightarrow> 'x controller_call list \<Rightarrow> 'x Controller option \<Rightarrow> 'x world
     \<Rightarrow> ('x Controller option \<times> 'x world) option" where
  "run_controller sha en [] c w = Some (c, w)"
| "run_controller sha en (CallSample ctx sample # calls) c w =
     (case HandleSample sha en ctx sample c w of
        None \<Rightarrow> None | Some (_, _, c', w') \<Rightarrow> run_controller sha en calls c' w')"
| "run_controller sha en (CallEvent ctx decoded # calls) c w =
     (case handleOwnedEvent sha en ctx decoded c w of
        None \<Rightarrow> None | Some (_, _, c', w') \<Rightarrow> run_controller sha en calls c' w')"
| "run_controller sha en (CallTick ctx orders # calls) c w =
     (case Controller_Tick sha orders ctx c w of
        None \<Rightarrow> None | Some (_, _, c', w') \<Rightarrow> run_controller sha en calls c' w')"
| "run_controller sha en (CallRecover ctx # calls) c w =
     (case Controller_Recover sha ctx c w of
        None \<Rightarrow> None | Some (_, _, c', w') \<Rightarrow> run_controller sha en calls c' w')"
| "run_controller sha en (CallClose # calls) c w =
     (case Controller_Close c (w_ext w) of
        None \<Rightarrow> None | Some (_, c', x) \<Rightarrow> run_controller sha en calls c' (w\<lparr>w_ext := x\<rparr>))"

section \<open>The fence never fires\<close>

text \<open>What a call of a selected engine gives back is on the routes of its WGID.\<close>

lemma dispatch_routed:
  assumes ok: "router_ok r" "engines_routed r" and sel: "selectEngine (od_Event decoded) (Some r) = Inr (engine, wgID)"
    and run: "dispatch_event en decoded engine w = Some (None, as, err, engine', w')"
  shows "\<exists>c e. engine' = Some (c, e) \<and> list_all (action_routed (router_flows r wgID) (router_mark r)) as
    \<and> engine_routed (router_flows r wgID) (router_mark r) e \<and> m_get (er_engines r) wgID \<noteq> None"
proof -
  note s = select_routed [OF ok(1) sel]
  obtain c e where ce: "engine = Some (c, e)" "m_get (er_engines r) wgID = Some (c, e)" using s(2) by blast
  then have e: "engine_routed (router_flows r wgID) (router_mark r) e" using ok(2) by (auto simp: engines_routed_def)
  have step: "\<exists>c e. engine' = Some (c, e) \<and> list_all (action_routed (router_flows r wgID) (router_mark r)) as
      \<and> engine_routed (router_flows r wgID) (router_mark r) e \<and> m_get (er_engines r) wgID \<noteq> None"
    if res: "res = (as, err, e', w')" and engine': "engine' = Some (c, e')"
      and routed: "routed (router_flows r wgID) (router_mark r) res" for res e'
    using that ce(2) by simp
  let ?ev = "od_Event decoded"
  consider (need) "ev_Type ?ev = FakeTCPEventNeedHandshake"
    | (close) "ev_Type ?ev \<noteq> FakeTCPEventNeedHandshake" "ev_Type ?ev = FakeTCPEventRST \<or> ev_Type ?ev = FakeTCPEventFIN"
    | (segment) "ev_Type ?ev \<noteq> FakeTCPEventNeedHandshake" "\<not> (ev_Type ?ev = FakeTCPEventRST \<or> ev_Type ?ev = FakeTCPEventFIN)"
    by blast
  then show ?thesis
  proof cases
    case need
    then obtain packet e' where "handleOwnedCapturedPacket c e ?ev packet (od_Fingerprint decoded) w = (as, err, e', w')"
      "engine' = Some (c, e')"
      using run ce(1) by (auto simp: dispatch_event_def split: option.splits prod.splits)
    then show ?thesis using step captured_packet_routed [OF e s(1) s(3) [OF need]] by blast
  next
    case close
    then obtain e' where "InboundCapturedControl en c e ?ev (od_Packet decoded) w = (as, err, e', w')" "engine' = Some (c, e')"
      using run ce(1) by (auto simp: dispatch_event_def Let_def split: prod.splits)
    then show ?thesis using step captured_control_routed [OF e s(1)] by blast
  next
    case segment
    then obtain seg e' where "inbound c e (ev_Key ?ev) seg (ev_WGID ?ev) w = (as, err, e', w')" "engine' = Some (c, e')"
      using run ce(1) by (auto simp: dispatch_event_def Let_def InboundWithWGID_def split: prod.splits)
    then show ?thesis using step inbound_routed [OF e s(1)] by blast
  qed
qed

lemma dispatch_returns:
  assumes "engine \<noteq> None"
  shows "dispatch_event en decoded engine w \<noteq> None"
proof -
  obtain c e where ce: "engine = Some (c, e)" using assms by auto
  obtain q p where m: "MaterializeIPv4UDPChecksums (od_Packet decoded) = Some (q, p)"
    using materialize_returns [of "od_Packet decoded"] by auto
  show ?thesis unfolding dispatch_event_def Let_def by (auto simp: ce m split: option.splits prod.splits)
qed

text \<open>
  A routed controller between two calls: no call is counted, the table is the one it was built
  with, and every engine is on its routes.
\<close>

definition routed_inv :: "(engineRouteKey, engineRouteTarget) gomap \<Rightarrow> 'x Controller \<Rightarrow> bool" where
  "routed_inv routes c \<longleftrightarrow> (\<exists>r. ct_dispatcher c = Some (Routed (Some r)) \<and> router_ok r \<and> engines_routed r \<and> er_routes r = routes)
     \<and> ct_recovery c = None"

definition idle :: "'x Controller \<Rightarrow> bool" where
  "idle c \<longleftrightarrow> ct_inflight c = 0 \<and> \<not> ct_closing c \<and> (ct_backend c = None \<longrightarrow> ct_closed c)"

lemma routed_inv_frame:
  "routed_inv routes c \<Longrightarrow> ct_dispatcher c' = ct_dispatcher c \<Longrightarrow> ct_recovery c' = ct_recovery c \<Longrightarrow> routed_inv routes c'"
  by (simp add: routed_inv_def)

lemma mark_keeps:
  "markFailed cause c = (e, c') \<Longrightarrow> ct_dispatcher c' = ct_dispatcher c \<and> ct_recovery c' = ct_recovery c"
  "handleActionExecutionError cause c = (r, c') \<Longrightarrow> ct_dispatcher c' = ct_dispatcher c \<and> ct_recovery c' = ct_recovery c"
  by (auto simp: markFailed_def handleActionExecutionError_def markRecoveryRequired_def Let_def
      split: option.splits if_splits prod.splits)

lemma execute_direct:
  assumes "ct_recovery c = None" "ct_backend c \<noteq> None"
  shows "\<exists>e w'. executeActions sha ctx as c w = Some (e, c, w')"
  using assms by (auto simp: executeActions_def split: prod.splits)

text \<open>The end of an operation, after the engines have moved on.\<close>

lemma act_routed:
  assumes "routed_inv routes c" "ct_backend c \<noteq> None"
  shows "\<exists>e c' w'. (case executeActions sha ctx as c w of None \<Rightarrow> None
      | Some (Some err, c2, w2) \<Rightarrow> (case handleActionExecutionError err c2 of (e, c3) \<Rightarrow> Some (as, f e, c3, w2))
      | Some (None, c2, w2) \<Rightarrow> Some (as, g, c2, w2)) = Some (as, e, c', w') \<and> routed_inv routes c'"
proof -
  obtain q w1 where ex: "executeActions sha ctx as c w = Some (q, c, w1)"
    using execute_direct assms unfolding routed_inv_def by blast
  show ?thesis
  proof (cases q)
    case None
    then show ?thesis using ex assms(1) by simp
  next
    case (Some err)
    obtain e c3 where h: "handleActionExecutionError err c = (e, c3)" by fastforce
    then show ?thesis using ex Some routed_inv_frame [OF assms(1)] mark_keeps(2) [OF h] by simp
  qed
qed

lemma handle_routed:
  assumes inv: "routed_inv routes c" and backend: "ct_backend c \<noteq> None"
  shows "\<exists>as e c' w'. handleOwnedDecodedEvent sha en ctx decoded c w = Some (as, e, c', w') \<and> routed_inv routes c'"
proof -
  obtain r where r: "ct_dispatcher c = Some (Routed (Some r))" "router_ok r" "engines_routed r" "er_routes r = routes"
    and rec: "ct_recovery c = None" using inv unfolding routed_inv_def by blast
  note unf = handleOwnedDecodedEvent_def r(1)
  show ?thesis
  proof (cases "runtimeIdentityFromEvent (od_Event decoded) = dispatcher_Identity (Routed (Some r))")
    case False
    then show ?thesis using inv by (simp add: unf)
  next
    case True
    show ?thesis
    proof (cases "selectEngine (od_Event decoded) (Some r)")
      case (Inl e)
      then show ?thesis using True inv by (simp add: unf dispatcher_selectEngine_def)
    next
      case (Inr p)
      obtain engine wgID where p: "p = (engine, wgID)" by fastforce
      note sel = Inr [unfolded p]
      have "engine \<noteq> None" using select_routed(2) [OF r(2) sel] by auto
      then obtain q as err engine' w1 where d: "dispatch_event en decoded engine w = Some (q, as, err, engine', w1)"
        using dispatch_returns [of engine en decoded w] by auto
      show ?thesis
      proof (cases q)
        case (Some m)
        then show ?thesis using True sel d inv by (simp add: unf dispatcher_selectEngine_def)
      next
        case None
        note dr = dispatch_routed [OF r(2,3) sel d [unfolded None]]
        then obtain cc e where e: "engine' = Some (cc, e)"
          "list_all (action_routed (router_flows r wgID) (router_mark r)) as"
          "engine_routed (router_flows r wgID) (router_mark r) e" "m_get (er_engines r) wgID \<noteq> None" by blast
        let ?r = "r\<lparr>er_engines := m_put wgID (cc, e) (er_engines r)\<rparr>"
        let ?c = "c\<lparr>ct_dispatcher := Some (Routed (Some ?r))\<rparr>"
        have inv': "routed_inv routes ?c"
          using put_engine_ok [OF r(2) e(4)] put_engine_routed [OF r(3) e(3)] r(4) rec by (simp add: routed_inv_def)
        have "validateActions ?r wgID as = None"
          using routed_actions_accepted [OF r(2) e(2)] by (simp add: validateActions_def)
        then have "handleOwnedDecodedEvent sha en ctx decoded c w = (if err \<noteq> None then Some (as, err, ?c, w1)
           else (case executeActions sha ctx as ?c w1 of None \<Rightarrow> None
             | Some (Some err, c2, w2) \<Rightarrow> (case handleActionExecutionError err c2 of (e, c3) \<Rightarrow> Some (as, e, c3, w2))
             | Some (None, c2, w2) \<Rightarrow> Some (as, None, c2, w2)))"
          using True sel d None e(1)
          by (simp add: unf dispatcher_selectEngine_def put_engine_def dispatcher_validateActions_def Let_def)
        then show ?thesis
          using inv' act_routed [OF inv', where sha = sha and ctx = ctx and as = as and w = w1 and f = "\<lambda>e. e" and g = None] backend
          by (cases "err = None") auto
      qed
    qed
  qed
qed

lemma tick_routed:
  assumes inv: "routed_inv routes c" and backend: "ct_backend c \<noteq> None"
  shows "\<exists>as e c' w'. tick_body sha orders ctx c w = Some (as, e, c', w') \<and> routed_inv routes c'"
proof -
  obtain r where r: "ct_dispatcher c = Some (Routed (Some r))" "router_ok r" "engines_routed r" "er_routes r = routes"
    and rec: "ct_recovery c = None" using inv unfolding routed_inv_def by blast
  obtain as errs r' w1 where t: "router_ticks orders (er_wgIDs r) r w = Some (as, errs, [], r', w1)"
    "router_ok r'" "engines_routed r'" "er_routes r' = routes"
    using router_ticks_routed [OF r(2,3) order_refl, of orders w] r(4) by auto
  let ?c = "c\<lparr>ct_dispatcher := Some (Routed (Some r'))\<rparr>"
  let ?err = "errors_join (map Some errs)"
  have inv': "routed_inv routes ?c" using t rec by (simp add: routed_inv_def)
  have "tick_body sha orders ctx c w = (if option_is ?err ErrEngineRouteRejected
       then (case markFailed (the ?err) ?c of (e, c2) \<Rightarrow> Some (as, Some e, c2, w1))
       else (case executeActions sha ctx as ?c w1 of None \<Rightarrow> None
         | Some (Some err, c2, w2) \<Rightarrow> (case handleActionExecutionError err c2 of (e, c3) \<Rightarrow> Some (as, errors_join [?err, e], c3, w2))
         | Some (None, c2, w2) \<Rightarrow> Some (as, ?err, c2, w2)))"
    using r(1) t(1) router_okD(6) [OF r(2)] by (simp add: tick_body_def dispatcher_Tick_def Router_Tick_def Let_def)
  moreover obtain e c2 where m: "markFailed (the ?err) ?c = (e, c2)" by fastforce
  moreover have "routed_inv routes c2" using routed_inv_frame [OF inv'] mark_keeps(1) [OF m] by simp
  ultimately show ?thesis
    using act_routed [OF inv', where sha = sha and ctx = ctx and as = as and w = w1 and f = "\<lambda>e. errors_join [?err, e]" and g = ?err]
      backend by (cases "option_is ?err ErrEngineRouteRejected") auto
qed

lemma begin_cases:
  "beginSerializedOperation c = (r, c1) \<Longrightarrow> idle c \<Longrightarrow>
     (r \<noteq> None \<and> c1 = c) \<or> (r = None \<and> c1 = c\<lparr>ct_inflight := 1\<rparr> \<and> ct_backend c \<noteq> None)"
  by (auto simp: beginSerializedOperation_def admit_operation_def recheck_operation_def idle_def
      Controller_initialized_def finishOperation_def split: if_splits option.splits sum.splits)

lemma serialized_routed:
  assumes inv: "routed_inv routes c" "idle c"
    and body: "\<And>ctx c w. routed_inv routes c \<Longrightarrow> ct_backend c \<noteq> None \<Longrightarrow>
      \<exists>as e c' w'. body ctx c w = Some (as, e, c', w') \<and> routed_inv routes c' \<and> body_frame c c'"
  shows "\<exists>as e c' w'. serialized context body (Some c) w = Some (as, e, Some c', w') \<and> routed_inv routes c' \<and> idle c'"
proof -
  obtain q c1 where b: "beginSerializedOperation c = (q, c1)" by fastforce
  consider (refused) e where "q = Some e" "c1 = c" | (admitted) "q = None" "c1 = c\<lparr>ct_inflight := 1\<rparr>" "ct_backend c \<noteq> None"
    using begin_cases [OF b inv(2)] by auto
  then show ?thesis
  proof cases
    case refused
    then show ?thesis using b inv by (simp add: serialized_def)
  next
    case admitted
    have inv1: "routed_inv routes c1" using inv(1) admitted(2) by (simp add: routed_inv_def)
    have over: "routed_inv routes (endSerializedOperation c1) \<and> idle (endSerializedOperation c1)"
      using inv admitted by (auto simp: endSerializedOperation_def finishOperation_def routed_inv_def idle_def)
    show ?thesis
    proof (cases "context")
      case None
      then show ?thesis using b admitted over by (simp add: serialized_def)
    next
      case (Some ctx)
      obtain z w1 where ctx: "ext_call ctx w = (z, w1)" by fastforce
      show ?thesis
      proof (cases z)
        case None
        obtain as e c2 w2 where run: "body ctx c1 w1 = Some (as, e, c2, w2)" "routed_inv routes c2" "body_frame c1 c2"
          using body [OF inv1, of ctx w1] admitted(2,3) by auto
        note f = body_frameD [OF run(3)]
        have "routed_inv routes (endSerializedOperation c2)" using run(2)
          by (simp add: endSerializedOperation_def finishOperation_def routed_inv_def)
        moreover have "idle (endSerializedOperation c2)"
          using inv(2) f admitted by (auto simp: endSerializedOperation_def finishOperation_def idle_def)
        ultimately show ?thesis using b admitted(1) Some ctx None run(1) by (simp add: serialized_def)
      next
        case (Some e)
        then show ?thesis using b admitted(1) \<open>context = Some ctx\<close> ctx over by (simp add: serialized_def)
      qed
    qed
  qed
qed

lemma handle_sample_routed:
  assumes "routed_inv routes c" "ct_backend c \<noteq> None"
  shows "\<exists>as e c' w'. handle_sample sha en sample ctx c w = Some (as, e, c', w') \<and> routed_inv routes c' \<and> body_frame c c'"
proof -
  obtain q where "DecodeEventSample en sample = Some q" using decode_copies decode_borrowed_exact by metis
  then show ?thesis
    using handle_routed [OF assms] handle_frame assms(1) by (cases q) (fastforce simp: handle_sample_def)+
qed

lemma operations_routed:
  assumes inv: "routed_inv routes c" "idle c"
  shows "\<exists>as e c' w'. HandleSample sha en context sample (Some c) w = Some (as, e, Some c', w') \<and> routed_inv routes c' \<and> idle c'"
    "\<exists>as e c' w'. handleOwnedEvent sha en context decoded (Some c) w = Some (as, e, Some c', w') \<and> routed_inv routes c' \<and> idle c'"
    "\<exists>as e c' w'. Controller_Tick sha orders context (Some c) w = Some (as, e, Some c', w') \<and> routed_inv routes c' \<and> idle c'"
    "\<exists>rp e. Controller_Recover sha context (Some c) w = Some (rp, e, Some c, w)"
    "\<exists>e c' x'. Controller_Close (Some c) x = Some (e, Some c', x') \<and> routed_inv routes c' \<and> idle c'"
proof -
  show "\<exists>as e c' w'. HandleSample sha en context sample (Some c) w = Some (as, e, Some c', w') \<and> routed_inv routes c' \<and> idle c'"
    unfolding HandleSample_def by (rule serialized_routed [OF inv handle_sample_routed])
  show "\<exists>as e c' w'. handleOwnedEvent sha en context decoded (Some c) w = Some (as, e, Some c', w') \<and> routed_inv routes c' \<and> idle c'"
    unfolding handleOwnedEvent_def
    by (rule serialized_routed [OF inv], drule (1) handle_routed, elim exE conjE, intro exI conjI, assumption+, erule handle_frame)
  show "\<exists>as e c' w'. Controller_Tick sha orders context (Some c) w = Some (as, e, Some c', w') \<and> routed_inv routes c' \<and> idle c'"
    unfolding Controller_Tick_def
    by (rule serialized_routed [OF inv], drule (1) tick_routed, elim exE conjE, intro exI conjI, assumption+, erule tick_frame)
  have "\<exists>e. admit_recovery c = Inl e" using inv(1) by (auto simp: admit_recovery_def routed_inv_def split: option.splits)
  then show "\<exists>rp e. Controller_Recover sha context (Some c) w = Some (rp, e, Some c, w)" using recover_refused by blast
  obtain r where d: "ct_dispatcher c = Some (Routed (Some r))" using inv(1) unfolding routed_inv_def by blast
  show "\<exists>e c' x'. Controller_Close (Some c) x = Some (e, Some c', x') \<and> routed_inv routes c' \<and> idle c'"
  proof (cases "ct_closed c \<or> \<not> Controller_initialized c")
    case True
    then show ?thesis using inv by (auto simp: Controller_Close_def controller_close_enter_def idle_def)
  next
    case False
    then obtain b where b: "ct_backend c = Some b" using inv(2) by (auto simp: idle_def)
    obtain q x1 where close: "bk_Close b x = (q, x1)" by fastforce
    then show ?thesis using False b inv
      by (cases q) (auto simp: Controller_Close_def controller_close_enter_def controller_close_finish_def idle_def
          routed_inv_def Let_def)
  qed
qed

lemma run_routed:
  assumes "routed_inv routes c" "idle c"
  shows "\<exists>c' w'. run_controller sha en calls (Some c) w = Some (Some c', w') \<and> routed_inv routes c' \<and> idle c'"
  using assms
proof (induction calls arbitrary: c w)
  case (Cons call calls)
  note ops = operations_routed [OF Cons.prems]
  show ?case
  proof (cases call)
    case (CallSample ctx sample)
    then show ?thesis using ops(1) [of sha en ctx sample w] Cons.IH by fastforce
  next
    case (CallEvent ctx decoded)
    then show ?thesis using ops(2) [of sha en ctx decoded w] Cons.IH by fastforce
  next
    case (CallTick ctx orders)
    then show ?thesis using ops(3) [of sha orders ctx w] Cons.IH by fastforce
  next
    case (CallRecover ctx)
    then show ?thesis using ops(4) [of sha ctx w] Cons.IH [OF Cons.prems] by fastforce
  next
    case CallClose
    then show ?thesis using ops(5) [of "w_ext w"] Cons.IH by fastforce
  qed
qed simp

definition fresh_bindings :: "'x WGEngineBinding list \<Rightarrow> bool" where
  "fresh_bindings bs \<longleftrightarrow> list_all (\<lambda>b. case wb_Engine b of None \<Rightarrow> True | Some (c, e) \<Rightarrow> e_sessions e = []) bs"

lemma new_router_routed:
  assumes new: "NewEngineRouter (Some d) bs rs = Inr r" and fresh: "fresh_bindings bs"
  shows "router_ok r" "engines_routed r"
proof -
  note ex = new_router_exact [of d bs rs, unfolded new sum.case]
  then show ok: "router_ok r" by blast
  have ids: "set (er_wgIDs r) = wb_WGID ` set bs"
    and own: "list_all (\<lambda>b. m_get (er_engines r) (wb_WGID b) = wb_Engine b) bs" using ex by blast+
  have "e_sessions e = []" if e: "m_get (er_engines r) wgID = Some (c, e)" for wgID c e
  proof -
    have "wgID \<in> set (er_wgIDs r)" using ok e m_get_in_keys [of "er_engines r" wgID] by (simp add: router_ok_def)
    then obtain b where b: "b \<in> set bs" "wb_WGID b = wgID" using ids by auto
    then have "wb_Engine b = Some (c, e)" using own e by (auto simp: list_all_iff)
    then show ?thesis using fresh b(1) by (auto simp: fresh_bindings_def list_all_iff split: option.splits)
  qed
  then show "engines_routed r" using fresh_routed unfolding engines_routed_def by blast
qed

text \<open>
  C3. A routed controller on fresh engines never panics and never trips its own fence: whatever
  samples, decoded events, ticks, recoveries and closes it is called with, with any contexts, any
  backend and any clocks and stores, every call returns, the dispatch table stays as configured,
  and whatever event is dispatched next, the actions of the selected engine pass
  \<open>validateActions\<close>, as do the actions of every engine in a tick.
\<close>

theorem routed_controller_never_trips:
  assumes "NewEngineRouter (Some d) bs rs = Inr r" and "fresh_bindings bs"
    and "NewRoutedController (Some r) (Some backend) = Inr c0"
  shows "\<exists>c r' w'. run_controller sha en calls (Some c0) w = Some (Some c, w')
    \<and> ct_dispatcher c = Some (Routed (Some r')) \<and> er_routes r' = er_routes r
    \<and> (\<forall>decoded engine wgID v as err engine' v'.
        selectEngine (od_Event decoded) (Some r') = Inr (engine, wgID)
        \<longrightarrow> dispatch_event en decoded engine v = Some (None, as, err, engine', v')
        \<longrightarrow> validateActions r' wgID as = None)
    \<and> (\<forall>orders v. \<exists>as errs r'' v'. router_ticks orders (er_wgIDs r') r' v = Some (as, errs, [], r'', v'))"
proof -
  have new: "newController (Some (Routed (Some r))) (Some backend) = Inr c0"
    using assms(3) by (auto simp: NewRoutedController_def split: if_splits)
  note c0 = newController_fresh [OF new]
  have "routed_inv (er_routes r) c0" "idle c0"
    using c0 new_router_routed [OF assms(1,2)] by (simp_all add: routed_inv_def idle_def)
  from run_routed [OF this, of sha en calls w]
  obtain c w' where run: "run_controller sha en calls (Some c0) w = Some (Some c, w')" "routed_inv (er_routes r) c"
    by blast
  then obtain r' where r': "ct_dispatcher c = Some (Routed (Some r'))" "router_ok r'" "engines_routed r'"
    "er_routes r' = er_routes r" unfolding routed_inv_def by blast
  have "validateActions r' wgID as = None"
    if "selectEngine (od_Event decoded) (Some r') = Inr (engine, wgID)"
      "dispatch_event en decoded engine v = Some (None, as, err, engine', v')"
    for decoded engine wgID v as err engine' v'
    using dispatch_routed [OF r'(2,3) that] routed_actions_accepted [OF r'(2)] by blast
  moreover have "\<exists>as errs r'' v'. router_ticks orders (er_wgIDs r') r' v = Some (as, errs, [], r'', v')" for orders v
    using router_ticks_routed [OF r'(2,3) order_refl, of orders v] by blast
  ultimately show ?thesis using run(1) r'(1,4) by blast
qed

definition sample_bindings :: "ework WGEngineBinding list" where
  "sample_bindings = [\<lparr>wb_WGID = k_WGID sample_key, wb_Engine = Some (sample_caps, sample_engine)\<rparr>]"

definition sample_routes :: "EngineRoute list" where
  "sample_routes = [\<lparr>rt_RouteGeneration = 7, rt_UnderlayIndex = k_UnderlayIndex sample_key,
     rt_LocalPort = k_LocalPort sample_key, rt_WGID = k_WGID sample_key, rt_FWMark = 5, rt_Action = 3\<rparr>]"

definition sample_router :: "ework EngineRouter" where
  "sample_router = \<lparr>er_identity = dom_identity sample_domain,
     er_engines = [(k_WGID sample_key, sample_caps, sample_engine)],
     er_routes = [(route_key (hd sample_routes), \<lparr>tg_wgID = k_WGID sample_key, tg_fwmark = 5\<rparr>)],
     er_wgIDs = [k_WGID sample_key]\<rparr>"

lemma sample_router_new: "NewEngineRouter (Some sample_domain) sample_bindings sample_routes = Inr sample_router"
  by (simp add: NewEngineRouter_def sample_bindings_def sample_routes_def sample_router_def sample_domain_def
      sample_engine_def sample_key_def route_key_def ActionRewrite_def m_put_def m_get_def m_keys_def)

definition sample_routed_controller :: "ework Controller" where
  "sample_routed_controller = sample_controller\<lparr>ct_dispatcher := Some (Routed (Some sample_router))\<rparr>"

theorem routed_controller_never_trips_witness:
  "\<exists>c w'. run_controller id LittleEndian
      [CallEvent (Some steady_context) sample_decoded, CallTick (Some steady_context) (\<lambda>_. [sample_key]), CallClose]
      (Some sample_routed_controller) sample_after_new = Some (Some c, w')"
proof -
  have "fresh_bindings sample_bindings" by (simp add: fresh_bindings_def sample_bindings_def sample_engine_def)
  moreover have "NewRoutedController (Some sample_router) (Some failing_backend) = Inr sample_routed_controller"
    by (simp add: NewRoutedController_def newController_def Router_Identity_def dispatcher_nil_def sample_router_def
        sample_domain_def sample_routed_controller_def sample_controller_def sample_incarnation_def zero_incarnation_def
        zero_arrays)
  ultimately show ?thesis using routed_controller_never_trips [OF sample_router_new] by blast
qed

end
