(* ===== verification/Event_Runtime.thy ===== *)
theory Event_Runtime
  imports Event_Sample
begin

text \<open>
  The event runtime (\<open>event_runtime.go\<close>, \<open>startup_guard_pause.go\<close>): one goroutine in \<open>Run\<close> reads
  event records and calls the controller, while any number of other goroutines pause and resume it
  for the startup guard, ask it to stop, or close it.

  Every section that the code executes under \<open>runtime.mu\<close> is one function on \<open>EventRuntime\<close>, and a
  call is a sequence of such sections with the points in between at which it blocks or calls out.
  \<open>evstep\<close> interleaves the calls. The reader and the controller are interfaces: whatever they return
  is a step, as is whatever a context or the clock says. A call with a nil receiver or context returns
  before it takes a step and is left out. A channel that is only ever closed is the
  number of the channel made, and who waits on an earlier one may go on.
\<close>

section \<open>Leases and phases\<close>

record StartupGuardLease =
  sl_Acquired :: bool
  sl_Token :: "nat option"

definition zero_lease :: StartupGuardLease where
  "zero_lease = \<lparr>sl_Acquired = False, sl_Token = None\<rparr>"

definition IsZero :: "nat option \<Rightarrow> bool" where
  "IsZero token \<longleftrightarrow> token = None"

text \<open>The address of the new identity is the number of identities made before.\<close>

definition NewStartupGuardLease :: "nat \<Rightarrow> StartupGuardLease" where
  "NewStartupGuardLease n = \<lparr>sl_Acquired = True, sl_Token = Some n\<rparr>"

definition borrowedStartupGuardLease :: "nat option \<Rightarrow> StartupGuardLease" where
  "borrowedStartupGuardLease token = \<lparr>sl_Acquired = False, sl_Token = token\<rparr>"

definition lease_valid :: "StartupGuardLease \<Rightarrow> bool" where
  "lease_valid lease \<longleftrightarrow> \<not> IsZero (sl_Token lease)"

type_synonym StartupGuardPausePhase = string
type_synonym StartupGuardPauseReason = string

definition StartupGuardPausePhaseOpen :: StartupGuardPausePhase where
  "StartupGuardPausePhaseOpen = ''open''"

definition StartupGuardPausePhaseDraining :: StartupGuardPausePhase where
  "StartupGuardPausePhaseDraining = ''draining''"

definition StartupGuardPausePhaseHeld :: StartupGuardPausePhase where
  "StartupGuardPausePhaseHeld = ''held''"

definition StartupGuardPausePhaseResuming :: StartupGuardPausePhase where
  "StartupGuardPausePhaseResuming = ''resuming''"

definition StartupGuardPausePhaseStopped :: StartupGuardPausePhase where
  "StartupGuardPausePhaseStopped = ''stopped''"

definition StartupGuardPauseReasonNone :: StartupGuardPauseReason where
  "StartupGuardPauseReasonNone = ''none''"

definition StartupGuardPauseReasonStartupGuard :: StartupGuardPauseReason where
  "StartupGuardPauseReasonStartupGuard = ''startup_guard''"

definition StartupGuardPauseReasonRuntimeStopping :: StartupGuardPauseReason where
  "StartupGuardPauseReasonRuntimeStopping = ''runtime_stopping''"

definition StartupGuardPauseReasonRuntimeClosed :: StartupGuardPauseReason where
  "StartupGuardPauseReasonRuntimeClosed = ''runtime_closed''"

definition StartupGuardPauseReasonRuntimeStopped :: StartupGuardPauseReason where
  "StartupGuardPauseReasonRuntimeStopped = ''runtime_stopped''"

lemmas guard_phase_defs = StartupGuardPausePhaseOpen_def StartupGuardPausePhaseDraining_def
  StartupGuardPausePhaseHeld_def StartupGuardPausePhaseResuming_def StartupGuardPausePhaseStopped_def

lemma phases_distinct [simp]:
  "distinct [StartupGuardPausePhaseOpen, StartupGuardPausePhaseDraining, StartupGuardPausePhaseHeld,
     StartupGuardPausePhaseResuming, StartupGuardPausePhaseStopped]"
  by (simp add: guard_phase_defs)

section \<open>Records, calls and the runtime\<close>

record EventRecord =
  evd_RawSample :: "byte list"
  evd_LostSamples :: u64
  evd_ownedSample :: ownedDecodedEvent
  evd_hasOwnedSample :: bool

definition zero_event :: FakeTCPEvent where
  "zero_event = \<lparr>ev_Key = \<lparr>k_Generation = 0, k_LocalIPv4 = 0, k_RemoteIPv4 = 0, k_UnderlayIndex = 0, k_LocalPort = 0,
       k_RemotePort = 0, k_WGID = 0, k_Reserved = zero_array 4\<rparr>,
     ev_TimestampNanos = 0, ev_RuntimeIncarnation = zero_array 16, ev_CaptureSequence = 0, ev_SessionRevision = 0,
     ev_SessionID = 0, ev_CaptureCPU = 0, ev_Sequence = 0, ev_Acknowledgement = 0, ev_PayloadLength = 0,
     ev_FWMark = 0, ev_WGID = 0, ev_PacketLength = 0, ev_EventABIVersion = 0, ev_Type = 0, ev_TCPFlags = 0\<rparr>"

definition zero_record :: EventRecord where
  "zero_record = \<lparr>evd_RawSample = [], evd_LostSamples = 0,
     evd_ownedSample = \<lparr>od_Event = zero_event, od_Packet = [], od_Fingerprint = zero_array 32\<rparr>,
     evd_hasOwnedSample = False\<rparr>"

text \<open>The two handlers that the constructors install, and the calls the runtime makes to its controller.\<close>

datatype eventRecordHandler = RawRecords | OwnedRecords

datatype owner_call =
    HandleSampleCall "byte list" | HandleOwnedCall ownedDecodedEvent | TickCall | CloseCall

definition handleRecord :: "eventRecordHandler \<Rightarrow> EventRecord \<Rightarrow> err + owner_call" where
  "handleRecord h record =
     (case h of
        RawRecords \<Rightarrow>
          if evd_RawSample record = [] then Inl (ErrNew ''faketcp event reader returned an empty sample'')
          else Inr (HandleSampleCall (evd_RawSample record))
      | OwnedRecords \<Rightarrow>
          if \<not> evd_hasOwnedSample record
          then Inl (ErrNew ''faketcp production event reader returned no owned sample'')
          else Inr (HandleOwnedCall (evd_ownedSample record)))"

record EventRuntimeOptions =
  ro_PollInterval :: duration
  ro_TickInterval :: duration

record ('r, 'c) EventRuntime =
  rn_reader :: "'r option"
  rn_controller :: "'c option"
  rn_handleRecord :: "eventRecordHandler option"
  rn_opts :: EventRuntimeOptions
  rn_runDone :: bool
  rn_closeDone :: "nat \<times> bool"
  rn_readerDone :: "nat \<times> bool"
  rn_runStarted :: bool
  rn_running :: bool
  rn_stopAsked :: bool
  rn_shutdown :: bool
  rn_closing :: bool
  rn_closed :: bool
  rn_readerClosing :: bool
  rn_readerErr :: "err option"
  rn_closeErr :: "err option"
  rn_guardPhase :: StartupGuardPausePhase
  rn_guardReason :: StartupGuardPauseReason
  rn_guardSince :: time
  rn_guardRevision :: u64
  rn_guardLease :: StartupGuardLease
  rn_guardReleased :: "nat option"
  rn_activeWork :: int
  rn_stateChanged :: nat

definition newEventRuntime ::
  "'r option \<Rightarrow> 'c option \<Rightarrow> EventRuntimeOptions \<Rightarrow> eventRecordHandler option \<Rightarrow> time \<Rightarrow> err + ('r, 'c) EventRuntime" where
  "newEventRuntime reader controller options handler now =
     (if reader = None then Inl (ErrNew ''faketcp event reader is nil'')
      else if controller = None then Inl (ErrNew ''faketcp event controller is nil'')
      else if handler = None then Inl (ErrNew ''faketcp event record handler is nil'')
      else if ro_PollInterval options \<le> 0 \<or> ro_TickInterval options \<le> 0
      then Inl (ErrNew ''faketcp event runtime intervals must be positive'')
      else Inr
        \<lparr>rn_reader = reader, rn_controller = controller, rn_handleRecord = handler, rn_opts = options,
         rn_runDone = False, rn_closeDone = (0, False), rn_readerDone = (0, False),
         rn_runStarted = False, rn_running = False, rn_stopAsked = False, rn_shutdown = False,
         rn_closing = False, rn_closed = False, rn_readerClosing = False, rn_readerErr = None,
         rn_closeErr = None, rn_guardPhase = StartupGuardPausePhaseOpen,
         rn_guardReason = StartupGuardPauseReasonNone, rn_guardSince = now, rn_guardRevision = 0,
         rn_guardLease = zero_lease, rn_guardReleased = None, rn_activeWork = 0, rn_stateChanged = 0\<rparr>)"

definition NewEventRuntime ::
  "'r option \<Rightarrow> 'c option \<Rightarrow> EventRuntimeOptions \<Rightarrow> time \<Rightarrow> err + ('r, 'c) EventRuntime" where
  "NewEventRuntime reader controller options now = newEventRuntime reader controller options (Some RawRecords) now"

definition newOwnedEventRuntime ::
  "'r option \<Rightarrow> 'c option \<Rightarrow> EventRuntimeOptions \<Rightarrow> time \<Rightarrow> err + ('r, 'c) EventRuntime" where
  "newOwnedEventRuntime reader controller options now =
     newEventRuntime reader controller options (Some OwnedRecords) now"

section \<open>The sections under the mutex\<close>

definition stopRequested :: "('r, 'c) EventRuntime \<Rightarrow> bool" where
  "stopRequested r \<longleftrightarrow> rn_stopAsked r \<or> rn_shutdown r \<or> rn_closing r \<or> rn_closed r"

definition signalStateChangedLocked :: "('r, 'c) EventRuntime \<Rightarrow> ('r, 'c) EventRuntime" where
  "signalStateChangedLocked r = r\<lparr>rn_stateChanged := rn_stateChanged r + 1\<rparr>"

definition setStartupGuardPauseStateLocked ::
  "StartupGuardPausePhase \<Rightarrow> StartupGuardPauseReason \<Rightarrow> time \<Rightarrow> ('r, 'c) EventRuntime \<Rightarrow> ('r, 'c) EventRuntime" where
  "setStartupGuardPauseStateLocked phase reason now r =
     (if rn_guardPhase r = phase \<and> rn_guardReason r = reason then r
      else signalStateChangedLocked
        (r\<lparr>rn_guardPhase := phase, rn_guardReason := reason, rn_guardSince := now,
           rn_guardRevision := rn_guardRevision r + 1\<rparr>))"

definition invalidateStartupGuardLeasesLocked :: "('r, 'c) EventRuntime \<Rightarrow> ('r, 'c) EventRuntime" where
  "invalidateStartupGuardLeasesLocked r = r\<lparr>rn_guardLease := zero_lease, rn_guardReleased := None\<rparr>"

definition startupGuardLeaseForCallerLocked ::
  "StartupGuardLease \<Rightarrow> ('r, 'c) EventRuntime \<Rightarrow> StartupGuardLease \<times> err option" where
  "startupGuardLeaseForCallerLocked acquired r =
     (if \<not> lease_valid (rn_guardLease r)
      then (zero_lease, Some (ErrNew ''startup guard barrier has no active lease''))
      else if lease_valid acquired \<and> sl_Token acquired = sl_Token (rn_guardLease r) then (acquired, None)
      else (borrowedStartupGuardLease (sl_Token (rn_guardLease r)), None))"

text \<open>
  One turn of the loop of \<open>PauseForStartupGuard\<close>: \<open>acquired\<close> and \<open>revision\<close> are the caller's
  variables, \<open>ctxErr\<close> what \<open>ctx.Err()\<close> says, \<open>now\<close> the clock and \<open>n\<close> the next fresh identity. The
  caller returns, or waits for the channel \<open>changed\<close>.
\<close>

datatype pause_outcome =
    PauseReturns StartupGuardLease "err option"
  | PauseWaits StartupGuardLease u64 nat

definition pause_settle ::
  "StartupGuardLease \<Rightarrow> u64 \<Rightarrow> time \<Rightarrow> ('r, 'c) EventRuntime \<Rightarrow> pause_outcome \<times> ('r, 'c) EventRuntime" where
  "pause_settle acquired revision now r =
     (if rn_guardPhase r = StartupGuardPausePhaseDraining \<and> rn_activeWork r = 0 then
        let r1 = setStartupGuardPauseStateLocked StartupGuardPausePhaseHeld StartupGuardPauseReasonStartupGuard now r in
        (case startupGuardLeaseForCallerLocked acquired r1 of (lease, e) \<Rightarrow> (PauseReturns lease e, r1))
      else (PauseWaits acquired revision (rn_stateChanged r), r))"

definition pause_turn ::
  "StartupGuardLease \<Rightarrow> u64 \<Rightarrow> err option \<Rightarrow> time \<Rightarrow> nat \<Rightarrow> ('r, 'c) EventRuntime \<Rightarrow> pause_outcome \<times> ('r, 'c) EventRuntime" where
  "pause_turn acquired revision ctxErr now n r =
     (if stopRequested r then (PauseReturns zero_lease (Some (ErrVar ErrEventRuntimeClosed)), r)
      else if rn_guardPhase r = StartupGuardPausePhaseHeld then
        (case startupGuardLeaseForCallerLocked acquired r of (lease, e) \<Rightarrow> (PauseReturns lease e, r))
      else if rn_guardPhase r = StartupGuardPausePhaseOpen then
        (case ctxErr of
           Some e \<Rightarrow> (PauseReturns zero_lease (Some e), r)
         | None \<Rightarrow>
             let lease = NewStartupGuardLease n;
                 r1 = setStartupGuardPauseStateLocked StartupGuardPausePhaseDraining
                        StartupGuardPauseReasonStartupGuard now
                        (r\<lparr>rn_guardLease := lease, rn_guardReleased := None\<rparr>) in
             pause_settle lease (rn_guardRevision r1) now r1)
      else if rn_guardPhase r = StartupGuardPausePhaseDraining
              \<or> rn_guardPhase r = StartupGuardPausePhaseResuming then pause_settle acquired revision now r
      else if rn_guardPhase r = StartupGuardPausePhaseStopped
      then (PauseReturns zero_lease (Some (ErrVar ErrEventRuntimeClosed)), r)
      else (PauseReturns zero_lease (Some (ErrNew ''pause faketcp event runtime: invalid startup guard phase'')), r))"

text \<open>The caller was cancelled while it waited; \<open>e\<close> is what \<open>ctx.Err()\<close> then says.\<close>

definition pause_cancelled ::
  "StartupGuardLease \<Rightarrow> u64 \<Rightarrow> err \<Rightarrow> time \<Rightarrow> ('r, 'c) EventRuntime \<Rightarrow> (StartupGuardLease \<times> err option) \<times> ('r, 'c) EventRuntime" where
  "pause_cancelled acquired revision e now r =
     (if rn_guardPhase r = StartupGuardPausePhaseHeld then (startupGuardLeaseForCallerLocked acquired r, r)
      else if revision \<noteq> 0 \<and> rn_guardPhase r = StartupGuardPausePhaseDraining \<and> rn_guardRevision r = revision
              \<and> sl_Token (rn_guardLease r) = sl_Token acquired
      then ((zero_lease, Some e),
            setStartupGuardPauseStateLocked StartupGuardPausePhaseOpen StartupGuardPauseReasonNone now
              (r\<lparr>rn_guardLease := zero_lease\<rparr>))
      else ((zero_lease, Some e), r))"

datatype resume_outcome = ResumeReturns "err option" | ResumeWaits nat

definition lease_mismatch :: "StartupGuardLease \<Rightarrow> ('r, 'c) EventRuntime \<Rightarrow> bool" where
  "lease_mismatch lease r \<longleftrightarrow>
     \<not> lease_valid lease \<or> \<not> lease_valid (rn_guardLease r) \<or> sl_Token (rn_guardLease r) \<noteq> sl_Token lease"

definition resume_turn ::
  "StartupGuardLease \<Rightarrow> err option \<Rightarrow> time \<Rightarrow> ('r, 'c) EventRuntime \<Rightarrow> resume_outcome \<times> ('r, 'c) EventRuntime" where
  "resume_turn lease ctxErr now r =
     (if stopRequested r then (ResumeReturns (Some (ErrVar ErrEventRuntimeClosed)), r)
      else if rn_guardPhase r = StartupGuardPausePhaseOpen then
        (if \<not> lease_valid lease \<or> rn_guardReleased r \<noteq> sl_Token lease
         then (ResumeReturns (Some (ErrVar ErrStartupGuardLeaseMismatch)), r)
         else (ResumeReturns None, r))
      else if rn_guardPhase r = StartupGuardPausePhaseHeld then
        (if lease_mismatch lease r then (ResumeReturns (Some (ErrVar ErrStartupGuardLeaseMismatch)), r)
         else (case ctxErr of
           Some e \<Rightarrow> (ResumeReturns (Some e), r)
         | None \<Rightarrow>
             let r1 = setStartupGuardPauseStateLocked StartupGuardPausePhaseResuming
                        StartupGuardPauseReasonStartupGuard now r;
                 r2 = setStartupGuardPauseStateLocked StartupGuardPausePhaseOpen
                        StartupGuardPauseReasonNone now r1 in
             (ResumeReturns None,
              r2\<lparr>rn_guardReleased := sl_Token (rn_guardLease r2), rn_guardLease := zero_lease\<rparr>)))
      else if rn_guardPhase r = StartupGuardPausePhaseDraining
              \<or> rn_guardPhase r = StartupGuardPausePhaseResuming then
        (if lease_mismatch lease r then (ResumeReturns (Some (ErrVar ErrStartupGuardLeaseMismatch)), r)
         else (case ctxErr of
           Some e \<Rightarrow> (ResumeReturns (Some e), r)
         | None \<Rightarrow> (ResumeWaits (rn_stateChanged r), r)))
      else if rn_guardPhase r = StartupGuardPausePhaseStopped
      then (ResumeReturns (Some (ErrVar ErrEventRuntimeClosed)), r)
      else (ResumeReturns (Some (ErrNew ''resume faketcp event runtime: invalid startup guard phase'')), r))"

text \<open>The locked part of one turn of \<open>beginGuardableWork\<close>, whose turn starts with \<open>ctx.Err()\<close>.\<close>

datatype work_outcome = WorkAdmitted | WorkRefused err | WorkWaits nat

definition beginGuardableWork :: "('r, 'c) EventRuntime \<Rightarrow> work_outcome \<times> ('r, 'c) EventRuntime" where
  "beginGuardableWork r =
     (if stopRequested r then (WorkRefused (ErrVar ErrEventRuntimeClosed), r)
      else if rn_guardPhase r = StartupGuardPausePhaseOpen
      then (WorkAdmitted, r\<lparr>rn_activeWork := rn_activeWork r + 1\<rparr>)
      else if rn_guardPhase r = StartupGuardPausePhaseStopped
      then (WorkRefused (ErrVar ErrEventRuntimeClosed), r)
      else (WorkWaits (rn_stateChanged r), r))"

definition finishGuardableWork :: "('r, 'c) EventRuntime \<Rightarrow> ('r, 'c) EventRuntime" where
  "finishGuardableWork r =
     signalStateChangedLocked (if rn_activeWork r > 0 then r\<lparr>rn_activeWork := rn_activeWork r - 1\<rparr> else r)"

record StartupGuardPauseStatus =
  ss_Phase :: StartupGuardPausePhase
  ss_Reason :: StartupGuardPauseReason
  ss_Since :: time

text \<open>The zero \<open>time.Time\<close> of a nil runtime is \<open>zero\<close>.\<close>

definition StartupGuardPauseStatus_of :: "time \<Rightarrow> ('r, 'c) EventRuntime option \<Rightarrow> StartupGuardPauseStatus" where
  "StartupGuardPauseStatus_of zero runtime =
     (case runtime of
        None \<Rightarrow> \<lparr>ss_Phase = StartupGuardPausePhaseStopped, ss_Reason = StartupGuardPauseReasonRuntimeClosed, ss_Since = zero\<rparr>
      | Some r \<Rightarrow> \<lparr>ss_Phase = rn_guardPhase r, ss_Reason = rn_guardReason r, ss_Since = rn_guardSince r\<rparr>)"

text \<open>The locked part of \<open>RequestStop\<close>: it returns an error, or goes on to \<open>closeReader\<close>.\<close>

definition RequestStop_locked :: "time \<Rightarrow> ('r, 'c) EventRuntime \<Rightarrow> err option \<times> ('r, 'c) EventRuntime" where
  "RequestStop_locked now r =
     (if rn_shutdown r \<or> rn_closed r then (Some (ErrVar ErrEventRuntimeClosed), r)
      else if rn_stopAsked r then (None, r)
      else (None, setStartupGuardPauseStateLocked StartupGuardPausePhaseStopped
              StartupGuardPauseReasonRuntimeStopping now
              (invalidateStartupGuardLeasesLocked (r\<lparr>rn_stopAsked := True\<rparr>))))"

text \<open>\<open>close(runtime.runDone)\<close> is executed only by the call that clears \<open>running\<close>.\<close>

definition finishRun :: "time \<Rightarrow> ('r, 'c) EventRuntime \<Rightarrow> ('r, 'c) EventRuntime" where
  "finishRun now r =
     (let r1 = (if rn_running r then r\<lparr>rn_running := False, rn_runDone := True\<rparr> else r) in
      if rn_guardPhase r1 \<noteq> StartupGuardPausePhaseStopped
      then setStartupGuardPauseStateLocked StartupGuardPausePhaseStopped StartupGuardPauseReasonRuntimeStopped now
             (invalidateStartupGuardLeasesLocked r1)
      else signalStateChangedLocked r1)"

text \<open>
  \<open>Run\<close> starts its loop, or returns at once: with an error, or with nil if a stop was asked for or
  an owner is gone. \<open>Inr\<close> holds the handler that the loop keeps.
\<close>

definition Run_enter ::
  "('r, 'c) EventRuntime \<Rightarrow> (err + eventRecordHandler option) \<times> ('r, 'c) EventRuntime" where
  "Run_enter r =
     (if rn_shutdown r \<or> rn_closing r \<or> rn_closed r then (Inl (ErrVar ErrEventRuntimeClosed), r)
      else if rn_runStarted r then (Inl (ErrVar ErrEventRuntimeAlreadyRun), r)
      else
        (Inr (if rn_stopAsked r \<or> rn_reader r = None \<or> rn_controller r = None then None else rn_handleRecord r),
         r\<lparr>rn_runStarted := True, rn_running := True\<rparr>))"

text \<open>\<open>closeReader\<close>: nothing to do, another caller is closing it, or this caller calls \<open>reader.Close()\<close>.\<close>

datatype reader_outcome = ReaderGone | ReaderWaits nat | ReaderOwned

definition closeReader_enter :: "('r, 'c) EventRuntime \<Rightarrow> reader_outcome \<times> ('r, 'c) EventRuntime" where
  "closeReader_enter r =
     (if rn_reader r = None then (ReaderGone, r)
      else if rn_readerClosing r then (ReaderWaits (fst (rn_readerDone r)), r)
      else (ReaderOwned, r\<lparr>rn_readerClosing := True, rn_readerDone := (fst (rn_readerDone r) + 1, False)\<rparr>))"

definition closeReader_finish :: "err option \<Rightarrow> ('r, 'c) EventRuntime \<Rightarrow> ('r, 'c) EventRuntime" where
  "closeReader_finish e r =
     r\<lparr>rn_readerErr := e, rn_reader := (if e = None then None else rn_reader r),
       rn_readerClosing := False, rn_readerDone := (fst (rn_readerDone r), True)\<rparr>"

text \<open>
  \<open>Close\<close>: it has been done, another caller is closing, or this caller closes; then it keeps whether
  \<open>Run\<close> is running and whether there is a controller.
\<close>

datatype runtime_close = CloseDone | CloseBehind nat | CloseOwned bool bool

definition EventRuntime_Close_enter :: "time \<Rightarrow> ('r, 'c) EventRuntime \<Rightarrow> runtime_close \<times> ('r, 'c) EventRuntime" where
  "EventRuntime_Close_enter now r =
     (if rn_closed r then (CloseDone, r)
      else if rn_closing r then (CloseBehind (fst (rn_closeDone r)), r)
      else
        (CloseOwned (rn_running r) (rn_controller r \<noteq> None),
         (setStartupGuardPauseStateLocked StartupGuardPausePhaseStopped StartupGuardPauseReasonRuntimeClosed now
           (invalidateStartupGuardLeasesLocked
             (r\<lparr>rn_shutdown := True, rn_stopAsked := True, rn_closing := True\<rparr>)))
           \<lparr>rn_closeDone := (fst (rn_closeDone r) + 1, False)\<rparr>))"

definition wrapEventRuntimeCloseError :: "string \<Rightarrow> err option \<Rightarrow> err option" where
  "wrapEventRuntimeCloseError resource e = map_option (\<lambda>e'. ErrWrap (''close faketcp event runtime '' @ resource) [e']) e"

definition runtime_close_err :: "err option \<Rightarrow> err option \<Rightarrow> err option" where
  "runtime_close_err readerErr controllerErr =
     errors_join [wrapEventRuntimeCloseError ''reader'' readerErr,
                  wrapEventRuntimeCloseError ''controller'' controllerErr]"

definition EventRuntime_Close_finish ::
  "err option \<Rightarrow> err option \<Rightarrow> ('r, 'c) EventRuntime \<Rightarrow> ('r, 'c) EventRuntime" where
  "EventRuntime_Close_finish readerErr controllerErr r =
     (let r1 = (if controllerErr = None then r\<lparr>rn_controller := None, rn_handleRecord := None\<rparr> else r) in
      r1\<lparr>rn_closeErr := runtime_close_err readerErr controllerErr,
         rn_closed := rn_reader r1 = None \<and> rn_controller r1 = None,
         rn_closing := False, rn_closeDone := (fst (rn_closeDone r1), True)\<rparr>)"

section \<open>The loop of Run\<close>

text \<open>
  Where \<open>Run\<close> is, with its variable \<open>nextTick\<close>: at the head of the loop, in \<open>reader.Read\<close> with the
  deadline it set, at \<open>ctx.Err()\<close> and at the mutex of \<open>beginGuardableWork\<close>, waiting there, refused
  there, admitted, in the controller, past the \<open>switch\<close>, and in the deferred \<open>finishRun\<close>.
\<close>

datatype run_work = WorkRecord EventRecord | WorkTick time

datatype run_pc =
    RunIdle
  | RunTop time
  | RunRead time time
  | RunAdmit run_work time
  | RunLock run_work time
  | RunParked run_work time nat
  | RunRefused err
  | RunWork run_work time
  | RunBusy run_work time
  | RunCheck time
  | RunEnding "err option"
  | RunReturned "err option"

definition read_deadline :: "EventRuntimeOptions \<Rightarrow> time \<Rightarrow> time \<Rightarrow> time" where
  "read_deadline opts now nextTick =
     (let deadline = now + ro_PollInterval opts in if nextTick < deadline then nextTick else deadline)"

definition run_after_read :: "bool \<Rightarrow> time \<Rightarrow> err + EventRecord \<Rightarrow> run_pc" where
  "run_after_read stopping nextTick result =
     (case result of
        Inr record \<Rightarrow>
          if evd_LostSamples record \<noteq> 0 then RunEnding (Some (ErrWrap ''lost'' [ErrVar ErrEventSamplesLost]))
          else RunAdmit (WorkRecord record) nextTick
      | Inl e \<Rightarrow>
          if errors_is e OsErrDeadlineExceeded then RunCheck nextTick
          else if errors_is e OsErrClosed \<and> stopping then RunEnding None
          else RunEnding (Some (ErrWrap ''read faketcp event sample'' [e])))"

definition run_after_refusal :: "bool \<Rightarrow> err \<Rightarrow> run_pc" where
  "run_after_refusal stopping e =
     RunEnding (if stopping \<and> errors_is e ErrEventRuntimeClosed then None else Some e)"

definition run_after_check :: "bool \<Rightarrow> time \<Rightarrow> time \<Rightarrow> run_pc" where
  "run_after_check stopping now nextTick =
     (if stopping then RunEnding None
      else if \<not> now < nextTick then RunAdmit (WorkTick now) nextTick
      else RunTop nextTick)"

definition run_after_work :: "EventRuntimeOptions \<Rightarrow> run_work \<Rightarrow> time \<Rightarrow> err option \<Rightarrow> run_pc" where
  "run_after_work opts work nextTick e =
     (case work of
        WorkRecord record \<Rightarrow>
          (case e of
             Some e' \<Rightarrow> RunEnding (Some (ErrWrap ''handle faketcp event sample'' [e']))
           | None \<Rightarrow> RunCheck nextTick)
      | WorkTick now \<Rightarrow>
          (case e of
             Some e' \<Rightarrow> RunEnding (Some (ErrWrap ''tick faketcp controller'' [e']))
           | None \<Rightarrow> RunTop (now + ro_TickInterval opts)))"

text \<open>The call a piece of work makes to the controller, or the error the handler returns without one.\<close>

definition work_call :: "eventRecordHandler \<Rightarrow> run_work \<Rightarrow> err + owner_call" where
  "work_call h work = (case work of WorkRecord record \<Rightarrow> handleRecord h record | WorkTick now \<Rightarrow> Inr TickCall)"

section \<open>The calls, interleaved\<close>

text \<open>
  Where a call of one of the other methods is. \<open>ReaderEnter\<close>, \<open>ReaderParked\<close> and \<open>ReaderClosing\<close>
  are the call of \<open>closeReader\<close> that \<open>RequestStop\<close> or \<open>Close\<close> makes; \<open>ForClose\<close> keeps the two
  variables of \<open>Close\<close>.
\<close>

datatype reader_for = ForStop | ForClose bool bool

datatype caller =
    Pausing StartupGuardLease u64
  | PauseParked StartupGuardLease u64 nat
  | PauseDone StartupGuardLease "err option"
  | Resuming StartupGuardLease
  | ResumeParked StartupGuardLease nat
  | Stopping
  | Closing
  | CloseParked nat
  | ReaderEnter reader_for
  | ReaderParked reader_for nat
  | ReaderClosing reader_for
  | CloseJoin bool bool "err option"
  | ClosingController "err option"
  | CloseFinish "err option" "err option"
  | CallReturned "err option"

text \<open>
  The system: the runtime, its \<open>Run\<close> with the handler it keeps, the other calls, the number of lease
  identities made, and what has happened: the records read, those given to the handler, the calls
  made to the controller, and the tokens of the barriers that \<open>ResumeAfterStartupGuard\<close> has opened.
\<close>

record ('r, 'c) evsys =
  es_rt :: "('r, 'c) EventRuntime"
  es_run :: run_pc
  es_handler :: eventRecordHandler
  es_callers :: "caller list"
  es_tokens :: nat
  es_reads :: "EventRecord list"
  es_taken :: "EventRecord list"
  es_calls :: "owner_call list"
  es_resumed :: "nat option list"

inductive run_step :: "('r, 'c) evsys \<Rightarrow> ('r, 'c) evsys \<Rightarrow> bool" where
  run_starts: "es_run s = RunIdle \<Longrightarrow> Run_enter (es_rt s) = (Inr (Some h), r) \<Longrightarrow>
    run_step s (s\<lparr>es_rt := r, es_run := RunTop (now + ro_TickInterval (rn_opts r)), es_handler := h\<rparr>)"
| run_skips: "es_run s = RunIdle \<Longrightarrow> Run_enter (es_rt s) = (Inr None, r) \<Longrightarrow>
    run_step s (s\<lparr>es_rt := r, es_run := RunEnding None\<rparr>)"
| run_cancelled: "es_run s = RunTop nextTick \<Longrightarrow> run_step s (s\<lparr>es_run := RunEnding (Some e)\<rparr>)"
| run_reads: "es_run s = RunTop nextTick \<Longrightarrow>
    run_step s (s\<lparr>es_run := RunRead nextTick (read_deadline (rn_opts (es_rt s)) now nextTick)\<rparr>)"
| run_has_read: "es_run s = RunRead nextTick deadline \<Longrightarrow>
    run_step s (s\<lparr>es_run := run_after_read (stopRequested (es_rt s)) nextTick result,
      es_reads := es_reads s @ (case result of Inl e \<Rightarrow> [] | Inr record \<Rightarrow> [record])\<rparr>)"
| run_admits: "es_run s = RunAdmit work nextTick \<Longrightarrow> run_step s (s\<lparr>es_run := RunLock work nextTick\<rparr>)"
| run_admit_cancelled: "es_run s = RunAdmit work nextTick \<Longrightarrow> run_step s (s\<lparr>es_run := RunRefused e\<rparr>)"
| run_locks: "es_run s = RunLock work nextTick \<Longrightarrow> beginGuardableWork (es_rt s) = (outcome, r) \<Longrightarrow>
    run_step s (s\<lparr>es_rt := r, es_run := (case outcome of
        WorkAdmitted \<Rightarrow> RunWork work nextTick
      | WorkRefused e \<Rightarrow> RunRefused e
      | WorkWaits g \<Rightarrow> RunParked work nextTick g)\<rparr>)"
| run_wakes: "es_run s = RunParked work nextTick g \<Longrightarrow> rn_stateChanged (es_rt s) \<noteq> g \<Longrightarrow>
    run_step s (s\<lparr>es_run := RunAdmit work nextTick\<rparr>)"
| run_parked_cancelled: "es_run s = RunParked work nextTick g \<Longrightarrow> run_step s (s\<lparr>es_run := RunRefused e\<rparr>)"
| run_refused: "es_run s = RunRefused e \<Longrightarrow>
    run_step s (s\<lparr>es_run := run_after_refusal (stopRequested (es_rt s)) e\<rparr>)"
| run_calls: "es_run s = RunWork work nextTick \<Longrightarrow>
    run_step s (s\<lparr>es_run := RunBusy work nextTick,
      es_taken := es_taken s @ (case work of WorkRecord record \<Rightarrow> [record] | WorkTick t \<Rightarrow> []),
      es_calls := es_calls s @ (case work_call (es_handler s) work of Inl e \<Rightarrow> [] | Inr c \<Rightarrow> [c])\<rparr>)"
| run_called: "es_run s = RunBusy work nextTick \<Longrightarrow>
    (\<And>e'. work_call (es_handler s) work = Inl e' \<Longrightarrow> e = Some e') \<Longrightarrow>
    run_step s (s\<lparr>es_rt := finishGuardableWork (es_rt s),
      es_run := run_after_work (rn_opts (es_rt s)) work nextTick e\<rparr>)"
| run_checks: "es_run s = RunCheck nextTick \<Longrightarrow>
    run_step s (s\<lparr>es_run := run_after_check (stopRequested (es_rt s)) now nextTick\<rparr>)"
| run_ends: "es_run s = RunEnding e \<Longrightarrow>
    run_step s (s\<lparr>es_rt := finishRun now (es_rt s), es_run := RunReturned e\<rparr>)"

text \<open>\<open>caller_step c s c' s'\<close>: a call goes from \<open>c\<close> to \<open>c'\<close> and changes the system from \<open>s\<close> to \<open>s'\<close>.\<close>

definition pause_next :: "pause_outcome \<Rightarrow> caller" where
  "pause_next outcome = (case outcome of PauseReturns lease e \<Rightarrow> PauseDone lease e
     | PauseWaits lease revision g \<Rightarrow> PauseParked lease revision g)"

definition resume_next :: "StartupGuardLease \<Rightarrow> resume_outcome \<Rightarrow> caller" where
  "resume_next lease outcome = (case outcome of ResumeReturns e \<Rightarrow> CallReturned e | ResumeWaits g \<Rightarrow> ResumeParked lease g)"

definition reader_next :: "reader_for \<Rightarrow> err option \<Rightarrow> caller" where
  "reader_next for e = (case for of ForStop \<Rightarrow> CallReturned e | ForClose running hasController \<Rightarrow> CloseJoin running hasController e)"

inductive caller_step :: "caller \<Rightarrow> ('r, 'c) evsys \<Rightarrow> caller \<Rightarrow> ('r, 'c) evsys \<Rightarrow> bool" where
  pauses: "pause_turn lease revision ctxErr now (es_tokens s) (es_rt s) = (outcome, r) \<Longrightarrow>
    caller_step (Pausing lease revision) s (pause_next outcome) (s\<lparr>es_rt := r, es_tokens := Suc (es_tokens s)\<rparr>)"
| pause_wakes: "rn_stateChanged (es_rt s) \<noteq> g \<Longrightarrow>
    caller_step (PauseParked lease revision g) s (Pausing lease revision) s"
| pause_cancels: "pause_cancelled lease revision e now (es_rt s) = ((lease', e'), r) \<Longrightarrow>
    caller_step (PauseParked lease revision g) s (PauseDone lease' e') (s\<lparr>es_rt := r\<rparr>)"
| resumes: "resume_turn lease ctxErr now (es_rt s) = (outcome, r) \<Longrightarrow>
    caller_step (Resuming lease) s (resume_next lease outcome)
      (s\<lparr>es_rt := r,
         es_resumed := es_resumed s @
           (if rn_guardPhase (es_rt s) = StartupGuardPausePhaseHeld \<and> outcome = ResumeReturns None
            then [sl_Token lease] else [])\<rparr>)"
| resume_wakes: "caller_step (ResumeParked lease g) s (Resuming lease) s"
| stops: "RequestStop_locked now (es_rt s) = (e, r) \<Longrightarrow>
    caller_step Stopping s (case e of Some e' \<Rightarrow> CallReturned (Some e') | None \<Rightarrow> ReaderEnter ForStop) (s\<lparr>es_rt := r\<rparr>)"
| closes: "EventRuntime_Close_enter now (es_rt s) = (outcome, r) \<Longrightarrow>
    caller_step Closing s (case outcome of
        CloseDone \<Rightarrow> CallReturned None
      | CloseBehind g \<Rightarrow> CloseParked g
      | CloseOwned running hasController \<Rightarrow> ReaderEnter (ForClose running hasController)) (s\<lparr>es_rt := r\<rparr>)"
| close_wakes: "rn_closeDone (es_rt s) \<noteq> (g, False) \<Longrightarrow>
    caller_step (CloseParked g) s (CallReturned (rn_closeErr (es_rt s))) s"
| reader_enters: "closeReader_enter (es_rt s) = (outcome, r) \<Longrightarrow>
    caller_step (ReaderEnter for) s (case outcome of
        ReaderGone \<Rightarrow> reader_next for None
      | ReaderWaits g \<Rightarrow> ReaderParked for g
      | ReaderOwned \<Rightarrow> ReaderClosing for) (s\<lparr>es_rt := r\<rparr>)"
| reader_wakes: "rn_readerDone (es_rt s) \<noteq> (g, False) \<Longrightarrow>
    caller_step (ReaderParked for g) s (reader_next for (rn_readerErr (es_rt s))) s"
| reader_closed: "caller_step (ReaderClosing for) s (reader_next for e) (s\<lparr>es_rt := closeReader_finish e (es_rt s)\<rparr>)"
| close_joins: "\<not> running \<or> rn_runDone (es_rt s) \<Longrightarrow> hasController \<Longrightarrow>
    caller_step (CloseJoin running hasController e) s (ClosingController e) (s\<lparr>es_calls := es_calls s @ [CloseCall]\<rparr>)"
| close_joins_nil: "\<not> running \<or> rn_runDone (es_rt s) \<Longrightarrow> \<not> hasController \<Longrightarrow>
    caller_step (CloseJoin running hasController e) s (CloseFinish e None) s"
| controller_closed: "caller_step (ClosingController e) s (CloseFinish e e') s"
| close_finishes: "caller_step (CloseFinish e e') s (CallReturned (runtime_close_err e e'))
    (s\<lparr>es_rt := EventRuntime_Close_finish e e' (es_rt s)\<rparr>)"

text \<open>
  A call arrives, with any lease it likes; another runtime of the process makes a lease; \<open>Run\<close> or one
  of the calls goes on.
\<close>

inductive evstep :: "('r, 'c) evsys \<Rightarrow> ('r, 'c) evsys \<Rightarrow> bool" where
  arrives: "c \<in> {Pausing zero_lease 0, Resuming lease, Stopping, Closing} \<Longrightarrow>
    evstep s (s\<lparr>es_callers := es_callers s @ [c]\<rparr>)"
| mints: "evstep s (s\<lparr>es_tokens := Suc (es_tokens s)\<rparr>)"
| running: "run_step s s' \<Longrightarrow> evstep s s'"
| calling: "i < length (es_callers s) \<Longrightarrow> caller_step (es_callers s ! i) s c s' \<Longrightarrow>
    evstep s (s'\<lparr>es_callers := (es_callers s)[i := c]\<rparr>)"

definition ev_start :: "('r, 'c) EventRuntime \<Rightarrow> ('r, 'c) evsys" where
  "ev_start r =
     \<lparr>es_rt = r, es_run = RunIdle, es_handler = RawRecords, es_callers = [], es_tokens = 0, es_reads = [],
      es_taken = [], es_calls = [], es_resumed = []\<rparr>"

end
