(* ===== verification/Event_Runtime_Props.thy ===== *)
theory Event_Runtime_Props
  imports Event_Runtime
begin

text \<open>
  What the interleaved calls of the event runtime guarantee: a held startup-guard barrier keeps the
  controller idle until its lease is released, a stop fences the controller, and records are handled
  in order and at most once. The last section is a schedule of one run.
\<close>

section \<open>The barrier\<close>

definition same_life :: "('r, 'c) EventRuntime \<Rightarrow> ('r, 'c) EventRuntime \<Rightarrow> bool" where
  "same_life r r' \<longleftrightarrow>
     rn_stopAsked r' = rn_stopAsked r \<and> rn_shutdown r' = rn_shutdown r \<and> rn_closing r' = rn_closing r
     \<and> rn_closed r' = rn_closed r \<and> rn_activeWork r' = rn_activeWork r \<and> rn_running r' = rn_running r
     \<and> rn_runDone r' = rn_runDone r \<and> rn_runStarted r' = rn_runStarted r"

definition same_guard :: "('r, 'c) EventRuntime \<Rightarrow> ('r, 'c) EventRuntime \<Rightarrow> bool" where
  "same_guard r r' \<longleftrightarrow> rn_guardPhase r' = rn_guardPhase r \<and> rn_guardLease r' = rn_guardLease r"

definition stopped :: "('r, 'c) EventRuntime \<Rightarrow> bool" where
  "stopped r \<longleftrightarrow> rn_guardPhase r = StartupGuardPausePhaseStopped \<and> rn_guardLease r = zero_lease"

lemma same_refl [simp]: "same_life r r" "same_guard r r"
  by (simp_all add: same_life_def same_guard_def)

lemma set_state_fields [simp]:
  "rn_guardPhase (setStartupGuardPauseStateLocked p q now r) = p"
  "rn_guardLease (setStartupGuardPauseStateLocked p q now r) = rn_guardLease r"
  "same_life r (setStartupGuardPauseStateLocked p q now r)"
  by (simp_all add: setStartupGuardPauseStateLocked_def signalStateChangedLocked_def same_life_def)

lemma phases_differ [simp]:
  "StartupGuardPausePhaseOpen \<noteq> StartupGuardPausePhaseDraining" "StartupGuardPausePhaseDraining \<noteq> StartupGuardPausePhaseOpen"
  "StartupGuardPausePhaseOpen \<noteq> StartupGuardPausePhaseHeld" "StartupGuardPausePhaseHeld \<noteq> StartupGuardPausePhaseOpen"
  "StartupGuardPausePhaseOpen \<noteq> StartupGuardPausePhaseStopped" "StartupGuardPausePhaseStopped \<noteq> StartupGuardPausePhaseOpen"
  "StartupGuardPausePhaseDraining \<noteq> StartupGuardPausePhaseHeld" "StartupGuardPausePhaseHeld \<noteq> StartupGuardPausePhaseDraining"
  "StartupGuardPausePhaseDraining \<noteq> StartupGuardPausePhaseStopped" "StartupGuardPausePhaseStopped \<noteq> StartupGuardPausePhaseDraining"
  "StartupGuardPausePhaseHeld \<noteq> StartupGuardPausePhaseStopped" "StartupGuardPausePhaseStopped \<noteq> StartupGuardPausePhaseHeld"
  by (simp_all add: guard_phase_defs)

text \<open>
  What the sections do to the barrier: \<open>holds\<close> is the state in which a pause returns a lease, and
  \<open>pauses\<close> the ways in which a turn of a pause may change the barrier.
\<close>

definition holds :: "StartupGuardLease \<Rightarrow> ('r, 'c) EventRuntime \<Rightarrow> bool" where
  "holds lease r \<longleftrightarrow> rn_guardPhase r = StartupGuardPausePhaseHeld \<and> lease_valid lease
     \<and> sl_Token (rn_guardLease r) = sl_Token lease"

definition paused_by :: "nat \<Rightarrow> ('r, 'c) EventRuntime \<Rightarrow> ('r, 'c) EventRuntime \<Rightarrow> bool" where
  "paused_by n r r' \<longleftrightarrow>
     same_guard r r'
     \<or> rn_guardPhase r = StartupGuardPausePhaseDraining \<and> rn_guardPhase r' = StartupGuardPausePhaseHeld
       \<and> rn_activeWork r = 0 \<and> rn_guardLease r' = rn_guardLease r
     \<or> \<not> stopRequested r \<and> rn_guardPhase r = StartupGuardPausePhaseOpen \<and> sl_Token (rn_guardLease r') = Some n
       \<and> (rn_guardPhase r' = StartupGuardPausePhaseDraining
          \<or> rn_guardPhase r' = StartupGuardPausePhaseHeld \<and> rn_activeWork r = 0)"

lemma lease_for_caller:
  "startupGuardLeaseForCallerLocked acquired r = (lease, None) \<Longrightarrow>
     lease_valid lease \<and> sl_Token (rn_guardLease r) = sl_Token lease"
  by (auto simp: startupGuardLeaseForCallerLocked_def borrowedStartupGuardLease_def lease_valid_def split: if_splits)

lemma pause_settle_cases:
  assumes "pause_settle acquired revision now r = (outcome, r')"
  shows "same_life r r'" and "rn_guardLease r' = rn_guardLease r"
    and "rn_guardPhase r' = rn_guardPhase r
       \<or> rn_guardPhase r = StartupGuardPausePhaseDraining \<and> rn_guardPhase r' = StartupGuardPausePhaseHeld \<and> rn_activeWork r = 0"
    and "outcome = PauseReturns lease None \<Longrightarrow> holds lease r'"
  using assms lease_for_caller [of acquired r']
  by (auto simp: pause_settle_def Let_def holds_def split: if_splits prod.splits)

lemma same_life_trans: "same_life r r' \<Longrightarrow> same_life r' r'' \<Longrightarrow> same_life r r''"
  by (simp add: same_life_def)

lemma same_life_lease [simp]:
  "same_life r (r'\<lparr>rn_guardLease := l, rn_guardReleased := t\<rparr>) = same_life r r'"
  "same_life r (r'\<lparr>rn_guardLease := l\<rparr>) = same_life r r'"
  "same_life r (r'\<lparr>rn_guardReleased := t\<rparr>) = same_life r r'"
  "same_life r (setStartupGuardPauseStateLocked p q now r') = same_life r r'"
  by (simp_all add: same_life_def setStartupGuardPauseStateLocked_def signalStateChangedLocked_def)

lemma pause_acquires:
  assumes r1: "r1 = setStartupGuardPauseStateLocked StartupGuardPausePhaseDraining q now
      (r\<lparr>rn_guardLease := NewStartupGuardLease n, rn_guardReleased := None\<rparr>)"
    and run: "pause_settle (NewStartupGuardLease n) revision now r1 = (outcome, r')"
    and "\<not> stopRequested r" "rn_guardPhase r = StartupGuardPausePhaseOpen"
  shows "same_life r r'" "paused_by n r r'"
proof -
  have life: "same_life r r1" unfolding r1 by (rule same_life_trans [OF _ set_state_fields(3)]) simp
  then show "same_life r r'" using pause_settle_cases(1) [OF run] same_life_trans by blast
  have "rn_guardLease r1 = NewStartupGuardLease n" "rn_guardPhase r1 = StartupGuardPausePhaseDraining"
    "rn_activeWork r1 = rn_activeWork r"
    using life by (simp_all add: r1 same_life_def)
  then show "paused_by n r r'"
    using pause_settle_cases(2,3) [OF run] assms(3,4) by (auto simp: paused_by_def NewStartupGuardLease_def)
qed

lemma pause_turn_cases:
  assumes "pause_turn acquired revision ctxErr now n r = (outcome, r')"
  shows "same_life r r' \<and> paused_by n r r'" and "outcome = PauseReturns lease None \<Longrightarrow> holds lease r'"
proof -
  let ?P = "same_life r r' \<and> paused_by n r r' \<and> (outcome = PauseReturns lease None \<longrightarrow> holds lease r')"
  have settle: ?P if "pause_settle acquired revision now r = (outcome, r')"
    using pause_settle_cases [OF that] by (auto simp: paused_by_def same_guard_def)
  have ?P
  proof (cases "stopRequested r")
    case False
    note running = this
    show ?thesis
    proof (cases "rn_guardPhase r = StartupGuardPausePhaseHeld")
      case True
      then show ?thesis using assms running lease_for_caller [of acquired r]
        by (auto simp: pause_turn_def holds_def paused_by_def split: prod.splits)
    next
      case False
      show ?thesis
      proof (cases "rn_guardPhase r = StartupGuardPausePhaseOpen \<and> ctxErr = None")
        case True
        then show ?thesis
          using assms running False pause_acquires [OF refl] pause_settle_cases(4)
          by (fastforce simp: pause_turn_def Let_def)
      next
        case other: False
        then show ?thesis using assms running False settle
          by (auto simp: pause_turn_def paused_by_def split: if_splits option.splits)
      qed
    qed
  qed (use assms in \<open>auto simp: pause_turn_def paused_by_def\<close>)
  then show "same_life r r' \<and> paused_by n r r'" "outcome = PauseReturns lease None \<Longrightarrow> holds lease r'" by blast+
qed

lemma pause_cancelled_cases:
  assumes "pause_cancelled acquired revision e now r = ((lease, e'), r')"
  shows "same_life r r'"
    and "same_guard r r' \<or> rn_guardPhase r = StartupGuardPausePhaseDraining
       \<and> rn_guardPhase r' = StartupGuardPausePhaseOpen \<and> rn_guardLease r' = zero_lease"
    and "e' = None \<Longrightarrow> holds lease r'"
  using assms lease_for_caller [of acquired r lease]
    same_life_trans [OF _ set_state_fields(3), of r "r\<lparr>rn_guardLease := zero_lease\<rparr>"]
  by (auto simp: pause_cancelled_def holds_def split: if_splits)

lemma resume_turn_cases:
  assumes "resume_turn lease ctxErr now r = (outcome, r')"
  shows "same_life r r'"
    and "r' = r \<and> (rn_guardPhase r = StartupGuardPausePhaseHeld \<longrightarrow> outcome \<noteq> ResumeReturns None)
      \<or> holds lease r \<and> \<not> stopRequested r \<and> outcome = ResumeReturns None
        \<and> rn_guardPhase r' = StartupGuardPausePhaseOpen \<and> rn_guardLease r' = zero_lease"
  using assms
  by (auto simp: resume_turn_def lease_mismatch_def holds_def Let_def split: if_splits option.splits)

section \<open>Invariants\<close>

fun working :: "run_pc \<Rightarrow> bool" where
  "working (RunWork w t) = True"
| "working (RunBusy w t) = True"
| "working pc = False"

fun returned :: "run_pc \<Rightarrow> bool" where
  "returned (RunReturned e) = True"
| "returned pc = False"

definition in_loop :: "run_pc \<Rightarrow> bool" where
  "in_loop pc \<longleftrightarrow> pc \<noteq> RunIdle \<and> \<not> returned pc"

text \<open>
  \<open>phase_inv\<close>: the phases that occur, with a lease exactly while a barrier is up. \<open>stop_inv\<close>: a runtime
  that has been asked to stop, or whose \<open>Run\<close> has returned, is in the final phase. \<open>run_inv\<close>: the
  fields that mirror where \<open>Run\<close> is.
\<close>

definition phase_inv :: "('r, 'c) EventRuntime \<Rightarrow> bool" where
  "phase_inv r \<longleftrightarrow>
     rn_guardPhase r \<in> {StartupGuardPausePhaseDraining, StartupGuardPausePhaseHeld} \<and> lease_valid (rn_guardLease r)
     \<or> rn_guardPhase r = StartupGuardPausePhaseOpen \<and> rn_guardLease r = zero_lease
     \<or> stopped r"

definition stop_inv :: "('r, 'c) EventRuntime \<Rightarrow> bool" where
  "stop_inv r \<longleftrightarrow> (rn_stopAsked r \<or> rn_runDone r \<longrightarrow> stopped r) \<and> (rn_shutdown r \<longrightarrow> rn_stopAsked r)
     \<and> (rn_closing r \<or> rn_closed r \<longrightarrow> rn_shutdown r)"

definition run_inv :: "('r, 'c) EventRuntime \<Rightarrow> run_pc \<Rightarrow> bool" where
  "run_inv r pc \<longleftrightarrow> rn_activeWork r = (if working pc then 1 else 0)
     \<and> (rn_guardPhase r = StartupGuardPausePhaseHeld \<longrightarrow> \<not> working pc)
     \<and> rn_running r = in_loop pc \<and> rn_runDone r = returned pc \<and> rn_runStarted r = (pc \<noteq> RunIdle)"

definition token_inv :: "('r, 'c) EventRuntime \<Rightarrow> nat \<Rightarrow> nat option list \<Rightarrow> bool" where
  "token_inv r n resumed \<longleftrightarrow>
     (\<forall>t. sl_Token (rn_guardLease r) = Some t \<longrightarrow> t < n \<and> Some t \<notin> set resumed) \<and> (\<forall>t. Some t \<in> set resumed \<longrightarrow> t < n)"

definition closer_inv :: "('r, 'c) EventRuntime \<Rightarrow> run_pc \<Rightarrow> caller \<Rightarrow> bool" where
  "closer_inv r pc c \<longleftrightarrow>
     (case c of
        ReaderEnter (ForClose running hasController) \<Rightarrow> rn_shutdown r \<and> (running \<or> \<not> in_loop pc)
      | ReaderParked (ForClose running hasController) g \<Rightarrow> rn_shutdown r \<and> (running \<or> \<not> in_loop pc)
      | ReaderClosing (ForClose running hasController) \<Rightarrow> rn_shutdown r \<and> (running \<or> \<not> in_loop pc)
      | CloseJoin running hasController e \<Rightarrow> rn_shutdown r \<and> (running \<or> \<not> in_loop pc)
      | ClosingController e \<Rightarrow> rn_shutdown r \<and> \<not> in_loop pc
      | CloseFinish e e' \<Rightarrow> rn_shutdown r \<and> \<not> in_loop pc
      | _ \<Rightarrow> True)"

definition rt_inv :: "('r, 'c) evsys \<Rightarrow> bool" where
  "rt_inv s \<longleftrightarrow> phase_inv (es_rt s) \<and> stop_inv (es_rt s) \<and> run_inv (es_rt s) (es_run s)
     \<and> token_inv (es_rt s) (es_tokens s) (es_resumed s)"

definition ev_inv :: "('r, 'c) evsys \<Rightarrow> bool" where
  "ev_inv s \<longleftrightarrow> rt_inv s \<and> (\<forall>c \<in> set (es_callers s). closer_inv (es_rt s) (es_run s) c)"

lemma stop_requested_inv: "stop_inv r \<Longrightarrow> stopRequested r = rn_stopAsked r"
  by (auto simp: stop_inv_def stopRequested_def)

lemma zero_lease_token [simp]: "sl_Token zero_lease = None" "\<not> lease_valid zero_lease"
  by (simp_all add: zero_lease_def lease_valid_def IsZero_def)

lemma lease_valid_Some: "lease_valid l \<longleftrightarrow> (\<exists>t. sl_Token l = Some t)"
  by (auto simp: lease_valid_def IsZero_def)

text \<open>The sections of the callers that leave \<open>Run\<close> and the barrier alone.\<close>

lemma caller_sections:
  "same_life r (snd (closeReader_enter r))" "same_guard r (snd (closeReader_enter r))"
  "same_life r (closeReader_finish e r)" "same_guard r (closeReader_finish e r)"
  "same_guard r (EventRuntime_Close_finish e e' r)"
  by (auto simp: closeReader_enter_def closeReader_finish_def EventRuntime_Close_finish_def Let_def
      same_life_def same_guard_def split: if_splits)

lemma same_inv:
  assumes "same_life r r'" "same_guard r r'"
  shows "phase_inv r' = phase_inv r" "stop_inv r' = stop_inv r" "run_inv r' pc = run_inv r pc"
    "token_inv r' n resumed = token_inv r n resumed"
  using assms by (simp_all add: same_life_def same_guard_def phase_inv_def stop_inv_def run_inv_def token_inv_def stopped_def)

lemma same_life_close: "same_life r r' \<Longrightarrow> closer_inv r' pc c = closer_inv r pc c"
  by (auto simp: same_life_def closer_inv_def split: caller.splits reader_for.splits)

lemma live_stop_inv: "same_life r r' \<Longrightarrow> stop_inv r \<Longrightarrow> \<not> stopped r \<Longrightarrow> stop_inv r'"
  by (auto simp: same_life_def stop_inv_def)

text \<open>A pause keeps the invariants; so does a resume, which opens a held barrier.\<close>

lemma pause_inv:
  assumes "same_life r r'" "paused_by n r r'" "phase_inv r" "stop_inv r" "run_inv r pc" "token_inv r n resumed"
  shows "phase_inv r'" "stop_inv r'" "run_inv r' pc" "token_inv r' (n + 1) resumed"
proof -
  have act: "rn_activeWork r = 0 \<longleftrightarrow> \<not> working pc" using assms(5) by (auto simp: run_inv_def)
  show "phase_inv r'" using assms(2,3)
    by (auto simp: paused_by_def same_guard_def phase_inv_def stopped_def lease_valid_Some)
  show "stop_inv r'"
  proof (cases "same_guard r r'")
    case False
    then have "\<not> stopped r" using assms(2) by (auto simp: paused_by_def stopped_def)
    then show ?thesis by (rule live_stop_inv [OF assms(1,4)])
  qed (use assms(1,4) same_inv in blast)
  show "run_inv r' pc"
  proof (cases "same_guard r r'")
    case False
    then have "rn_guardPhase r' = StartupGuardPausePhaseHeld \<longrightarrow> rn_activeWork r = 0"
      using assms(2) by (auto simp: paused_by_def)
    then show ?thesis using assms(1,5) act by (simp add: same_life_def run_inv_def)
  qed (use assms(1,5) same_inv in blast)
  show "token_inv r' (n + 1) resumed" using assms(2,6)
    by (fastforce simp: paused_by_def same_guard_def token_inv_def)
qed

lemma open_inv:
  assumes "same_life r r'" "rn_guardPhase r' = StartupGuardPausePhaseOpen" "rn_guardLease r' = zero_lease"
    and "\<not> stopped r" "stop_inv r" "run_inv r pc" "token_inv r n resumed"
  shows "phase_inv r'" "stop_inv r'" "run_inv r' pc" "token_inv r' n resumed"
  using assms live_stop_inv [OF assms(1,5,4)]
  by (simp_all add: phase_inv_def run_inv_def token_inv_def same_life_def)

lemma resumed_inv:
  assumes "holds lease r" "rn_guardLease r' = zero_lease" "token_inv r n resumed"
  shows "token_inv r' n (resumed @ [sl_Token lease])"
  using assms by (auto simp: holds_def token_inv_def lease_valid_Some)

text \<open>A stop is final.\<close>

lemma stopped_sections:
  "stopped (setStartupGuardPauseStateLocked StartupGuardPausePhaseStopped q now (invalidateStartupGuardLeasesLocked r))"
  "same_life r (setStartupGuardPauseStateLocked p q now (invalidateStartupGuardLeasesLocked r'))
     = same_life r r'"
  by (simp_all add: stopped_def invalidateStartupGuardLeasesLocked_def)

lemma stopped_inv:
  assumes "stopped r'" "rn_activeWork r' = rn_activeWork r" "rn_running r' = rn_running r"
    "rn_runDone r' = rn_runDone r" "rn_runStarted r' = rn_runStarted r" "run_inv r pc" "token_inv r n resumed"
  shows "phase_inv r'" "run_inv r' pc" "token_inv r' n resumed"
  using assms by (auto simp: stopped_def phase_inv_def run_inv_def token_inv_def)

lemma request_stop_cases:
  assumes "RequestStop_locked now r = (e, r')"
  shows "r' = r \<or> stopped r' \<and> same_life (r\<lparr>rn_stopAsked := True\<rparr>) r'"
  using assms stopped_sections(2) [of "r\<lparr>rn_stopAsked := True\<rparr>" _ _ _ "r\<lparr>rn_stopAsked := True\<rparr>"]
  by (auto simp: RequestStop_locked_def stopped_sections(1) split: if_splits)

lemma close_enter_cases:
  assumes "EventRuntime_Close_enter now r = (outcome, r')"
  shows "r' = r \<and> (\<forall>running hasController. outcome \<noteq> CloseOwned running hasController)
    \<or> stopped r' \<and> same_life (r\<lparr>rn_shutdown := True, rn_stopAsked := True, rn_closing := True\<rparr>) r'
      \<and> outcome = CloseOwned (rn_running r) (rn_controller r \<noteq> None)"
proof -
  let ?q = "r\<lparr>rn_shutdown := True, rn_stopAsked := True, rn_closing := True\<rparr>"
  have "same_life ?q ((setStartupGuardPauseStateLocked p q now (invalidateStartupGuardLeasesLocked ?q))\<lparr>rn_closeDone := d\<rparr>)"
    "stopped ((setStartupGuardPauseStateLocked StartupGuardPausePhaseStopped q now (invalidateStartupGuardLeasesLocked ?q))\<lparr>rn_closeDone := d\<rparr>)"
    for p q d
    using stopped_sections(1) [of _ _ ?q] stopped_sections(2) [of ?q _ _ _ ?q] by (simp_all add: same_life_def stopped_def)
  then show ?thesis using assms by (auto simp: EventRuntime_Close_enter_def split: if_splits)
qed

lemma stopping_keeps:
  assumes "stopped r'" "same_life q r'" "rn_stopAsked q" "rn_closing q \<or> rn_closed q \<longrightarrow> rn_shutdown q"
    and "rn_activeWork q = rn_activeWork r" "rn_running q = rn_running r" "rn_runDone q = rn_runDone r"
      "rn_runStarted q = rn_runStarted r" "run_inv r pc" "token_inv r n resumed"
  shows "phase_inv r'" "stop_inv r'" "run_inv r' pc" "token_inv r' n resumed"
  using stopped_inv [of r' r pc n resumed] assms by (simp_all add: same_life_def stop_inv_def)

lemma stop_keeps:
  assumes "RequestStop_locked now r = (e, r')" "phase_inv r" "stop_inv r" "run_inv r pc" "token_inv r n resumed"
  shows "phase_inv r' \<and> stop_inv r' \<and> run_inv r' pc \<and> token_inv r' n resumed \<and> rn_shutdown r' = rn_shutdown r"
  using request_stop_cases [OF assms(1)]
proof
  assume "stopped r' \<and> same_life (r\<lparr>rn_stopAsked := True\<rparr>) r'"
  moreover have "rn_closing r \<or> rn_closed r \<longrightarrow> rn_shutdown r" using assms(3) by (simp add: stop_inv_def)
  ultimately show ?thesis
    using stopping_keeps [of r' "r\<lparr>rn_stopAsked := True\<rparr>" r] assms(4,5) by (simp add: same_life_def)
qed (use assms in simp)

lemma close_enter_keeps:
  assumes "EventRuntime_Close_enter now r = (outcome, r')" "phase_inv r" "stop_inv r" "run_inv r pc" "token_inv r n resumed"
  shows "phase_inv r' \<and> stop_inv r' \<and> run_inv r' pc \<and> token_inv r' n resumed \<and> (rn_shutdown r \<longrightarrow> rn_shutdown r')"
    and "outcome = CloseOwned running hasController \<Longrightarrow> rn_shutdown r' \<and> running = in_loop pc"
proof -
  let ?q = "r\<lparr>rn_shutdown := True, rn_stopAsked := True, rn_closing := True\<rparr>"
  have "rn_running r = in_loop pc" using assms(4) by (simp add: run_inv_def)
  with close_enter_cases [OF assms(1)] have c: "r' = r \<and> (\<forall>running hasController. outcome \<noteq> CloseOwned running hasController)
    \<or> stopped r' \<and> same_life ?q r' \<and> outcome = CloseOwned (in_loop pc) (rn_controller r \<noteq> None)" by simp
  then show "phase_inv r' \<and> stop_inv r' \<and> run_inv r' pc \<and> token_inv r' n resumed \<and> (rn_shutdown r \<longrightarrow> rn_shutdown r')"
  proof
    assume "stopped r' \<and> same_life ?q r' \<and> outcome = CloseOwned (in_loop pc) (rn_controller r \<noteq> None)"
    then show ?thesis using stopping_keeps [of r' ?q r] assms(4,5) by (simp add: same_life_def)
  qed (use assms in simp)
  show "rn_shutdown r' \<and> running = in_loop pc" if "outcome = CloseOwned running hasController"
    using c that by (auto simp: same_life_def)
qed

lemma close_finish_keeps:
  assumes "stop_inv r" "rn_shutdown r"
  shows "stop_inv (EventRuntime_Close_finish e e' r)"
    "phase_inv (EventRuntime_Close_finish e e' r) = phase_inv r"
    "run_inv (EventRuntime_Close_finish e e' r) pc = run_inv r pc"
    "token_inv (EventRuntime_Close_finish e e' r) n resumed = token_inv r n resumed"
    "rn_shutdown (EventRuntime_Close_finish e e' r)"
  using assms by (auto simp: EventRuntime_Close_finish_def Let_def stop_inv_def phase_inv_def run_inv_def token_inv_def stopped_def)

lemma closer_inv_mono:
  "closer_inv r pc c \<Longrightarrow> (rn_shutdown r \<Longrightarrow> rn_shutdown r') \<Longrightarrow> (rn_shutdown r \<Longrightarrow> \<not> in_loop pc \<Longrightarrow> \<not> in_loop pc')
     \<Longrightarrow> closer_inv r' pc' c"
  by (auto simp: closer_inv_def split: caller.splits reader_for.splits)

lemma closer_inv_next:
  "closer_inv r pc (pause_next p)" "closer_inv r pc (resume_next lease q)"
  "closer_inv r pc (reader_next f e) = closer_inv r pc (ReaderEnter f)"
  "closer_inv r pc (ReaderParked f g) = closer_inv r pc (ReaderEnter f)"
  "closer_inv r pc (ReaderClosing f) = closer_inv r pc (ReaderEnter f)"
  by (auto simp: closer_inv_def pause_next_def resume_next_def reader_next_def
      split: pause_outcome.splits resume_outcome.splits reader_for.splits)

lemma closer_inv_free [simp]:
  "closer_inv r pc (Pausing lease revision)" "closer_inv r pc (PauseDone lease e)" "closer_inv r pc (Resuming lease)"
  "closer_inv r pc (PauseParked lease revision g)" "closer_inv r pc (ResumeParked lease g)"
  "closer_inv r pc Stopping" "closer_inv r pc Closing" "closer_inv r pc (CloseParked g)" "closer_inv r pc (CallReturned e)"
  "closer_inv r pc (ReaderEnter ForStop)"
  by (simp_all add: closer_inv_def)

lemma shutdown_same: "same_life r r' \<Longrightarrow> rn_shutdown r' = rn_shutdown r"
  by (simp add: same_life_def)

lemma closer_inv_active [simp]:
  "closer_inv r pc (CloseJoin running hasController e) \<longleftrightarrow> rn_shutdown r \<and> (running \<or> \<not> in_loop pc)"
  "closer_inv r pc (ReaderEnter (ForClose running hasController)) \<longleftrightarrow> rn_shutdown r \<and> (running \<or> \<not> in_loop pc)"
  "closer_inv r pc (ClosingController e) \<longleftrightarrow> rn_shutdown r \<and> \<not> in_loop pc"
  "closer_inv r pc (CloseFinish e e') \<longleftrightarrow> rn_shutdown r \<and> \<not> in_loop pc"
  by (simp_all add: closer_inv_def)

lemma run_done_out: "run_inv r pc \<Longrightarrow> rn_runDone r \<Longrightarrow> \<not> in_loop pc"
  by (simp add: run_inv_def in_loop_def)

lemma caller_keeps:
  assumes "caller_step c s c' s'" "rt_inv s" "closer_inv (es_rt s) (es_run s) c"
  shows "rt_inv s' \<and> closer_inv (es_rt s') (es_run s') c' \<and> es_run s' = es_run s \<and> (rn_shutdown (es_rt s) \<longrightarrow> rn_shutdown (es_rt s'))"
  using assms
proof cases
  case (pauses lease revision ctxErr now outcome r)
  have r: "same_life (es_rt s) r" "paused_by (es_tokens s) (es_rt s) r" using pause_turn_cases(1) [OF pauses(4)] by simp_all
  show ?thesis using pause_inv [OF r, of "es_run s" "es_resumed s"] shutdown_same [OF r(1)] pauses assms(2) by (simp add: rt_inv_def closer_inv_next)
next
  case (pause_cancels lease revision e now lease' e' r)
  note c = pause_cancelled_cases(1,2) [OF pause_cancels(4)]
  show ?thesis
  proof (cases "same_guard (es_rt s) r")
    case True
    then show ?thesis using c(1) pause_cancels same_inv [OF c(1) True] shutdown_same [OF c(1)] assms(2) by (simp add: rt_inv_def)
  next
    case False
    then have "\<not> stopped (es_rt s)" "rn_guardPhase r = StartupGuardPausePhaseOpen" "rn_guardLease r = zero_lease"
      using c(2) by (auto simp: stopped_def)
    then show ?thesis using open_inv [OF c(1), of "es_run s" "es_tokens s" "es_resumed s"] shutdown_same [OF c(1)] pause_cancels assms(2) by (simp add: rt_inv_def)
  qed
next
  case (resumes lease ctxErr now outcome r)
  note c = resume_turn_cases [OF resumes(4)]
  from c(2) show ?thesis
  proof
    assume "holds lease (es_rt s) \<and> \<not> stopRequested (es_rt s) \<and> outcome = ResumeReturns None
        \<and> rn_guardPhase r = StartupGuardPausePhaseOpen \<and> rn_guardLease r = zero_lease"
    moreover from this have "\<not> stopped (es_rt s)" "rn_guardPhase (es_rt s) = StartupGuardPausePhaseHeld"
      by (auto simp: holds_def stopped_def)
    ultimately show ?thesis using open_inv [OF c(1), of "es_run s" "es_tokens s" "es_resumed s"] shutdown_same [OF c(1)] resumes assms(2) resumed_inv [of lease "es_rt s" r "es_tokens s" "es_resumed s"]
      by (simp add: rt_inv_def closer_inv_next)
  qed (use resumes assms(2) in \<open>auto simp: rt_inv_def closer_inv_next\<close>)
next
  case (stops now e r)
  then show ?thesis using stop_keeps [OF stops(4)] assms(2) by (auto simp: rt_inv_def split: option.splits)
next
  case (closes now outcome r)
  have "rn_shutdown r \<and> running = in_loop (es_run s)" if "outcome = CloseOwned running hasController" for running hasController
    using close_enter_keeps(2) [OF closes(4)] that assms(2) by (auto simp: rt_inv_def)
  then show ?thesis using close_enter_keeps(1) [OF closes(4)] closes assms(2)
    by (auto simp: rt_inv_def split: runtime_close.splits)
next
  case (reader_enters outcome r f)
  have r: "same_life (es_rt s) r" "same_guard (es_rt s) r"
    using caller_sections(1,2) [of "es_rt s"] reader_enters(4) by simp_all
  then show ?thesis using same_inv [OF r] same_life_close [OF r(1)] shutdown_same [OF r(1)] reader_enters assms(2,3)
    by (simp add: rt_inv_def closer_inv_next split: reader_outcome.splits)
next
  case (reader_closed f e)
  note r = caller_sections(3,4) [of "es_rt s" e]
  show ?thesis using same_inv [OF r] same_life_close [OF r(1)] shutdown_same [OF r(1)] reader_closed assms(2,3)
    by (simp add: rt_inv_def closer_inv_next)
next
  case (close_finishes e e')
  then have "rn_shutdown (es_rt s)" using assms(3) by simp
  then show ?thesis using close_finish_keeps [of "es_rt s"] close_finishes assms(2) by (auto simp: rt_inv_def)
qed (use assms(2,3) run_done_out [of "es_rt s" "es_run s"] in \<open>auto simp: rt_inv_def closer_inv_next\<close>)

text \<open>The steps of \<open>Run\<close>.\<close>

lemma run_sections:
  "same_guard r (snd (beginGuardableWork r))" "same_guard r (finishGuardableWork r)" "same_guard r (snd (Run_enter r))"
  "rn_shutdown (snd (beginGuardableWork r)) = rn_shutdown r" "rn_shutdown (finishGuardableWork r) = rn_shutdown r"
  "rn_shutdown (snd (Run_enter r)) = rn_shutdown r"
  by (auto simp: beginGuardableWork_def finishGuardableWork_def Run_enter_def signalStateChangedLocked_def same_guard_def)

lemma same_guard_inv:
  "same_guard r r' \<Longrightarrow> phase_inv r' = phase_inv r" "same_guard r r' \<Longrightarrow> token_inv r' n resumed = token_inv r n resumed"
  "same_guard r r' \<Longrightarrow> stopped r' = stopped r"
  by (simp_all add: same_guard_def phase_inv_def token_inv_def stopped_def)

lemma run_enter_keeps:
  assumes "Run_enter r = (Inr h, r')" "run_inv r RunIdle" "stop_inv r" "in_loop pc" "\<not> working pc"
  shows "run_inv r' pc" "stop_inv r'" "\<not> rn_shutdown r"
  using assms by (auto simp: Run_enter_def run_inv_def in_loop_def stop_inv_def stopped_def split: if_splits)

lemma begin_keeps:
  assumes "beginGuardableWork r = (outcome, r')" "run_inv r pc" "stop_inv r" "in_loop pc" "\<not> working pc" "in_loop pc'"
    and "working pc' \<longleftrightarrow> outcome = WorkAdmitted"
  shows "run_inv r' pc'" "stop_inv r'"
  using assms by (auto simp: beginGuardableWork_def run_inv_def in_loop_def stop_inv_def stopped_def split: if_splits)

lemma finish_work_keeps:
  assumes "run_inv r pc" "stop_inv r" "working pc" "in_loop pc'" "\<not> working pc'"
  shows "run_inv (finishGuardableWork r) pc'" "stop_inv (finishGuardableWork r)"
  using assms by (cases pc; auto simp: finishGuardableWork_def signalStateChangedLocked_def run_inv_def in_loop_def
      stop_inv_def stopped_def)+

lemma finish_run_keeps:
  assumes "run_inv r pc" "stop_inv r" "token_inv r n resumed" "phase_inv r" "in_loop pc" "\<not> working pc"
  shows "run_inv (finishRun now r) (RunReturned e)" "stop_inv (finishRun now r)" "token_inv (finishRun now r) n resumed"
    "phase_inv (finishRun now r)" "rn_shutdown (finishRun now r) = rn_shutdown r"
proof -
  let ?q = "r\<lparr>rn_running := False, rn_runDone := True\<rparr>"
  have run: "rn_running r" using assms(1,5) by (simp add: run_inv_def)
  have st: "stopped (finishRun now r)" using run assms(4)
    by (auto simp: finishRun_def Let_def stopped_def signalStateChangedLocked_def phase_inv_def
        invalidateStartupGuardLeasesLocked_def)
  moreover have life: "same_life ?q (finishRun now r)" using run stopped_sections(2) [of ?q _ _ _ ?q]
    by (auto simp: finishRun_def Let_def signalStateChangedLocked_def same_life_def)
  ultimately show "run_inv (finishRun now r) (RunReturned e)" "token_inv (finishRun now r) n resumed"
    "phase_inv (finishRun now r)"
    using assms(1,3,5,6) by (auto simp: same_life_def run_inv_def in_loop_def stopped_def token_inv_def phase_inv_def)
  show "rn_shutdown (finishRun now r) = rn_shutdown r" using life by (simp add: same_life_def)
  show "stop_inv (finishRun now r)" using life st assms(2) by (simp add: stop_inv_def same_life_def)
qed

lemma run_pc_simps [simp]:
  "in_loop (RunTop t)" "in_loop (RunRead t d)" "in_loop (RunAdmit w t)" "in_loop (RunLock w t)" "in_loop (RunParked w t g)"
  "in_loop (RunRefused e')" "in_loop (RunWork w t)" "in_loop (RunBusy w t)" "in_loop (RunCheck t)" "in_loop (RunEnding e)"
  "\<not> in_loop RunIdle" "\<not> in_loop (RunReturned e)"
  by (simp_all add: in_loop_def)

lemma run_after:
  "in_loop (run_after_read b t result)" "\<not> working (run_after_read b t result)"
  "in_loop (run_after_refusal b e')" "\<not> working (run_after_refusal b e')"
  "in_loop (run_after_check b now t)" "\<not> working (run_after_check b now t)"
  "in_loop (run_after_work opts w t e)" "\<not> working (run_after_work opts w t e)"
  by (auto simp: run_after_read_def run_after_refusal_def run_after_check_def run_after_work_def
      split: sum.splits run_work.splits option.splits)

lemma run_moves:
  "run_inv r pc \<Longrightarrow> in_loop pc \<Longrightarrow> in_loop pc' \<Longrightarrow> working pc' = working pc \<Longrightarrow> run_inv r pc'"
  by (cases pc; cases pc'; simp add: run_inv_def in_loop_def)

lemma run_keeps:
  assumes "run_step s s'" "rt_inv s"
  shows "rt_inv s'" and "rn_shutdown (es_rt s') = rn_shutdown (es_rt s)"
    and "rn_shutdown (es_rt s) \<Longrightarrow> \<not> in_loop (es_run s) \<Longrightarrow> \<not> in_loop (es_run s')"
proof -
  have "rt_inv s' \<and> rn_shutdown (es_rt s') = rn_shutdown (es_rt s)
    \<and> (rn_shutdown (es_rt s) \<longrightarrow> \<not> in_loop (es_run s) \<longrightarrow> \<not> in_loop (es_run s'))"
    using assms(1)
  proof cases
    case (run_starts h r now)
    then show ?thesis using run_enter_keeps [OF run_starts(3), of "es_run s'"] same_guard_inv [OF run_sections(3) [of "es_rt s"]]
        run_sections(6) [of "es_rt s"] assms(2) by (simp add: rt_inv_def)
  next
    case (run_skips r)
    then show ?thesis using run_enter_keeps [OF run_skips(3), of "es_run s'"] same_guard_inv [OF run_sections(3) [of "es_rt s"]]
        run_sections(6) [of "es_rt s"] assms(2) by (simp add: rt_inv_def)
  next
    case (run_locks work nextTick outcome r)
    then show ?thesis using begin_keeps [OF run_locks(3), of "es_run s" "es_run s'"]
        same_guard_inv [OF run_sections(1) [of "es_rt s"]] run_sections(4) [of "es_rt s"] assms(2)
      by (simp add: rt_inv_def split: work_outcome.splits)
  next
    case (run_called work nextTick e)
    then show ?thesis using finish_work_keeps [of "es_rt s" "es_run s" "es_run s'"] same_guard_inv [OF run_sections(2) [of "es_rt s"]]
        run_sections(5) [of "es_rt s"] assms(2) by (simp add: rt_inv_def run_after)
  next
    case (run_ends e now)
    then show ?thesis using finish_run_keeps [of "es_rt s" "es_run s" "es_tokens s" "es_resumed s"] assms(2) by (simp add: rt_inv_def)
  qed (use assms(2) run_moves [of "es_rt s" "es_run s" "es_run s'"] in \<open>simp_all add: rt_inv_def run_after\<close>)
  then show "rt_inv s'" "rn_shutdown (es_rt s') = rn_shutdown (es_rt s)"
    "rn_shutdown (es_rt s) \<Longrightarrow> \<not> in_loop (es_run s) \<Longrightarrow> \<not> in_loop (es_run s')" by auto
qed

lemma run_callers: "run_step s s' \<Longrightarrow> es_callers s' = es_callers s"
  by (induction rule: run_step.induct) simp_all

lemma ev_inv_step:
  assumes "evstep s s'" "ev_inv s"
  shows "ev_inv s'"
  using assms(1)
proof cases
  case (arrives c lease)
  then show ?thesis using assms(2) by (auto simp: ev_inv_def rt_inv_def)
next
  case mints
  then show ?thesis using assms(2) by (auto simp: ev_inv_def rt_inv_def token_inv_def less_Suc_eq)
next
  case running
  then show ?thesis using assms(2) run_keeps [OF running] run_callers [OF running] closer_inv_mono
    unfolding ev_inv_def by metis
next
  case (calling i c s1)
  then have "closer_inv (es_rt s) (es_run s) (es_callers s ! i)" "rt_inv s" using assms(2) by (simp_all add: ev_inv_def)
  note k = caller_keeps [OF calling(3) this(2,1)]
  have "closer_inv (es_rt s1) (es_run s1) d" if "d \<in> set ((es_callers s)[i := c])" for d
  proof (cases "d = c")
    case False
    then have "d \<in> set (es_callers s)" using that set_update_subset_insert [of "es_callers s" i c] by blast
    then have "closer_inv (es_rt s) (es_run s) d" using assms(2) by (simp add: ev_inv_def)
    then show ?thesis by (rule closer_inv_mono) (use k in simp_all)
  qed (use k in auto)
  then show ?thesis using k calling by (auto simp: ev_inv_def rt_inv_def)
qed

lemma ev_start_inv: "newEventRuntime reader controller options handler now = Inr r \<Longrightarrow> ev_inv (ev_start r)"
  by (auto simp: newEventRuntime_def ev_start_def ev_inv_def rt_inv_def phase_inv_def stop_inv_def run_inv_def
      token_inv_def in_loop_def split: if_splits)

definition ev_reach :: "('r, 'c) EventRuntime \<Rightarrow> ('r, 'c) evsys \<Rightarrow> bool" where
  "ev_reach r s \<longleftrightarrow> evstep\<^sup>*\<^sup>* (ev_start r) s"

lemma ev_steps_inv: "evstep\<^sup>*\<^sup>* s s' \<Longrightarrow> ev_inv s \<Longrightarrow> ev_inv s'"
  by (induction rule: rtranclp_induct) (auto intro: ev_inv_step)

lemma reach_inv: "newEventRuntime reader controller options handler now = Inr r \<Longrightarrow> ev_reach r s \<Longrightarrow> ev_inv s"
  unfolding ev_reach_def by (rule ev_steps_inv [OF _ ev_start_inv])

section \<open>A held barrier keeps the controller idle\<close>

definition work_calls :: "('r, 'c) evsys \<Rightarrow> owner_call list" where
  "work_calls s = filter (\<lambda>c. c \<noteq> CloseCall) (es_calls s)"

text \<open>A call of \<open>PauseForStartupGuard\<close> returns a lease and no error.\<close>

definition pause_returns :: "('r, 'c) evsys \<Rightarrow> StartupGuardLease \<Rightarrow> ('r, 'c) evsys \<Rightarrow> bool" where
  "pause_returns s lease s' \<longleftrightarrow>
     (\<exists>i s1. i < length (es_callers s) \<and> caller_step (es_callers s ! i) s (PauseDone lease None) s1
        \<and> s' = s1\<lparr>es_callers := (es_callers s)[i := PauseDone lease None]\<rparr>)"

lemma pause_next_done: "pause_next outcome = PauseDone lease None \<longleftrightarrow> outcome = PauseReturns lease None"
  by (auto simp: pause_next_def split: pause_outcome.splits)

lemma caller_pause_done:
  assumes "caller_step c s (PauseDone lease None) s'"
  shows "holds lease (es_rt s')"
  using assms
proof cases
  case (pauses l revision ctxErr now outcome r)
  then show ?thesis using pause_turn_cases(2) [OF pauses(4)] pause_next_done [of outcome lease] by simp
next
  case (pause_cancels l revision e now r g)
  then show ?thesis using pause_cancelled_cases(3) by fastforce
qed (auto simp: resume_next_def reader_next_def split: resume_outcome.splits option.splits runtime_close.splits
    reader_outcome.splits reader_for.splits)

definition quiet :: "nat option \<Rightarrow> ('r, 'c) EventRuntime \<Rightarrow> bool" where
  "quiet t r \<longleftrightarrow> stopped r \<or> rn_guardPhase r = StartupGuardPausePhaseHeld \<and> sl_Token (rn_guardLease r) = t"

lemma quiet_phase: "quiet t r \<Longrightarrow> rn_guardPhase r \<noteq> StartupGuardPausePhaseOpen \<and> rn_guardPhase r \<noteq> StartupGuardPausePhaseDraining"
  by (auto simp: quiet_def stopped_def)

lemma quiet_same: "same_guard r r' \<Longrightarrow> quiet t r' = quiet t r"
  by (simp add: same_guard_def quiet_def stopped_def)

lemma quiet_caller:
  assumes "caller_step c s c' s'" "quiet t (es_rt s)"
  shows "t \<in> set (es_resumed s') \<and> \<not> stopped (es_rt s) \<or> quiet t (es_rt s')" "es_run s' = es_run s" "work_calls s' = work_calls s"
proof -
  have "(t \<in> set (es_resumed s') \<and> \<not> stopped (es_rt s) \<or> quiet t (es_rt s')) \<and> es_run s' = es_run s \<and> work_calls s' = work_calls s"
    using assms(1)
  proof cases
    case (pauses lease revision ctxErr now outcome r)
    then have "same_guard (es_rt s) r" using pause_turn_cases(1) [OF pauses(4)] quiet_phase [OF assms(2)] by (simp add: paused_by_def)
    then show ?thesis using pauses assms(2) by (simp add: quiet_same work_calls_def)
  next
    case (pause_cancels lease revision e now lease' e' r)
    then have "same_guard (es_rt s) r" using pause_cancelled_cases(2) [OF pause_cancels(4)] quiet_phase [OF assms(2)] by simp
    then show ?thesis using pause_cancels assms(2) by (simp add: quiet_same work_calls_def)
  next
    case (resumes lease ctxErr now outcome r)
    then show ?thesis using resume_turn_cases(2) [OF resumes(4)] assms(2) by (auto simp: holds_def quiet_def stopped_def work_calls_def)
  next
    case (stops now e r)
    then show ?thesis using request_stop_cases [OF stops(4)] assms(2) by (auto simp: quiet_def work_calls_def)
  next
    case (closes now outcome r)
    then show ?thesis using close_enter_cases [OF closes(4)] assms(2) by (auto simp: quiet_def work_calls_def)
  next
    case (reader_enters outcome r f)
    then show ?thesis using quiet_same [OF caller_sections(2) [of "es_rt s"]] assms(2) by (simp add: work_calls_def)
  next
    case (reader_closed f e)
    then show ?thesis using quiet_same [OF caller_sections(4) [of "es_rt s" e]] assms(2) by (simp add: work_calls_def)
  next
    case (close_finishes e e')
    then show ?thesis using quiet_same [OF caller_sections(5) [of "es_rt s" e e']] assms(2) by (simp add: work_calls_def)
  qed (use assms(2) in \<open>simp_all add: work_calls_def\<close>)
  then show "t \<in> set (es_resumed s') \<and> \<not> stopped (es_rt s) \<or> quiet t (es_rt s')" "es_run s' = es_run s" "work_calls s' = work_calls s" by auto
qed

lemma run_enter_alive: "Run_enter r = (Inr h, r') \<Longrightarrow> same_guard r r'"
  using run_sections(3) [of r] by simp

lemma quiet_run:
  assumes "run_step s s'" "quiet t (es_rt s)" "\<not> working (es_run s)" "rt_inv s"
  shows "quiet t (es_rt s')" "\<not> working (es_run s')" "work_calls s' = work_calls s" "es_resumed s' = es_resumed s"
proof -
  have "quiet t (es_rt s') \<and> \<not> working (es_run s') \<and> work_calls s' = work_calls s \<and> es_resumed s' = es_resumed s"
    using assms(1)
  proof cases
    case (run_locks work nextTick outcome r)
    then have "outcome \<noteq> WorkAdmitted \<and> r = es_rt s" using quiet_phase [OF assms(2)]
      by (auto simp: beginGuardableWork_def split: if_splits)
    then show ?thesis using run_locks assms(2) by (auto simp: work_calls_def split: work_outcome.splits)
  next
    case (run_ends e now)
    have "stopped (finishRun now (es_rt s))"
      using finish_run_keeps(1,2) [of "es_rt s" "es_run s" "es_tokens s" "es_resumed s"] run_ends assms(4)
      by (auto simp: rt_inv_def stop_inv_def run_inv_def)
    then show ?thesis using run_ends by (simp add: quiet_def work_calls_def)
  qed (use assms(2,3) quiet_same [OF run_enter_alive] in \<open>auto simp: run_after work_calls_def\<close>)
  then show "quiet t (es_rt s')" "\<not> working (es_run s')" "work_calls s' = work_calls s" "es_resumed s' = es_resumed s" by auto
qed

lemma resumed_mono:
  assumes "evstep s s'"
  shows "set (es_resumed s) \<subseteq> set (es_resumed s')"
  using assms
proof cases
  case running
  then show ?thesis by cases simp_all
next
  case (calling i c s1)
  from calling(3) have "set (es_resumed s) \<subseteq> set (es_resumed s1)" by cases auto
  then show ?thesis using calling(1) by simp
qed simp_all

lemma quiet_step:
  assumes "evstep s s'" "ev_inv s" "quiet t (es_rt s)" "\<not> working (es_run s)"
  shows "t \<in> set (es_resumed s') \<or> quiet t (es_rt s') \<and> \<not> working (es_run s') \<and> work_calls s' = work_calls s"
  using assms(1)
proof cases
  case running
  have "rt_inv s" using assms(2) by (simp add: ev_inv_def)
  from quiet_run [OF running assms(3,4) this] show ?thesis by simp
next
  case (calling i c s1)
  have "work_calls s' = work_calls s1" using calling(1) by (simp add: work_calls_def)
  then show ?thesis using quiet_caller [OF calling(3) assms(3)] assms(4) calling(1) by auto
qed (use assms(3,4) in \<open>auto simp: work_calls_def\<close>)

lemma quiet_steps:
  assumes "evstep\<^sup>*\<^sup>* s s'" "ev_inv s" "quiet t (es_rt s)" "\<not> working (es_run s)"
  shows "t \<in> set (es_resumed s') \<or> quiet t (es_rt s') \<and> \<not> working (es_run s') \<and> work_calls s' = work_calls s"
  using assms(1)
proof (induction rule: rtranclp_induct)
  case (step s1 s2)
  have inv: "ev_inv s1" by (rule ev_steps_inv [OF step.hyps(1) assms(2)])
  show ?case
  proof (cases "t \<in> set (es_resumed s1)")
    case True
    then show ?thesis using resumed_mono [OF step.hyps(2)] by blast
  next
    case False
    then show ?thesis using step.IH quiet_step [OF step.hyps(2) inv] by auto
  qed
qed (use assms in simp)

text \<open>
  C12. While the startup guard holds the barrier, the slow path is idle: once
  \<open>PauseForStartupGuard\<close> has returned a lease, the controller is not being called and is not called
  again, whatever other goroutines do, until \<open>ResumeAfterStartupGuard\<close> opens the barrier for that
  very lease token; until then the barrier is held under this token, or the runtime has stopped for good.
\<close>

theorem held_barrier_keeps_controller_idle:
  assumes "newEventRuntime reader controller options handler now = Inr r" "ev_reach r s"
    and "pause_returns s lease s1" "evstep\<^sup>*\<^sup>* s1 s'" "sl_Token lease \<notin> set (es_resumed s')"
  shows "\<not> working (es_run s') \<and> work_calls s' = work_calls s1
    \<and> (rn_guardPhase (es_rt s') = StartupGuardPausePhaseHeld \<and> sl_Token (rn_guardLease (es_rt s')) = sl_Token lease
       \<or> rn_guardPhase (es_rt s') = StartupGuardPausePhaseStopped)"
proof -
  obtain i s2 where i: "i < length (es_callers s)" "caller_step (es_callers s ! i) s (PauseDone lease None) s2"
    "s1 = s2\<lparr>es_callers := (es_callers s)[i := PauseDone lease None]\<rparr>" using assms(3) by (auto simp: pause_returns_def)
  have inv: "ev_inv s1" using ev_inv_step [OF calling [OF i(1,2)] reach_inv [OF assms(1,2)]] i(3) by simp
  have held: "holds lease (es_rt s1)" using caller_pause_done [OF i(2)] i(3) by simp
  then have "\<not> working (es_run s1)" "quiet (sl_Token lease) (es_rt s1)"
    using inv by (auto simp: holds_def quiet_def ev_inv_def rt_inv_def run_inv_def)
  from quiet_steps [OF assms(4) inv this(2,1)] assms(5) show ?thesis by (auto simp: quiet_def stopped_def)
qed

section \<open>Stopping and closing\<close>

fun admitted :: "run_pc \<Rightarrow> nat" where
  "admitted (RunWork w t) = 1"
| "admitted pc = 0"

lemma stopped_caller:
  assumes "caller_step c s c' s'" "rt_inv s'" "stopped (es_rt s)"
  shows "stopped (es_rt s')" "es_run s' = es_run s" "work_calls s' = work_calls s"
proof -
  have "quiet None (es_rt s)" using assms(3) by (simp add: quiet_def)
  note q = quiet_caller [OF assms(1) this]
  show "stopped (es_rt s')" using q(1) assms(2,3) by (auto simp: quiet_def rt_inv_def phase_inv_def lease_valid_Some)
  show "es_run s' = es_run s" "work_calls s' = work_calls s" using q(2,3) .
qed

lemma run_after_admitted:
  "admitted (run_after_read b t result) = 0" "admitted (run_after_refusal b e') = 0"
  "admitted (run_after_check b now t) = 0" "admitted (run_after_work opts w t e) = 0"
  by (auto simp: run_after_read_def run_after_refusal_def run_after_check_def run_after_work_def
      split: sum.splits run_work.splits option.splits)

lemma stopped_run:
  assumes "run_step s s'" "rt_inv s" "stopped (es_rt s)"
  shows "stopped (es_rt s')" "\<exists>calls. work_calls s' = work_calls s @ calls \<and> length calls + admitted (es_run s') \<le> admitted (es_run s)"
proof -
  have "stopped (es_rt s') \<and> (\<exists>calls. work_calls s' = work_calls s @ calls \<and> length calls + admitted (es_run s') \<le> admitted (es_run s))"
    using assms(1)
  proof cases
    case (run_locks work nextTick outcome r)
    then have "outcome \<noteq> WorkAdmitted \<and> r = es_rt s" using assms(3)
      by (auto simp: beginGuardableWork_def stopped_def split: if_splits)
    then show ?thesis using run_locks assms(3) by (auto simp: work_calls_def split: work_outcome.splits)
  next
    case (run_called work nextTick e)
    then show ?thesis using same_guard_inv(3) [OF run_sections(2) [of "es_rt s"]] assms(3)
      by (simp add: work_calls_def run_after_admitted)
  next
    case (run_ends e now)
    have "stopped (finishRun now (es_rt s))"
      using finish_run_keeps(1,2) [of "es_rt s" "es_run s" "es_tokens s" "es_resumed s"] run_ends assms(2)
      by (auto simp: rt_inv_def stop_inv_def run_inv_def)
    then show ?thesis using run_ends by (simp add: work_calls_def)
  qed (use assms(3) same_guard_inv(3) [OF run_enter_alive] in
      \<open>auto simp: work_calls_def run_after_admitted split: sum.splits\<close>)
  then show "stopped (es_rt s')" "\<exists>calls. work_calls s' = work_calls s @ calls \<and> length calls + admitted (es_run s') \<le> admitted (es_run s)"
    by auto
qed

lemma stopped_step:
  assumes "evstep s s'" "ev_inv s" "stopped (es_rt s)"
  shows "stopped (es_rt s') \<and> (\<exists>calls. work_calls s' = work_calls s @ calls \<and> length calls + admitted (es_run s') \<le> admitted (es_run s))"
  using assms(1)
proof cases
  case running
  then show ?thesis using stopped_run [OF running _ assms(3)] assms(2) by (simp add: ev_inv_def)
next
  case (calling i c s1)
  have "rt_inv s1" using ev_inv_step [OF assms(1,2)] calling(1) by (simp add: ev_inv_def rt_inv_def)
  from stopped_caller [OF calling(3) this assms(3)] show ?thesis using calling(1) by (simp add: work_calls_def)
qed (use assms(3) in \<open>simp_all add: work_calls_def\<close>)

lemma stopped_steps:
  assumes "evstep\<^sup>*\<^sup>* s s'" "ev_inv s" "stopped (es_rt s)"
  shows "stopped (es_rt s') \<and> (\<exists>calls. work_calls s' = work_calls s @ calls \<and> length calls + admitted (es_run s') \<le> admitted (es_run s))"
  using assms(1)
proof (induction rule: rtranclp_induct)
  case (step s1 s2)
  obtain c1 where c1: "work_calls s1 = work_calls s @ c1" "length c1 + admitted (es_run s1) \<le> admitted (es_run s)" using step.IH by blast
  obtain c2 where c2: "work_calls s2 = work_calls s1 @ c2" "length c2 + admitted (es_run s2) \<le> admitted (es_run s1)" "stopped (es_rt s2)"
    using stopped_step [OF step.hyps(2) ev_steps_inv [OF step.hyps(1) assms(2)]] step.IH by blast
  show ?case using c1 c2 by (intro conjI exI [of _ "c1 @ c2"]) simp_all
qed (use assms in simp)

lemma closing_out:
  assumes "ev_inv s" "ClosingController e \<in> set (es_callers s)"
  shows "\<not> in_loop (es_run s)" "stopped (es_rt s)"
  using assms by (auto simp: ev_inv_def rt_inv_def stop_inv_def dest!: bspec)

text \<open>
  C13. A stop fences the controller: once \<open>RequestStop\<close> or \<open>Close\<close> has marked the runtime, at most
  the one call that \<open>Run\<close> had already been admitted to make is still made, ever. And \<open>Close\<close> calls
  \<open>controller.Close\<close> only when \<open>Run\<close> is not in its loop: from then on there is no further call.
\<close>

theorem stop_fences_controller:
  assumes "newEventRuntime reader controller options handler now = Inr r" "ev_reach r s" "evstep\<^sup>*\<^sup>* s s'"
  shows "(stopRequested (es_rt s) \<longrightarrow>
      (\<exists>calls. work_calls s' = work_calls s @ calls \<and> length calls \<le> admitted (es_run s)))
    \<and> (ClosingController e \<in> set (es_callers s) \<longrightarrow> \<not> in_loop (es_run s) \<and> work_calls s' = work_calls s)"
proof (intro conjI impI)
  have inv: "ev_inv s" by (rule reach_inv [OF assms(1,2)])
  note after = stopped_steps [OF assms(3) inv]
  show "\<exists>calls. work_calls s' = work_calls s @ calls \<and> length calls \<le> admitted (es_run s)" if "stopRequested (es_rt s)"
  proof -
    have "stopped (es_rt s)" using that inv by (auto simp: ev_inv_def rt_inv_def stop_inv_def stopRequested_def)
    from after [OF this] obtain calls where "work_calls s' = work_calls s @ calls"
      "length calls + admitted (es_run s') \<le> admitted (es_run s)" by blast
    then show ?thesis by (intro exI [of _ calls]) simp
  qed
  assume c: "ClosingController e \<in> set (es_callers s)"
  show out: "\<not> in_loop (es_run s)" by (rule closing_out [OF inv c])
  then have "admitted (es_run s) = 0" by (cases "es_run s") simp_all
  then show "work_calls s' = work_calls s" using after [OF closing_out(2) [OF inv c]] by auto
qed

section \<open>Records are handled in order, at most once\<close>

fun pending_record :: "run_pc \<Rightarrow> EventRecord list" where
  "pending_record (RunAdmit (WorkRecord record) t) = [record]"
| "pending_record (RunLock (WorkRecord record) t) = [record]"
| "pending_record (RunParked (WorkRecord record) t g) = [record]"
| "pending_record (RunWork (WorkRecord record) t) = [record]"
| "pending_record pc = []"

fun over :: "run_pc \<Rightarrow> bool" where
  "over (RunRefused e) = True"
| "over (RunEnding e) = True"
| "over (RunReturned e) = True"
| "over pc = False"

fun reports_loss :: "run_pc \<Rightarrow> bool" where
  "reports_loss (RunEnding (Some e)) = errors_is e ErrEventSamplesLost"
| "reports_loss (RunReturned (Some e)) = errors_is e ErrEventSamplesLost"
| "reports_loss pc = False"

definition lossless :: "EventRecord \<Rightarrow> bool" where
  "lossless record \<longleftrightarrow> evd_LostSamples record = 0"

definition record_call :: "eventRecordHandler \<Rightarrow> EventRecord \<Rightarrow> owner_call option" where
  "record_call h record = (case handleRecord h record of Inl e \<Rightarrow> None | Inr c \<Rightarrow> Some c)"

definition record_calls :: "('r, 'c) evsys \<Rightarrow> owner_call list" where
  "record_calls s = filter (\<lambda>c. c \<noteq> CloseCall \<and> c \<noteq> TickCall) (es_calls s)"

definition reads_inv :: "('r, 'c) evsys \<Rightarrow> bool" where
  "reads_inv s \<longleftrightarrow>
     (if over (es_run s) then \<exists>rest. es_reads s = es_taken s @ rest \<and> length rest \<le> 1
      else es_reads s = es_taken s @ pending_record (es_run s))
     \<and> (\<forall>record \<in> set (es_reads s). lossless record \<or> reports_loss (es_run s))
     \<and> (\<forall>record \<in> set (es_taken s). lossless record)"

definition calls_inv :: "('r, 'c) evsys \<Rightarrow> bool" where
  "calls_inv s \<longleftrightarrow> record_calls s = List.map_filter (record_call (es_handler s)) (es_taken s)
     \<and> (es_run s = RunIdle \<longrightarrow> es_reads s = [] \<and> es_taken s = [])"

lemma handle_record_other: "handleRecord h record = Inr c \<Longrightarrow> c \<noteq> CloseCall \<and> c \<noteq> TickCall"
  by (auto simp: handleRecord_def split: eventRecordHandler.splits if_splits)

lemma map_filter_snoc: "List.map_filter f (xs @ [x]) = List.map_filter f xs @ (case f x of None \<Rightarrow> [] | Some y \<Rightarrow> [y])"
  by (simp add: List.map_filter_def split: option.splits)

lemma reads_run:
  assumes "run_step s s'" "reads_inv s" "calls_inv s"
  shows "reads_inv s'"
  using assms(1)
proof cases
  case (run_has_read nextTick deadline result)
  then show ?thesis using assms(2)
    by (cases result) (auto simp: reads_inv_def run_after_read_def lossless_def split: if_splits)
next
  case (run_locks work nextTick outcome r)
  then show ?thesis using assms(2) by (cases work) (auto simp: reads_inv_def split: work_outcome.splits)
next
  case (run_checks nextTick now)
  then show ?thesis using assms(2) by (auto simp: reads_inv_def run_after_check_def)
next
  case (run_called work nextTick e)
  then show ?thesis using assms(2) by (auto simp: reads_inv_def run_after_work_def split: run_work.splits option.splits)
next
  case (run_refused e)
  then show ?thesis using assms(2) by (auto simp: reads_inv_def run_after_refusal_def)
next
  case (run_ends e)
  then show ?thesis using assms(2) by (cases e) (auto simp: reads_inv_def)
next
  case (run_admits work nextTick)
  then show ?thesis using assms(2) by (cases work) (auto simp: reads_inv_def)
next
  case (run_admit_cancelled work nextTick e)
  then show ?thesis using assms(2) by (cases work) (auto simp: reads_inv_def)
next
  case (run_wakes work nextTick g)
  then show ?thesis using assms(2) by (cases work) (auto simp: reads_inv_def)
next
  case (run_parked_cancelled work nextTick g e)
  then show ?thesis using assms(2) by (cases work) (auto simp: reads_inv_def)
next
  case (run_calls work nextTick)
  then show ?thesis using assms(2) by (cases work) (auto simp: reads_inv_def)
qed (use assms(2,3) in \<open>auto simp: reads_inv_def calls_inv_def\<close>)

lemma calls_run:
  assumes "run_step s s'" "calls_inv s"
  shows "calls_inv s'"
  using assms(1)
proof cases
  case (run_calls work nextTick)
  then show ?thesis using assms(2)
    by (cases work) (auto simp: calls_inv_def record_calls_def work_call_def map_filter_snoc record_call_def
      split: sum.splits dest: handle_record_other)
next
  case (run_has_read nextTick deadline result)
  then show ?thesis using assms(2) run_after(1) [of "stopRequested (es_rt s)" nextTick result]
    by (auto simp: calls_inv_def record_calls_def in_loop_def)
next
  case (run_locks work nextTick outcome r)
  then show ?thesis using assms(2) by (auto simp: calls_inv_def record_calls_def split: work_outcome.splits)
next
  case (run_called work nextTick e)
  then show ?thesis using assms(2) run_after(7) [of "rn_opts (es_rt s)" work nextTick e]
    by (auto simp: calls_inv_def record_calls_def in_loop_def)
next
  case (run_checks nextTick now)
  then show ?thesis using assms(2) run_after(5) [of "stopRequested (es_rt s)" now nextTick]
    by (auto simp: calls_inv_def record_calls_def in_loop_def)
next
  case (run_refused e)
  then show ?thesis using assms(2) run_after(3) [of "stopRequested (es_rt s)" e]
    by (auto simp: calls_inv_def record_calls_def in_loop_def)
qed (use assms(2) in \<open>auto simp: calls_inv_def record_calls_def map_filter_simps\<close>)

lemma records_caller:
  assumes "caller_step c s c' s'"
  shows "reads_inv s' = reads_inv s" "calls_inv s' = calls_inv s"
  using assms by (cases; simp add: reads_inv_def calls_inv_def record_calls_def)+

lemma records_step:
  assumes "evstep s s'" "reads_inv s" "calls_inv s"
  shows "reads_inv s' \<and> calls_inv s'"
  using assms(1)
proof cases
  case running
  then show ?thesis using reads_run [OF running assms(2,3)] calls_run [OF running assms(3)] by simp
next
  case (calling i c s1)
  then have "reads_inv s' = reads_inv s1" "calls_inv s' = calls_inv s1"
    by (simp_all add: reads_inv_def calls_inv_def record_calls_def)
  then show ?thesis using records_caller [OF calling(3)] assms(2,3) by simp
qed (use assms(2,3) in \<open>auto simp: reads_inv_def calls_inv_def record_calls_def split: if_splits\<close>)

lemma records_reach: "ev_reach r s \<Longrightarrow> reads_inv s \<and> calls_inv s"
  unfolding ev_reach_def
proof (induction rule: rtranclp_induct)
  case base
  show ?case by (simp add: ev_start_def reads_inv_def calls_inv_def record_calls_def map_filter_simps)
qed (use records_step in blast)

text \<open>
  C22. No event is handled twice, out of order or after a loss: the records given to the handler are
  those read, in this order, except possibly the last one; the calls with samples are those the handler
  makes for them; and if a record read reports lost samples, none of them is handled and \<open>Run\<close> ends
  with \<open>ErrEventSamplesLost\<close>.
\<close>

theorem records_handled_in_order:
  assumes "ev_reach r s"
  shows "(\<exists>rest. es_reads s = es_taken s @ rest \<and> length rest \<le> 1)
    \<and> record_calls s = List.map_filter (record_call (es_handler s)) (es_taken s)
    \<and> (\<forall>record \<in> set (es_reads s). evd_LostSamples record \<noteq> 0 \<longrightarrow> record \<notin> set (es_taken s) \<and> reports_loss (es_run s))"
proof -
  have "\<exists>rest. es_reads s = es_taken s @ rest \<and> length rest \<le> 1"
  proof (cases "over (es_run s)")
    case False
    then have "es_reads s = es_taken s @ pending_record (es_run s)" using records_reach [OF assms] by (simp add: reads_inv_def)
    moreover have "length (pending_record (es_run s)) \<le> 1" by (cases "es_run s" rule: pending_record.cases) simp_all
    ultimately show ?thesis by blast
  qed (use records_reach [OF assms] in \<open>simp add: reads_inv_def\<close>)
  then show ?thesis using records_reach [OF assms] by (auto simp: reads_inv_def calls_inv_def lossless_def)
qed

section \<open>A run\<close>

text \<open>A schedule names the steps of a run: those of \<open>Run\<close>, and those of the call at an index.\<close>

datatype ev_move =
    MArrive caller
  | MRun time "err + EventRecord"
  | MCall nat time

fun run_move :: "time \<Rightarrow> err + EventRecord \<Rightarrow> ('r, 'c) evsys \<Rightarrow> ('r, 'c) evsys option" where
  "run_move now result s =
     (case es_run s of
        RunIdle \<Rightarrow>
          (case Run_enter (es_rt s) of
             (Inr (Some h), r) \<Rightarrow>
               Some (s\<lparr>es_rt := r, es_run := RunTop (now + ro_TickInterval (rn_opts r)), es_handler := h\<rparr>)
           | _ \<Rightarrow> None)
      | RunTop nextTick \<Rightarrow> Some (s\<lparr>es_run := RunRead nextTick (read_deadline (rn_opts (es_rt s)) now nextTick)\<rparr>)
      | RunRead nextTick deadline \<Rightarrow>
          Some (s\<lparr>es_run := run_after_read (stopRequested (es_rt s)) nextTick result,
            es_reads := es_reads s @ (case result of Inl e \<Rightarrow> [] | Inr record \<Rightarrow> [record])\<rparr>)
      | RunAdmit work nextTick \<Rightarrow> Some (s\<lparr>es_run := RunLock work nextTick\<rparr>)
      | RunLock work nextTick \<Rightarrow>
          (case beginGuardableWork (es_rt s) of
             (outcome, r) \<Rightarrow> Some (s\<lparr>es_rt := r, es_run := (case outcome of
                 WorkAdmitted \<Rightarrow> RunWork work nextTick
               | WorkRefused e \<Rightarrow> RunRefused e
               | WorkWaits g \<Rightarrow> RunParked work nextTick g)\<rparr>))
      | RunWork work nextTick \<Rightarrow>
          Some (s\<lparr>es_run := RunBusy work nextTick,
            es_taken := es_taken s @ (case work of WorkRecord record \<Rightarrow> [record] | WorkTick t \<Rightarrow> []),
            es_calls := es_calls s @ (case work_call (es_handler s) work of Inl e \<Rightarrow> [] | Inr c \<Rightarrow> [c])\<rparr>)
      | RunBusy work nextTick \<Rightarrow>
          (case work_call (es_handler s) work of
             Inl e \<Rightarrow> None
           | Inr c \<Rightarrow> Some (s\<lparr>es_rt := finishGuardableWork (es_rt s),
               es_run := run_after_work (rn_opts (es_rt s)) work nextTick None\<rparr>))
      | RunCheck nextTick \<Rightarrow> Some (s\<lparr>es_run := run_after_check (stopRequested (es_rt s)) now nextTick\<rparr>)
      | _ \<Rightarrow> None)"

fun caller_move :: "time \<Rightarrow> caller \<Rightarrow> ('r, 'c) evsys \<Rightarrow> (caller \<times> ('r, 'c) evsys) option" where
  "caller_move now (Pausing lease revision) s =
     (case pause_turn lease revision None now (es_tokens s) (es_rt s) of
        (outcome, r) \<Rightarrow> Some (pause_next outcome, s\<lparr>es_rt := r, es_tokens := Suc (es_tokens s)\<rparr>))"
| "caller_move now Closing s =
     (case EventRuntime_Close_enter now (es_rt s) of
        (outcome, r) \<Rightarrow> Some (case outcome of
            CloseDone \<Rightarrow> CallReturned None
          | CloseBehind g \<Rightarrow> CloseParked g
          | CloseOwned running hasController \<Rightarrow> ReaderEnter (ForClose running hasController), s\<lparr>es_rt := r\<rparr>))"
| "caller_move now (ReaderEnter f) s =
     (case closeReader_enter (es_rt s) of
        (outcome, r) \<Rightarrow> Some (case outcome of
            ReaderGone \<Rightarrow> reader_next f None
          | ReaderWaits g \<Rightarrow> ReaderParked f g
          | ReaderOwned \<Rightarrow> ReaderClosing f, s\<lparr>es_rt := r\<rparr>))"
| "caller_move now (ReaderClosing f) s = Some (reader_next f None, s\<lparr>es_rt := closeReader_finish None (es_rt s)\<rparr>)"
| "caller_move now (CloseJoin running hasController e) s =
     (if (\<not> running \<or> rn_runDone (es_rt s)) \<and> hasController
      then Some (ClosingController e, s\<lparr>es_calls := es_calls s @ [CloseCall]\<rparr>) else None)"
| "caller_move now c s = None"

fun ev_do :: "ev_move \<Rightarrow> ('r, 'c) evsys \<Rightarrow> ('r, 'c) evsys option" where
  "ev_do (MArrive c) s =
     (if c = Pausing zero_lease 0 \<or> c = Closing then Some (s\<lparr>es_callers := es_callers s @ [c]\<rparr>) else None)"
| "ev_do (MRun now result) s = run_move now result s"
| "ev_do (MCall i now) s =
     (if i < length (es_callers s)
      then map_option (\<lambda>(c, s'). s'\<lparr>es_callers := (es_callers s)[i := c]\<rparr>) (caller_move now (es_callers s ! i) s)
      else None)"

fun ev_play :: "ev_move list \<Rightarrow> ('r, 'c) evsys \<Rightarrow> ('r, 'c) evsys option" where
  "ev_play [] s = Some s"
| "ev_play (m # ms) s = Option.bind (ev_do m s) (ev_play ms)"

lemma caller_move_step: "caller_move now c s = Some (c', s') \<Longrightarrow> caller_step c s c' s'"
  by (induction now c s rule: caller_move.induct) (auto split: prod.splits if_splits intro: caller_step.intros)

lemma run_move_step:
  assumes "run_move now result s = Some s'"
  shows "run_step s s'"
proof (cases "es_run s")
  case RunIdle
  then show ?thesis using assms run_starts [OF RunIdle]
    by (auto split: prod.splits sum.splits option.splits)
next
  case (RunBusy work t)
  then show ?thesis using assms run_called [OF RunBusy, of None] by (auto split: sum.splits)
next
  case (RunLock work t)
  then show ?thesis using assms run_locks [OF RunLock] by (auto split: prod.splits)
qed (use assms in \<open>auto intro: run_step.intros\<close>)

lemma ev_do_step: "ev_do m s = Some s' \<Longrightarrow> evstep s s'"
  by (cases m) (auto split: if_splits intro: evstep.intros run_move_step caller_move_step simp del: run_move.simps)

lemma ev_play_steps: "ev_play ms s = Some s' \<Longrightarrow> evstep\<^sup>*\<^sup>* s s'"
proof (induction ms arbitrary: s)
  case (Cons m ms)
  then obtain s1 where "ev_do m s = Some s1" "ev_play ms s1 = Some s'" by (auto simp: bind_eq_Some_conv)
  then show ?case using Cons.IH ev_do_step by (meson converse_rtranclp_into_rtranclp)
qed simp

definition sample_runtime :: "(unit, unit) EventRuntime" where
  "sample_runtime = projr (newEventRuntime (Some ()) (Some ()) \<lparr>ro_PollInterval = 2, ro_TickInterval = 5\<rparr> (Some RawRecords) 0)"

lemma sample_runtime_new:
  "newEventRuntime (Some ()) (Some ()) \<lparr>ro_PollInterval = 2, ro_TickInterval = 5\<rparr> (Some RawRecords) 0 = Inr sample_runtime"
  by (simp add: sample_runtime_def newEventRuntime_def)

definition sample_record :: EventRecord where
  "sample_record = zero_record\<lparr>evd_RawSample := [1, 2, 3]\<rparr>"

text \<open>Until it returns its first lease, and then while a record waits behind the barrier.\<close>

definition sample_pausing :: "(unit, unit) evsys" where
  "sample_pausing = the (ev_play [MArrive (Pausing zero_lease 0)] (ev_start sample_runtime))"

definition sample_paused :: "(unit, unit) evsys" where
  "sample_paused = the (ev_play [MCall 0 1] sample_pausing)"

definition sample_parked :: "(unit, unit) evsys" where
  "sample_parked = the (ev_play (replicate 5 (MRun 2 (Inr sample_record))) sample_paused)"

definition sample_handled :: "(unit, unit) evsys" where
  "sample_handled = the (ev_play (replicate 8 (MRun 2 (Inr sample_record)) @ replicate 2 (MRun 3 (Inr (zero_record\<lparr>evd_LostSamples := 1\<rparr>))))
     (ev_start sample_runtime))"

definition sample_stopping :: "(unit, unit) evsys" where
  "sample_stopping = the (ev_play [MArrive Closing, MCall 0 1, MCall 0 1, MCall 0 1, MCall 0 1] (ev_start sample_runtime))"

lemma played: "ev_play ms s \<noteq> None \<Longrightarrow> evstep\<^sup>*\<^sup>* s (the (ev_play ms s))"
  by (auto intro: ev_play_steps)

lemma pause_move:
  "i < length (es_callers s) \<Longrightarrow> caller_move now (es_callers s ! i) s = Some (PauseDone lease None, s1)
     \<Longrightarrow> pause_returns s lease (the (ev_play [MCall i now] s))"
  by (auto simp: pause_returns_def simp del: caller_move.simps dest!: caller_move_step)

lemma sample_pausing_reach: "ev_reach sample_runtime sample_pausing"
proof -
  have "ev_play [MArrive (Pausing zero_lease 0)] (ev_start sample_runtime) \<noteq> None" by code_simp
  then show ?thesis unfolding ev_reach_def sample_pausing_def by (rule played)
qed

theorem held_barrier_keeps_controller_idle_witness:
  "pause_returns sample_pausing (NewStartupGuardLease 0) sample_paused \<and> evstep\<^sup>*\<^sup>* sample_paused sample_parked
    \<and> es_run sample_parked = RunParked (WorkRecord sample_record) 7 2 \<and> work_calls sample_parked = work_calls sample_paused"
proof -
  have "es_callers sample_pausing = [Pausing zero_lease 0]" by (simp add: sample_pausing_def ev_start_def)
  moreover have "caller_move 1 (Pausing zero_lease 0) sample_pausing
    = Some (PauseDone (NewStartupGuardLease 0) None, snd (the (caller_move 1 (Pausing zero_lease 0) sample_pausing)))"
    by code_simp
  ultimately have p: "pause_returns sample_pausing (NewStartupGuardLease 0) sample_paused"
    unfolding sample_paused_def by (intro pause_move) simp_all
  have "ev_play (replicate 5 (MRun 2 (Inr sample_record))) sample_paused \<noteq> None" by code_simp
  then have s: "evstep\<^sup>*\<^sup>* sample_paused sample_parked" unfolding sample_parked_def by (rule played)
  have "sl_Token (NewStartupGuardLease 0) \<notin> set (es_resumed sample_parked)" by code_simp
  from held_barrier_keeps_controller_idle [OF sample_runtime_new sample_pausing_reach p s this]
  have "work_calls sample_parked = work_calls sample_paused" by simp
  moreover have "es_run sample_parked = RunParked (WorkRecord sample_record) 7 2" by code_simp
  ultimately show ?thesis using p s by simp
qed

theorem stop_fences_controller_witness:
  "stopRequested (es_rt sample_stopping) \<and> ClosingController None \<in> set (es_callers sample_stopping)
    \<and> \<not> in_loop (es_run sample_stopping) \<and> work_calls sample_stopping = []"
proof -
  have "ev_play [MArrive Closing, MCall 0 1, MCall 0 1, MCall 0 1, MCall 0 1] (ev_start sample_runtime) \<noteq> None" by code_simp
  then have "ev_reach sample_runtime sample_stopping" unfolding ev_reach_def sample_stopping_def by (rule played)
  moreover have "ClosingController None \<in> set (es_callers sample_stopping)" "stopRequested (es_rt sample_stopping)"
    "work_calls sample_stopping = []" by code_simp+
  ultimately show ?thesis
    using stop_fences_controller [OF sample_runtime_new _ rtranclp.rtrancl_refl, of sample_stopping None] by simp
qed

theorem records_handled_in_order_witness:
  "es_taken sample_handled = [sample_record] \<and> length (es_reads sample_handled) = 2
    \<and> record_calls sample_handled = [HandleSampleCall [1, 2, 3]] \<and> reports_loss (es_run sample_handled)"
proof -
  have "ev_play (replicate 8 (MRun 2 (Inr sample_record)) @ replicate 2 (MRun 3 (Inr (zero_record\<lparr>evd_LostSamples := 1\<rparr>))))
    (ev_start sample_runtime) \<noteq> None" by code_simp
  then have r: "ev_reach sample_runtime sample_handled" unfolding ev_reach_def sample_handled_def by (rule played)
  have t: "es_taken sample_handled = [sample_record]" "es_handler sample_handled = RawRecords"
    "es_reads sample_handled = [sample_record, zero_record\<lparr>evd_LostSamples := 1\<rparr>]" by code_simp+
  from records_handled_in_order [OF r] show ?thesis unfolding t
    by (simp add: map_filter_simps record_call_def handleRecord_def sample_record_def zero_record_def)
qed

end
