(* ===== verification/Event_Reader.thy ===== *)
theory Event_Reader
  imports Event_Runtime
begin

text \<open>
  The reader in front of the event runtime (\<open>production_event_reader.go\<close>). The ring reader and the
  kernel's loss counter are interfaces: functions on the world \<open>'x\<close>. A \<open>Read\<close> is \<open>None\<close> only where
  the code would panic. The theorem says that the captures it delivers are gap-free per CPU.
\<close>

record 'x EventReader =
  rd_Read :: "'x \<Rightarrow> (EventRecord \<times> err option) \<times> 'x"
  rd_SetDeadline :: "time \<Rightarrow> 'x \<Rightarrow> 'x"
  rd_Close :: "'x \<Rightarrow> err option \<times> 'x"

type_synonym 'x eventLossCounter = "'x \<Rightarrow> (err + u64) \<times> 'x"

record captureSequenceState =
  cq_sequence :: u64
  cq_fingerprint :: "byte list"

record 'x productionEventReader =
  pr_reader :: "'x EventReader option"
  pr_identity :: RuntimeIdentity
  pr_sequences :: "captureSequenceState list"
  pr_losses :: "'x eventLossCounter option"
  pr_lastLoss :: u64

definition newProductionEventReader ::
  "'x EventReader option \<Rightarrow> RuntimeIdentity \<Rightarrow> int \<Rightarrow> 'x eventLossCounter option \<Rightarrow> u64 \<Rightarrow> err + 'x productionEventReader" where
  "newProductionEventReader reader identity possibleCPUs losses initialLoss =
     (if reader = None then Inl (ErrNew ''faketcp production event reader is nil'')
      else (case validateRuntimeIdentity identity of
        Some e \<Rightarrow> Inl (ErrWrap ''faketcp production event reader runtime identity'' [e])
      | None \<Rightarrow>
          if possibleCPUs \<le> 0 then Inl (ErrNew ''faketcp production event reader possible CPU count must be positive'')
          else if losses = None then Inl (ErrNew ''faketcp production event loss counter is nil'')
          else Inr \<lparr>pr_reader = reader, pr_identity = identity,
            pr_sequences = replicate (nat possibleCPUs) \<lparr>cq_sequence = 0, cq_fingerprint = zero_array 32\<rparr>,
            pr_losses = losses, pr_lastLoss = initialLoss\<rparr>))"

text \<open>A result of \<open>Read\<close>: a record with the nil error, or the zero record with an error.\<close>

definition read_failed :: "err \<Rightarrow> EventRecord \<times> err option" where
  "read_failed e = (zero_record, Some e)"

definition read_lost :: "u64 \<Rightarrow> EventRecord \<times> err option" where
  "read_lost lost = (zero_record\<lparr>evd_LostSamples := lost\<rparr>, None)"

definition read_owned :: "EventRecord \<Rightarrow> ownedDecodedEvent \<Rightarrow> EventRecord \<times> err option" where
  "read_owned record owned = (record\<lparr>evd_ownedSample := owned, evd_hasOwnedSample := True\<rparr>, None)"

text \<open>The part of \<open>Read\<close> that orders a need-handshake capture; the loss test is the \<open>switch\<close>.\<close>

definition read_capture ::
  "(byte list \<Rightarrow> byte list) \<Rightarrow> EventRecord \<Rightarrow> DecodedEvent \<Rightarrow> 'x productionEventReader
     \<Rightarrow> (EventRecord \<times> err option) \<times> 'x productionEventReader" where
  "read_capture sha256 record decoded reader =
     (let event = de_Event decoded; cpu = unat (ev_CaptureCPU event) in
      if cpu \<ge> length (pr_sequences reader)
      then (read_failed (ErrNew ''faketcp capture CPU is outside possible CPU count''), reader)
      else
        let state = pr_sequences reader ! cpu; sequence = ev_CaptureSequence event;
            fingerprint = sha256 (evd_RawSample record);
            delivered = read_owned record \<lparr>od_Event = event, od_Packet = de_Packet decoded, od_Fingerprint = fingerprint\<rparr> in
        if sequence = cq_sequence state \<and> sequence \<noteq> 0 then
          (if fingerprint \<noteq> cq_fingerprint state then (read_failed (ErrVar ErrCaptureIdentityConflict), reader)
           else (delivered, reader))
        else if sequence \<le> cq_sequence state
        then (read_failed (ErrWrap ''on CPU'' [ErrVar ErrEventCaptureOutOfOrder]), reader)
        else if sequence \<noteq> cq_sequence state + 1 then (read_lost (sequence - cq_sequence state - 1), reader)
        else (delivered,
          reader\<lparr>pr_sequences := (pr_sequences reader)[cpu := \<lparr>cq_sequence = sequence, cq_fingerprint = fingerprint\<rparr>]\<rparr>))"

definition read_decoded ::
  "(byte list \<Rightarrow> byte list) \<Rightarrow> EventRecord \<Rightarrow> DecodedEvent \<Rightarrow> 'x productionEventReader
     \<Rightarrow> (EventRecord \<times> err option) \<times> 'x productionEventReader" where
  "read_decoded sha256 record decoded reader =
     (if runtimeIdentityFromEvent (de_Event decoded) \<noteq> pr_identity reader
      then (read_failed (ErrNew ''faketcp event runtime identity does not match reader''), reader)
      else if ev_Type (de_Event decoded) \<noteq> FakeTCPEventNeedHandshake
      then (read_owned record \<lparr>od_Event = de_Event decoded, od_Packet = de_Packet decoded, od_Fingerprint = zero_array 32\<rparr>, reader)
      else read_capture sha256 record decoded reader)"

definition read_record ::
  "(byte list \<Rightarrow> byte list) \<Rightarrow> endian \<Rightarrow> EventRecord \<times> err option \<Rightarrow> err + u64 \<Rightarrow> 'x productionEventReader
     \<Rightarrow> ((EventRecord \<times> err option) \<times> 'x productionEventReader) option" where
  "read_record sha256 en result count reader =
     (case (result, count) of
        (_, Inl lossErr) \<Rightarrow> Some (read_failed (ErrWrap ''read faketcp kernel event-loss counter'' [lossErr]), reader)
      | ((record, readErr), Inr currentLoss) \<Rightarrow>
          if currentLoss < pr_lastLoss reader
          then Some (read_failed (ErrNew ''faketcp kernel event-loss counter decreased''), reader)
          else
            let kernelLoss = currentLoss - pr_lastLoss reader; reader1 = reader\<lparr>pr_lastLoss := currentLoss\<rparr> in
            if kernelLoss > - 1 - evd_LostSamples record
            then Some (read_failed (ErrNew ''faketcp event-loss count overflowed''), reader1)
            else if kernelLoss + evd_LostSamples record \<noteq> 0
            then Some (read_lost (kernelLoss + evd_LostSamples record), reader1)
            else (case readErr of
              Some e \<Rightarrow> Some (read_failed e, reader1)
            | None \<Rightarrow>
                (case decodeBorrowedEventSample en (evd_RawSample record) of
                   None \<Rightarrow> None
                 | Some (Inl e) \<Rightarrow> Some (read_failed (ErrWrap ''validate ordered faketcp event'' [e]), reader1)
                 | Some (Inr decoded) \<Rightarrow> Some (read_decoded sha256 record decoded reader1))))"

definition ProductionReader_Read ::
  "(byte list \<Rightarrow> byte list) \<Rightarrow> endian \<Rightarrow> 'x productionEventReader \<Rightarrow> 'x
     \<Rightarrow> ((EventRecord \<times> err option) \<times> 'x productionEventReader \<times> 'x) option" where
  "ProductionReader_Read sha256 en reader x =
     (case (pr_reader reader, pr_losses reader) of
        (Some inner, Some losses) \<Rightarrow>
          (case rd_Read inner x of (result, x1) \<Rightarrow>
          (case losses x1 of (count, x2) \<Rightarrow>
             map_option (\<lambda>(out, reader1). (out, reader1, x2)) (read_record sha256 en result count reader)))
      | _ \<Rightarrow> Some (read_failed (ErrNew ''faketcp production event reader is closed''), reader, x))"

definition ProductionReader_SetDeadline :: "time \<Rightarrow> 'x productionEventReader option \<Rightarrow> 'x \<Rightarrow> 'x" where
  "ProductionReader_SetDeadline deadline reader x =
     (case reader of
        None \<Rightarrow> x
      | Some r \<Rightarrow> (case pr_reader r of None \<Rightarrow> x | Some inner \<Rightarrow> rd_SetDeadline inner deadline x))"

definition ProductionReader_Close :: "'x productionEventReader option \<Rightarrow> 'x \<Rightarrow> err option \<times> 'x" where
  "ProductionReader_Close reader x =
     (case reader of
        None \<Rightarrow> (None, x)
      | Some r \<Rightarrow> (case pr_reader r of None \<Rightarrow> (None, x) | Some inner \<Rightarrow> rd_Close inner x))"

text \<open>\<open>n\<close> reads, one after the other.\<close>

fun read_all ::
  "(byte list \<Rightarrow> byte list) \<Rightarrow> endian \<Rightarrow> nat \<Rightarrow> 'x productionEventReader \<Rightarrow> 'x
     \<Rightarrow> ((EventRecord \<times> err option) list \<times> 'x productionEventReader \<times> 'x) option" where
  "read_all sha256 en 0 reader x = Some ([], reader, x)"
| "read_all sha256 en (Suc n) reader x =
     (case read_all sha256 en n reader x of
        None \<Rightarrow> None
      | Some (outs, reader1, x1) \<Rightarrow>
          map_option (\<lambda>(out, reader2, x2). (outs @ [out], reader2, x2)) (ProductionReader_Read sha256 en reader1 x1))"

section \<open>Captures are delivered without gaps\<close>

text \<open>The capture sequence and the fingerprint of a delivered need-handshake record of one CPU.\<close>

definition delivered :: "nat \<Rightarrow> EventRecord \<times> err option \<Rightarrow> (u64 \<times> byte list) list" where
  "delivered cpu out =
     (let owned = evd_ownedSample (fst out); event = od_Event owned in
      if snd out = None \<and> evd_hasOwnedSample (fst out) \<and> ev_Type event = FakeTCPEventNeedHandshake
         \<and> unat (ev_CaptureCPU event) = cpu
      then [(ev_CaptureSequence event, od_Fingerprint owned)] else [])"

definition captures :: "nat \<Rightarrow> (EventRecord \<times> err option) list \<Rightarrow> (u64 \<times> byte list) list" where
  "captures cpu outs = concat (map (delivered cpu) outs)"

definition of_identity :: "RuntimeIdentity \<Rightarrow> EventRecord \<times> err option \<Rightarrow> bool" where
  "of_identity identity out \<longleftrightarrow>
     (evd_hasOwnedSample (fst out) \<longrightarrow> runtimeIdentityFromEvent (od_Event (evd_ownedSample (fst out))) = identity)"

text \<open>What a read may do: deliver no capture, a repetition of the last one of a CPU, or its successor.\<close>

inductive ordered :: "captureSequenceState list \<Rightarrow> EventRecord \<times> err option \<Rightarrow> captureSequenceState list \<Rightarrow> bool" where
  no_capture: "(\<And>cpu. delivered cpu out = []) \<Longrightarrow> ordered qs out qs"
| repeated: "cpu < length qs \<Longrightarrow> cq_sequence (qs ! cpu) \<noteq> 0 \<Longrightarrow>
    (\<And>c. delivered c out = (if c = cpu then [(cq_sequence (qs ! cpu), cq_fingerprint (qs ! cpu))] else [])) \<Longrightarrow> ordered qs out qs"
| advanced: "cpu < length qs \<Longrightarrow> unat n = Suc (unat (cq_sequence (qs ! cpu))) \<Longrightarrow>
    (\<And>c. delivered c out = (if c = cpu then [(n, f)] else [])) \<Longrightarrow>
    ordered qs out (qs[cpu := \<lparr>cq_sequence = n, cq_fingerprint = f\<rparr>])"

lemma delivered_simps [simp]:
  "delivered c (read_failed e) = []" "delivered c (read_lost n) = []"
  "delivered c (read_owned record owned) =
     (if ev_Type (od_Event owned) = FakeTCPEventNeedHandshake \<and> unat (ev_CaptureCPU (od_Event owned)) = c
      then [(ev_CaptureSequence (od_Event owned), od_Fingerprint owned)] else [])"
  by (simp_all add: delivered_def read_failed_def read_lost_def read_owned_def zero_record_def Let_def)

lemma of_identity_simps [simp]:
  "of_identity i (read_failed e)" "of_identity i (read_lost n)"
  "of_identity i (read_owned record owned) \<longleftrightarrow> runtimeIdentityFromEvent (od_Event owned) = i"
  by (simp_all add: of_identity_def read_failed_def read_lost_def read_owned_def zero_record_def)

lemma word_successor: "a < b \<Longrightarrow> b = a + 1 \<Longrightarrow> unat b = Suc (unat a)" for a b :: u64
  by (auto simp: word_less_nat_alt unat_word_ariths mod_Suc split: if_splits)

lemma read_capture_ordered:
  assumes "read_capture sha256 record decoded reader = (out, reader')" "ev_Type (de_Event decoded) = FakeTCPEventNeedHandshake"
  shows "ordered (pr_sequences reader) out (pr_sequences reader')"
proof -
  let ?cpu = "unat (ev_CaptureCPU (de_Event decoded))" and ?n = "ev_CaptureSequence (de_Event decoded)"
  let ?st = "pr_sequences reader ! ?cpu"
  consider (none) "pr_sequences reader' = pr_sequences reader" "\<And>c. delivered c out = []"
    | (same) "?cpu < length (pr_sequences reader)" "?n = cq_sequence ?st" "?n \<noteq> 0" "pr_sequences reader' = pr_sequences reader"
        "\<And>c. delivered c out = (if c = ?cpu then [(cq_sequence ?st, cq_fingerprint ?st)] else [])"
    | (succ) "?cpu < length (pr_sequences reader)" "cq_sequence ?st < ?n" "?n = cq_sequence ?st + 1"
        "pr_sequences reader' = (pr_sequences reader)[?cpu := \<lparr>cq_sequence = ?n, cq_fingerprint = sha256 (evd_RawSample record)\<rparr>]"
        "\<And>c. delivered c out = (if c = ?cpu then [(?n, sha256 (evd_RawSample record))] else [])"
    using assms by (auto simp: read_capture_def Let_def not_le split: if_splits)
  then show ?thesis
  proof cases
    case succ
    then show ?thesis using advanced [OF succ(1) word_successor [OF succ(2,3)] succ(5)] by simp
  qed (auto intro: ordered.intros)
qed

lemma ordered_none [simp]: "ordered qs (read_failed e) qs" "ordered qs (read_lost n) qs"
  by (simp_all add: no_capture)

lemma read_decoded_ordered:
  assumes "read_decoded sha256 record decoded reader = (out, reader')"
  shows "ordered (pr_sequences reader) out (pr_sequences reader')" "pr_identity reader' = pr_identity reader"
    "of_identity (pr_identity reader) out"
proof -
  show "ordered (pr_sequences reader) out (pr_sequences reader')"
    using assms read_capture_ordered [of sha256 _ decoded reader out reader']
    by (auto simp: read_decoded_def intro: no_capture split: if_splits)
  show "pr_identity reader' = pr_identity reader" "of_identity (pr_identity reader) out"
    using assms by (auto simp: read_decoded_def read_capture_def Let_def split: if_splits)
qed

lemma read_record_ordered:
  assumes "read_record sha256 en (rec, readErr) count reader = Some (out, reader')"
  shows "ordered (pr_sequences reader) out (pr_sequences reader') \<and> pr_identity reader' = pr_identity reader
    \<and> of_identity (pr_identity reader) out"
proof -
  have "ordered (pr_sequences reader) out (pr_sequences reader') \<and> pr_identity reader' = pr_identity reader
    \<and> of_identity (pr_identity reader) out"
    if "read_decoded sha256 rec decoded (reader\<lparr>pr_lastLoss := n\<rparr>) = (out, reader')" for decoded n
    using read_decoded_ordered [OF that] by simp
  note decoded = this
  show ?thesis
  proof (cases count)
    case (Inr n)
    obtain r where r: "decodeBorrowedEventSample en (evd_RawSample rec) = Some r" using decode_borrowed_exact by blast
    show ?thesis using assms Inr r decoded
      by (cases readErr; cases r) (auto simp: read_record_def Let_def simp del: of_identity_simps(3) split: if_splits)
  qed (use assms in \<open>auto simp: read_record_def\<close>)
qed

lemma read_record_returns: "read_record sha256 en result count reader \<noteq> None"
proof -
  obtain r where "decodeBorrowedEventSample en (evd_RawSample (fst result)) = Some r" using decode_borrowed_exact by blast
  then show ?thesis
    by (cases result) (auto simp: read_record_def Let_def simp del: split_paired_Ex split: option.splits sum.splits)
qed

lemma production_read_ordered:
  obtains out reader' x' where "ProductionReader_Read sha256 en reader x = Some (out, reader', x')"
    "ordered (pr_sequences reader) out (pr_sequences reader')" "pr_identity reader' = pr_identity reader"
    "of_identity (pr_identity reader) out"
proof (cases "\<exists>inner losses. pr_reader reader = Some inner \<and> pr_losses reader = Some losses")
  case True
  then obtain inner losses where live: "pr_reader reader = Some inner" "pr_losses reader = Some losses" by blast
  obtain rec readErr x1 where r: "rd_Read inner x = ((rec, readErr), x1)" by (metis surj_pair)
  obtain count x2 where c: "losses x1 = (count, x2)" by fastforce
  obtain out reader' where o: "read_record sha256 en (rec, readErr) count reader = Some (out, reader')"
    using read_record_returns [of sha256 en "(rec, readErr)" count reader] by auto
  show thesis using that [of out reader' x2] read_record_ordered [OF o] live r c o by (simp add: ProductionReader_Read_def)
next
  case False
  then have "ProductionReader_Read sha256 en reader x
    = Some (read_failed (ErrNew ''faketcp production event reader is closed''), reader, x)"
    by (auto simp: ProductionReader_Read_def split: option.splits)
  then show thesis using that by simp
qed

definition cpu_inv :: "captureSequenceState \<Rightarrow> (u64 \<times> byte list) list \<Rightarrow> bool" where
  "cpu_inv q caps \<longleftrightarrow> map (unat \<circ> fst) (remdups_adj caps) = [1..<Suc (unat (cq_sequence q))]
     \<and> (if caps = [] then cq_sequence q = 0 else last caps = (cq_sequence q, cq_fingerprint q))"

definition seq_inv :: "captureSequenceState list \<Rightarrow> (EventRecord \<times> err option) list \<Rightarrow> bool" where
  "seq_inv qs outs \<longleftrightarrow> (\<forall>cpu < length qs. cpu_inv (qs ! cpu) (captures cpu outs)) \<and> (\<forall>cpu \<ge> length qs. captures cpu outs = [])"

lemma remdups_adj_snoc:
  "remdups_adj (xs @ [x]) = (if xs \<noteq> [] \<and> last xs = x then remdups_adj xs else remdups_adj xs @ [x])"
proof (cases xs rule: rev_cases)
  case (snoc ys y)
  then show ?thesis using remdups_adj_append_two [of ys y x] by simp
qed simp

lemma cpu_repeated: "cpu_inv q caps \<Longrightarrow> cq_sequence q \<noteq> 0 \<Longrightarrow> cpu_inv q (caps @ [(cq_sequence q, cq_fingerprint q)])"
  by (auto simp: cpu_inv_def remdups_adj_snoc split: if_splits)

lemma cpu_advanced:
  assumes "cpu_inv q caps" "unat n = Suc (unat (cq_sequence q))"
  shows "cpu_inv \<lparr>cq_sequence = n, cq_fingerprint = f\<rparr> (caps @ [(n, f)])"
proof -
  have "\<not> (caps \<noteq> [] \<and> last caps = (n, f))" using assms by (auto simp: cpu_inv_def)
  moreover have "[1..<Suc (unat n)] = [1..<unat n] @ [unat n]" using assms(2) by simp
  ultimately show ?thesis using assms by (simp add: cpu_inv_def remdups_adj_snoc del: upt_Suc)
qed

lemma seq_inv_step:
  assumes "seq_inv qs outs" "ordered qs out qs'"
  shows "seq_inv qs' (outs @ [out])" and "length qs' = length qs"
proof -
  have snoc: "captures c (outs @ [out]) = captures c outs @ delivered c out" for c by (simp add: captures_def)
  show "length qs' = length qs" using assms(2) by cases simp_all
  show "seq_inv qs' (outs @ [out])" using assms(2)
  proof cases
    case no_capture
    then show ?thesis using assms(1) by (simp add: seq_inv_def snoc)
  next
    case (repeated cpu)
    then show ?thesis using assms(1) cpu_repeated by (simp add: seq_inv_def snoc)
  next
    case (advanced cpu n f)
    then have "cpu_inv \<lparr>cq_sequence = n, cq_fingerprint = f\<rparr> (captures cpu outs @ [(n, f)])"
      using assms(1) by (intro cpu_advanced [of "qs ! cpu"]) (simp_all add: seq_inv_def)
    then show ?thesis using assms(1) advanced by (simp add: seq_inv_def snoc nth_list_update)
  qed
qed

lemma read_all_ordered:
  assumes "seq_inv (pr_sequences reader) []"
  shows "\<exists>outs reader' x'. read_all sha256 en n reader x = Some (outs, reader', x') \<and> length outs = n
    \<and> seq_inv (pr_sequences reader') outs \<and> length (pr_sequences reader') = length (pr_sequences reader)
    \<and> pr_identity reader' = pr_identity reader \<and> (\<forall>out \<in> set outs. of_identity (pr_identity reader) out)"
proof (induction n)
  case (Suc n)
  then obtain outs reader1 x1 where r: "read_all sha256 en n reader x = Some (outs, reader1, x1)" "length outs = n"
    "seq_inv (pr_sequences reader1) outs" "length (pr_sequences reader1) = length (pr_sequences reader)"
    "pr_identity reader1 = pr_identity reader" "\<forall>out \<in> set outs. of_identity (pr_identity reader) out" by blast
  obtain out reader2 x2 where o: "ProductionReader_Read sha256 en reader1 x1 = Some (out, reader2, x2)"
    "ordered (pr_sequences reader1) out (pr_sequences reader2)" "pr_identity reader2 = pr_identity reader1"
    "of_identity (pr_identity reader1) out" by (rule production_read_ordered)
  show ?case using seq_inv_step [OF r(3) o(2)] r o
    by (intro exI [of _ "outs @ [out]"] exI [of _ reader2] exI [of _ x2]) simp
qed (use assms in simp)

text \<open>
  C21. The production reader hides no loss of captures: it never panics, whatever the ring reader and
  the loss counter return; every record it delivers is of its own runtime identity; and the need-handshake
  captures it delivers of one CPU are, up to exact repetitions of the last one, those with the sequence
  numbers 1, 2, 3, ... without a gap.
\<close>

theorem captures_delivered_gap_free:
  assumes "newProductionEventReader inner identity possibleCPUs losses initialLoss = Inr reader"
  shows "\<exists>outs reader' x'. read_all sha256 en n reader x = Some (outs, reader', x') \<and> length outs = n
    \<and> (\<forall>out \<in> set outs. of_identity identity out)
    \<and> (\<forall>cpu. \<exists>k. map (unat \<circ> fst) (remdups_adj (captures cpu outs)) = [1..<Suc k])"
proof -
  have "seq_inv (pr_sequences reader) []" "pr_identity reader = identity"
    using assms by (auto simp: newProductionEventReader_def seq_inv_def cpu_inv_def captures_def split: if_splits option.splits)
  with read_all_ordered obtain outs reader' x' where r: "read_all sha256 en n reader x = Some (outs, reader', x')" "length outs = n"
    "seq_inv (pr_sequences reader') outs" "\<forall>out \<in> set outs. of_identity identity out" by metis
  have "\<exists>k. map (unat \<circ> fst) (remdups_adj (captures cpu outs)) = [1..<Suc k]" for cpu
  proof (cases "cpu < length (pr_sequences reader')")
    case True
    then show ?thesis using r(3) unfolding seq_inv_def cpu_inv_def by blast
  next
    case False
    then show ?thesis using r(3) by (intro exI [of _ 0]) (simp add: seq_inv_def)
  qed
  then show ?thesis using r(1,2,4) by blast
qed

text \<open>A ring that holds a capture, its exact repetition, the next one and then one after a gap.\<close>

definition ring_reader :: "EventRecord list EventReader" where
  "ring_reader = \<lparr>rd_Read = (\<lambda>x. case x of [] \<Rightarrow> ((zero_record, Some (ErrVar OsErrDeadlineExceeded)), [])
       | record # rest \<Rightarrow> ((record, None), rest)),
     rd_SetDeadline = (\<lambda>t x. x), rd_Close = (\<lambda>x. (None, x))\<rparr>"

definition ring_sample :: "u64 \<Rightarrow> EventRecord" where
  "ring_sample n = zero_record\<lparr>evd_RawSample :=
     event_bytes LittleEndian (sample_need_event\<lparr>ev_CaptureSequence := n\<rparr>) [0, 0] @ sample_capture\<rparr>"

definition sample_ring :: "EventRecord list" where
  "sample_ring = [ring_sample 1, ring_sample 1, ring_sample 2, ring_sample 4]"

definition reader_identity :: RuntimeIdentity where
  "reader_identity = \<lparr>rt_Generation = 7, rt_Incarnation = sample_incarnation\<rparr>"

definition sample_reader :: "EventRecord list productionEventReader" where
  "sample_reader = projr (newProductionEventReader (Some ring_reader) reader_identity 2 (Some (\<lambda>x. (Inr 0, x))) 0)"

theorem captures_delivered_gap_free_witness:
  "map_option (\<lambda>(outs, r). (map fst (captures 0 outs), map (evd_LostSamples \<circ> fst) outs))
     (read_all (take 32) LittleEndian 4 sample_reader sample_ring) = Some ([1, 1, 2], [0, 0, 0, 1])
    \<and> (\<exists>outs r. read_all (take 32) LittleEndian 4 sample_reader sample_ring = Some (outs, r)
        \<and> (\<exists>k. map (unat \<circ> fst) (remdups_adj (captures 0 outs)) = [1..<Suc k]))"
proof -
  have "newProductionEventReader (Some ring_reader) reader_identity 2 (Some (\<lambda>x. (Inr 0, x))) 0 = Inr sample_reader"
    unfolding sample_reader_def by (simp add: newProductionEventReader_def validateRuntimeIdentity_def reader_identity_def) code_simp
  from captures_delivered_gap_free [OF this, of "take 32" LittleEndian 4 sample_ring]
  have "\<exists>outs r. read_all (take 32) LittleEndian 4 sample_reader sample_ring = Some (outs, r)
        \<and> (\<exists>k. map (unat \<circ> fst) (remdups_adj (captures 0 outs)) = [1..<Suc k])" by blast
  moreover have "map_option (\<lambda>(outs, r). (map fst (captures 0 outs), map (evd_LostSamples \<circ> fst) outs))
     (read_all (take 32) LittleEndian 4 sample_reader sample_ring) = Some ([1, 1, 2], [0, 0, 0, 1])" by code_simp
  ultimately show ?thesis by blast
qed

end
