(* ===== verification/Map_Batch.thy ===== *)
theory Map_Batch
  imports Prelude
begin

text \<open>
  The batched updates and deletes of the static BPF maps (\<open>internal/dataplane/map_batch.go\<close>,
  \<open>map_batch_linux.go\<close>). The kernel map is behind four functions on the world \<open>'x\<close>; what the code
  relies on is \<open>map_contract\<close>, stated on the contents \<open>view\<close> of the map in a world. An entry is the
  pair of its key and its value. The theorem says that every operation is all or nothing.
\<close>

section \<open>The operations\<close>

type_synonym ('k, 'v) mapBatchEntry = "'k \<times> 'v"

record ('k, 'v, 'x) mapBatchOperations =
  mb_batchUpdate :: "'k list \<Rightarrow> 'v list \<Rightarrow> 'x \<Rightarrow> (int \<times> err option) \<times> 'x"
  mb_update :: "'k \<Rightarrow> 'v \<Rightarrow> 'x \<Rightarrow> err option \<times> 'x"
  mb_batchDelete :: "'k list \<Rightarrow> 'x \<Rightarrow> (int \<times> err option) \<times> 'x"
  mb_delete :: "'k \<Rightarrow> 'x \<Rightarrow> err option \<times> 'x"

definition defaultMapBatchChunkSize :: int where
  "defaultMapBatchChunkSize = 256"

text \<open>The order in which a Go map is ranged over is the order of the association list.\<close>

definition mapBatchEntries :: "('k, 'v) gomap \<Rightarrow> ('k, 'v) mapBatchEntry list" where
  "mapBatchEntries entries = entries"

definition validMapBatchCompletion :: "int \<Rightarrow> int \<Rightarrow> bool" where
  "validMapBatchCompletion completed len \<longleftrightarrow> 0 \<le> completed \<and> completed \<le> len"

definition mapBatchCompletionError :: "string \<Rightarrow> int \<Rightarrow> int \<Rightarrow> err option \<Rightarrow> err" where
  "mapBatchCompletionError operation completed len e =
     (if completed < 0 \<or> completed > len then
        (case e of
           None \<Rightarrow> ErrNew (operation @ '' reported invalid completion count'')
         | Some e' \<Rightarrow> ErrWrap (operation @ '' reported invalid completion count'') [e'])
      else
        (case e of
           None \<Rightarrow> ErrNew (operation @ '' completed without an error'')
         | Some e' \<Rightarrow> ErrWrap (operation @ '' completed'') [e']))"

definition mapBatchChunkError :: "string \<Rightarrow> err \<Rightarrow> err" where
  "mapBatchChunkError operation e = ErrWrap (''batch '' @ operation) [e]"

text \<open>The rollbacks go through the entries from the last to the first and collect the errors.\<close>

fun rollback_updates :: "('k, 'v, 'x) mapBatchOperations \<Rightarrow> ('k, 'v) mapBatchEntry list \<Rightarrow> 'x \<Rightarrow> err list \<times> 'x" where
  "rollback_updates ops [] x = ([], x)"
| "rollback_updates ops ((k, v) # rest) x =
     (case mb_delete ops k x of (e, x1) \<Rightarrow>
      (case rollback_updates ops rest x1 of (errs, x2) \<Rightarrow>
         ((case e of
             None \<Rightarrow> errs
           | Some e' \<Rightarrow> if errors_is e' ErrKeyNotExist then errs else ErrWrap ''rollback update'' [e'] # errs), x2)))"

definition rollbackMapUpdates ::
  "('k, 'v, 'x) mapBatchOperations \<Rightarrow> ('k, 'v) mapBatchEntry list \<Rightarrow> 'x \<Rightarrow> err option \<times> 'x" where
  "rollbackMapUpdates ops entries x =
     (case rollback_updates ops (rev entries) x of (errs, x1) \<Rightarrow> (errors_join (map Some errs), x1))"

fun rollback_deletes :: "('k, 'v, 'x) mapBatchOperations \<Rightarrow> ('k, 'v) mapBatchEntry list \<Rightarrow> 'x \<Rightarrow> err list \<times> 'x" where
  "rollback_deletes ops [] x = ([], x)"
| "rollback_deletes ops ((k, v) # rest) x =
     (case mb_update ops k v x of (e, x1) \<Rightarrow>
      (case rollback_deletes ops rest x1 of (errs, x2) \<Rightarrow>
         ((case e of None \<Rightarrow> errs | Some e' \<Rightarrow> ErrWrap ''rollback delete'' [e'] # errs), x2)))"

definition rollbackMapDeletes ::
  "('k, 'v, 'x) mapBatchOperations \<Rightarrow> ('k, 'v) mapBatchEntry list \<Rightarrow> 'x \<Rightarrow> err option \<times> 'x" where
  "rollbackMapDeletes ops entries x =
     (case rollback_deletes ops (rev entries) x of (errs, x1) \<Rightarrow> (errors_join (map Some errs), x1))"

text \<open>A failure is returned together with what the rollback of the attempted entries returns.\<close>

definition fail_with ::
  "err \<Rightarrow> ('x \<Rightarrow> err option \<times> 'x) \<Rightarrow> 'x \<Rightarrow> err option \<times> 'x" where
  "fail_with e rollback x = (case rollback x of (r, x1) \<Rightarrow> (errors_join [Some e, r], x1))"

fun update_individually ::
  "('k, 'v, 'x) mapBatchOperations \<Rightarrow> ('k, 'v) mapBatchEntry list \<Rightarrow> nat \<Rightarrow> ('k, 'v) mapBatchEntry list \<Rightarrow> 'x \<Rightarrow> err option \<times> 'x" where
  "update_individually ops entries i [] x = (None, x)"
| "update_individually ops entries i ((k, v) # rest) x =
     (case mb_update ops k v x of
        (None, x1) \<Rightarrow> update_individually ops entries (Suc i) rest x1
      | (Some e, x1) \<Rightarrow>
          fail_with (ErrWrap ''update entry after batch API was unsupported'' [e])
            (rollbackMapUpdates ops (take (i + 1) entries)) x1)"

definition updateMapEntriesIndividually ::
  "('k, 'v, 'x) mapBatchOperations \<Rightarrow> ('k, 'v) mapBatchEntry list \<Rightarrow> 'x \<Rightarrow> err option \<times> 'x" where
  "updateMapEntriesIndividually ops entries x = update_individually ops entries 0 entries x"

fun delete_individually ::
  "('k, 'v, 'x) mapBatchOperations \<Rightarrow> ('k, 'v) mapBatchEntry list \<Rightarrow> nat \<Rightarrow> ('k, 'v) mapBatchEntry list \<Rightarrow> 'x \<Rightarrow> err option \<times> 'x" where
  "delete_individually ops entries i [] x = (None, x)"
| "delete_individually ops entries i ((k, v) # rest) x =
     (case mb_delete ops k x of
        (e, x1) \<Rightarrow>
          if e = None \<or> errors_is (the e) ErrKeyNotExist then delete_individually ops entries (Suc i) rest x1
          else fail_with (ErrWrap ''delete entry after batch API was unsupported'' [the e])
            (rollbackMapDeletes ops (take (i + 1) entries)) x1)"

definition deleteMapEntriesIndividually ::
  "('k, 'v, 'x) mapBatchOperations \<Rightarrow> ('k, 'v) mapBatchEntry list \<Rightarrow> 'x \<Rightarrow> err option \<times> 'x" where
  "deleteMapEntriesIndividually ops entries x = delete_individually ops entries 0 entries x"

text \<open>
  The loop over the chunks from \<open>start\<close> on, shared by the two directions: \<open>batch\<close> submits a chunk,
  \<open>rollback\<close> undoes a prefix of the entries and \<open>individually\<close> is the compatibility path. A chunk
  size of zero is refused before the loop.
\<close>

function batch_loop ::
  "string \<Rightarrow> (('k, 'v) mapBatchEntry list \<Rightarrow> 'x \<Rightarrow> (int \<times> err option) \<times> 'x)
     \<Rightarrow> (('k, 'v) mapBatchEntry list \<Rightarrow> 'x \<Rightarrow> err option \<times> 'x) \<Rightarrow> (('k, 'v) mapBatchEntry list \<Rightarrow> 'x \<Rightarrow> err option \<times> 'x)
     \<Rightarrow> ('k, 'v) mapBatchEntry list \<Rightarrow> nat \<Rightarrow> nat \<Rightarrow> 'x \<Rightarrow> err option \<times> 'x" where
  "batch_loop operation batch rollback individually entries chunkSize start x =
     (if chunkSize = 0 \<or> start \<ge> length entries then (None, x)
      else
        let end = min (start + chunkSize) (length entries); chunk = drop start (take end entries);
            n = int (length chunk) in
        (case batch chunk x of ((completed, batchErr), x1) \<Rightarrow>
           if batchErr = None \<and> completed = n
           then batch_loop operation batch rollback individually entries chunkSize (start + chunkSize) x1
           else
             let operationErr = mapBatchChunkError operation (mapBatchCompletionError operation completed n batchErr) in
             if \<not> validMapBatchCompletion completed n then fail_with operationErr (rollback (take end entries)) x1
             else if start = 0 \<and> completed = 0 \<and> batchErr \<noteq> None \<and> errors_is (the batchErr) ErrNotSupported
             then individually entries x1
             else fail_with operationErr (rollback (take (start + nat completed) entries)) x1))"
  by pat_completeness auto

termination
  by (relation "measure (\<lambda>(_, _, _, _, entries, _, start, _). length entries - start)") auto

definition updateMapBatchChunked ::
  "('k, 'v, 'x) mapBatchOperations \<Rightarrow> ('k, 'v) mapBatchEntry list \<Rightarrow> int \<Rightarrow> 'x \<Rightarrow> err option \<times> 'x" where
  "updateMapBatchChunked ops entries chunkSize x =
     (if chunkSize \<le> 0 then (Some (ErrNew ''batch update map requires a positive chunk size''), x)
      else if entries = [] then (None, x)
      else batch_loop ''update'' (\<lambda>chunk. mb_batchUpdate ops (map fst chunk) (map snd chunk))
             (rollbackMapUpdates ops) (updateMapEntriesIndividually ops) entries (nat chunkSize) 0 x)"

definition updateMapBatch ::
  "('k, 'v, 'x) mapBatchOperations \<Rightarrow> ('k, 'v) mapBatchEntry list \<Rightarrow> 'x \<Rightarrow> err option \<times> 'x" where
  "updateMapBatch ops entries x = updateMapBatchChunked ops entries defaultMapBatchChunkSize x"

definition deleteMapBatchChunked ::
  "('k, 'v, 'x) mapBatchOperations \<Rightarrow> ('k, 'v) mapBatchEntry list \<Rightarrow> int \<Rightarrow> 'x \<Rightarrow> err option \<times> 'x" where
  "deleteMapBatchChunked ops entries chunkSize x =
     (if chunkSize \<le> 0 then (Some (ErrNew ''batch delete map requires a positive chunk size''), x)
      else if entries = [] then (None, x)
      else batch_loop ''delete'' (\<lambda>chunk. mb_batchDelete ops (map fst chunk))
             (rollbackMapDeletes ops) (deleteMapEntriesIndividually ops) entries (nat chunkSize) 0 x)"

definition deleteMapBatch ::
  "('k, 'v, 'x) mapBatchOperations \<Rightarrow> ('k, 'v) mapBatchEntry list \<Rightarrow> 'x \<Rightarrow> err option \<times> 'x" where
  "deleteMapBatch ops entries x = deleteMapBatchChunked ops entries defaultMapBatchChunkSize x"

text \<open>A kernel map of a collection: its batch operations, and the entries an iteration yields with its error.\<close>

record ('k, 'v, 'x) ebpf_map =
  em_ops :: "('k, 'v, 'x) mapBatchOperations"
  em_iterate :: "'x \<Rightarrow> (('k \<times> 'v) list \<times> err option) \<times> 'x"

definition updateMap :: "('k, 'v, 'x) ebpf_map option \<Rightarrow> ('k, 'v) gomap \<Rightarrow> 'x \<Rightarrow> err option \<times> 'x" where
  "updateMap m entries x =
     (case m of
        None \<Rightarrow> (Some (ErrNew ''BPF object missing map''), x)
      | Some m' \<Rightarrow> updateMapBatch (em_ops m') (mapBatchEntries entries) x)"

definition deleteEntriesByGeneration ::
  "('v \<Rightarrow> u64) \<Rightarrow> ('k, 'v, 'x) ebpf_map option \<Rightarrow> u64 \<Rightarrow> 'x \<Rightarrow> err option \<times> 'x" where
  "deleteEntriesByGeneration MapGeneration m generation x =
     (case m of
        None \<Rightarrow> (Some (ErrNew ''BPF object missing map''), x)
      | Some m' \<Rightarrow>
          (case em_iterate m' x of
             ((found, Some e), x1) \<Rightarrow> (Some (ErrWrap ''iterate map for generation'' [e]), x1)
           | ((found, None), x1) \<Rightarrow>
               (case deleteMapBatch (em_ops m') (filter (\<lambda>(k, v). MapGeneration v = generation) found) x1 of
                  (Some e, x2) \<Rightarrow> (Some (ErrWrap ''delete generation entries'' [e]), x2)
                | (None, x2) \<Rightarrow> (None, x2))))"

definition deleteStaleEntries ::
  "('k, 'v, 'x) ebpf_map option \<Rightarrow> ('k, 'w) gomap \<Rightarrow> 'x \<Rightarrow> err option \<times> 'x" where
  "deleteStaleEntries m desired x =
     (case m of
        None \<Rightarrow> (Some (ErrNew ''BPF object missing map''), x)
      | Some m' \<Rightarrow>
          (case em_iterate m' x of
             ((found, Some e), x1) \<Rightarrow> (Some (ErrWrap ''iterate map for stale entries'' [e]), x1)
           | ((found, None), x1) \<Rightarrow>
               (case deleteMapBatch (em_ops m') (filter (\<lambda>(k, v). m_get desired k = None) found) x1 of
                  (Some e, x2) \<Rightarrow> (Some (ErrWrap ''delete stale entries'' [e]), x2)
                | (None, x2) \<Rightarrow> (None, x2))))"

section \<open>What the code relies on\<close>

text \<open>
  The documented behaviour of a BPF hash map. A batch call reports how many entries it has processed:
  these are a prefix of the batch, and a call never touches a key it is not given. A call that
  succeeds has done its work; a delete that finds no key leaves it absent; a call that fails may or may
  not have changed the entry it was given. An iteration without error yields every entry once.
\<close>

definition batch_prefix :: "(nat \<Rightarrow> 'k \<rightharpoonup> 'v) \<Rightarrow> 'k list \<Rightarrow> int \<Rightarrow> ('k \<rightharpoonup> 'v) \<Rightarrow> ('k \<rightharpoonup> 'v) \<Rightarrow> bool" where
  "batch_prefix after keys completed m m' \<longleftrightarrow>
     (0 \<le> completed \<and> completed \<le> int (length keys) \<longrightarrow> m' = after (nat completed)) \<and> (\<forall>k. k \<notin> set keys \<longrightarrow> m' k = m k)"

definition batch_update_contract :: "('x \<Rightarrow> 'k \<rightharpoonup> 'v) \<Rightarrow> ('k, 'v, 'x) mapBatchOperations \<Rightarrow> bool" where
  "batch_update_contract view ops \<longleftrightarrow>
     (\<forall>es x completed e x'. distinct (map fst es) \<longrightarrow>
        mb_batchUpdate ops (map fst es) (map snd es) x = ((completed, e), x') \<longrightarrow>
        batch_prefix (\<lambda>n. view x ++ map_of (take n es)) (map fst es) completed (view x) (view x'))"

definition batch_delete_contract :: "('x \<Rightarrow> 'k \<rightharpoonup> 'v) \<Rightarrow> ('k, 'v, 'x) mapBatchOperations \<Rightarrow> bool" where
  "batch_delete_contract view ops \<longleftrightarrow>
     (\<forall>ks x completed e x'. distinct ks \<longrightarrow> mb_batchDelete ops ks x = ((completed, e), x') \<longrightarrow>
        batch_prefix (\<lambda>n. view x |` (- set (take n ks))) ks completed (view x) (view x'))"

definition update_contract :: "('x \<Rightarrow> 'k \<rightharpoonup> 'v) \<Rightarrow> ('k, 'v, 'x) mapBatchOperations \<Rightarrow> bool" where
  "update_contract view ops \<longleftrightarrow>
     (\<forall>k v x e x'. mb_update ops k v x = (e, x') \<longrightarrow>
        (e = None \<longrightarrow> view x' = (view x)(k \<mapsto> v)) \<and> (\<forall>k'. k' \<noteq> k \<longrightarrow> view x' k' = view x k'))"

definition delete_contract :: "('x \<Rightarrow> 'k \<rightharpoonup> 'v) \<Rightarrow> ('k, 'v, 'x) mapBatchOperations \<Rightarrow> bool" where
  "delete_contract view ops \<longleftrightarrow>
     (\<forall>k x e x'. mb_delete ops k x = (e, x') \<longrightarrow>
        (e = None \<or> errors_is (the e) ErrKeyNotExist \<longrightarrow> view x' = (view x)(k := None))
        \<and> (\<forall>k'. k' \<noteq> k \<longrightarrow> view x' k' = view x k'))"

definition map_contract :: "('x \<Rightarrow> 'k \<rightharpoonup> 'v) \<Rightarrow> ('k, 'v, 'x) mapBatchOperations \<Rightarrow> bool" where
  "map_contract view ops \<longleftrightarrow> batch_update_contract view ops \<and> batch_delete_contract view ops
     \<and> update_contract view ops \<and> delete_contract view ops"

definition iterate_contract :: "('x \<Rightarrow> 'k \<rightharpoonup> 'v) \<Rightarrow> ('k, 'v, 'x) ebpf_map \<Rightarrow> bool" where
  "iterate_contract view m \<longleftrightarrow>
     (\<forall>x found e x'. em_iterate m x = ((found, e), x') \<longrightarrow>
        view x' = view x \<and> (e = None \<longrightarrow> distinct (map fst found) \<and> map_of found = view x))"

text \<open>The contract, one operation at a time.\<close>

lemma contract_batch_update:
  assumes "map_contract view ops" "distinct (map fst es)"
    "mb_batchUpdate ops (map fst es) (map snd es) x = ((completed, e), x')"
  shows "batch_prefix (\<lambda>n. view x ++ map_of (take n es)) (map fst es) completed (view x) (view x')"
proof -
  have "batch_update_contract view ops" using assms(1) by (simp add: map_contract_def)
  from this [unfolded batch_update_contract_def, rule_format, OF assms(2,3)] show ?thesis .
qed

lemma contract_batch_delete:
  assumes "map_contract view ops" "distinct ks" "mb_batchDelete ops ks x = ((completed, e), x')"
  shows "batch_prefix (\<lambda>n. view x |` (- set (take n ks))) ks completed (view x) (view x')"
proof -
  have "batch_delete_contract view ops" using assms(1) by (simp add: map_contract_def)
  from this [unfolded batch_delete_contract_def, rule_format, OF assms(2,3)] show ?thesis .
qed

lemma contract_update:
  assumes "map_contract view ops" "mb_update ops k v x = (e, x')"
  shows "(e = None \<longrightarrow> view x' = (view x)(k \<mapsto> v)) \<and> (\<forall>k'. k' \<noteq> k \<longrightarrow> view x' k' = view x k')"
proof -
  have "update_contract view ops" using assms(1) by (simp add: map_contract_def)
  from this [unfolded update_contract_def] assms(2) show ?thesis by blast
qed

lemma contract_delete:
  assumes "map_contract view ops" "mb_delete ops k x = (e, x')"
  shows "(e = None \<or> errors_is (the e) ErrKeyNotExist \<longrightarrow> view x' = (view x)(k := None))
    \<and> (\<forall>k'. k' \<noteq> k \<longrightarrow> view x' k' = view x k')"
proof -
  have "delete_contract view ops" using assms(1) by (simp add: map_contract_def)
  from this [unfolded delete_contract_def] assms(2) show ?thesis by blast
qed

section \<open>All or nothing\<close>

text \<open>An error that reports no failed rollback.\<close>

fun mentions :: "string \<Rightarrow> err \<Rightarrow> bool" where
  "mentions s (ErrWrap m es) = (m = s \<or> list_ex (mentions s) es)"
| "mentions s e = False"

definition rolled_back :: "err \<Rightarrow> bool" where
  "rolled_back e \<longleftrightarrow> \<not> mentions ''rollback update'' e \<and> \<not> mentions ''rollback delete'' e"

lemma set_map_filter_id: "e \<in> set (List.map_filter id es) \<longleftrightarrow> Some e \<in> set es"
  by (induction es) (auto simp: map_filter_simps split: option.splits)

lemma join_mentions: "errors_join es = Some e \<Longrightarrow> Some e' \<in> set es \<Longrightarrow> mentions s e' \<Longrightarrow> mentions s e"
  by (auto simp: errors_join_def list_ex_iff set_map_filter_id [symmetric] split: list.splits)

lemma join_rolled_back: "errors_join es = Some e \<Longrightarrow> rolled_back e \<Longrightarrow> Some e' \<in> set es \<Longrightarrow> rolled_back e'"
  unfolding rolled_back_def using join_mentions by blast

text \<open>
  \<open>undone\<close>: outside the given entries the map is as it was, and if no rollback error is reported it is
  as it was everywhere. \<open>map_outcome\<close>: what an operation from the contents \<open>m\<close> to the contents \<open>m'\<close>
  may leave behind.
\<close>

definition map_outcome :: "('k \<rightharpoonup> 'v) \<Rightarrow> ('k \<rightharpoonup> 'v) \<Rightarrow> err option \<Rightarrow> ('k \<rightharpoonup> 'v) \<Rightarrow> bool" where
  "map_outcome m goal e m' \<longleftrightarrow> (case e of None \<Rightarrow> m' = goal | Some e' \<Rightarrow> rolled_back e' \<longrightarrow> m' = m)"

definition only_at :: "'k list \<Rightarrow> ('k \<rightharpoonup> 'v) \<Rightarrow> ('k \<rightharpoonup> 'v) \<Rightarrow> bool" where
  "only_at ks m m' \<longleftrightarrow> (\<forall>k. k \<notin> set ks \<longrightarrow> m' k = m k)"

lemma rollback_updates_undo:
  assumes "map_contract view ops"
  shows "rollback_updates ops es x = (errs, x') \<Longrightarrow> only_at (map fst es) (view x) (view x')
    \<and> ((\<forall>e \<in> set errs. rolled_back e) \<longrightarrow> errs = [] \<and> view x' = view x |` (- fst ` set es))"
proof (induction es arbitrary: x errs x')
  case (Cons entry rest)
  obtain k v where entry: "entry = (k, v)" by fastforce
  obtain e x1 where d: "mb_delete ops k x = (e, x1)" by fastforce
  obtain es x2 where r: "rollback_updates ops rest x1 = (es, x2)" by fastforce
  have run: "x' = x2" "errs = (case e of None \<Rightarrow> es
      | Some e' \<Rightarrow> if errors_is e' ErrKeyNotExist then es else ErrWrap ''rollback update'' [e'] # es)"
    using Cons.prems entry d r by simp_all
  have only: "only_at (map fst (entry # rest)) (view x) (view x')"
    using Cons.IH [OF r] contract_delete [OF assms d] run(1) entry by (simp add: only_at_def)
  show ?case
  proof (cases "e = None \<or> errors_is (the e) ErrKeyNotExist")
    case True
    then have "errs = es" using run(2) by (auto split: option.splits)
    moreover have "view x1 = (view x)(k := None)" using contract_delete [OF assms d] True by blast
    ultimately show ?thesis using Cons.IH [OF r] only run(1) entry by (auto simp: restrict_map_def fun_eq_iff)
  next
    case False
    then have "\<exists>e'. ErrWrap ''rollback update'' [e'] \<in> set errs" using run(2) by auto
    then show ?thesis using only by (auto simp: rolled_back_def)
  qed
qed (simp add: only_at_def restrict_map_def)

lemma rollback_deletes_undo:
  assumes "map_contract view ops"
  shows "rollback_deletes ops es x = (errs, x') \<Longrightarrow> only_at (map fst es) (view x) (view x')
    \<and> ((\<forall>e \<in> set errs. rolled_back e) \<longrightarrow> errs = [] \<and> view x' = view x ++ map_of (rev es))"
proof (induction es arbitrary: x errs x')
  case (Cons entry rest)
  obtain k v where entry: "entry = (k, v)" by fastforce
  obtain e x1 where u: "mb_update ops k v x = (e, x1)" by fastforce
  obtain es x2 where r: "rollback_deletes ops rest x1 = (es, x2)" by fastforce
  have run: "x' = x2" "errs = (case e of None \<Rightarrow> es | Some e' \<Rightarrow> ErrWrap ''rollback delete'' [e'] # es)"
    using Cons.prems entry u r by simp_all
  have only: "only_at (map fst (entry # rest)) (view x) (view x')"
    using Cons.IH [OF r] contract_update [OF assms u] run(1) entry by (simp add: only_at_def)
  show ?case
  proof (cases e)
    case None
    then have "view x1 = (view x)(k \<mapsto> v)" using contract_update [OF assms u] by blast
    then have "view x ++ map_of (rev (entry # rest)) = view x1 ++ map_of (rev rest)" using entry by simp
    then show ?thesis using Cons.IH [OF r] None only run(1) run(2) by simp
  next
    case (Some e')
    then show ?thesis using only run(2) by (auto simp: rolled_back_def)
  qed
qed (simp add: only_at_def)

lemma join_None: "errors_join (map Some es) = None \<longleftrightarrow> es = []"
  by (cases es) (auto simp: errors_join_None_iff)

lemma rollback_errors:
  "(\<forall>e. errors_join (map Some errs) = Some e \<longrightarrow> rolled_back e) \<Longrightarrow> \<forall>e \<in> set errs. rolled_back e"
  using join_rolled_back [of "map Some errs"] by (cases "errors_join (map Some errs)") (auto simp: join_None)

text \<open>
  \<open>undoes\<close>: after changes to a prefix of the entries only, \<open>rollback\<close> brings the contents \<open>m\<close> back
  unless it reports an error.
\<close>

definition undoes :: "('x \<Rightarrow> 'k \<rightharpoonup> 'v) \<Rightarrow> ('k \<rightharpoonup> 'v) \<Rightarrow> ('k \<times> 'v) list \<Rightarrow> (('k \<times> 'v) list \<Rightarrow> 'x \<Rightarrow> err option \<times> 'x) \<Rightarrow> bool" where
  "undoes view m entries rollback \<longleftrightarrow>
     (\<forall>n x e x'. only_at (map fst (take n entries)) m (view x) \<longrightarrow> rollback (take n entries) x = (e, x') \<longrightarrow>
        (\<forall>e'. e = Some e' \<longrightarrow> rolled_back e') \<longrightarrow> view x' = m)"

lemma updates_undone:
  assumes "map_contract view ops" "\<forall>k \<in> fst ` set entries. m k = None"
  shows "undoes view m entries (rollbackMapUpdates ops)"
  unfolding undoes_def
proof (intro allI impI)
  fix n x e x'
  assume near: "only_at (map fst (take n entries)) m (view x)" and run: "rollbackMapUpdates ops (take n entries) x = (e, x')"
    and ok: "\<forall>e'. e = Some e' \<longrightarrow> rolled_back e'"
  obtain errs where r: "rollback_updates ops (rev (take n entries)) x = (errs, x')" "e = errors_join (map Some errs)"
    using run by (auto simp: rollbackMapUpdates_def split: prod.splits)
  have "view x' = view x |` (- fst ` set (take n entries))"
    using rollback_updates_undo [OF assms(1) r(1)] rollback_errors [of errs] ok r(2) by auto
  moreover have "m k = None" if "k \<in> fst ` set (take n entries)" for k
    using that assms(2) image_mono [OF set_take_subset, of fst n entries] by (meson subsetD)
  ultimately show "view x' = m" using near by (auto simp: restrict_map_def only_at_def fun_eq_iff)
qed

lemma deletes_undone:
  assumes "map_contract view ops" "distinct (map fst entries)" "\<forall>(k, v) \<in> set entries. m k = Some v"
  shows "undoes view m entries (rollbackMapDeletes ops)"
  unfolding undoes_def
proof (intro allI impI)
  fix n x e x'
  assume near: "only_at (map fst (take n entries)) m (view x)" and run: "rollbackMapDeletes ops (take n entries) x = (e, x')"
    and ok: "\<forall>e'. e = Some e' \<longrightarrow> rolled_back e'"
  obtain errs where r: "rollback_deletes ops (rev (take n entries)) x = (errs, x')" "e = errors_join (map Some errs)"
    using run by (auto simp: rollbackMapDeletes_def split: prod.splits)
  have v: "view x' = view x ++ map_of (take n entries)"
    using rollback_deletes_undo [OF assms(1) r(1)] rollback_errors [of errs] ok r(2) by auto
  show "view x' = m"
  proof
    fix k
    show "view x' k = m k"
    proof (cases "map_of (take n entries) k")
      case None
      then have "k \<notin> set (map fst (take n entries))" by (simp add: map_of_eq_None_iff)
      then show ?thesis using v near None by (simp add: only_at_def map_add_def)
    next
      case (Some w)
      then have "(k, w) \<in> set entries" using map_of_SomeD in_set_takeD by fast
      then show ?thesis using v Some assms(3) by (auto simp: map_add_def)
    qed
  qed
qed

lemma failed_outcome:
  assumes "undoes view m entries rollback" "only_at (map fst (take n entries)) m (view x)"
    and "fail_with e (rollback (take n entries)) x = (e', x')"
  shows "map_outcome m goal e' (view x')"
proof -
  obtain r where r: "rollback (take n entries) x = (r, x')" "e' = errors_join [Some e, r]"
    using assms(3) by (auto simp: fail_with_def split: prod.splits)
  obtain j where j: "e' = Some j" using r(2) by (cases r) (auto simp: errors_join_def map_filter_simps)
  have "view x' = m" if "rolled_back j"
    using assms(1) [unfolded undoes_def, rule_format, OF assms(2) r(1)] join_rolled_back [of "[Some e, r]" j] that r(2) j by auto
  then show ?thesis by (simp add: map_outcome_def j)
qed

text \<open>
  The contents after a prefix of the entries, for either direction, and the step of the loop: a chunk
  takes the contents from one prefix to a longer one, and touches only keys of the chunk.
\<close>

definition advances ::
  "('x \<Rightarrow> 'k \<rightharpoonup> 'v) \<Rightarrow> (('k \<times> 'v) list \<Rightarrow> 'k \<rightharpoonup> 'v) \<Rightarrow> ('k \<times> 'v) list
     \<Rightarrow> (('k \<times> 'v) list \<Rightarrow> 'x \<Rightarrow> (int \<times> err option) \<times> 'x) \<Rightarrow> bool" where
  "advances view after entries batch \<longleftrightarrow>
     (\<forall>front chunk rest x completed e x'. entries = front @ chunk @ rest \<longrightarrow> view x = after front \<longrightarrow>
        batch chunk x = ((completed, e), x') \<longrightarrow>
        batch_prefix (\<lambda>n. after (front @ take n chunk)) (map fst chunk) completed (view x) (view x'))"

lemma take_chunk: "start \<le> end \<Longrightarrow> entries = take start entries @ drop start (take end entries) @ drop end entries"
  by (metis append.assoc append_take_drop_id min.absorb1 take_take)

lemma take_within: "c \<le> length (drop start (take end entries)) \<Longrightarrow>
    take start entries @ take c (drop start (take end entries)) = take (start + c) entries"
  by (auto simp: take_add drop_take min_def split: if_splits)

lemma only_at_take:
  assumes "only_at (map fst (take start entries)) m m1" "batch_prefix f (map fst (drop start (take end entries))) c m1 m2" "start \<le> end"
  shows "only_at (map fst (take end entries)) m m2"
proof -
  have "take end entries = take start entries @ drop start (take end entries)"
    using assms(3) by (metis append_take_drop_id min.absorb1 take_take)
  then have "set (map fst (take end entries)) = set (map fst (take start entries)) \<union> set (map fst (drop start (take end entries)))"
    by (metis map_append set_append)
  then show ?thesis using assms(1,2) by (auto simp: only_at_def batch_prefix_def)
qed

lemma batch_loop_turn:
  assumes "0 < chunkSize" "\<not> start \<ge> length entries" "end' = min (start + chunkSize) (length entries)"
    "chunk = drop start (take end' entries)" "batch chunk x = ((completed, batchErr), x1)"
  shows "batch_loop operation batch rollback individually entries chunkSize start x =
      (if batchErr = None \<and> completed = int (length chunk)
       then batch_loop operation batch rollback individually entries chunkSize (start + chunkSize) x1
       else
         let operationErr = mapBatchChunkError operation (mapBatchCompletionError operation completed (int (length chunk)) batchErr) in
         if \<not> validMapBatchCompletion completed (int (length chunk)) then fail_with operationErr (rollback (take end' entries)) x1
         else if start = 0 \<and> completed = 0 \<and> batchErr \<noteq> None \<and> errors_is (the batchErr) ErrNotSupported then individually entries x1
         else fail_with operationErr (rollback (take (start + nat completed) entries)) x1)"
  using assms by (subst batch_loop.simps) (simp add: Let_def)

lemma batch_loop_outcome:
  assumes undo: "undoes view m entries rollback"
    and adv: "advances view after entries batch"
    and near: "\<And>n. only_at (map fst (take n entries)) m (after (take n entries))"
    and indiv: "\<And>x e x'. view x = m \<Longrightarrow> individually entries x = (e, x') \<Longrightarrow> map_outcome m (after entries) e (view x')"
    and start: "after [] = m"
  shows "0 < chunkSize \<Longrightarrow> view x = after (take start entries) \<Longrightarrow>
    batch_loop operation batch rollback individually entries chunkSize start x = (e, x') \<Longrightarrow> map_outcome m (after entries) e (view x')"
proof (induction "length entries - start" arbitrary: start x rule: less_induct)
  case less
  show ?case
  proof (cases "start \<ge> length entries")
    case True
    then show ?thesis using less.prems by (auto simp: map_outcome_def)
  next
    case False
    define end' where "end' = min (start + chunkSize) (length entries)"
    define chunk where "chunk = drop start (take end' entries)"
    have se: "start \<le> end'" using False by (simp add: end'_def)
    obtain completed batchErr x1 where b: "batch chunk x = ((completed, batchErr), x1)" by (metis surj_pair)
    have step: "batch_prefix (\<lambda>n. after (take start entries @ take n chunk)) (map fst chunk) completed (view x) (view x1)"
      using adv [unfolded advances_def, rule_format, OF take_chunk [OF se] less.prems(2) b [unfolded chunk_def]] by (simp add: chunk_def)
    have moved: "view x1 = after (take (start + nat completed) entries)" if "validMapBatchCompletion completed (int (length chunk))"
      using step that take_within [of "nat completed" start end' entries]
      by (auto simp: batch_prefix_def validMapBatchCompletion_def chunk_def)
    have whole: "take (start + length chunk) entries = take (start + chunkSize) entries"
      by (auto simp: chunk_def end'_def min_def)
    note unfold = batch_loop_turn [where batch = batch and chunk = chunk and x = x,
        OF less.prems(1) False end'_def chunk_def b, of operation rollback individually]
    consider (more) "batchErr = None" "completed = int (length chunk)"
      | (invalid) "\<not> validMapBatchCompletion completed (int (length chunk))" "\<not> (batchErr = None \<and> completed = int (length chunk))"
      | (unsupported) "start = 0" "completed = 0" "individually entries x1 = (e, x')"
      | (partial) op where "validMapBatchCompletion completed (int (length chunk))"
          "fail_with op (rollback (take (start + nat completed) entries)) x1 = (e, x')"
      using less.prems(3) unfolding unfold by (auto simp: Let_def split: if_splits)
    then show ?thesis
    proof cases
      case more
      have "view x1 = after (take (start + chunkSize) entries)"
        using moved more whole by (simp add: validMapBatchCompletion_def)
      moreover have "batch_loop operation batch rollback individually entries chunkSize (start + chunkSize) x1 = (e, x')"
        using less.prems(3) more unfolding unfold by simp
      ultimately show ?thesis using less.hyps less.prems(1) False by (metis diff_less_mono2 less_add_same_cancel1 not_le)
    next
      case invalid
      then obtain op where "fail_with op (rollback (take end' entries)) x1 = (e, x')"
        using less.prems(3) unfolding unfold by (auto simp: Let_def)
      moreover have "only_at (map fst (take end' entries)) m (view x1)"
        using only_at_take [OF _ _ se] near less.prems(2) step unfolding chunk_def by metis
      ultimately show ?thesis using failed_outcome [OF undo] by blast
    next
      case unsupported
      then have "view x1 = m" using moved start by (simp add: validMapBatchCompletion_def)
      then show ?thesis by (rule indiv [OF _ unsupported(3)])
    next
      case partial
      then show ?thesis using failed_outcome [OF undo _ partial(2)] near moved by simp
    qed
  qed
qed

text \<open>The two directions.\<close>

lemma disjoint_keys: "distinct (map fst (xs @ ys)) \<Longrightarrow> map_of (xs @ ys) = map_of xs ++ map_of ys"
  by (subst map_of_append, rule map_add_comm) (auto simp: dom_map_of_conv_image_fst)

lemma updates_advance:
  assumes "map_contract view ops" "distinct (map fst entries)"
  shows "advances view (\<lambda>es. m ++ map_of es) entries (\<lambda>chunk. mb_batchUpdate ops (map fst chunk) (map snd chunk))"
  unfolding advances_def
proof (intro allI impI)
  fix front chunk rest x completed e x'
  assume split: "entries = front @ chunk @ rest" and v: "view x = m ++ map_of front"
    and run: "mb_batchUpdate ops (map fst chunk) (map snd chunk) x = ((completed, e), x')"
  have "distinct (map fst (front @ take n chunk))" for n
    using assms(2) split append_take_drop_id [of n chunk] by (metis append.assoc distinct_append map_append)
  then have "view x ++ map_of (take n chunk) = m ++ map_of (front @ take n chunk)" for n
    using disjoint_keys [of front "take n chunk"] v by simp
  moreover have "distinct (map fst chunk)" using assms(2) split by simp
  ultimately show "batch_prefix (\<lambda>n. m ++ map_of (front @ take n chunk)) (map fst chunk) completed (view x) (view x')"
    using contract_batch_update [OF assms(1) _ run] by simp
qed

lemma deletes_advance:
  assumes "map_contract view ops" "distinct (map fst entries)"
  shows "advances view (\<lambda>es. m |` (- fst ` set es)) entries (\<lambda>chunk. mb_batchDelete ops (map fst chunk))"
  unfolding advances_def
proof (intro allI impI)
  fix front chunk rest x completed e x'
  assume split: "entries = front @ chunk @ rest" and v: "view x = m |` (- fst ` set front)"
    and run: "mb_batchDelete ops (map fst chunk) x = ((completed, e), x')"
  have "view x |` (- set (take n (map fst chunk))) = m |` (- fst ` set (front @ take n chunk))" for n
    by (simp add: v take_map Int_commute image_Un)
  moreover have "distinct (map fst chunk)" using assms(2) split by simp
  ultimately show "batch_prefix (\<lambda>n. m |` (- fst ` set (front @ take n chunk))) (map fst chunk) completed (view x) (view x')"
    using contract_batch_delete [OF assms(1) _ run] by simp
qed

lemma update_individually_outcome:
  assumes "map_contract view ops" "distinct (map fst entries)" "undoes view m entries (rollbackMapUpdates ops)"
  shows "entries = front @ rest \<Longrightarrow> view x = m ++ map_of front \<Longrightarrow>
    update_individually ops entries (length front) rest x = (e, x') \<Longrightarrow> map_outcome m (m ++ map_of entries) e (view x')"
proof (induction rest arbitrary: front x)
  case (Cons entry rest)
  obtain k v where entry: "entry = (k, v)" by fastforce
  obtain e1 x1 where u: "mb_update ops k v x = (e1, x1)" by fastforce
  show ?case
  proof (cases e1)
    case None
    then have "view x1 = (m ++ map_of front)(k \<mapsto> v)" using contract_update [OF assms(1) u] Cons.prems(2) by metis
    moreover have "distinct (map fst (front @ [entry]))" using assms(2) Cons.prems(1) by simp
    ultimately have "view x1 = m ++ map_of (front @ [entry])" using disjoint_keys [of front "[entry]"] entry by simp
    then show ?thesis using Cons.IH [of "front @ [entry]" x1] Cons.prems u None entry by simp
  next
    case (Some err)
    have "only_at (map fst (take (length front + 1) entries)) m (view x1)"
      using contract_update [OF assms(1) u] Cons.prems(1,2) entry
      by (auto simp: only_at_def map_add_def map_of_eq_None_iff split: option.splits)
    then show ?thesis using failed_outcome [OF assms(3), of "length front + 1" x1] Cons.prems(3) u Some entry by simp
  qed
qed (simp add: map_outcome_def)

lemma delete_individually_outcome:
  assumes "map_contract view ops" "undoes view m entries (rollbackMapDeletes ops)"
  shows "entries = front @ rest \<Longrightarrow> view x = m |` (- fst ` set front) \<Longrightarrow>
    delete_individually ops entries (length front) rest x = (e, x') \<Longrightarrow> map_outcome m (m |` (- fst ` set entries)) e (view x')"
proof (induction rest arbitrary: front x)
  case (Cons entry rest)
  obtain k v where entry: "entry = (k, v)" by fastforce
  obtain e1 x1 where u: "mb_delete ops k x = (e1, x1)" by fastforce
  note c = contract_delete [OF assms(1) u]
  show ?case
  proof (cases "e1 = None \<or> errors_is (the e1) ErrKeyNotExist")
    case True
    then have "view x1 = m |` (- fst ` set (front @ [entry]))"
      using c Cons.prems(2) entry by (auto simp: restrict_map_def fun_eq_iff)
    then show ?thesis using Cons.IH [of "front @ [entry]" x1] Cons.prems u True entry by simp
  next
    case False
    have "only_at (map fst (take (length front + 1) entries)) m (view x1)"
      using c Cons.prems(1,2) entry by (auto simp: only_at_def restrict_map_def)
    then show ?thesis using failed_outcome [OF assms(2), of "length front + 1" x1] Cons.prems(3) u False entry by simp
  qed
qed (simp add: map_outcome_def)

lemma update_batch_outcome:
  assumes "map_contract view ops" "distinct (map fst entries)" "\<forall>k \<in> fst ` set entries. view x k = None"
    and "updateMapBatch ops entries x = (e, x')"
  shows "map_outcome (view x) (view x ++ map_of entries) e (view x')"
proof (cases "entries = []")
  case False
  note undo = updates_undone [OF assms(1,3)]
  have "only_at (map fst (take n entries)) (view x) (view x ++ map_of (take n entries))" for n
    by (auto simp: only_at_def map_add_def map_of_eq_None_iff split: option.splits) (metis fst_conv image_eqI map_of_SomeD)
  then show ?thesis
    using batch_loop_outcome [OF undo updates_advance [OF assms(1,2), of "view x"], where start = 0 and x = x and chunkSize = 256
          and individually = "updateMapEntriesIndividually ops" and operation = "''update''" and e = e and x' = x']
      update_individually_outcome [OF assms(1,2) undo, of "[]"] assms(4) False
    by (simp add: updateMapBatch_def updateMapBatchChunked_def defaultMapBatchChunkSize_def updateMapEntriesIndividually_def)
qed (use assms(4) in \<open>simp add: updateMapBatch_def updateMapBatchChunked_def defaultMapBatchChunkSize_def map_outcome_def\<close>)

lemma delete_batch_outcome:
  assumes "map_contract view ops" "distinct (map fst entries)" "\<forall>(k, v) \<in> set entries. view x k = Some v"
    and "deleteMapBatch ops entries x = (e, x')"
  shows "map_outcome (view x) (view x |` (- fst ` set entries)) e (view x')"
proof (cases "entries = []")
  case False
  note undo = deletes_undone [OF assms(1-3)]
  have "only_at (map fst (take n entries)) (view x) (view x |` (- fst ` set (take n entries)))" for n
    by (simp add: only_at_def restrict_map_def)
  then show ?thesis
    using batch_loop_outcome [OF undo deletes_advance [OF assms(1,2), of "view x"], where start = 0 and x = x and chunkSize = 256
          and individually = "deleteMapEntriesIndividually ops" and operation = "''delete''" and e = e and x' = x']
      delete_individually_outcome [OF assms(1) undo, of "[]"] assms(4) False
    by (simp add: deleteMapBatch_def deleteMapBatchChunked_def defaultMapBatchChunkSize_def deleteMapEntriesIndividually_def restrict_map_def)
qed (use assms(4) in \<open>simp add: deleteMapBatch_def deleteMapBatchChunked_def defaultMapBatchChunkSize_def map_outcome_def restrict_map_def\<close>)

text \<open>The entries that a predicate selects from an iteration are those of the contents.\<close>

lemma selected_entries:
  assumes "distinct (map fst found)" "map_of found = m"
  shows "distinct (map fst (filter P found))" "\<forall>(k, v) \<in> set (filter P found). m k = Some v"
    "m |` (- fst ` set (filter P found)) = (\<lambda>k. case m k of None \<Rightarrow> None | Some v \<Rightarrow> if P (k, v) then None else Some v)"
proof -
  have iff: "m k = Some v \<longleftrightarrow> (k, v) \<in> set found" for k v using assms by auto
  show "distinct (map fst (filter P found))" using assms(1) by (rule distinct_map_filter)
  show "\<forall>(k, v) \<in> set (filter P found). m k = Some v" using iff by auto
  have "k \<in> fst ` set (filter P found) \<longleftrightarrow> (\<exists>v. m k = Some v \<and> P (k, v))" for k using iff by force
  then show "m |` (- fst ` set (filter P found)) = (\<lambda>k. case m k of None \<Rightarrow> None | Some v \<Rightarrow> if P (k, v) then None else Some v)"
    by (auto simp: restrict_map_def fun_eq_iff split: option.splits)
qed

lemma delete_selected_outcome:
  assumes "map_contract view (em_ops m)" "iterate_contract view m" "em_iterate m x = ((found, None), x1)"
    and "deleteMapBatch (em_ops m) (filter P found) x1 = (e, x')"
  shows "map_outcome (view x) (\<lambda>k. case view x k of None \<Rightarrow> None | Some v \<Rightarrow> if P (k, v) then None else Some v) e (view x')"
proof -
  have "view x1 = view x" "distinct (map fst found)" "map_of found = view x"
    using assms(2) [unfolded iterate_contract_def, rule_format, OF assms(3)] by simp_all
  with selected_entries [of found "view x1" P] delete_batch_outcome [OF assms(1) _ _ assms(4)] show ?thesis by simp
qed

lemma iterate_keeps: "iterate_contract view m \<Longrightarrow> em_iterate m x = ((found, e), x') \<Longrightarrow> view x' = view x"
  by (auto simp: iterate_contract_def)

lemma wrapped_outcome: "map_outcome m goal (Some e) m' \<Longrightarrow> map_outcome m goal (Some (ErrWrap s [e])) m'"
  by (simp add: map_outcome_def rolled_back_def)

text \<open>
  C14. Installing the entries of a map is all or nothing: when none of the keys was present, after
  \<open>updateMap\<close> the kernel map has gained exactly the entries, or an error is returned and, unless the
  error reports a failed rollback, the map is as before; whichever chunk failed, after however many of
  its entries, with or without the batch system calls.
\<close>

theorem update_map_all_or_nothing:
  assumes "map_contract view (em_ops m)" "m_wf entries" "\<forall>k \<in> set (m_keys entries). view x k = None"
    and "updateMap (Some m) entries x = (e, x')"
  shows "case e of None \<Rightarrow> view x' = view x ++ m_get entries | Some e' \<Rightarrow> rolled_back e' \<longrightarrow> view x' = view x"
proof -
  have "m_get entries = map_of entries" by (simp add: m_get_def fun_eq_iff)
  then show ?thesis
    using update_batch_outcome [OF assms(1), of entries x e x'] assms(2-4)
    by (simp add: updateMap_def mapBatchEntries_def m_wf_def m_keys_def map_outcome_def split: option.splits)
qed

text \<open>
  C15. Removing entries is all or nothing: \<open>deleteEntriesByGeneration\<close> removes exactly the entries of
  the generation and \<open>deleteStaleEntries\<close> exactly those whose key is not desired, or an error is
  returned and, unless it reports a failed rollback, every entry is still there with its value.
\<close>

theorem delete_entries_all_or_nothing:
  assumes "map_contract view (em_ops m)" "iterate_contract view m"
  shows "(deleteEntriesByGeneration MapGeneration (Some m) generation x = (e, x') \<longrightarrow>
      map_outcome (view x) (\<lambda>k. case view x k of None \<Rightarrow> None | Some v \<Rightarrow> if MapGeneration v = generation then None else Some v) e (view x'))
    \<and> (deleteStaleEntries (Some m) desired x = (e, x') \<longrightarrow>
      map_outcome (view x) (\<lambda>k. case view x k of None \<Rightarrow> None | Some v \<Rightarrow> if m_get desired k = None then None else Some v) e (view x'))"
proof (intro conjI impI)
  obtain found ie x1 where it: "em_iterate m x = ((found, ie), x1)" by (metis surj_pair)
  have out: "map_outcome (view x) (\<lambda>k. case view x k of None \<Rightarrow> None | Some v \<Rightarrow> if P (k, v) then None else Some v) e (view x')"
    if "(case deleteMapBatch (em_ops m) (filter P found) x1 of (Some d, x2) \<Rightarrow> (Some (ErrWrap s [d]), x2) | (None, x2) \<Rightarrow> (None, x2)) = (e, x')"
      "ie = None" for P s
    using that it delete_selected_outcome [OF assms, of x found x1 P] wrapped_outcome
    by (auto split: prod.splits option.splits)
  have failed: "map_outcome (view x) goal e (view x')" if "e = Some err" "x' = x1" for goal err
    using that iterate_keeps [OF assms(2) it] by (simp add: map_outcome_def)
  show "map_outcome (view x) (\<lambda>k. case view x k of None \<Rightarrow> None | Some v \<Rightarrow> if MapGeneration v = generation then None else Some v) e (view x')"
    if "deleteEntriesByGeneration MapGeneration (Some m) generation x = (e, x')"
    using that it out [where P = "\<lambda>(k, v). MapGeneration v = generation"] failed
    by (auto simp: deleteEntriesByGeneration_def split: option.splits)
  show "map_outcome (view x) (\<lambda>k. case view x k of None \<Rightarrow> None | Some v \<Rightarrow> if m_get desired k = None then None else Some v) e (view x')"
    if "deleteStaleEntries (Some m) desired x = (e, x')"
    using that it out [where P = "\<lambda>(k, v). m_get desired k = None"] failed
    by (auto simp: deleteStaleEntries_def split: option.splits)
qed

text \<open>
  A map that meets the contract: its contents are an association list, and a script says how many
  entries the next batch call processes and with which error it, or the next single call, ends.
\<close>

type_synonym scripted = "(nat \<times> nat) list \<times> (int \<times> err option) list"

definition scripted_view :: "scripted \<Rightarrow> nat \<rightharpoonup> nat" where
  "scripted_view x = map_of (fst x)"

definition next_script :: "int \<Rightarrow> scripted \<Rightarrow> int \<times> err option" where
  "next_script n x = (case snd x of [] \<Rightarrow> (n, None) | s # rest \<Rightarrow> s)"

definition within :: "int \<Rightarrow> int \<Rightarrow> nat" where
  "within completed n = (if 0 \<le> completed \<and> completed \<le> n then nat completed else 0)"

definition scripted_ops :: "(nat, nat, scripted) mapBatchOperations" where
  "scripted_ops = \<lparr>
     mb_batchUpdate = (\<lambda>ks vs x. let n = int (length ks); (completed, e) = next_script n x in
       ((completed, e), (take (within completed n) (zip ks vs) @ fst x, tl (snd x)))),
     mb_update = (\<lambda>k v x. case snd (next_script 1 x) of
         None \<Rightarrow> (None, ((k, v) # fst x, tl (snd x)))
       | Some e \<Rightarrow> (Some e, (fst x, tl (snd x)))),
     mb_batchDelete = (\<lambda>ks x. let n = int (length ks); (completed, e) = next_script n x in
       ((completed, e), (AList.restrict (- set (take (within completed n) ks)) (fst x), tl (snd x)))),
     mb_delete = (\<lambda>k x. if map_of (fst x) k = None then (Some (ErrVar ErrKeyNotExist), x)
       else (case snd (next_script 1 x) of
         None \<Rightarrow> (None, (AList.delete k (fst x), tl (snd x)))
       | Some e \<Rightarrow> (Some (ErrWrap ''delete'' [ErrExt 1]), (fst x, tl (snd x)))))\<rparr>"

definition scripted_map :: "(nat, nat, scripted) ebpf_map" where
  "scripted_map = \<lparr>em_ops = scripted_ops, em_iterate = (\<lambda>x. ((AList.clearjunk (fst x), None), x))\<rparr>"

lemma scripted_contract: "map_contract scripted_view scripted_ops" "iterate_contract scripted_view scripted_map"
proof -
  have zip: "zip (map fst es) (map snd es) = es" for es :: "(nat \<times> nat) list" by (simp add: zip_map_fst_snd)
  have out: "map_of (take n es) k = None" if "k \<notin> fst ` set es" for n k and es :: "(nat \<times> nat) list"
    using that in_set_takeD [of _ n es] by (force simp: map_of_eq_None_iff)
  have "batch_update_contract scripted_view scripted_ops"
    by (auto simp: batch_update_contract_def batch_prefix_def scripted_ops_def scripted_view_def Let_def zip within_def
        map_add_def out split: prod.splits option.splits)
  moreover have "batch_delete_contract scripted_view scripted_ops"
    by (auto simp: batch_delete_contract_def batch_prefix_def scripted_ops_def scripted_view_def Let_def within_def
        restr_conv' restrict_map_def dest: in_set_takeD split: prod.splits)
  moreover have "update_contract scripted_view scripted_ops"
    by (auto simp: update_contract_def scripted_ops_def scripted_view_def split: option.splits)
  moreover have "delete_contract scripted_view scripted_ops"
    by (auto simp: delete_contract_def scripted_ops_def scripted_view_def delete_conv split: option.splits if_splits)
  ultimately show "map_contract scripted_view scripted_ops" by (simp add: map_contract_def)
  show "iterate_contract scripted_view scripted_map"
    by (simp add: iterate_contract_def scripted_map_def scripted_view_def distinct_clearjunk map_of_clearjunk)
qed

definition sample_contents :: "(nat \<times> nat) list" where
  "sample_contents = [(5, 50)]"

definition sample_failed :: "err option \<times> scripted" where
  "sample_failed = updateMap (Some scripted_map) [(1, 10), (2, 20)] (sample_contents, [(1, Some (ErrExt 7))])"

theorem update_map_all_or_nothing_witness:
  "fst sample_failed \<noteq> None \<and> scripted_view (snd sample_failed) = scripted_view (sample_contents, [])
    \<and> fst (updateMap (Some scripted_map) [(1, 10), (2, 20)] (sample_contents, [])) = None
    \<and> scripted_view (snd (updateMap (Some scripted_map) [(1, 10), (2, 20)] (sample_contents, []))) 2 = Some 20"
proof -
  have c: "map_contract scripted_view (em_ops scripted_map)" using scripted_contract(1) by (simp add: scripted_map_def)
  have f: "fst sample_failed \<noteq> None" "rolled_back (the (fst sample_failed))" by code_simp+
  have "case fst sample_failed of None \<Rightarrow> scripted_view (snd sample_failed) = scripted_view (sample_contents, [(1, Some (ErrExt 7))]) ++ m_get [(1, 10), (2, 20)]
    | Some e' \<Rightarrow> rolled_back e' \<longrightarrow> scripted_view (snd sample_failed) = scripted_view (sample_contents, [(1, Some (ErrExt 7))])"
    by (rule update_map_all_or_nothing [OF c])
      (simp_all add: m_wf_def m_keys_def scripted_view_def sample_contents_def sample_failed_def)
  then have "scripted_view (snd sample_failed) = scripted_view (sample_contents, [])" using f by (auto simp: scripted_view_def)
  moreover have "fst (updateMap (Some scripted_map) [(1, 10), (2, 20)] (sample_contents, [])) = None"
    "scripted_view (snd (updateMap (Some scripted_map) [(1, 10), (2, 20)] (sample_contents, []))) 2 = Some 20" by code_simp+
  ultimately show ?thesis using f by auto
qed

definition sample_stale :: "err option \<times> scripted" where
  "sample_stale = deleteStaleEntries (Some scripted_map) [(5, ())] ((6, 60) # sample_contents, [])"

theorem delete_entries_all_or_nothing_witness:
  "fst sample_stale = None \<and> scripted_view (snd sample_stale)
     = (\<lambda>k. case scripted_view ((6, 60) # sample_contents, []) k of
          None \<Rightarrow> None | Some v \<Rightarrow> if m_get [(5, ())] k = None then None else Some v)"
proof -
  have c: "map_contract scripted_view (em_ops scripted_map)" using scripted_contract(1) by (simp add: scripted_map_def)
  have "fst sample_stale = None" by code_simp
  moreover have "deleteStaleEntries (Some scripted_map) [(5, ())] ((6, 60) # sample_contents, []) = (fst sample_stale, snd sample_stale)"
    by (simp add: sample_stale_def)
  ultimately show ?thesis
    using delete_entries_all_or_nothing [OF c scripted_contract(2), where x = "((6, 60) # sample_contents, [])"
        and desired = "[(5, ())]" and e = "fst sample_stale" and x' = "snd sample_stale"] by (simp add: map_outcome_def)
qed

end
