(* ===== verification/Spec2Isabelle.thy ===== *)
theory Spec2Isabelle
  imports Profile Engine_Fastpath Reinject_Once Controller_Routed Event_Runtime_Props Event_Reader Map_Batch
begin

text \<open>
  Verification of wg-mix-ebpf: WireGuard packets travel with rewritten type words, and optionally
  disguised as TCP segments (FakeTCP). BPF programs carry the packets of established flows; the Go
  packages under \<open>internal/\<close> decide what the kernel may carry. This development models the type-word
  profiles, the FakeTCP slow path in userspace with the kernel session record it shares, and the
  batched map updates of the dataplane.

  \<^bold>\<open>How the parts interact.\<close> The TC program queues the first datagram of a flow and TCP control packets
  as ring-buffer samples. A production event reader checks that none is lost (\<open>Event_Reader\<close>); the event
  runtime hands each record to the controller and ticks it (\<open>Event_Runtime\<close>); the controller decodes the
  sample (\<open>Event_Sample\<close>), a router picks the engine of the WireGuard interface (\<open>Engine_Router\<close>), and
  the engine runs the handshake (\<open>Engine\<close>) and installs an established session into the kernel map through
  the session store (\<open>Session_Store\<close>). The actions that the engine returns, control segments to send and
  queued datagrams to reinject, are executed by the controller (\<open>Controller\<close>), with a write-ahead
  checkpoint when it has one (\<open>Action_Recovery\<close>), by a raw-socket backend (\<open>Raw_Backend\<close>).

  \<^bold>\<open>How the code is represented.\<close> A struct is a record with the fields of the source under a two- or
  three-letter prefix, an enumeration a datatype or a group of constants, a \<open>uintN\<close> a word of that width; a
  Go \<open>int\<close> that counts things in memory and a \<open>time.Duration\<close> are integers. A Go map is an association
  list with distinct keys, whose order stands for the order of iteration, and a nil pointer or
  interface is \<open>None\<close>. Errors are values (\<open>err\<close> in \<open>Prelude\<close>) that keep what \<open>errors.Is\<close> sees; a function
  with only an error result returns \<open>err option\<close>, one with a value \<open>err + 'a\<close>. Where the code could panic,
  or would wait for ever, the model returns \<open>option\<close>, and \<open>None\<close> is that case; the theorems that a call
  returns are about it. The byte order of the machine, SHA-256, the clocks, the random source and every
  interface to the kernel are arguments; an interface is a record of functions on a world \<open>'x\<close>. A context
  is a function that says whether it has been cancelled. What the code relies on of such an argument is a
  named hypothesis (\<open>session_kernel\<close>, \<open>checkpoint_store\<close>, \<open>map_contract\<close>, ...) that a witness or an
  interpretation discharges on a concrete instance.

  \<^bold>\<open>The theories.\<close>

  \<^item> \<open>Prelude\<close>, \<open>Bytes\<close>, \<open>Fake_ABI\<close>: integers, errors, Go maps (locale \<open>finite_map\<close>), byte slices with
    bounds checks, the big-, little- and native-endian codecs (locales \<open>byte_codec\<close>, \<open>rev_codec\<close>), and the
    records of \<open>internal/abi/abi.go\<close> that both sides share.
  \<^item> \<open>Typeword\<close>, \<open>Profile\<close>: \<open>packet/typeword.go\<close>, \<open>profile/profile.go\<close> and the lookups of
    \<open>bpf/wg_mix_tc.c\<close>. The wire codec round-trips, the kernel's two lookups invert each other on every
    compiled profile, and a generated profile compiles.
  \<^item> \<open>Identity\<close>: \<open>runtime_identity*.go\<close>, \<open>runtime_domain.go\<close>, \<open>generation_precommit.go\<close>, \<open>monotonic.go\<close>,
    \<open>key.go\<close>, \<open>mtu.go\<close>. Session ids are never reused, an identity is committed once, and the clock
    arithmetic does not wrap.
  \<^item> \<open>Checksum\<close>, \<open>Control_Packet\<close>, \<open>L3_Parser\<close>, \<open>Event_Sample\<close>: \<open>checksum.go\<close>, \<open>control_packet.go\<close>,
    \<open>control_validation.go\<close>, \<open>l3_parser.go\<close>, \<open>ingress_policy.go\<close> and the decoder of \<open>controller.go\<close>. The
    checksum is the ones-complement sum, the parsers return on all input and stay in bounds, the ingress
    policy decodes exactly the packets of managed ports behind the VLAN tags and fails closed, written
    control packets parse, a close is accepted exactly with full authority, and the sample decoder accepts
    exactly the well-formed records.
  \<^item> \<open>Session_Kernel\<close>, \<open>Session_Store\<close>: the session record of \<open>bpf/wg_mix_faketcp.h\<close> with its claim program,
    and \<open>session_store.go\<close>, \<open>session_compare_delete.go\<close> over it. The claim program is a compare-and-claim,
    the packet path only changes what it may, the store inserts only what its guards admit and never
    overwrites, and a delete touches no entry but the value it was given (\<open>delete_effect\<close> is its effect by
    result, the tombstone of a failed deletion included). The locale \<open>session_kernel\<close> is the interface of the map, \<open>established_store\<close> the contract of
    the store that its clients use.
  \<^item> \<open>Engine\<close>, \<open>Engine_Invariant\<close>, \<open>Engine_Props\<close>, \<open>Engine_Fastpath\<close>: \<open>engine.go\<close>. Every operation keeps an
    invariant that ties the counters to the sessions; hence all quotas hold, an inbound error changes
    nothing, and, over the contract of the store (locale \<open>engine_env\<close>), the kernel serves only sessions the
    engine has established.
  \<^item> \<open>Engine_Router\<close>, \<open>Engine_Routed\<close>, \<open>Controller\<close>, \<open>Controller_Routed\<close>: \<open>engine_router.go\<close> and
    \<open>controller.go\<close>. The dispatch table is exactly the configuration, engines stay on their routes, so the
    fence on actions never fires; actions are performed in order, and for the controllers of every
    constructor a failure is final and shutdown fences events, ticks and recoveries.
  \<^item> \<open>Action_Recovery\<close>: \<open>action_recovery.go\<close>. Over any crashes no datagram is reinjected twice, recovery
    finishes, and an execution without error makes exactly the backend calls of its actions (\<open>action_calls\<close>),
    each capture once. The locale \<open>checkpoint_store\<close> is the interface of a store, interpreted on the
    in-memory store; \<open>recovery_log\<close> adds the history of all backend calls and \<open>recovery_env\<close> that of the
    datagrams.
  \<^item> \<open>Close_Fence\<close>, \<open>Raw_Backend\<close>, \<open>Reinject_Once\<close>: \<open>raw_backend.go\<close>. The locale \<open>close_fence\<close> is the shutdown
    protocol that the backend and the controller share; concurrent callers of the reinjector write each
    captured packet at most once and each CPU's packets in order.
  \<^item> \<open>Event_Runtime\<close>, \<open>Event_Runtime_Props\<close>, \<open>Event_Reader\<close>: \<open>event_runtime.go\<close>, \<open>startup_guard_pause.go\<close>,
    \<open>production_event_reader.go\<close>. A held barrier keeps the controller idle until its own lease is resumed, a
    stop fences the controller, records are handled in order and captures delivered without gaps.
  \<^item> \<open>Map_Batch\<close>: \<open>dataplane/map_batch*.go\<close>. Installing and removing map entries is all or nothing.

  \<^bold>\<open>Concurrency.\<close> Where goroutines meet, each section under a mutex is one function on the state and the
  calls are interleaved by an inductive step relation (\<open>fence_step\<close>, \<open>rstep\<close>, \<open>evstep\<close>); an argument's answer is
  any answer. Everywhere else a method holds its mutex throughout and is one step.

  \<^bold>\<open>Loops.\<close> Loops over data are structural recursion or \<open>function\<close> with a measure (the fold of a checksum, the
  IPv6 extension chain with its bound of eight headers, the chunks of a batch). The only loop that may not end
  is \<open>continue_loop\<close> of the recovery, since a store could answer with a checkpoint that never advances; it is a
  \<open>partial_function\<close>, and \<open>recovery_finishes\<close> proves that it returns. There is no fuel.

  \<^bold>\<open>Bounds.\<close> Counters of callers and packets in memory are assumed to stay below the width of the machine
  word where the code increments them without a check (\<open>fence_step\<close> admits fewer than \<open>2 ^ 64\<close> calls at once).
  Times do not overflow; \<open>time.Time.Sub\<close> saturates as in Go. Messages that only print arguments keep their
  text and not the arguments.

  \<^bold>\<open>Not modelled.\<close> The TC and XDP programs around the session record, and the kernel modules: they are defined
  on kernel packet buffers. The loaders, attachments, supervision, reconciliation, the nftables guard, the daemon,
  installation, locks and discovery: their substance is the order and failure of system calls on BPF, netlink and
  the file system, of which no specification is part of the sources. The assembly of the controller runtime and
  the adapters to the ring buffer, the raw socket, the clock and the maps only connect the modelled parts to
  system calls. The configuration, the control state and the policy compiled from it are text and
  discovery-dependent data; of them only the profile types are modelled. Data races are excluded by the mutexes the
  models take as atomic, and memory aliasing by the copies the code makes: a slice is a value.
\<close>

end
